(* ===== verification/Py_Prelude.thy ===== *)
theory Py_Prelude
  imports Main
begin

text \<open>
  The prelude of the development: the part of Python that the sources use and
  that every component shares.

  \<^item> exceptions as values of \<open>py_error\<close>, a pure call that may raise as \<open>'a res\<close>,
    and a call on mutable state that may raise as \<open>('s, 'a) act\<close>: the state is
    returned with the outcome, so what was mutated before a raise stays mutated,
    as in Python. Messages of exceptions are dropped; the attributes that the
    callers read are kept.
  \<^item> Python 3 strings of code points below 256 as \<open>string\<close>, with \<open>strip\<close>,
    \<open>split\<close>, \<open>join\<close>, \<open>find\<close>, \<open>rfind\<close>, slices, \<open>startswith\<close>, \<open>endswith\<close>, \<open>in\<close>,
    \<open>replace\<close>, \<open>splitlines\<close>, \<open>int(s)\<close> and \<open>str(n)\<close>;
  \<^item> \<open>os.path.join\<close> and \<open>os.path.basename\<close> of the POSIX library.
\<close>

named_theorems act_simps "evaluation of the exception and state combinators"
named_theorems py_string_simps "definitions of the Python string operations"

section \<open>Exceptions\<close>

datatype py_error =
    ValueError | TypeError | KeyError string | IndexError | AttributeError | AssertionError
  | ZeroDivisionError | OverflowError | RecursionError | IOError string | StructError
  | InvalidMsgSpec | MsgGenerationException
  | MsgNotFound (nf_base_type: string) (nf_package: string)
  | SerializationError | MessageException | NameError
  | ResourceNotFound string | InvalidManifest string | SystemExit int | PmonException | PyException | RuntimeError
  | CalledProcessError int "string list" | StopIteration

type_synonym 'a res = "py_error + 'a"

definition rbind :: "'a res \<Rightarrow> ('a \<Rightarrow> 'b res) \<Rightarrow> 'b res" where
  "rbind m f = (case m of Inl e \<Rightarrow> Inl e | Inr x \<Rightarrow> f x)"

text \<open>A list comprehension whose body may raise: the first exception wins.\<close>

fun rmap :: "('a \<Rightarrow> 'b res) \<Rightarrow> 'a list \<Rightarrow> 'b list res" where
  "rmap f [] = Inr []"
| "rmap f (x # xs) = rbind (f x) (\<lambda>y. rbind (rmap f xs) (\<lambda>ys. Inr (y # ys)))"

text \<open>A \<open>for\<close> loop with an accumulator whose body may raise.\<close>

fun rfoldl :: "('b \<Rightarrow> 'a \<Rightarrow> 'b res) \<Rightarrow> 'b \<Rightarrow> 'a list \<Rightarrow> 'b res" where
  "rfoldl f acc [] = Inr acc"
| "rfoldl f acc (x # xs) = rbind (f acc x) (\<lambda>acc'. rfoldl f acc' xs)"

text \<open>\<open>try: m except ...: raise e\<close>, with the translation of the exception as a function.\<close>

definition rcatch :: "'a res \<Rightarrow> (py_error \<Rightarrow> 'a res) \<Rightarrow> 'a res" where
  "rcatch m h = (case m of Inl e \<Rightarrow> h e | Inr x \<Rightarrow> Inr x)"

definition of_option :: "py_error \<Rightarrow> 'a option \<Rightarrow> 'a res" where
  "of_option e r = (case r of None \<Rightarrow> Inl e | Some x \<Rightarrow> Inr x)"

type_synonym ('s, 'a) act = "'s \<Rightarrow> 'a res \<times> 's"

definition sret :: "'a \<Rightarrow> ('s, 'a) act" where
  "sret x s = (Inr x, s)"

definition sraise :: "py_error \<Rightarrow> ('s, 'a) act" where
  "sraise e s = (Inl e, s)"

definition slift :: "'a res \<Rightarrow> ('s, 'a) act" where
  "slift r s = (r, s)"

definition sgets :: "('s \<Rightarrow> 'a) \<Rightarrow> ('s, 'a) act" where
  "sgets f s = (Inr (f s), s)"

definition smodify :: "('s \<Rightarrow> 's) \<Rightarrow> ('s, unit) act" where
  "smodify f s = (Inr (), f s)"

definition sbind :: "('s, 'a) act \<Rightarrow> ('a \<Rightarrow> ('s, 'b) act) \<Rightarrow> ('s, 'b) act" where
  "sbind m f s = (case m s of (Inl e, s') \<Rightarrow> (Inl e, s') | (Inr x, s') \<Rightarrow> f x s')"

fun sfoldl :: "('b \<Rightarrow> 'a \<Rightarrow> ('s, 'b) act) \<Rightarrow> 'b \<Rightarrow> 'a list \<Rightarrow> ('s, 'b) act" where
  "sfoldl f acc [] = sret acc"
| "sfoldl f acc (x # xs) = sbind (f acc x) (\<lambda>acc'. sfoldl f acc' xs)"

section \<open>Strings\<close>

text \<open>\<open>str.isspace\<close>, and the white space that \<open>int(s)\<close> and \<open>float(s)\<close> skip.\<close>

definition is_space :: "char \<Rightarrow> bool" where
  "is_space c \<longleftrightarrow> (let n = of_char c :: nat in
     (9 \<le> n \<and> n \<le> 13) \<or> (28 \<le> n \<and> n \<le> 32) \<or> n = 133 \<or> n = 160)"

definition is_num_space :: "char \<Rightarrow> bool" where
  "is_num_space c \<longleftrightarrow> (let n = of_char c :: nat in
     (9 \<le> n \<and> n \<le> 13) \<or> n = 32 \<or> n = 133 \<or> n = 160)"

definition strip_by :: "(char \<Rightarrow> bool) \<Rightarrow> string \<Rightarrow> string" where
  "strip_by P s = rev (dropWhile P (rev (dropWhile P s)))"

definition strip :: "string \<Rightarrow> string" where
  "strip s = strip_by is_space s"

definition rstrip :: "string \<Rightarrow> string" where
  "rstrip s = rev (dropWhile is_space (rev s))"

fun split_on :: "char \<Rightarrow> string \<Rightarrow> string list" where
  "split_on c [] = [[]]"
| "split_on c (x # xs) =
     (if x = c then [] # split_on c xs
      else case split_on c xs of [] \<Rightarrow> [[x]] | y # ys \<Rightarrow> (x # y) # ys)"

fun py_join :: "string \<Rightarrow> string list \<Rightarrow> string" where
  "py_join sep [] = []"
| "py_join sep [x] = x"
| "py_join sep (x # y # ys) = x @ sep @ py_join sep (y # ys)"

definition py_find :: "char \<Rightarrow> string \<Rightarrow> int" where
  "py_find c s = (if c \<in> set s then int (length (takeWhile (\<lambda>x. x \<noteq> c) s)) else - 1)"

definition py_rfind :: "char \<Rightarrow> string \<Rightarrow> int" where
  "py_rfind c s =
     (if c \<in> set s then int (length s) - 1 - int (length (takeWhile (\<lambda>x. x \<noteq> c) (rev s))) else - 1)"

text \<open>A slice bound: a negative one counts from the end, and both are clipped.\<close>

definition slice_idx :: "nat \<Rightarrow> int \<Rightarrow> nat" where
  "slice_idx n i = (if i < 0 then nat (int n + i) else min n (nat i))"

definition slice_to :: "string \<Rightarrow> int \<Rightarrow> string" where
  "slice_to s i = take (slice_idx (length s) i) s"

definition slice_from :: "string \<Rightarrow> int \<Rightarrow> string" where
  "slice_from s i = drop (slice_idx (length s) i) s"

definition slice :: "string \<Rightarrow> int \<Rightarrow> int \<Rightarrow> string" where
  "slice s i j = drop (slice_idx (length s) i) (take (slice_idx (length s) j) s)"

definition startswith :: "string \<Rightarrow> string \<Rightarrow> bool" where
  "startswith s p \<longleftrightarrow> take (length p) s = p"

definition endswith :: "string \<Rightarrow> string \<Rightarrow> bool" where
  "endswith s p \<longleftrightarrow> length p \<le> length s \<and> drop (length s - length p) s = p"

text \<open>\<open>p in s\<close> for strings.\<close>

fun contains :: "string \<Rightarrow> string \<Rightarrow> bool" where
  "contains p [] \<longleftrightarrow> p = []"
| "contains p (c # cs) \<longleftrightarrow> startswith (c # cs) p \<or> contains p cs"

text \<open>\<open>s.replace(old, new)\<close> for a non-empty \<open>old\<close>.\<close>

function py_replace :: "string \<Rightarrow> string \<Rightarrow> string \<Rightarrow> string" where
  "py_replace old new [] = []"
| "py_replace old new (c # cs) =
     (if old \<noteq> [] \<and> startswith (c # cs) old
      then new @ py_replace old new (drop (length old) (c # cs))
      else c # py_replace old new cs)"
  by pat_completeness auto
termination
  by (relation "measure (\<lambda>(old, new, s). length s)") auto

text \<open>\<open>s.split(sep)\<close> for a non-empty \<open>sep\<close>.\<close>

function py_split :: "string \<Rightarrow> string \<Rightarrow> string list" where
  "py_split sep [] = [[]]"
| "py_split sep (c # cs) =
     (if sep \<noteq> [] \<and> startswith (c # cs) sep then [] # py_split sep (drop (length sep) (c # cs))
      else case py_split sep cs of [] \<Rightarrow> [[c]] | y # ys \<Rightarrow> (c # y) # ys)"
  by pat_completeness auto
termination
  by (relation "measure (\<lambda>(sep, s). length s)") auto

definition is_linebreak :: "char \<Rightarrow> bool" where
  "is_linebreak c \<longleftrightarrow> (let n = of_char c :: nat in (10 \<le> n \<and> n \<le> 13) \<or> (28 \<le> n \<and> n \<le> 30) \<or> n = 133)"

text \<open>\<open>str.splitlines\<close>: a carriage return and a line feed are one line break, and the text after the
  last break is a line only if there is some.\<close>

fun splitlines_loop :: "string \<Rightarrow> string \<Rightarrow> string list" where
  "splitlines_loop acc [] = (if acc = [] then [] else [rev acc])"
| "splitlines_loop acc (c # cs) =
     (if c = CHR 0x0D \<and> cs \<noteq> [] \<and> hd cs = CHR 0x0A then splitlines_loop acc cs
      else if is_linebreak c then rev acc # splitlines_loop [] cs
      else splitlines_loop (c # acc) cs)"

definition splitlines :: "string \<Rightarrow> string list" where
  "splitlines s = splitlines_loop [] s"

definition is_digit :: "char \<Rightarrow> bool" where
  "is_digit c \<longleftrightarrow> (let n = of_char c :: nat in 48 \<le> n \<and> n \<le> 57)"

definition digit_val :: "char \<Rightarrow> nat" where
  "digit_val c = of_char c - 48"

text \<open>\<open>int(s)\<close>, base ten: white space around, a sign, digits with single underscores.\<close>

fun int_body :: "nat \<Rightarrow> string \<Rightarrow> nat option" where
  "int_body acc [] = Some acc"
| "int_body acc (c # cs) =
     (if is_digit c then int_body (10 * acc + digit_val c) cs
      else if c = CHR ''_'' then
        (case cs of [] \<Rightarrow> None
         | d # ds \<Rightarrow> if is_digit d then int_body (10 * acc + digit_val d) ds else None)
      else None)"

definition int_digits :: "string \<Rightarrow> nat option" where
  "int_digits s = (case s of [] \<Rightarrow> None
     | c # cs \<Rightarrow> if is_digit c then int_body (digit_val c) cs else None)"

definition py_int :: "string \<Rightarrow> int option" where
  "py_int s = (case strip_by is_num_space s of [] \<Rightarrow> None
     | c # cs \<Rightarrow>
         if c = CHR ''-'' then map_option (\<lambda>n. - int n) (int_digits cs)
         else if c = CHR ''+'' then map_option int (int_digits cs)
         else map_option int (int_digits (c # cs)))"

text \<open>\<open>str(n)\<close>.\<close>

definition digit_char :: "nat \<Rightarrow> char" where
  "digit_char n = char_of (48 + n)"

fun str_of_nat :: "nat \<Rightarrow> string" where
  "str_of_nat n =
     (if n < 10 then [digit_char n] else str_of_nat (n div 10) @ [digit_char (n mod 10)])"

declare str_of_nat.simps [simp del]

definition str_of_int :: "int \<Rightarrow> string" where
  "str_of_int i = (if i < 0 then ''-'' @ str_of_nat (nat (- i)) else str_of_nat (nat i))"

section \<open>POSIX paths\<close>

definition path_join :: "string \<Rightarrow> string \<Rightarrow> string" where
  "path_join a b =
     (if startswith b ''/'' then b
      else if a = [] \<or> endswith a ''/'' then a @ b
      else a @ ''/'' @ b)"

definition path_basename :: "string \<Rightarrow> string" where
  "path_basename p = slice_from p (py_rfind CHR ''/'' p + 1)"

definition path_dirname :: "string \<Rightarrow> string" where
  "path_dirname p = (let head = slice_to p (py_rfind CHR ''/'' p + 1)
     in if set head \<subseteq> {CHR ''/''} then head else rev (dropWhile (\<lambda>c. c = CHR ''/'') (rev head)))"

abbreviation dquote :: char where "dquote \<equiv> CHR 0x22"
abbreviation squote :: char where "squote \<equiv> CHR 0x27"
abbreviation backslash :: char where "backslash \<equiv> CHR 0x5C"
abbreviation newline :: char where "newline \<equiv> CHR 0x0A"

section \<open>Lemmas on the combinators\<close>

lemma rbind_simps [simp, act_simps]:
  "rbind (Inl e) f = Inl e" "rbind (Inr x) f = f x"
  by (simp_all add: rbind_def)

lemma rcatch_simps [simp, act_simps]:
  "rcatch (Inl e) h = h e" "rcatch (Inr x) h = Inr x"
  by (simp_all add: rcatch_def)

lemma of_option_simps [simp, act_simps]:
  "of_option e None = Inl e" "of_option e (Some x) = Inr x"
  by (simp_all add: of_option_def)

lemma rbind_eq_Inr: "rbind m f = Inr y \<longleftrightarrow> (\<exists>x. m = Inr x \<and> f x = Inr y)"
  by (cases m) auto

lemma rbind_eq_Inl: "rbind m f = Inl e \<longleftrightarrow> m = Inl e \<or> (\<exists>x. m = Inr x \<and> f x = Inl e)"
  by (cases m) auto

lemma of_option_eq_Inr [simp]: "of_option e r = Inr x \<longleftrightarrow> r = Some x"
  by (cases r) auto

lemma of_option_eq_Inl [simp]: "of_option e r = Inl e' \<longleftrightarrow> r = None \<and> e' = e"
  by (cases r) auto

lemma rcatch_eq_Inr: "rcatch m h = Inr y \<longleftrightarrow> m = Inr y \<or> (\<exists>e. m = Inl e \<and> h e = Inr y)"
  by (cases m) auto

lemma rmap_Inr_length: "rmap f xs = Inr ys \<Longrightarrow> length ys = length xs"
  by (induction xs arbitrary: ys) (auto simp: rbind_eq_Inr)

lemma rmap_eq_Inr_iff:
  "rmap f xs = Inr ys \<longleftrightarrow> length ys = length xs \<and> (\<forall>i < length xs. f (xs ! i) = Inr (ys ! i))"
proof (induction xs arbitrary: ys)
  case (Cons x xs)
  show ?case
    by (cases ys) (auto simp: rbind_eq_Inr Cons.IH nth_Cons less_Suc_eq_0_disj split: nat.splits)
qed auto

lemma act_eval [simp, act_simps]:
  "sret x s = (Inr x, s)" "sraise e s = (Inl e, s)" "slift r s = (r, s)"
  "sgets f s = (Inr (f s), s)" "smodify g s = (Inr (), g s)"
  by (simp_all add: sret_def sraise_def slift_def sgets_def smodify_def)

lemma sbind_eval [act_simps]:
  "m s = (Inl e, s') \<Longrightarrow> sbind m f s = (Inl e, s')"
  "m s = (Inr x, s') \<Longrightarrow> sbind m f s = f x s'"
  by (simp_all add: sbind_def)

lemma sbind_sret [simp]: "sbind (sret x) f s = f x s"
  by (simp add: sbind_def)

lemma sbind_sraise [simp]: "sbind (sraise e) f s = (Inl e, s)"
  by (simp add: sbind_def)

lemma sbind_sgets [simp]: "sbind (sgets g) f s = f (g s) s"
  by (simp add: sbind_def)

lemma sbind_smodify [simp]: "sbind (smodify g) f s = f () (g s)"
  by (simp add: sbind_def)

lemma sbind_slift: "sbind (slift r) f s = (case r of Inl e \<Rightarrow> (Inl e, s) | Inr x \<Rightarrow> f x s)"
  by (simp add: sbind_def split: sum.splits)

lemma sbind_slift_simps [simp]:
  "sbind (slift (Inl e)) f s = (Inl e, s)" "sbind (slift (Inr x)) f s = f x s"
  by (simp_all add: sbind_slift)

lemma sbind_eq_Inr:
  "sbind m f s = (Inr y, t) \<longleftrightarrow> (\<exists>x u. m s = (Inr x, u) \<and> f x u = (Inr y, t))"
  by (auto simp: sbind_def split: prod.splits sum.splits)

lemma sbind_eq_Inl:
  "sbind m f s = (Inl e, t) \<longleftrightarrow>
     m s = (Inl e, t) \<or> (\<exists>x u. m s = (Inr x, u) \<and> f x u = (Inl e, t))"
  by (auto simp: sbind_def split: prod.splits sum.splits)

text \<open>The proof rule of the state combinators: a property of the state that the parts keep.\<close>

lemma sbind_invariant:
  assumes "P (snd (m s))" and "\<And>x u. m s = (Inr x, u) \<Longrightarrow> P u \<Longrightarrow> P (snd (f x u))"
  shows "P (snd (sbind m f s))"
  using assms by (auto simp: sbind_def split: prod.splits sum.splits)

lemma sfoldl_invariant:
  assumes "\<And>acc x s. x \<in> set xs \<Longrightarrow> P s \<Longrightarrow> P (snd (f acc x s))" and "P s"
  shows "P (snd (sfoldl f acc xs s))"
  using assms
proof (induction xs arbitrary: acc s)
  case (Cons x xs)
  show ?case
    unfolding sfoldl.simps
    by (rule sbind_invariant) (auto intro!: Cons.IH Cons.prems)
qed simp

section \<open>Lemmas on strings\<close>

lemma py_replace_char: "py_replace [x] new s = concat (map (\<lambda>c. if c = x then new else [c]) s)"
  by (induction s) (auto simp: startswith_def)

lemma split_on_nonempty [simp]: "split_on c s \<noteq> []"
  by (induction s) (auto split: list.splits)

lemma py_join_Cons: "ys \<noteq> [] \<Longrightarrow> py_join sep (x # ys) = x @ sep @ py_join sep ys"
  by (cases ys) auto

lemma set_py_join: "set (py_join sep xs) \<subseteq> set sep \<union> (\<Union>x \<in> set xs. set x)"
  by (induction sep xs rule: py_join.induct) auto

lemma split_on_Cons_neq:
  "x \<noteq> c \<Longrightarrow> split_on c (x # xs) = (x # hd (split_on c xs)) # tl (split_on c xs)"
  by (cases "split_on c xs") auto

text \<open>Splitting and joining with the separator are inverse.\<close>

lemma join_split_on: "py_join [c] (split_on c s) = s"
proof (induction s)
  case (Cons x xs)
  show ?case
  proof (cases "x = c")
    case True
    then show ?thesis using Cons by (simp add: py_join_Cons)
  next
    case False
    then show ?thesis using Cons
      by (cases "split_on c xs"; cases "tl (split_on c xs)") (auto simp: py_join_Cons)
  qed
qed simp

lemma split_on_no_sep: "p \<in> set (split_on c s) \<Longrightarrow> c \<notin> set p"
proof (induction s arbitrary: p)
  case (Cons x xs)
  then show ?case
    by (cases "x = c"; cases "split_on c xs") auto
qed simp

lemma split_on_sub: "p \<in> set (split_on c s) \<Longrightarrow> set p \<subseteq> set s"
proof (induction s arbitrary: p)
  case (Cons x xs)
  show ?case
  proof (cases "x = c")
    case True
    then show ?thesis using Cons by auto
  next
    case False
    then show ?thesis using Cons
      by (cases "split_on c xs") (simp, fastforce)
  qed
qed simp

lemma split_on_absent [simp]: "c \<notin> set s \<Longrightarrow> split_on c s = [s]"
  by (induction s) auto

lemma split_on_append [simp]: "c \<notin> set p \<Longrightarrow> split_on c (p @ c # s) = p # split_on c s"
  by (induction p) (auto simp: split_on_Cons_neq)

lemma split_on_append_sep: "split_on c (s @ c # t) = split_on c s @ split_on c t"
proof (induction s)
  case (Cons x s)
  then show ?case by (cases "split_on c s") auto
qed simp

lemma split_join:
  "xs \<noteq> [] \<Longrightarrow> (\<And>x. x \<in> set xs \<Longrightarrow> c \<notin> set x) \<Longrightarrow> split_on c (py_join [c] xs) = xs"
proof (induction xs)
  case (Cons x xs)
  then show ?case by (cases "xs = []") (auto simp: py_join_Cons)
qed simp

lemma length_split_on: "length (split_on c s) = Suc (count_list s c)"
proof (induction s)
  case (Cons x xs)
  then show ?case by (cases "split_on c xs") auto
qed simp

lemma split_on_single_iff: "length (split_on c s) = 1 \<longleftrightarrow> c \<notin> set s"
  by (simp add: length_split_on count_list_0_iff)

lemma strip_by_empty [simp]: "strip_by P [] = []"
  by (simp add: strip_by_def)

lemma strip_empty [simp]: "strip [] = []"
  by (simp add: strip_def)

text \<open>What \<open>strip\<close> leaves unchanged: a string whose ends are not white space.\<close>

lemma dropWhile_hd: "s = [] \<or> \<not> P (hd s) \<Longrightarrow> dropWhile P s = s"
  by (cases s) auto

lemma strip_by_id:
  "s = [] \<or> (\<not> P (hd s) \<and> \<not> P (last s)) \<Longrightarrow> strip_by P s = s"
  by (auto simp: strip_by_def dropWhile_hd hd_rev)

lemma strip_by_hd: "strip_by P s \<noteq> [] \<Longrightarrow> \<not> P (hd (strip_by P s)) \<and> \<not> P (last (strip_by P s))"
proof -
  assume ne: "strip_by P s \<noteq> []"
  let ?d = "dropWhile P s"
  let ?e = "dropWhile P (rev ?d)"
  from ne have e: "?e \<noteq> []" by (simp add: strip_by_def)
  then have d: "?d \<noteq> []" by (metis dropWhile.simps(1) rev.simps(1))
  obtain zs where zs: "rev ?d = zs @ ?e"
    by (metis takeWhile_dropWhile_id)
  then have "?d = rev ?e @ rev zs"
    by (metis rev_append rev_rev_ident)
  then have "hd (rev ?e) = hd ?d" using e
    by (metis hd_append2 rev_is_Nil_conv)
  moreover have "\<not> P (hd ?d)" using d by (rule hd_dropWhile)
  moreover have "\<not> P (last (rev ?e))" using e hd_dropWhile [of P "rev ?d"] by (simp add: last_rev)
  ultimately show ?thesis by (simp add: strip_by_def)
qed

lemma strip_by_idem [simp]: "strip_by P (strip_by P s) = strip_by P s"
  using strip_by_hd [of P s] strip_by_id [of "strip_by P s" P] by blast

lemma strip_idem [simp]: "strip (strip s) = strip s"
  by (simp add: strip_def)

lemma strip_by_eq_Nil_iff: "strip_by P s = [] \<longleftrightarrow> (\<forall>c \<in> set s. P c)"
  by (auto simp: strip_by_def dropWhile_eq_Nil_conv dest: set_dropWhileD)
     (metis (full_types) dropWhile_append1 dropWhile_eq_Nil_conv takeWhile_dropWhile_id Un_iff set_append set_takeWhileD)

lemma set_strip_by: "set (strip_by P s) \<subseteq> set s"
  by (auto simp: strip_by_def dest!: set_dropWhileD)

lemma length_strip_by: "length (strip_by P s) \<le> length s"
  using length_dropWhile_le [of P s] length_dropWhile_le [of P "rev (dropWhile P s)"]
  by (simp add: strip_by_def)

lemma contains_Cons_empty [simp]: "contains [] s"
  by (cases s) (auto simp: startswith_def)

lemma startswith_append [simp]: "startswith (p @ s) p"
  by (simp add: startswith_def)

lemma endswith_append [simp]: "endswith (s @ p) p"
  by (simp add: endswith_def)

lemma endswith_iff: "endswith s p \<longleftrightarrow> (\<exists>r. s = r @ p)"
  by (auto simp: endswith_def) (metis append_take_drop_id)

lemma contains_append: "contains p (a @ p @ b)"
proof (induction a)
  case Nil
  show ?case
  proof (cases "p @ b")
    case (Cons c cs)
    then show ?thesis by (auto simp: startswith_def) (metis append_eq_conv_conj)
  qed simp
qed simp

lemma contains_iff: "contains p s \<longleftrightarrow> (\<exists>a b. s = a @ p @ b)"
proof
  show "contains p s \<Longrightarrow> \<exists>a b. s = a @ p @ b"
  proof (induction s)
    case (Cons c cs)
    show ?case
    proof (cases "startswith (c # cs) p")
      case True
      then have "c # cs = [] @ p @ drop (length p) (c # cs)"
        by (metis append_Nil append_take_drop_id startswith_def)
      then show ?thesis by blast
    next
      case False
      with Cons obtain a b where "cs = a @ p @ b" by auto
      then have "c # cs = (c # a) @ p @ b" by simp
      then show ?thesis by blast
    qed
  qed simp
qed (auto intro: contains_append)

lemma takeWhile_absent [simp]: "c \<notin> set s \<Longrightarrow> takeWhile (\<lambda>x. x \<noteq> c) s = s"
  by (induction s) auto

lemma py_find_append [simp]: "c \<notin> set p \<Longrightarrow> py_find c (p @ c # s) = int (length p)"
  by (simp add: py_find_def takeWhile_tail)

lemma py_find_absent [simp]: "c \<notin> set s \<Longrightarrow> py_find c s = - 1"
  by (simp add: py_find_def)

lemma slice_to_of_nat [simp]: "slice_to s (int n) = take n s"
  by (simp add: slice_to_def slice_idx_def min_def)

lemma slice_from_of_nat [simp]: "slice_from s (int n) = drop n s"
  by (simp add: slice_from_def slice_idx_def min_def)

lemma slice_to_neg: "0 < n \<Longrightarrow> slice_to s (- int n) = take (length s - n) s"
  by (simp add: slice_to_def slice_idx_def nat_diff_distrib' flip: of_nat_diff)

lemma py_rfind_append [simp]: "c \<notin> set s \<Longrightarrow> py_rfind c (p @ c # s) = int (length p)"
  by (simp add: py_rfind_def takeWhile_tail)

lemma py_rfind_absent [simp]: "c \<notin> set s \<Longrightarrow> py_rfind c s = - 1"
  by (simp add: py_rfind_def)

lemma slice_from_rfind:
  "slice_from s (py_rfind c s + 1) = rev (takeWhile (\<lambda>x. x \<noteq> c) (rev s))"
proof (cases "c \<in> set s")
  case True
  then obtain p q where s: "s = p @ c # q" and q: "c \<notin> set q"
    by (metis split_list_last)
  have "slice_from s (py_rfind c s + 1) = q"
    using q slice_from_of_nat [of s "Suc (length p)"] by (simp add: s add.commute)
  with q show ?thesis by (simp add: s takeWhile_tail)
next
  case False
  then show ?thesis
    using slice_from_of_nat [of s 0] by simp
qed

section \<open>Lemmas on integers as text\<close>

lemma digit_char_props [simp]:
  "n < 10 \<Longrightarrow> is_digit (digit_char n)" "n < 10 \<Longrightarrow> digit_val (digit_char n) = n"
  by (simp_all add: is_digit_def digit_val_def digit_char_def)

lemma digit_not_space: "is_digit c \<Longrightarrow> \<not> is_num_space c \<and> \<not> is_space c"
  by (auto simp: is_digit_def is_num_space_def is_space_def Let_def)

lemma digit_not_sign: "is_digit c \<Longrightarrow> c \<noteq> CHR ''-'' \<and> c \<noteq> CHR ''+'' \<and> c \<noteq> CHR ''_''"
  by (auto simp: is_digit_def)

lemma str_of_nat_digits: "\<forall>c \<in> set (str_of_nat n). is_digit c"
proof (induction n rule: str_of_nat.induct)
  case (1 n)
  then show ?case by (subst str_of_nat.simps) auto
qed

lemma str_of_nat_nonempty [simp]: "str_of_nat n \<noteq> []"
  by (subst str_of_nat.simps) simp

lemma int_body_snoc:
  "int_body acc ds = Some v \<Longrightarrow> is_digit d \<Longrightarrow> int_body acc (ds @ [d]) = Some (10 * v + digit_val d)"
proof (induction acc ds rule: int_body.induct)
  case (2 acc c cs)
  show ?case
  proof (cases "is_digit c")
    case True
    with 2 show ?thesis by simp
  next
    case False
    with "2.prems" obtain e es where "c = CHR ''_''" "cs = e # es" "is_digit e"
      by (auto split: if_splits list.splits)
    with False 2 show ?thesis by simp
  qed
qed simp

lemma int_digits_str_of_nat: "int_digits (str_of_nat n) = Some n"
proof (induction n rule: str_of_nat.induct)
  case (1 n)
  show ?case
  proof (cases "n < 10")
    case True
    then show ?thesis by (subst str_of_nat.simps) (simp add: int_digits_def)
  next
    case False
    let ?q = "str_of_nat (n div 10)"
    obtain c cs where q: "?q = c # cs" by (cases ?q) auto
    from False 1 have IH: "int_digits ?q = Some (n div 10)" by simp
    then have body: "is_digit c" "int_body (digit_val c) cs = Some (n div 10)"
      by (auto simp: q int_digits_def split: if_splits)
    have "int_digits (?q @ [digit_char (n mod 10)]) = Some (10 * (n div 10) + n mod 10)"
      using body int_body_snoc [OF body(2), of "digit_char (n mod 10)"]
      by (simp add: q int_digits_def)
    then show ?thesis using False by (subst str_of_nat.simps) simp
  qed
qed

text \<open>Printing an integer and reading it back: \<open>int(str(i)) = i\<close>.\<close>

lemma py_int_str_of_int: "py_int (str_of_int i) = Some i"
proof -
  let ?s = "str_of_int i"
  have dig: "\<And>n. \<forall>c \<in> set (str_of_nat n). is_digit c" by (rule str_of_nat_digits)
  have ends: "\<not> is_num_space (hd ?s) \<and> \<not> is_num_space (last ?s)"
  proof (cases "i < 0")
    case True
    have "last (str_of_nat (nat (- i))) \<in> set (str_of_nat (nat (- i)))" by simp
    with dig have "is_digit (last (str_of_nat (nat (- i))))" by blast
    with True show ?thesis
      by (auto simp: str_of_int_def is_num_space_def dest: digit_not_space)
  next
    case False
    have "is_digit (last (str_of_nat (nat i)))" "is_digit (hd (str_of_nat (nat i)))"
      using dig [of "nat i"] by (simp_all add: hd_in_set last_in_set)
    with False show ?thesis
      by (simp add: str_of_int_def digit_not_space)
  qed
  then have strip: "strip_by is_num_space ?s = ?s" by (blast intro: strip_by_id)
  show ?thesis
  proof (cases "i < 0")
    case True
    then show ?thesis using strip
      by (simp add: py_int_def str_of_int_def int_digits_str_of_nat)
  next
    case False
    obtain c cs where s: "str_of_nat (nat i) = c # cs" by (cases "str_of_nat (nat i)") auto
    have "c \<noteq> CHR ''-'' \<and> c \<noteq> CHR ''+''"
      using dig [of "nat i"] digit_not_sign [of c] by (simp add: s)
    then show ?thesis using False strip int_digits_str_of_nat [of "nat i"]
      by (simp add: py_int_def str_of_int_def s)
  qed
qed

lemma slice_from_Suc_length [simp]: "slice_from (p @ c # s) (int (length p) + 1) = s"
  by (simp add: slice_from_def slice_idx_def nat_add_distrib)

lemma str_of_int_chars: "c \<in> set (str_of_int i) \<Longrightarrow> is_digit c \<or> c = CHR ''-''"
  using str_of_nat_digits by (auto simp: str_of_int_def split: if_splits)

lemma str_of_int_nonempty [simp]: "str_of_int i \<noteq> []"
  by (simp add: str_of_int_def)

text \<open>A run that returns, as a condition that can be evaluated.\<close>

lemma run_returns_iff:
  "(case x of (Inl e, c) \<Rightarrow> False | (Inr s, c) \<Rightarrow> P s c) \<longleftrightarrow> (\<exists>s c. x = (Inr s, c) \<and> P s c)"
  "(case y of Inl e \<Rightarrow> False | Inr s \<Rightarrow> Q s) \<longleftrightarrow> (\<exists>s. y = Inr s \<and> Q s)"
  by (auto split: prod.splits sum.splits)

end
