(* ===== verification/Names.thy ===== *)
theory Names
  imports Py_Prelude
begin

text \<open>
  Resource names: \<open>genmsg/names.py\<close>, the constants of \<open>genmsg/base.py\<close> and
  \<open>genmsg/command_line.py\<close>. A resource name is a package and a base name joined by
  one separator; \<open>package_resource_name\<close> is the operation every other component
  uses to take it apart, so the locale \<open>naming\<close> states what its clients rely on
  and is interpreted on the two definitions of the module.
\<close>

section \<open>Constants\<close>

abbreviation SEP :: char where "SEP \<equiv> CHR ''/''"
abbreviation CONSTCHAR :: char where "CONSTCHAR \<equiv> CHR ''=''"
abbreviation COMMENTCHAR :: char where "COMMENTCHAR \<equiv> CHR ''#''"

definition EXT_MSG :: string where "EXT_MSG = ''.msg''"
definition EXT_SRV :: string where "EXT_SRV = ''.srv''"
definition IODELIM :: string where "IODELIM = ''---''"

section \<open>Resource names\<close>

text \<open>The \<open>while\<close> loop of \<open>normalize_package_context\<close>.\<close>

function drop_trailing_sep :: "string \<Rightarrow> string" where
  "drop_trailing_sep s = (if endswith s ''/'' then drop_trailing_sep (slice_to s (- 1)) else s)"
  by pat_completeness auto
termination
  by (relation "measure length") (auto simp: endswith_iff slice_to_def slice_idx_def)

declare drop_trailing_sep.simps [simp del]

definition normalize_package_context :: "string \<Rightarrow> string" where
  "normalize_package_context package_context = drop_trailing_sep (strip package_context)"

definition resource_name :: "string \<Rightarrow> string \<Rightarrow> string option \<Rightarrow> string" where
  "resource_name res_pkg_name name my_pkg =
     (if Some res_pkg_name \<noteq> my_pkg then res_pkg_name @ [SEP] @ name else name)"

definition resource_name_base :: "string \<Rightarrow> string" where
  "resource_name_base name = slice_from name (py_rfind SEP name + 1)"

definition resource_name_package :: "string \<Rightarrow> string option" where
  "resource_name_package name =
     (if SEP \<notin> set name then None else Some (slice_to name (py_find SEP name)))"

definition package_resource_name :: "string \<Rightarrow> (string \<times> string) res" where
  "package_resource_name name =
     (if SEP \<in> set name then
        (case split_on SEP name of [p, b] \<Rightarrow> Inr (p, b) | _ \<Rightarrow> Inl ValueError)
      else Inr ([], name))"

section \<open>Name validators\<close>

definition is_ascii_alpha :: "char \<Rightarrow> bool" where
  "is_ascii_alpha c \<longleftrightarrow> (let n = of_char c :: nat in (65 \<le> n \<and> n \<le> 90) \<or> (97 \<le> n \<and> n \<le> 122))"

text \<open>The class \<open>\w\<close> of the regular expressions, on code points below 256.\<close>

definition is_word_char :: "char \<Rightarrow> bool" where
  "is_word_char c \<longleftrightarrow> is_ascii_alpha c \<or> is_digit c \<or> c = CHR ''_'' \<or>
     (let n = of_char c :: nat in
        n \<in> {170, 178, 179, 181, 185, 186, 188, 189, 190} \<or>
        (192 \<le> n \<and> n \<le> 214) \<or> (216 \<le> n \<and> n \<le> 246) \<or> 248 \<le> n)"

text \<open>A pattern \<open>^[first][rest]*$\<close> whose match is the whole string.\<close>

definition match_first_rest :: "(char \<Rightarrow> bool) \<Rightarrow> (char \<Rightarrow> bool) \<Rightarrow> string \<Rightarrow> bool" where
  "match_first_rest F R s \<longleftrightarrow> (case s of [] \<Rightarrow> False | c # cs \<Rightarrow> F c \<and> list_all R cs)"

definition is_legal_resource_name :: "string option \<Rightarrow> bool" where
  "is_legal_resource_name name \<longleftrightarrow> (case name of None \<Rightarrow> False
     | Some n \<Rightarrow> match_first_rest is_ascii_alpha (\<lambda>c. is_word_char c \<or> c = SEP) n
                 \<and> \<not> contains ''//'' n)"

definition is_legal_resource_base_name :: "string option \<Rightarrow> bool" where
  "is_legal_resource_base_name name \<longleftrightarrow> (case name of None \<Rightarrow> False
     | Some n \<Rightarrow> match_first_rest is_ascii_alpha is_word_char n)"

section \<open>Search paths on the command line\<close>

text \<open>One \<open>key:value\<close> argument; without a colon \<open>find\<close> gives -1, as in the code.\<close>

definition include_key :: "string \<Rightarrow> string" where
  "include_key path = slice_to path (py_find CHR '':'' path)"

definition include_value :: "string \<Rightarrow> string" where
  "include_value path = slice_from path (py_find CHR '':'' path + 1)"

text \<open>\<open>search_path.setdefault(key, []).append(value)\<close>\<close>

definition dict_append :: "('k \<rightharpoonup> 'v list) \<Rightarrow> 'k \<Rightarrow> 'v \<Rightarrow> ('k \<rightharpoonup> 'v list)" where
  "dict_append d k v = d(k \<mapsto> (case d k of None \<Rightarrow> [] | Some vs \<Rightarrow> vs) @ [v])"

fun include_loop :: "(string \<rightharpoonup> string list) \<Rightarrow> string list \<Rightarrow> (string \<rightharpoonup> string list)" where
  "include_loop d [] = d"
| "include_loop d (path # paths) =
     include_loop (if include_value path \<noteq> [] then dict_append d (include_key path) (include_value path)
                   else d) paths"

definition includepath_to_dict :: "string list option \<Rightarrow> (string \<rightharpoonup> string list)" where
  "includepath_to_dict includepath =
     (case includepath of None \<Rightarrow> Map.empty | Some paths \<Rightarrow> include_loop Map.empty paths)"

section \<open>Lemmas\<close>

lemma package_resource_name_no_sep [simp]:
  "SEP \<notin> set b \<Longrightarrow> package_resource_name b = Inr ([], b)"
  by (simp add: package_resource_name_def)

lemma package_resource_name_join [simp]:
  "SEP \<notin> set p \<Longrightarrow> SEP \<notin> set b \<Longrightarrow> package_resource_name (p @ SEP # b) = Inr (p, b)"
  by (simp add: package_resource_name_def)

lemma package_resource_name_Inr:
  "package_resource_name s = Inr (p, b) \<longleftrightarrow>
     SEP \<notin> set p \<and> SEP \<notin> set b \<and> (s = p @ SEP # b \<or> (p = [] \<and> s = b))"
proof (cases "SEP \<in> set s")
  case True
  have "package_resource_name s = Inr (p, b) \<longleftrightarrow> split_on SEP s = [p, b]"
    using True by (auto simp: package_resource_name_def split: list.splits)
  also have "\<dots> \<longleftrightarrow> SEP \<notin> set p \<and> SEP \<notin> set b \<and> s = p @ SEP # b"
  proof
    assume sp: "split_on SEP s = [p, b]"
    then have "s = p @ SEP # b" using join_split_on [of SEP s] by simp
    moreover have "SEP \<notin> set p \<and> SEP \<notin> set b" using split_on_no_sep [of _ SEP s] by (simp add: sp)
    ultimately show "SEP \<notin> set p \<and> SEP \<notin> set b \<and> s = p @ SEP # b" by simp
  qed auto
  finally show ?thesis using True by auto
next
  case False
  then show ?thesis by (auto simp: package_resource_name_def)
qed

lemma package_resource_name_Inl:
  "package_resource_name s = Inl e \<longleftrightarrow> e = ValueError \<and> 2 \<le> count_list s SEP"
proof (cases "SEP \<in> set s")
  case True
  have "(\<nexists>p b. split_on SEP s = [p, b]) \<longleftrightarrow> length (split_on SEP s) \<noteq> 2"
    by (auto simp: length_Suc_conv numeral_2_eq_2)
  moreover have "count_list s SEP \<noteq> 0" using True by (simp add: count_list_0_iff)
  ultimately have eq: "(\<nexists>p b. split_on SEP s = [p, b]) \<longleftrightarrow> 2 \<le> count_list s SEP"
    by (simp add: length_split_on) linarith
  show ?thesis
  proof (cases "\<exists>p b. split_on SEP s = [p, b]")
    case True
    then show ?thesis using eq \<open>SEP \<in> set s\<close> by (auto simp: package_resource_name_def)
  next
    case False
    then have "package_resource_name s = Inl ValueError"
      using \<open>SEP \<in> set s\<close> by (auto simp: package_resource_name_def split: list.splits)
    then show ?thesis using eq False by auto
  qed
next
  case False
  then show ?thesis by (simp add: package_resource_name_def count_list_0_iff)
qed

lemma drop_trailing_sep_not_endswith: "\<not> endswith (drop_trailing_sep s) ''/''"
proof (induction s rule: drop_trailing_sep.induct)
  case (1 s)
  then show ?case by (subst drop_trailing_sep.simps) auto
qed

lemma drop_trailing_sep_replicate: "\<exists>n. s = drop_trailing_sep s @ replicate n SEP"
proof (induction s rule: drop_trailing_sep.induct)
  case (1 s)
  show ?case
  proof (cases "endswith s ''/''")
    case True
    then obtain r where s: "s = r @ ''/''" by (auto simp: endswith_iff)
    then have r: "slice_to s (- 1) = r" by (simp add: slice_to_def slice_idx_def)
    with 1 True obtain n where "r = drop_trailing_sep r @ replicate n SEP" by auto
    moreover have "drop_trailing_sep s = drop_trailing_sep r"
      using True r by (subst drop_trailing_sep.simps) simp
    ultimately have "s = drop_trailing_sep s @ replicate (Suc n) SEP"
      using s by (metis append.assoc replicate_append_same replicate_Suc)
    then show ?thesis by blast
  next
    case False
    then have "s = drop_trailing_sep s @ replicate 0 SEP"
      by (subst drop_trailing_sep.simps) simp
    then show ?thesis by blast
  qed
qed

lemma match_first_rest_nonempty: "match_first_rest F R s \<Longrightarrow> s \<noteq> []"
  by (auto simp: match_first_rest_def split: list.splits)

lemma word_char_not_space: "is_word_char c \<or> is_ascii_alpha c \<or> c = SEP \<Longrightarrow> \<not> is_space c"
  by (auto simp: is_word_char_def is_ascii_alpha_def is_space_def is_digit_def Let_def)

lemma match_first_rest_chars:
  "match_first_rest F R s \<Longrightarrow> c \<in> set s \<Longrightarrow> F c \<or> R c"
  by (auto simp: match_first_rest_def list_all_iff split: list.splits)

lemma legal_resource_name_no_bracket:
  assumes "is_legal_resource_name (Some n)" shows "CHR ''['' \<notin> set n"
proof
  assume "CHR ''['' \<in> set n"
  with assms have "is_ascii_alpha CHR ''['' \<or> is_word_char CHR ''[''"
    by (auto simp: is_legal_resource_name_def dest: match_first_rest_chars)
  then show False by (simp add: is_word_char_def is_ascii_alpha_def is_digit_def)
qed

definition include_values :: "string \<Rightarrow> string list \<Rightarrow> string list" where
  "include_values k ps =
     map include_value (filter (\<lambda>p. include_key p = k \<and> include_value p \<noteq> []) ps)"

lemma include_loop_lookup:
  "include_loop d ps k =
     (if include_values k ps = [] then d k
      else Some ((case d k of None \<Rightarrow> [] | Some ws \<Rightarrow> ws) @ include_values k ps))"
proof (induction ps arbitrary: d)
  case Nil
  show ?case by (simp add: include_values_def)
next
  case (Cons p ps)
  show ?case
  proof (cases "include_key p = k \<and> include_value p \<noteq> []")
    case True
    then show ?thesis
      by (simp add: Cons.IH dict_append_def) (simp add: include_values_def)
  next
    case False
    then have "include_values k (p # ps) = include_values k ps"
      by (auto simp: include_values_def)
    moreover have "(if include_value p \<noteq> [] then dict_append d (include_key p) (include_value p) else d) k = d k"
      using False by (auto simp: dict_append_def)
    ultimately show ?thesis by (simp add: Cons.IH)
  qed
qed

section \<open>The interface other components use\<close>

text \<open>
  What a client of the module relies on: the join of a package and a base name can
  be taken apart again, and only a name with one separator or none can be taken apart.
\<close>

locale naming =
  fixes join :: "string \<Rightarrow> string \<Rightarrow> string"
    and parts :: "string \<Rightarrow> (string \<times> string) res"
    and plain :: "string \<Rightarrow> bool"
  assumes parts_join: "plain p \<Longrightarrow> plain b \<Longrightarrow> parts (join p b) = Inr (p, b)"
    and parts_plain: "plain b \<Longrightarrow> parts b = Inr ([], b)"
    and parts_sound: "parts s = Inr (p, b) \<Longrightarrow> plain p \<and> plain b \<and> (s = join p b \<or> (p = [] \<and> s = b))"
begin

lemma join_inj:
  "plain p \<Longrightarrow> plain b \<Longrightarrow> plain p' \<Longrightarrow> plain b' \<Longrightarrow> join p b = join p' b' \<Longrightarrow> p = p' \<and> b = b'"
  using parts_join by (metis Inr_inject prod.inject)

lemma parts_inj:
  "parts s = Inr (p, b) \<Longrightarrow> parts t = Inr (p, b) \<Longrightarrow> p \<noteq> [] \<Longrightarrow> s = t"
  using parts_sound by blast

end

interpretation res_name: naming "\<lambda>p b. resource_name p b None" package_resource_name "\<lambda>s. SEP \<notin> set s"
  by unfold_locales (auto simp: resource_name_def package_resource_name_Inr)

section \<open>Properties\<close>

lemma resource_name_base_join: "SEP \<notin> set b \<Longrightarrow> resource_name_base (p @ SEP # b) = b"
  by (simp add: resource_name_base_def)

lemma resource_name_package_join: "SEP \<notin> set p \<Longrightarrow> resource_name_package (p @ SEP # b) = Some p"
  by (simp add: resource_name_package_def py_find_def slice_to_def slice_idx_def takeWhile_tail)

text \<open>Taking names apart. \<open>package_resource_name\<close> undoes \<open>resource_name\<close>, it raises
  \<open>ValueError\<close> exactly on a name with two or more separators, and where it returns on a name
  with a separator, \<open>resource_name_package\<close> and \<open>resource_name_base\<close> give the same two parts.\<close>

theorem resource_name_parts:
  "(SEP \<notin> set p \<and> SEP \<notin> set b \<longrightarrow> package_resource_name (resource_name p b None) = Inr (p, b)) \<and>
   ((\<exists>e. package_resource_name s = Inl e) \<longleftrightarrow> 2 \<le> count_list s SEP) \<and>
   (package_resource_name s = Inr (p, b) \<and> SEP \<in> set s \<longrightarrow>
      resource_name_package s = Some p \<and> resource_name_base s = b \<and> resource_name p b None = s)"
  using res_name.parts_join [of p b] resource_name_base_join [of b p] resource_name_package_join [of p b]
  by (auto simp: package_resource_name_Inl package_resource_name_Inr resource_name_def)

theorem resource_name_parts_witness:
  "package_resource_name (resource_name ''std_msgs'' ''Header'' None) = Inr (''std_msgs'', ''Header'') \<and>
   resource_name_package ''std_msgs/Header'' = Some ''std_msgs'' \<and> resource_name_base ''std_msgs/Header'' = ''Header''"
  using resource_name_parts [of "''std_msgs''" "''Header''" "''std_msgs/Header''"]
  by (simp add: package_resource_name_def)

lemma include_key_value:
  assumes "CHR '':'' \<notin> set k"
  shows "include_key (k @ CHR '':'' # v) = k" "include_value (k @ CHR '':'' # v) = v"
  using assms
  by (simp_all add: include_key_def include_value_def slice_to_def slice_idx_def)

text \<open>The search path of the command line. For arguments \<open>key:value\<close> whose keys have no
  colon, \<open>includepath_to_dict\<close> maps each key to its non-empty values in the order of
  the arguments, and a key without a value is absent.\<close>

theorem includepath_to_dict_lookup:
  assumes "\<forall>(k, v) \<in> set kvs. CHR '':'' \<notin> set k"
  shows "includepath_to_dict (Some (map (\<lambda>(k, v). k @ CHR '':'' # v) kvs)) pkg =
    (let vs = map snd (filter (\<lambda>(k, v). k = pkg \<and> v \<noteq> []) kvs) in if vs = [] then None else Some vs)"
proof -
  have "include_values pkg (map (\<lambda>(k, v). k @ CHR '':'' # v) kvs)
      = map snd (filter (\<lambda>(k, v). k = pkg \<and> v \<noteq> []) kvs)"
    using assms by (induction kvs) (auto simp: include_values_def include_key_value)
  then show ?thesis by (simp add: includepath_to_dict_def include_loop_lookup Let_def)
qed

theorem includepath_to_dict_lookup_witness:
  "includepath_to_dict (Some [''p:/a'', ''q:/b'', ''p:/c'', ''p:'']) ''p'' = Some [''/a'', ''/c'']"
  using includepath_to_dict_lookup [of "[(''p'', ''/a''), (''q'', ''/b''), (''p'', ''/c''), (''p'', [])]" "''p''"]
  by simp

end
