(* ===== verification/Py_Float.thy ===== *)
theory Py_Float
  imports Complex_Main "HOL-Library.Log_Nat" Py_Prelude
begin

text \<open>
  Python's \<open>float\<close>: IEEE 754 doubles with rounding to nearest, ties to even. A finite
  double is the rational it denotes (the two zeros, which Python compares as equal, are
  one value); every arithmetic operation is the exact rational operation followed by
  \<open>rnd\<close>. The sources use floats for the bounds of integer constants
  (\<open>math.pow(2, b) - 1\<close>), for float constants and for the conversions of
  \<open>rostime\<close>, where the rounding is visible in the results.
\<close>

section \<open>Rounding\<close>

datatype pyfloat = Fin rat | PInf | NInf | NaN

text \<open>The exponent of the leading binary digit of a positive rational.\<close>

definition flog2 :: "rat \<Rightarrow> int" where
  "flog2 r = (case quotient_of r of (p, q) \<Rightarrow>
     let d = bitlen p - bitlen q in if 2 powi d \<le> r then d else d - 1)"

definition round_half_even :: "rat \<Rightarrow> int" where
  "round_half_even x = (let f = \<lfloor>x\<rfloor>; d = x - of_int f in
     if d < 1 / 2 then f else if d > 1 / 2 then f + 1 else if even f then f else f + 1)"

definition rnd :: "rat \<Rightarrow> rat" where
  "rnd r = (if r = 0 then 0
     else let e = max (- 1074) (flog2 \<bar>r\<bar> - 52)
          in of_int (round_half_even (r / 2 powi e)) * 2 powi e)"

text \<open>A rounded value of \<open>2 ^ 1024\<close> or more overflows to an infinity.\<close>

definition to_double :: "rat \<Rightarrow> pyfloat" where
  "to_double r = (let x = rnd r in
     if x \<noteq> 0 \<and> 1024 \<le> flog2 \<bar>x\<bar> then (if 0 < x then PInf else NInf) else Fin x)"

section \<open>Conversions\<close>

text \<open>\<open>int(x)\<close>: truncation towards zero; infinities and NaN raise.\<close>

definition trunc :: "rat \<Rightarrow> int" where
  "trunc x = (if x < 0 then \<lceil>x\<rceil> else \<lfloor>x\<rfloor>)"

fun int_of_float :: "pyfloat \<Rightarrow> int res" where
  "int_of_float (Fin x) = Inr (trunc x)"
| "int_of_float PInf = Inl OverflowError"
| "int_of_float NInf = Inl OverflowError"
| "int_of_float NaN = Inl ValueError"

text \<open>\<open>float(n)\<close> for an int: rounds, and raises when the result does not fit.\<close>

definition float_of_int :: "int \<Rightarrow> pyfloat res" where
  "float_of_int n = (case to_double (of_int n) of Fin x \<Rightarrow> Inr (Fin x) | _ \<Rightarrow> Inl OverflowError)"

text \<open>\<open>float(s)\<close> for a string.\<close>

fun drop_underscores :: "char \<Rightarrow> string \<Rightarrow> string option" where
  "drop_underscores prev [] = (if prev = CHR ''_'' then None else Some [])"
| "drop_underscores prev (c # cs) =
     (if c = CHR ''_'' then (if is_digit prev then drop_underscores c cs else None)
      else if prev = CHR ''_'' \<and> \<not> is_digit c then None
      else map_option (\<lambda>r. c # r) (drop_underscores c cs))"

definition to_lower :: "char \<Rightarrow> char" where
  "to_lower c = (let n = of_char c :: nat in if 65 \<le> n \<and> n \<le> 90 then char_of (n + 32) else c)"

definition digits_val :: "string \<Rightarrow> int" where
  "digits_val ds = foldl (\<lambda>a c. 10 * a + int (digit_val c)) 0 ds"

text \<open>The exponent part: nothing, or \<open>e\<close>, a sign and at least one digit.\<close>

definition exponent_part :: "string \<Rightarrow> int option" where
  "exponent_part s = (case s of [] \<Rightarrow> Some 0
     | c # cs \<Rightarrow>
         let neg = (cs \<noteq> [] \<and> hd cs = CHR ''-'');
             ds = (if cs \<noteq> [] \<and> (hd cs = CHR ''-'' \<or> hd cs = CHR ''+'') then tl cs else cs)
         in if c = CHR ''e'' \<and> ds \<noteq> [] \<and> list_all is_digit ds
            then Some (if neg then - digits_val ds else digits_val ds) else None)"

definition decimal_value :: "string \<Rightarrow> rat option" where
  "decimal_value s =
     (let ip = takeWhile is_digit s; r = dropWhile is_digit s;
          point = (r \<noteq> [] \<and> hd r = CHR ''.'');
          fp = (if point then takeWhile is_digit (tl r) else []);
          r' = (if point then dropWhile is_digit (tl r) else r)
      in if ip @ fp = [] then None
         else map_option (\<lambda>e. of_int (digits_val (ip @ fp)) * 10 powi (e - int (length fp)))
                (exponent_part r'))"

definition unsigned_float :: "bool \<Rightarrow> string \<Rightarrow> pyfloat option" where
  "unsigned_float neg s =
     (if s = ''inf'' \<or> s = ''infinity'' then Some (if neg then NInf else PInf)
      else if s = ''nan'' then Some NaN
      else map_option (\<lambda>v. to_double (if neg then - v else v)) (decimal_value s))"

definition py_float :: "string \<Rightarrow> pyfloat option" where
  "py_float s =
     (case drop_underscores CHR '' '' (map to_lower (strip_by is_num_space s)) of None \<Rightarrow> None
      | Some t \<Rightarrow> (case t of [] \<Rightarrow> None
         | c # cs \<Rightarrow>
             if c = CHR ''-'' then unsigned_float True cs
             else if c = CHR ''+'' then unsigned_float False cs
             else unsigned_float False t))"

section \<open>Arithmetic\<close>

text \<open>
  Addition, multiplication and division of two floats. The sources only reach the
  infinities through overflow, so the cases on them follow IEEE 754.
\<close>

fun float_neg :: "pyfloat \<Rightarrow> pyfloat" where
  "float_neg (Fin x) = Fin (- x)"
| "float_neg PInf = NInf"
| "float_neg NInf = PInf"
| "float_neg NaN = NaN"

fun float_add :: "pyfloat \<Rightarrow> pyfloat \<Rightarrow> pyfloat" where
  "float_add (Fin x) (Fin y) = to_double (x + y)"
| "float_add NaN _ = NaN"
| "float_add _ NaN = NaN"
| "float_add PInf NInf = NaN"
| "float_add NInf PInf = NaN"
| "float_add PInf _ = PInf"
| "float_add NInf _ = NInf"
| "float_add _ PInf = PInf"
| "float_add _ NInf = NInf"

definition float_sub :: "pyfloat \<Rightarrow> pyfloat \<Rightarrow> pyfloat" where
  "float_sub x y = float_add x (float_neg y)"

definition inf_of_sign :: "rat \<Rightarrow> pyfloat \<Rightarrow> pyfloat" where
  "inf_of_sign x i = (if x = 0 then NaN else if x > 0 then i else float_neg i)"

fun float_mul :: "pyfloat \<Rightarrow> pyfloat \<Rightarrow> pyfloat" where
  "float_mul (Fin x) (Fin y) = to_double (x * y)"
| "float_mul NaN _ = NaN"
| "float_mul _ NaN = NaN"
| "float_mul (Fin x) i = inf_of_sign x i"
| "float_mul i (Fin y) = inf_of_sign y i"
| "float_mul PInf j = j"
| "float_mul NInf j = float_neg j"

text \<open>\<open>x / y\<close>: division by zero raises.\<close>

fun float_div :: "pyfloat \<Rightarrow> pyfloat \<Rightarrow> pyfloat res" where
  "float_div (Fin x) (Fin y) = (if y = 0 then Inl ZeroDivisionError else Inr (to_double (x / y)))"
| "float_div NaN (Fin y) = (if y = 0 then Inl ZeroDivisionError else Inr NaN)"
| "float_div i (Fin y) =
     (if y = 0 then Inl ZeroDivisionError else Inr (if y > 0 then i else float_neg i))"
| "float_div _ NaN = Inr NaN"
| "float_div (Fin x) _ = Inr (Fin 0)"
| "float_div _ _ = Inr NaN"

text \<open>The remainder of the C library, exact on doubles, and CPython's \<open>divmod\<close> on floats.\<close>

definition fmod :: "rat \<Rightarrow> rat \<Rightarrow> rat" where
  "fmod x y = x - y * of_int (trunc (x / y))"

fun float_floor :: "pyfloat \<Rightarrow> pyfloat" where
  "float_floor (Fin d) = Fin (of_int \<lfloor>d\<rfloor>)"
| "float_floor i = i"

fun float_gt_half :: "pyfloat \<Rightarrow> bool" where
  "float_gt_half (Fin d) \<longleftrightarrow> d > 1 / 2"
| "float_gt_half PInf \<longleftrightarrow> True"
| "float_gt_half _ \<longleftrightarrow> False"

definition floor_quotient :: "pyfloat \<Rightarrow> pyfloat" where
  "floor_quotient d = (if d = Fin 0 then Fin 0
     else let f = float_floor d in if float_gt_half (float_sub d f) then float_add f (Fin 1) else f)"

fun float_divmod :: "pyfloat \<Rightarrow> pyfloat \<Rightarrow> (pyfloat \<times> pyfloat) res" where
  "float_divmod (Fin x) (Fin y) =
     (if y = 0 then Inl ZeroDivisionError
      else let m = fmod x y in
        rbind (float_div (float_sub (Fin x) (Fin m)) (Fin y)) (\<lambda>d.
          if m \<noteq> 0 \<and> (y < 0) \<noteq> (m < 0)
          then Inr (floor_quotient (float_sub d (Fin 1)), float_add (Fin m) (Fin y))
          else Inr (floor_quotient d, Fin m)))"
| "float_divmod _ (Fin y) = (if y = 0 then Inl ZeroDivisionError else Inr (NaN, NaN))"
| "float_divmod (Fin x) PInf = Inr (if x < 0 then (Fin (- 1), PInf) else (Fin 0, Fin x))"
| "float_divmod (Fin x) NInf = Inr (if x > 0 then (Fin (- 1), NInf) else (Fin 0, Fin x))"
| "float_divmod _ _ = Inr (NaN, NaN)"

section \<open>Facts on rounding\<close>

lemma flog2_bounds:
  assumes "0 < r" shows "2 powi flog2 r \<le> r" and "r < 2 powi (flog2 r + 1)"
proof -
  obtain p q where pq: "quotient_of r = (p, q)" by (cases "quotient_of r")
  have q: "0 < q" using pq by (rule quotient_of_denom_pos)
  have r: "r = of_int p / of_int q" using pq by (rule quotient_of_div)
  have p: "0 < p" using assms q by (simp add: r zero_less_divide_iff)
  let ?a = "bitlen p" and ?b = "bitlen q"
  have ap: "0 < ?a" and bp: "0 < ?b" using p q by (auto simp: bitlen_def floorlog_def intro: add_pos_nonneg)
  have ip: "2 ^ nat (?a - 1) \<le> p" "p < 2 ^ nat ?a" using bitlen_bounds [OF p] by auto
  have iq: "2 ^ nat (?b - 1) \<le> q" "q < 2 ^ nat ?b" using bitlen_bounds [OF q] by auto
  have powi_nat: "(2::rat) powi k = of_int (2 ^ nat k)" if "0 \<le> k" for k
    using that by (simp add: power_int_def)
  have P: "(2::rat) powi (?a - 1) \<le> of_int p" "(of_int p::rat) < 2 powi ?a"
    using ip ap by (simp_all only: powi_nat of_int_le_iff of_int_less_iff)
  have Q: "(2::rat) powi (?b - 1) \<le> of_int q" "(of_int q::rat) < 2 powi ?b"
    using iq bp by (simp_all only: powi_nat of_int_le_iff of_int_less_iff)
  have qpos: "(0::rat) < of_int q" using q by simp
  let ?d = "?a - ?b"
  have lo: "2 powi (?d - 1) \<le> r"
  proof -
    have "(2::rat) powi (?d - 1) * of_int q \<le> 2 powi (?d - 1) * 2 powi ?b"
      using Q by (intro mult_left_mono) auto
    also have "\<dots> = 2 powi (?a - 1)" by (simp flip: power_int_add)
    also have "\<dots> \<le> of_int p" by (rule P)
    finally show ?thesis using qpos by (simp add: r field_simps)
  qed
  have hi: "r < 2 powi (?d + 1)"
  proof -
    have "of_int p < (2::rat) powi ?a" by (rule P)
    also have "\<dots> = 2 powi (?d + 1) * 2 powi (?b - 1)" by (simp flip: power_int_add)
    also have "\<dots> \<le> 2 powi (?d + 1) * of_int q"
      using Q by (intro mult_left_mono) auto
    finally show ?thesis using qpos by (simp add: r field_simps)
  qed
  show "2 powi flog2 r \<le> r" and "r < 2 powi (flog2 r + 1)"
    using lo hi by (auto simp: flog2_def pq Let_def)
qed

lemma round_half_even_int [simp]: "round_half_even (of_int n) = n"
  by (simp add: round_half_even_def)

lemma round_half_even_error: "\<bar>of_int (round_half_even x) - x\<bar> \<le> 1 / 2"
proof -
  obtain f where f: "f = \<lfloor>x\<rfloor>" by simp
  then have "x - of_int f < 1" "of_int f \<le> x" by linarith+
  then have "\<bar>of_int (if x - of_int f < 1 / 2 then f else if x - of_int f > 1 / 2 then f + 1
      else if even f then f else f + 1) - x\<bar> \<le> 1 / 2"
    by (simp add: abs_le_iff)
  then show ?thesis unfolding round_half_even_def Let_def f .
qed

lemma rnd_zero [simp]: "rnd 0 = 0"
  by (simp add: rnd_def)

text \<open>A value with at most 53 significant bits is not changed.\<close>

lemma rnd_exact:
  assumes "\<bar>m\<bar> < 2 ^ 53" and "- 1074 \<le> e" and x: "x = of_int m * 2 powi e"
  shows "rnd x = x"
proof (cases "m = 0")
  case True
  then show ?thesis by (simp add: x)
next
  case False
  obtain E where E: "E = max (- 1074) (flog2 \<bar>x\<bar> - 52)" by simp
  have xpos: "0 < \<bar>x\<bar>" using False by (simp add: x)
  have m: "\<bar>of_int m :: rat\<bar> < 2 powi 53"
    using assms(1) by (simp add: power_int_def flip: of_int_abs)
  have "2 powi flog2 \<bar>x\<bar> \<le> \<bar>x\<bar>" using xpos by (rule flog2_bounds)
  also have "\<bar>x\<bar> < 2 powi 53 * 2 powi e" using m by (simp add: x abs_mult)
  also have "\<dots> = 2 powi (53 + e)" by (rule power_int_add [symmetric]) simp
  finally have "flog2 \<bar>x\<bar> < 53 + e"
    using power_int_increasing [of "53 + e" "flog2 \<bar>x\<bar>" "2 :: rat"] by linarith
  then have le: "E \<le> e" using assms(2) by (simp add: E)
  have "(2::rat) powi ((e - E) + E) = 2 powi (e - E) * 2 powi E" by (rule power_int_add) simp
  then have pw: "(2::rat) powi e = 2 ^ nat (e - E) * 2 powi E"
    using le by (simp add: power_int_def)
  have q: "x / 2 powi E = of_int (m * 2 ^ nat (e - E))"
    unfolding x pw by simp
  have "rnd x = of_int (round_half_even (x / 2 powi E)) * 2 powi E"
    using xpos by (simp add: rnd_def E Let_def)
  also have "\<dots> = of_int (m * 2 ^ nat (e - E)) * 2 powi E"
    by (simp only: q round_half_even_int)
  also have "\<dots> = x" unfolding x pw by simp
  finally show ?thesis .
qed

lemma rnd_int: "\<bar>n\<bar> < 2 ^ 53 \<Longrightarrow> rnd (of_int n) = of_int n"
  by (rule rnd_exact [where e = 0]) auto

text \<open>The rounding error is at most half a unit in the last place.\<close>

lemma rnd_error:
  assumes "r \<noteq> 0" and "- 1022 \<le> flog2 \<bar>r\<bar>"
  shows "\<bar>rnd r - r\<bar> \<le> 2 powi (- 53) * \<bar>r\<bar>"
proof -
  let ?e = "flog2 \<bar>r\<bar> - 52"
  have e: "max (- 1074) ?e = ?e" using assms(2) by simp
  let ?k = "round_half_even (r / 2 powi ?e)"
  have "rnd r - r = (of_int ?k - r / 2 powi ?e) * 2 powi ?e"
    using assms(1) e by (simp add: rnd_def Let_def left_diff_distrib)
  then have "\<bar>rnd r - r\<bar> = \<bar>of_int ?k - r / 2 powi ?e\<bar> * 2 powi ?e"
    by (simp add: abs_mult)
  also have "\<dots> \<le> (1 / 2) * 2 powi ?e"
    by (intro mult_right_mono round_half_even_error) simp
  also have "\<dots> = 2 powi (- 53) * 2 powi flog2 \<bar>r\<bar>"
  proof -
    have half: "(1 / 2 :: rat) = 2 powi (- 1)" by (simp add: power_int_def)
    have "(1 / 2) * (2::rat) powi ?e = 2 powi (- 1 + ?e)"
      unfolding half by (rule power_int_add [symmetric]) simp
    also have "- 1 + ?e = - 53 + flog2 \<bar>r\<bar>" by simp
    also have "(2::rat) powi (- 53 + flog2 \<bar>r\<bar>) = 2 powi (- 53) * 2 powi flog2 \<bar>r\<bar>"
      by (rule power_int_add) simp
    finally show ?thesis .
  qed
  also have "\<dots> \<le> 2 powi (- 53) * \<bar>r\<bar>"
    using flog2_bounds(1) [of "\<bar>r\<bar>"] assms(1) by (intro mult_left_mono) auto
  finally show ?thesis .
qed

lemma trunc_int [simp]: "trunc (of_int n) = n"
  by (simp add: trunc_def)

lemma trunc_le: "0 \<le> x \<Longrightarrow> 0 \<le> trunc x \<and> of_int (trunc x) \<le> x"
  by (simp add: trunc_def)

end
