(* ===== verification/Msgs.thy ===== *)
theory Msgs
  imports Names Py_Float
begin

text \<open>
  Message specifications: \<open>genmsg/msgs.py\<close> and the class \<open>SrvSpec\<close> of
  \<open>genmsg/srvs.py\<close>. Types are the strings of the message language
  (\<open>uint8[16]\<close>, \<open>std_msgs/Header\<close>); \<open>Constant\<close>, \<open>Field\<close>, \<open>MsgSpec\<close>
  and \<open>SrvSpec\<close> are records with the attributes of the classes, and each constructor is a
  function that may raise.
\<close>

section \<open>Type names\<close>

definition HEADER :: string where "HEADER = ''Header''"
definition TIME :: string where "TIME = ''time''"
definition DURATION :: string where "DURATION = ''duration''"
definition HEADER_FULL_NAME :: string where "HEADER_FULL_NAME = ''std_msgs/Header''"

definition TIME_MSG :: string where
  "TIME_MSG = ''uint32 secs'' @ [CHR 0x0A] @ ''uint32 nsecs''"

definition DURATION_MSG :: string where
  "DURATION_MSG = ''int32 secs'' @ [CHR 0x0A] @ ''int32 nsecs''"

definition PRIMITIVE_TYPES :: "string list" where
  "PRIMITIVE_TYPES =
     [''int8'', ''uint8'', ''int16'', ''uint16'', ''int32'', ''uint32'', ''int64'', ''uint64'',
      ''float32'', ''float64'', ''string'', ''bool'', ''char'', ''byte'']"

definition BUILTIN_TYPES :: "string list" where
  "BUILTIN_TYPES = PRIMITIVE_TYPES @ [TIME, DURATION]"

definition is_header_type :: "string \<Rightarrow> bool" where
  "is_header_type msg_type \<longleftrightarrow> msg_type \<in> set [HEADER, HEADER_FULL_NAME, ''roslib/Header'']"

definition is_builtin :: "string \<Rightarrow> bool" where
  "is_builtin msg_type_name \<longleftrightarrow> msg_type_name \<in> set BUILTIN_TYPES"

definition bare_msg_type :: "string \<Rightarrow> string" where
  "bare_msg_type msg_type =
     (if CHR ''['' \<in> set msg_type then slice_to msg_type (py_find CHR ''['' msg_type) else msg_type)"

definition resolve_type :: "string \<Rightarrow> string \<Rightarrow> string" where
  "resolve_type msg_type package_context =
     (let bt = bare_msg_type msg_type in
      if is_builtin bt then msg_type
      else if bt = HEADER then HEADER_FULL_NAME
      else if SEP \<in> set msg_type then msg_type
      else package_context @ [SEP] @ msg_type)"

text \<open>\<open>parse_type\<close> returns the base type, whether it is an array, and the array length.\<close>

definition parse_type :: "string \<Rightarrow> (string \<times> bool \<times> int option) res" where
  "parse_type msg_type =
     (if msg_type = [] then Inl ValueError
      else if CHR ''['' \<in> set msg_type then
        let var_length = endswith msg_type ''[]''; splits = split_on CHR ''['' msg_type in
        if length splits > 2 then Inl ValueError
        else if var_length then Inr (slice_to msg_type (- 2), True, None)
        else rbind (of_option ValueError (py_int (slice_to (splits ! 1) (- 1))))
               (\<lambda>n. Inr (splits ! 0, True, Some n))
      else Inr (msg_type, False, None))"

section \<open>Name validation\<close>

text \<open>The loop of \<open>is_valid_msg_type\<close> over the text after the base type; \<open>None\<close> is \<open>return False\<close>.\<close>

fun array_suffix_loop :: "nat \<Rightarrow> string \<Rightarrow> nat option" where
  "array_suffix_loop state [] = Some state"
| "array_suffix_loop state (c # cs) =
     (if state = 0 then (if c \<noteq> CHR ''['' then None else array_suffix_loop 1 cs)
      else if state = 1 then
        (if c = CHR '']'' then array_suffix_loop 0 cs
         else if py_int [c] = None then None else array_suffix_loop 1 cs)
      else array_suffix_loop state cs)"

definition is_valid_msg_type :: "string \<Rightarrow> bool" where
  "is_valid_msg_type x \<longleftrightarrow>
     (if x = [] \<or> length x \<noteq> length (strip x) then False
      else let base = bare_msg_type x in
        if \<not> is_legal_resource_name (Some base) then False
        else array_suffix_loop 0 (slice_from x (int (length base))) = Some 0)"

definition is_valid_constant_type :: "string \<Rightarrow> bool" where
  "is_valid_constant_type x \<longleftrightarrow> x \<in> set PRIMITIVE_TYPES"

definition is_valid_msg_field_name :: "string \<Rightarrow> bool" where
  "is_valid_msg_field_name x \<longleftrightarrow> is_legal_resource_base_name (Some x)"

section \<open>Message specifications\<close>

datatype const_val = IntVal int | FloatVal pyfloat | StrVal string | BoolVal bool

record const_decl =
  c_type :: string
  c_name :: string
  c_val :: const_val
  c_val_text :: string

definition Constant :: "string \<Rightarrow> string \<Rightarrow> const_val \<Rightarrow> string \<Rightarrow> const_decl" where
  "Constant ty name val val_text =
     \<lparr>c_type = ty, c_name = strip name, c_val = val, c_val_text = val_text\<rparr>"

text \<open>\<open>==\<close> of Python on the values: a NaN differs from itself.\<close>

definition const_val_eq :: "const_val \<Rightarrow> const_val \<Rightarrow> bool" where
  "const_val_eq x y \<longleftrightarrow> x = y \<and> x \<noteq> FloatVal NaN"

definition constant_eq :: "const_decl \<Rightarrow> const_decl \<Rightarrow> bool" where
  "constant_eq a b \<longleftrightarrow> c_type a = c_type b \<and> c_name a = c_name b \<and> const_val_eq (c_val a) (c_val b)"

record field =
  f_name :: string
  f_type :: string
  f_base_type :: string
  f_is_array :: bool
  f_array_len :: "int option"
  f_is_header :: bool
  f_is_builtin :: bool

definition Field :: "string \<Rightarrow> string \<Rightarrow> field res" where
  "Field name ty = rbind (parse_type ty) (\<lambda>(base_type, is_array, array_len).
     Inr \<lparr>f_name = name, f_type = ty, f_base_type = base_type, f_is_array = is_array,
          f_array_len = array_len, f_is_header = is_header_type ty,
          f_is_builtin = is_builtin base_type\<rparr>)"

definition field_eq :: "field \<Rightarrow> field \<Rightarrow> bool" where
  "field_eq a b \<longleftrightarrow> f_name a = f_name b \<and> f_type a = f_type b"

record msgspec =
  ms_types :: "string list"
  ms_names :: "string list"
  ms_constants :: "const_decl list"
  ms_header_present :: bool
  ms_text :: string
  ms_full_name :: string
  ms_short_name :: string
  ms_package :: string
  ms_parsed_fields :: "field list"

definition MsgSpec :: "string list \<Rightarrow> string list \<Rightarrow> const_decl list \<Rightarrow> string \<Rightarrow> string \<Rightarrow> string \<Rightarrow> string
    \<Rightarrow> msgspec res" where
  "MsgSpec types names constants text full_name package short_name =
     rbind (package_resource_name full_name) (\<lambda>(alt_package, alt_short_name).
       let package' = (if package = [] then alt_package else package);
           short_name' = (if short_name = [] then alt_short_name else short_name)
       in if length (remdups names) \<noteq> length names then Inl InvalidMsgSpec
          else if length types \<noteq> length names then Inl AssertionError
          else rbind
            (rcatch (rmap (\<lambda>(name, ty). Field name ty) (zip names types))
               (\<lambda>e. if e = ValueError then Inl InvalidMsgSpec else Inl e))
            (\<lambda>fields. Inr
              \<lparr>ms_types = types, ms_names = names, ms_constants = constants,
               ms_header_present =
                 (types \<noteq> [] \<and> types ! 0 = HEADER_FULL_NAME \<and> names ! 0 = ''header''),
               ms_text = text, ms_full_name = full_name, ms_short_name = short_name',
               ms_package = package', ms_parsed_fields = fields\<rparr>))"

definition ms_fields :: "msgspec \<Rightarrow> (string \<times> string) list" where
  "ms_fields spec = zip (ms_types spec) (ms_names spec)"

definition has_header :: "msgspec \<Rightarrow> bool" where
  "has_header spec = ms_header_present spec"

definition msgspec_eq :: "msgspec \<Rightarrow> msgspec \<Rightarrow> bool" where
  "msgspec_eq a b \<longleftrightarrow> ms_types a = ms_types b \<and> ms_names a = ms_names b \<and>
     list_all2 constant_eq (ms_constants a) (ms_constants b) \<and> ms_text a = ms_text b \<and>
     ms_full_name a = ms_full_name b \<and> ms_short_name a = ms_short_name b \<and>
     ms_package a = ms_package b"

record srvspec =
  ss_request :: msgspec
  ss_response :: msgspec
  ss_text :: string
  ss_full_name :: string
  ss_short_name :: string
  ss_package :: string

definition SrvSpec :: "msgspec \<Rightarrow> msgspec \<Rightarrow> string \<Rightarrow> string \<Rightarrow> string \<Rightarrow> string \<Rightarrow> srvspec res" where
  "SrvSpec request response text full_name short_name package =
     rbind (package_resource_name full_name) (\<lambda>(alt_package, alt_short_name).
       Inr \<lparr>ss_request = request, ss_response = response, ss_text = text, ss_full_name = full_name,
            ss_short_name = (if short_name = [] then alt_short_name else short_name),
            ss_package = (if package = [] then alt_package else package)\<rparr>)"

definition srvspec_eq :: "srvspec \<Rightarrow> srvspec \<Rightarrow> bool" where
  "srvspec_eq a b \<longleftrightarrow> msgspec_eq (ss_request a) (ss_request b) \<and>
     msgspec_eq (ss_response a) (ss_response b) \<and> ss_text a = ss_text b \<and>
     ss_full_name a = ss_full_name b \<and> ss_short_name a = ss_short_name b \<and>
     ss_package a = ss_package b"

section \<open>Lemmas on type names\<close>

lemmas type_name_defs = HEADER_def TIME_def DURATION_def HEADER_FULL_NAME_def

lemma bare_msg_type_no_bracket [simp]: "CHR ''['' \<notin> set t \<Longrightarrow> bare_msg_type t = t"
  by (simp add: bare_msg_type_def)

lemma bare_msg_type_takeWhile: "bare_msg_type t = takeWhile (\<lambda>c. c \<noteq> CHR ''['') t"
proof (cases "CHR ''['' \<in> set t")
  case True
  then show ?thesis
    by (simp add: bare_msg_type_def py_find_def)
       (metis append_eq_conv_conj takeWhile_dropWhile_id)
qed simp

lemma bare_msg_type_append [simp]:
  "CHR ''['' \<notin> set b \<Longrightarrow> bare_msg_type (b @ CHR ''['' # r) = b"
  by (simp add: bare_msg_type_takeWhile takeWhile_tail)

lemma bare_no_bracket [simp]: "CHR ''['' \<notin> set (bare_msg_type t)"
  by (auto simp: bare_msg_type_takeWhile dest: set_takeWhileD)

lemma bare_idem [simp]: "bare_msg_type (bare_msg_type t) = bare_msg_type t"
  by simp

lemma bare_msg_type_sub: "set (bare_msg_type t) \<subseteq> set t"
  by (auto simp: bare_msg_type_takeWhile dest: set_takeWhileD)

lemma builtin_no_special:
  "is_builtin t \<Longrightarrow> SEP \<notin> set t \<and> CHR ''['' \<notin> set t \<and> t \<noteq> [] \<and> t \<noteq> HEADER"
  by (auto simp: is_builtin_def BUILTIN_TYPES_def PRIMITIVE_TYPES_def type_name_defs)

lemma header_full_name_facts [simp]:
  "\<not> is_builtin HEADER_FULL_NAME" "CHR ''['' \<notin> set HEADER_FULL_NAME" "HEADER_FULL_NAME \<noteq> HEADER"
  "package_resource_name HEADER_FULL_NAME = Inr (''std_msgs'', ''Header'')"
  by (simp_all add: is_builtin_def BUILTIN_TYPES_def PRIMITIVE_TYPES_def type_name_defs
        package_resource_name_def)

lemma parse_type_plain: "t \<noteq> [] \<Longrightarrow> CHR ''['' \<notin> set t \<Longrightarrow> parse_type t = Inr (t, False, None)"
  by (simp add: parse_type_def)

lemma parse_type_var:
  "CHR ''['' \<notin> set b \<Longrightarrow> parse_type (b @ ''[]'') = Inr (b, True, None)"
  by (simp add: parse_type_def Let_def endswith_iff slice_to_def slice_idx_def)

lemma slice_to_butlast: "slice_to (s @ [c]) (- 1) = s"
  by (simp add: slice_to_def slice_idx_def)

lemma parse_type_fixed:
  assumes b: "CHR ''['' \<notin> set b" and "CHR ''['' \<notin> set d" "d \<noteq> []" and n: "py_int d = Some n"
  shows "parse_type (b @ CHR ''['' # d @ '']'') = Inr (b, True, Some n)"
proof -
  have nv: "\<not> endswith (b @ CHR ''['' # d @ '']'') ''[]''"
  proof
    assume "endswith (b @ CHR ''['' # d @ '']'') ''[]''"
    then obtain r where "b @ CHR ''['' # d @ '']'' = r @ ''[]''" by (auto simp: endswith_iff)
    then have "b @ CHR ''['' # d = r @ ''[''" by simp
    then have "last d = CHR ''[''" using \<open>d \<noteq> []\<close>
      by (metis last.simps last_appendR last_snoc list.distinct(1))
    then show False using assms by (metis last_in_set)
  qed
  show ?thesis using assms nv
    by (simp add: parse_type_def Let_def slice_to_butlast)
qed

text \<open>\<open>parse_type\<close> and \<open>bare_msg_type\<close> agree on the base type.\<close>

lemma parse_type_base:
  assumes "parse_type t = Inr (b, is_array, n)"
  shows "b = bare_msg_type t \<and> is_array = (CHR ''['' \<in> set t)"
proof (cases "CHR ''['' \<in> set t")
  case True
  then obtain p q where t: "t = p @ CHR ''['' # q" and p: "CHR ''['' \<notin> set p"
    by (metis split_list_first)
  have sp: "split_on CHR ''['' t = p # split_on CHR ''['' q" using p by (simp add: t)
  from assms True have "length (split_on CHR ''['' t) \<le> 2"
    by (auto simp: parse_type_def Let_def split: if_splits)
  then have "length (split_on CHR ''['' q) \<le> 1" using sp by simp
  then have q: "CHR ''['' \<notin> set q" by (simp add: length_split_on count_list_0_iff)
  show ?thesis
  proof (cases "endswith t ''[]''")
    case True
    then obtain r where r: "t = r @ ''[]''" by (auto simp: endswith_iff)
    have "count_list t CHR ''['' = 1" using p q by (simp add: t count_list_0_iff)
    then have "CHR ''['' \<notin> set r" by (simp add: r count_list_0_iff)
    then have "r = p" using p t r bare_msg_type_append [of r "'']''"] bare_msg_type_append [of p q]
      by simp
    with assms t r p True q sp show ?thesis
      by (auto simp: parse_type_def Let_def slice_to_def slice_idx_def rbind_eq_Inr split: if_splits)
  next
    case False
    with assms t p q sp show ?thesis
      by (auto simp: parse_type_def Let_def rbind_eq_Inr split: if_splits)
  qed
next
  case False
  with assms show ?thesis by (auto simp: parse_type_def split: if_splits)
qed

section \<open>Lemmas on specifications\<close>

lemma Field_Inr:
  "Field n t = Inr f \<longleftrightarrow> (\<exists>b a l. parse_type t = Inr (b, a, l) \<and>
     f = \<lparr>f_name = n, f_type = t, f_base_type = b, f_is_array = a, f_array_len = l,
          f_is_header = is_header_type t, f_is_builtin = is_builtin b\<rparr>)"
  by (auto simp: Field_def rbind_eq_Inr)

lemma length_remdups_distinct: "length (remdups xs) = length xs \<longleftrightarrow> distinct xs"
  using distinct_remdups_id length_remdups_card_conv card_distinct by metis

text \<open>What a constructed specification always satisfies.\<close>

definition msgspec_ok :: "msgspec \<Rightarrow> bool" where
  "msgspec_ok spec \<longleftrightarrow>
     distinct (ms_names spec) \<and> length (ms_types spec) = length (ms_names spec) \<and>
     rmap (\<lambda>(name, ty). Field name ty) (zip (ms_names spec) (ms_types spec))
       = Inr (ms_parsed_fields spec) \<and>
     ms_header_present spec =
       (ms_types spec \<noteq> [] \<and> ms_types spec ! 0 = HEADER_FULL_NAME \<and> ms_names spec ! 0 = ''header'')"

lemma MsgSpec_InrD:
  assumes "MsgSpec types names constants text full_name package short_name = Inr spec"
  obtains p b fields where "package_resource_name full_name = Inr (p, b)" "distinct names"
    "length types = length names" "rmap (\<lambda>(name, ty). Field name ty) (zip names types) = Inr fields"
    "spec = \<lparr>ms_types = types, ms_names = names, ms_constants = constants,
        ms_header_present = (types \<noteq> [] \<and> types ! 0 = HEADER_FULL_NAME \<and> names ! 0 = ''header''),
        ms_text = text, ms_full_name = full_name,
        ms_short_name = (if short_name = [] then b else short_name),
        ms_package = (if package = [] then p else package), ms_parsed_fields = fields\<rparr>"
proof -
  from assms obtain p b where pb: "package_resource_name full_name = Inr (p, b)"
    by (cases "package_resource_name full_name") (auto simp: MsgSpec_def)
  from assms have len: "length (remdups names) = length names" "length types = length names"
    by (simp_all add: MsgSpec_def pb Let_def split: if_splits)
  from assms obtain fields
    where f: "rmap (\<lambda>(name, ty). Field name ty) (zip names types) = Inr fields"
    by (cases "rmap (\<lambda>(name, ty). Field name ty) (zip names types)")
       (simp_all add: MsgSpec_def pb Let_def len split: if_splits)
  have "distinct names" using len by (simp add: length_remdups_distinct)
  with assms pb len f show thesis
    by (intro that [OF pb _ len(2) f]) (simp_all add: MsgSpec_def Let_def)
qed

lemma MsgSpec_Inr:
  assumes "MsgSpec types names constants text full_name package short_name = Inr spec"
  shows "msgspec_ok spec" "ms_types spec = types" "ms_names spec = names"
    "ms_constants spec = constants" "ms_text spec = text" "ms_full_name spec = full_name"
    "\<exists>p b. package_resource_name full_name = Inr (p, b) \<and>
       ms_package spec = (if package = [] then p else package) \<and>
       ms_short_name spec = (if short_name = [] then b else short_name)"
  by (rule MsgSpec_InrD [OF assms], simp add: msgspec_ok_def)+

lemma Field_error: "Field n t = Inl e \<Longrightarrow> e = ValueError"
  by (auto simp: Field_def rbind_eq_Inl parse_type_def Let_def rbind_eq_Inr split: if_splits)

lemma rmap_Inl: "rmap f xs = Inl e \<Longrightarrow> \<exists>x \<in> set xs. f x = Inl e"
  by (induction xs) (auto simp: rbind_eq_Inl)

text \<open>The exceptions of the constructor, for a list of names as long as the list of types.\<close>

lemma MsgSpec_Inl:
  assumes "MsgSpec types names constants text full_name package short_name = Inl e"
    and "length types = length names" and "package_resource_name full_name = Inr pb"
  shows "e = InvalidMsgSpec"
proof -
  obtain p b where pb: "pb = (p, b)" by (cases pb)
  let ?fields = "rmap (\<lambda>(name, ty). Field name ty) (zip names types)"
  have "e = InvalidMsgSpec \<or> (\<exists>x. ?fields = Inl x \<and> x \<noteq> ValueError)"
    using assms by (cases ?fields) (auto simp: MsgSpec_def pb Let_def split: if_splits)
  then show ?thesis by (auto dest!: rmap_Inl dest: Field_error)
qed

section \<open>Properties\<close>

text \<open>Array types. A base type without a bracket is parsed back from each of the three
  forms a field type can have: the plain type, the variable length array and the array of
  a fixed length.\<close>

theorem parse_type_roundtrip:
  assumes "b \<noteq> []" and "CHR ''['' \<notin> set b"
  shows "parse_type b = Inr (b, False, None) \<and> parse_type (b @ ''[]'') = Inr (b, True, None) \<and>
    parse_type (b @ ''['' @ str_of_int n @ '']'') = Inr (b, True, Some n)"
proof -
  have "CHR ''['' \<notin> set (str_of_int n)" using str_of_int_chars [of "CHR ''[''" n] by (auto simp: is_digit_def)
  then show ?thesis
    using parse_type_plain [OF assms] parse_type_var [OF assms(2)]
      parse_type_fixed [OF assms(2), of "str_of_int n" n] py_int_str_of_int [of n] by simp
qed

theorem parse_type_roundtrip_witness:
  "parse_type ''uint8[]'' = Inr (''uint8'', True, None) \<and> parse_type ''uint8[16]'' = Inr (''uint8'', True, Some 16)"
proof -
  have "str_of_int 16 = ''16''" by code_simp
  then show ?thesis using parse_type_roundtrip [of "''uint8''" 16] by simp
qed

end
