(* ===== verification/Loader.thy ===== *)
theory Loader
  imports Msgs
begin

text \<open>
  The loader of message and service descriptions: \<open>genmsg/msg_loader.py\<close>.
  \<open>MsgContext\<close> is the record \<open>msg_context\<close>; a function of the module that takes a context
  is an action on it, so an exception leaves the context as the code does.

  The world of the loader is the record \<open>world\<close>: the regular files with their text (as
  \<open>read()\<close> returns it), and the truth value of \<open>ast.literal_eval\<close> on a string (\<open>None\<close> when
  it raises), which only constants of type \<open>bool\<close> use. The two recursive functions,
  \<open>load_msg_depends\<close> and \<open>get_all_depends\<close>, take the number of nested calls the
  interpreter still allows: without a call left they raise \<open>RecursionError\<close>, as Python does.
\<close>

section \<open>State and world\<close>

record msg_context =
  registered_packages :: "string \<rightharpoonup> (string \<rightharpoonup> msgspec)"
  files :: "string \<rightharpoonup> string"
  dependencies :: "string \<rightharpoonup> string list"

record world =
  w_files :: "string \<rightharpoonup> string"
  w_literal :: "string \<Rightarrow> bool option"

type_synonym search_path = "string \<rightharpoonup> string list"

section \<open>The context\<close>

definition MsgContext :: msg_context where
  "MsgContext = \<lparr>registered_packages = Map.empty, files = Map.empty, dependencies = Map.empty\<rparr>"

definition set_file :: "string \<Rightarrow> string \<Rightarrow> msg_context \<Rightarrow> msg_context" where
  "set_file full_msg_type file_path ctx = ctx\<lparr>files := (files ctx)(full_msg_type \<mapsto> file_path)\<rparr>"

definition get_file :: "msg_context \<Rightarrow> string \<Rightarrow> string option" where
  "get_file ctx full_msg_type = files ctx full_msg_type"

definition set_depends :: "string \<Rightarrow> string list \<Rightarrow> msg_context \<Rightarrow> msg_context" where
  "set_depends full_msg_type deps ctx =
     ctx\<lparr>dependencies := (dependencies ctx)(full_msg_type \<mapsto> deps)\<rparr>"

definition get_depends :: "msg_context \<Rightarrow> string \<Rightarrow> string list option" where
  "get_depends ctx full_msg_type = dependencies ctx full_msg_type"

primrec get_all_depends :: "nat \<Rightarrow> msg_context \<Rightarrow> string \<Rightarrow> string list res" where
  "get_all_depends 0 ctx full_msg_type = Inl RecursionError"
| "get_all_depends (Suc k) ctx full_msg_type =
     (case get_depends ctx full_msg_type of None \<Rightarrow> Inl (KeyError full_msg_type)
      | Some depends \<Rightarrow>
          rfoldl (\<lambda>all_deps d. rbind (get_all_depends k ctx d) (\<lambda>sub. Inr (all_deps @ [d] @ sub)))
            [] depends)"

text \<open>The entry of the two-level dictionary, and the three operations on it.\<close>

definition reg_lookup :: "msg_context \<Rightarrow> string \<Rightarrow> string \<Rightarrow> msgspec option" where
  "reg_lookup ctx package base_type =
     (case registered_packages ctx package of None \<Rightarrow> None | Some m \<Rightarrow> m base_type)"

definition register :: "string \<Rightarrow> msgspec \<Rightarrow> (msg_context, unit) act" where
  "register full_msg_type msgspec =
     sbind (slift (package_resource_name (bare_msg_type full_msg_type))) (\<lambda>(package, base_type).
       smodify (\<lambda>ctx.
         let m = (case registered_packages ctx package of None \<Rightarrow> Map.empty | Some m \<Rightarrow> m)
         in ctx\<lparr>registered_packages :=
              (registered_packages ctx)(package \<mapsto> m(base_type \<mapsto> msgspec))\<rparr>))"

definition is_registered :: "msg_context \<Rightarrow> string \<Rightarrow> bool res" where
  "is_registered ctx full_msg_type =
     rbind (package_resource_name (bare_msg_type full_msg_type)) (\<lambda>(package, base_type).
       Inr (case registered_packages ctx package of None \<Rightarrow> False | Some m \<Rightarrow> m base_type \<noteq> None))"

definition get_registered :: "msg_context \<Rightarrow> string \<Rightarrow> msgspec res" where
  "get_registered ctx full_msg_type =
     (let t = bare_msg_type full_msg_type in
      rbind (is_registered ctx t) (\<lambda>b.
        if b then rbind (package_resource_name t) (\<lambda>(package, base_type).
               of_option (KeyError base_type) (reg_lookup ctx package base_type))
        else Inl (KeyError t)))"

section \<open>Files\<close>

fun first_file :: "world \<Rightarrow> string list \<Rightarrow> string \<Rightarrow> string option" where
  "first_file w [] name = None"
| "first_file w (path_tmp # rest) name =
     (let path = path_join path_tmp name in
      if w_files w path \<noteq> None then Some path else first_file w rest name)"

definition get_msg_file :: "world \<Rightarrow> string \<Rightarrow> string \<Rightarrow> search_path \<Rightarrow> string \<Rightarrow> string res" where
  "get_msg_file w package base_type search_path ext =
     (case search_path package of None \<Rightarrow> Inl (MsgNotFound base_type package)
      | Some paths \<Rightarrow> of_option (MsgNotFound base_type package) (first_file w paths (base_type @ ext)))"

definition get_srv_file :: "world \<Rightarrow> string \<Rightarrow> string \<Rightarrow> search_path \<Rightarrow> string res" where
  "get_srv_file w package base_type search_path = get_msg_file w package base_type search_path EXT_SRV"

section \<open>Lines of a description\<close>

definition strip_comments :: "string \<Rightarrow> string" where
  "strip_comments line = strip (hd (split_on COMMENTCHAR line))"

text \<open>\<open>[s for s in [x.strip() for x in line.split(" ")] if s]\<close>\<close>

definition line_words :: "string \<Rightarrow> string list" where
  "line_words line = filter (\<lambda>s. s \<noteq> []) (map strip (split_on CHR '' '' line))"

text \<open>\<open>int(math.pow(2, b) - 1)\<close>, computed in floating point.\<close>

definition float_pow2_pred :: "nat \<Rightarrow> int" where
  "float_pow2_pred b = trunc (rnd (2 ^ b - 1))"

definition int_bits :: "(string \<times> nat) list" where
  "int_bits = [(''int8'', 8), (''uint8'', 8), (''int16'', 16), (''uint16'', 16), (''int32'', 32),
     (''uint32'', 32), (''int64'', 64), (''uint64'', 64), (''byte'', 8), (''char'', 8)]"

definition convert_constant_value :: "world \<Rightarrow> string \<Rightarrow> string \<Rightarrow> const_val res" where
  "convert_constant_value w field_type val =
     (if field_type \<in> set [''float32'', ''float64''] then
        map_sum id FloatVal (of_option ValueError (py_float val))
      else if field_type \<in> set [''string''] then Inr (StrVal (strip val))
      else if field_type \<in> set [''int8'', ''uint8'', ''int16'', ''uint16'', ''int32'', ''uint32'',
                                ''int64'', ''uint64'', ''char'', ''byte''] then
        let b = the (map_of int_bits field_type);
            unsigned = (hd field_type = CHR ''u'' \<or> field_type = ''char'');
            upper = (if unsigned then float_pow2_pred b else float_pow2_pred (b - 1));
            lower = (if unsigned then 0 else - upper - 1)
        in rbind (of_option ValueError (py_int val)) (\<lambda>v.
             if v > upper \<or> v < lower then Inl InvalidMsgSpec else Inr (IntVal v))
      else if field_type = ''bool'' then
        map_sum id BoolVal (of_option ValueError (w_literal w val))
      else Inl InvalidMsgSpec)"

definition load_constant_line :: "world \<Rightarrow> string \<Rightarrow> const_decl res" where
  "load_constant_line w orig_line =
     (let clean_line = strip_comments orig_line; line_splits = line_words clean_line in
      if line_splits = [] then Inl IndexError
      else let field_type = hd line_splits in
        if \<not> is_valid_constant_type field_type then Inl InvalidMsgSpec
        else rbind
          (if field_type = ''string'' then
             let idx = py_find CONSTCHAR orig_line
             in Inr (slice orig_line (py_find CHR '' '' orig_line + 1) idx, slice_from orig_line (idx + 1))
           else (case map strip (split_on CONSTCHAR (py_join '' '' (tl line_splits))) of
                   [name, val] \<Rightarrow> Inr (name, val) | _ \<Rightarrow> Inl InvalidMsgSpec))
          (\<lambda>(name, val). rbind (rcatch (convert_constant_value w field_type val) (\<lambda>e. Inl InvalidMsgSpec))
             (\<lambda>val_converted. Inr (Constant field_type name val_converted (strip val)))))"

definition load_field_line :: "string \<Rightarrow> string \<Rightarrow> (string \<times> string) res" where
  "load_field_line orig_line package_context =
     (case line_words (strip_comments orig_line) of
        [field_type, name] \<Rightarrow>
          if \<not> is_valid_msg_field_name name then Inl InvalidMsgSpec
          else if \<not> is_valid_msg_type field_type then Inl InvalidMsgSpec
          else Inr
            (if package_context \<noteq> [] \<and> SEP \<notin> set field_type then
               (if field_type = HEADER then HEADER_FULL_NAME
                else if \<not> is_builtin (bare_msg_type field_type) then package_context @ [SEP] @ field_type
                else field_type)
             else if field_type = HEADER then HEADER_FULL_NAME
             else field_type, name)
      | _ \<Rightarrow> Inl InvalidMsgSpec)"

type_synonym line_acc = "string list \<times> string list \<times> const_decl list"

text \<open>The body of the loop of \<open>load_msg_from_string\<close>.\<close>

definition load_line :: "world \<Rightarrow> string \<Rightarrow> line_acc \<Rightarrow> string \<Rightarrow> line_acc res" where
  "load_line w package_name acc orig_line =
     (case acc of (types, names, constants) \<Rightarrow>
        let clean_line = strip_comments orig_line in
        if clean_line = [] then Inr (types, names, constants)
        else if CONSTCHAR \<in> set clean_line then
          rbind (load_constant_line w orig_line) (\<lambda>c. Inr (types, names, constants @ [c]))
        else rbind (load_field_line orig_line package_name) (\<lambda>(field_type, name).
          Inr (types @ [field_type], names @ [name], constants)))"

definition load_msg_from_string :: "world \<Rightarrow> string \<Rightarrow> string \<Rightarrow> (msg_context, msgspec) act" where
  "load_msg_from_string w text full_name =
     sbind (slift (package_resource_name full_name)) (\<lambda>(package_name, short_name).
     sbind (slift (rfoldl (load_line w package_name) ([], [], []) (split_on newline text)))
       (\<lambda>(types, names, constants).
     sbind (slift (MsgSpec types names constants text full_name package_name [])) (\<lambda>spec.
     sbind (register full_name spec) (\<lambda>_. sret spec))))"

definition create_default :: "world \<Rightarrow> msg_context res" where
  "create_default w =
     (case sbind (load_msg_from_string w TIME_MSG TIME)
             (\<lambda>_. load_msg_from_string w DURATION_MSG DURATION) MsgContext of
        (Inl e, _) \<Rightarrow> Inl e | (Inr _, ctx) \<Rightarrow> Inr ctx)"

definition load_msg_from_file :: "world \<Rightarrow> string \<Rightarrow> string \<Rightarrow> (msg_context, msgspec) act" where
  "load_msg_from_file w file_path full_name =
     sbind (slift (of_option (IOError file_path) (w_files w file_path))) (\<lambda>text.
       load_msg_from_string w text full_name)"

definition load_msg_by_type :: "world \<Rightarrow> string \<Rightarrow> search_path \<Rightarrow> (msg_context, msgspec) act" where
  "load_msg_by_type w msg_type search_path =
     (let t = (if msg_type = HEADER then HEADER_FULL_NAME else msg_type) in
      sbind (slift (package_resource_name t)) (\<lambda>(package_name, base_type).
      sbind (slift (get_msg_file w package_name base_type search_path EXT_MSG)) (\<lambda>file_path.
      sbind (load_msg_from_file w file_path t) (\<lambda>spec.
      sbind (smodify (set_file t file_path)) (\<lambda>_. sret spec)))))"

section \<open>Dependencies\<close>

text \<open>Retrieving the specification of a field: registered, or loaded and registered on demand.\<close>

definition retrieve_spec :: "world \<Rightarrow> search_path \<Rightarrow> string \<Rightarrow> (msg_context, msgspec) act" where
  "retrieve_spec w search_path resolved_type =
     sbind (sbind (sgets (\<lambda>ctx. is_registered ctx resolved_type)) slift) (\<lambda>registered.
       if registered then sbind (sgets (\<lambda>ctx. get_registered ctx resolved_type)) slift
       else sbind (load_msg_by_type w resolved_type search_path) (\<lambda>depspec.
            sbind (register resolved_type depspec) (\<lambda>_. sret depspec)))"

text \<open>The body of the loop of \<open>load_msg_depends\<close>; \<open>rec\<close> stands for the recursive call.\<close>

definition load_type_depend :: "world \<Rightarrow> (msgspec \<Rightarrow> (msg_context, string list) act) \<Rightarrow> string
    \<Rightarrow> search_path \<Rightarrow> string list \<Rightarrow> string \<Rightarrow> (msg_context, string list) act" where
  "load_type_depend w rec package_context search_path depends unresolved_type =
     (let resolved_type = resolve_type (bare_msg_type unresolved_type) package_context in
      if is_builtin resolved_type then sret depends
      else
        sbind (retrieve_spec w search_path resolved_type) (\<lambda>depspec.
        sbind (sgets (\<lambda>ctx. get_depends ctx resolved_type)) (\<lambda>dep_dependencies.
        sbind (if dep_dependencies = None then sbind (rec depspec) (\<lambda>_. sret ()) else sret ()) (\<lambda>_.
        sret (depends @ [resolved_type])))))"

primrec load_msg_depends :: "nat \<Rightarrow> world \<Rightarrow> msgspec \<Rightarrow> search_path \<Rightarrow> (msg_context, string list) act" where
  "load_msg_depends 0 w spec search_path = sraise RecursionError"
| "load_msg_depends (Suc k) w spec search_path =
     sbind (sfoldl (load_type_depend w (\<lambda>depspec. load_msg_depends k w depspec search_path)
                      (ms_package spec) search_path) [] (ms_types spec)) (\<lambda>depends.
     if ms_full_name spec = [] then sraise AssertionError
     else sbind (smodify (set_depends (ms_full_name spec) depends)) (\<lambda>_. sret depends))"

datatype any_spec = Msg msgspec | Srv srvspec

fun load_depends :: "nat \<Rightarrow> world \<Rightarrow> any_spec \<Rightarrow> search_path \<Rightarrow> (msg_context, string list) act" where
  "load_depends k w (Msg spec) search_path = load_msg_depends k w spec search_path"
| "load_depends k w (Srv spec) search_path =
     sbind (load_msg_depends k w (ss_request spec) search_path) (\<lambda>depends.
     sbind (load_msg_depends k w (ss_response spec) search_path) (\<lambda>more. sret (depends @ more)))"

section \<open>Services\<close>

text \<open>The loop that writes each stripped line to the request or to the response text.\<close>

fun srv_split_loop :: "bool \<Rightarrow> string \<Rightarrow> string \<Rightarrow> string list \<Rightarrow> string \<times> string" where
  "srv_split_loop out text_in text_out [] = (text_in, text_out)"
| "srv_split_loop out text_in text_out (l # ls) =
     (let l' = strip_comments l in
      if startswith l' IODELIM then srv_split_loop True text_in text_out ls
      else if out then srv_split_loop out text_in (text_out @ l' @ [newline]) ls
      else srv_split_loop out (text_in @ l' @ [newline]) text_out ls)"

definition load_srv_from_string :: "world \<Rightarrow> string \<Rightarrow> string \<Rightarrow> (msg_context, srvspec) act" where
  "load_srv_from_string w text full_name =
     (case srv_split_loop False [] [] (split_on newline text) of (text_in, text_out) \<Rightarrow>
        sbind (load_msg_from_string w text_in (full_name @ ''Request'')) (\<lambda>msg_in.
        sbind (load_msg_from_string w text_out (full_name @ ''Response'')) (\<lambda>msg_out.
        slift (SrvSpec msg_in msg_out text full_name [] []))))"

definition load_srv_from_file :: "world \<Rightarrow> string \<Rightarrow> string \<Rightarrow> (msg_context, srvspec) act" where
  "load_srv_from_file w file_path full_name =
     sbind (slift (of_option (IOError file_path) (w_files w file_path))) (\<lambda>text.
     sbind (load_srv_from_string w text full_name) (\<lambda>spec.
     sbind (smodify (set_file (full_name @ ''Request'') file_path)) (\<lambda>_.
     sbind (smodify (set_file (full_name @ ''Response'') file_path)) (\<lambda>_. sret spec))))"

definition load_srv_by_type :: "world \<Rightarrow> string \<Rightarrow> search_path \<Rightarrow> (msg_context, srvspec) act" where
  "load_srv_by_type w srv_type search_path =
     sbind (slift (package_resource_name srv_type)) (\<lambda>(package_name, base_type).
     sbind (slift (get_srv_file w package_name base_type search_path)) (\<lambda>file_path.
     load_srv_from_file w file_path srv_type))"

section \<open>The registry as an interface\<close>

text \<open>
  What the clients of a context rely on: a type name has a key or raises; registering
  makes the specification the answer for exactly the names with the same key.
\<close>

locale registry =
  fixes key :: "string \<Rightarrow> (string \<times> string) res"
    and put :: "string \<Rightarrow> 'v \<Rightarrow> ('c, unit) act"
    and has :: "'c \<Rightarrow> string \<Rightarrow> bool res"
    and get :: "'c \<Rightarrow> string \<Rightarrow> 'v res"
  assumes put_raises: "key t = Inl e \<Longrightarrow> put t v c = (Inl e, c)"
    and put_returns: "key t = Inr k \<Longrightarrow> \<exists>c'. put t v c = (Inr (), c')"
    and get_put: "put t v c = (Inr (), c') \<Longrightarrow> get c' u = (if key u = key t then Inr v else get c u)"
    and has_get: "key t = Inr k \<Longrightarrow> has c t = Inr (\<exists>v. get c t = Inr v)"
    and has_raises: "key t = Inl e \<Longrightarrow> has c t = Inl e \<and> get c t = Inl e"
begin

lemma put_cases:
  obtains (raises) e where "key t = Inl e" "put t v c = (Inl e, c)"
  | (returns) k c' where "key t = Inr k" "put t v c = (Inr (), c')"
proof (cases "key t")
  case (Inl e)
  then show thesis using put_raises raises by blast
next
  case (Inr k)
  then show thesis using put_returns returns by blast
qed

lemma get_Inr_key: "get c t = Inr v \<Longrightarrow> \<exists>k. key t = Inr k"
  using has_raises by (cases "key t") auto

lemma get_put_same: "put t v c = (Inr (), c') \<Longrightarrow> get c' t = Inr v"
  by (simp add: get_put)

lemma get_put_stable:
  assumes "put t v c = (r, c')" and "get c u = Inr x" and "key u = key t \<Longrightarrow> x = v"
  shows "get c' u = Inr x"
  using assms by (cases rule: put_cases [of t v c]) (auto simp: get_put)

lemma put_twice:
  assumes "put t v c = (Inr (), c1)" and "put t x c1 = (Inr (), c2)" and "put t x c = (Inr (), c3)"
  shows "get c2 u = get c3 u"
  using assms by (simp add: get_put)

lemma has_True_iff: "has c t = Inr True \<longleftrightarrow> (\<exists>v. get c t = Inr v)"
  using has_get has_raises by (cases "key t") fastforce+

end

definition type_key :: "string \<Rightarrow> (string \<times> string) res" where
  "type_key t = package_resource_name (bare_msg_type t)"

lemma get_registered_alt:
  "get_registered ctx t = rbind (type_key t) (\<lambda>(p, b).
     of_option (KeyError (bare_msg_type t)) (reg_lookup ctx p b))"
  by (cases "package_resource_name (bare_msg_type t)")
     (auto simp: get_registered_def is_registered_def type_key_def reg_lookup_def Let_def
        split: option.splits)

lemma is_registered_alt:
  "is_registered ctx t = rbind (type_key t) (\<lambda>(p, b). Inr (reg_lookup ctx p b \<noteq> None))"
  by (cases "package_resource_name (bare_msg_type t)")
     (auto simp: is_registered_def type_key_def reg_lookup_def split: option.splits)

lemma register_eval:
  "type_key t = Inl e \<Longrightarrow> register t s ctx = (Inl e, ctx)"
  "type_key t = Inr (p, b) \<Longrightarrow> \<exists>ctx'. register t s ctx = (Inr (), ctx') \<and>
     reg_lookup ctx' = (reg_lookup ctx)(p := (reg_lookup ctx p)(b \<mapsto> s)) \<and>
     files ctx' = files ctx \<and> dependencies ctx' = dependencies ctx"
  by (auto simp: register_def type_key_def sbind_def reg_lookup_def fun_eq_iff Let_def
        split: option.splits)

lemma register_Inl: "register t s ctx = (Inl e, ctx') \<Longrightarrow> ctx' = ctx"
  by (cases "package_resource_name (bare_msg_type t)") (auto simp: register_def)

lemma register_frame:
  "register t s ctx = (r, ctx') \<Longrightarrow> files ctx' = files ctx \<and> dependencies ctx' = dependencies ctx"
  by (cases "package_resource_name (bare_msg_type t)") (auto simp: register_def Let_def)

interpretation ctx: registry type_key register is_registered get_registered
proof
  fix t s c c' u
  assume r: "register t s c = (Inr (), c')"
  then obtain p b where k: "type_key t = Inr (p, b)"
    by (cases "type_key t") (auto simp: register_eval)
  from register_eval(2) [OF k, of s c] r
  have "reg_lookup c' = (reg_lookup c)(p := (reg_lookup c p)(b \<mapsto> s))" by auto
  then show "get_registered c' u = (if type_key u = type_key t then Inr s else get_registered c u)"
    by (cases "type_key u") (auto simp: get_registered_alt k split: if_splits)
next
  fix t :: string and k and c :: msg_context
  assume "type_key t = Inr k"
  then show "is_registered c t = Inr (\<exists>v. get_registered c t = Inr v)"
    by (cases k) (auto simp: is_registered_alt get_registered_alt)
next
  fix t :: string and s c and k :: "string \<times> string"
  assume "type_key t = Inr k"
  then show "\<exists>c'. register t s c = (Inr (), c')"
    using register_eval(2) [of t "fst k" "snd k" s c] by auto
qed (simp_all add: register_eval is_registered_alt get_registered_alt)

lemma get_registered_frame [simp]:
  "get_registered (set_file t f ctx) u = get_registered ctx u"
  "get_registered (set_depends t ds ctx) u = get_registered ctx u"
  by (simp_all add: get_registered_alt reg_lookup_def set_file_def set_depends_def)

section \<open>Lemmas on lines\<close>

lemma strip_comments_chars: "set (strip_comments l) \<subseteq> set l"
proof -
  have "hd (split_on COMMENTCHAR l) \<in> set (split_on COMMENTCHAR l)" by simp
  then show ?thesis using split_on_sub set_strip_by by (fastforce simp: strip_comments_def strip_def)
qed

lemma strip_comments_append [simp]:
  "COMMENTCHAR \<notin> set l \<Longrightarrow> strip_comments (l @ COMMENTCHAR # comment) = strip l"
  by (simp add: strip_comments_def)

lemma strip_comments_none [simp]: "COMMENTCHAR \<notin> set l \<Longrightarrow> strip_comments l = strip l"
  by (simp add: strip_comments_def)

lemma strip_comments_no_hash: "COMMENTCHAR \<notin> set (strip_comments l)"
proof -
  have "COMMENTCHAR \<notin> set (hd (split_on COMMENTCHAR l))"
    by (rule split_on_no_sep [of _ _ l]) simp
  then show ?thesis using set_strip_by by (fastforce simp: strip_comments_def strip_def)
qed

lemma strip_comments_idem [simp]: "strip_comments (strip_comments l) = strip_comments l"
  using strip_comments_none [OF strip_comments_no_hash] by (simp add: strip_comments_def)

text \<open>The fields of a description: a valid name and a type that names its package.\<close>

lemma load_field_line_Inr:
  assumes "load_field_line l pkg = Inr (t, n)"
  obtains ft where "line_words (strip_comments l) = [ft, n]" "is_valid_msg_field_name n"
    "is_valid_msg_type ft"
    "t = (if pkg \<noteq> [] \<and> SEP \<notin> set ft then
            (if ft = HEADER then HEADER_FULL_NAME
             else if \<not> is_builtin (bare_msg_type ft) then pkg @ [SEP] @ ft else ft)
          else if ft = HEADER then HEADER_FULL_NAME else ft)"
  using assms
  by (auto simp: load_field_line_def split: list.splits if_splits)

lemma load_field_line_Inl: "load_field_line l pkg = Inl e \<Longrightarrow> e = InvalidMsgSpec"
  by (auto simp: load_field_line_def split: list.splits if_splits)

lemma load_field_line_comments:
  "strip_comments l = strip_comments l' \<Longrightarrow> load_field_line l pkg = load_field_line l' pkg"
  by (simp add: load_field_line_def)

lemma line_words_nonempty: "strip_comments l \<noteq> [] \<Longrightarrow> line_words (strip_comments l) \<noteq> []"
proof
  assume ne: "strip_comments l \<noteq> []" and "line_words (strip_comments l) = []"
  then have all: "\<forall>x \<in> set (split_on CHR '' '' (strip_comments l)). strip x = []"
    by (auto simp: line_words_def filter_empty_conv)
  let ?s = "strip_comments l"
  have "\<forall>c \<in> set ?s. is_space c"
  proof
    fix c assume "c \<in> set ?s"
    then have "c \<in> set (py_join '' '' (split_on CHR '' '' ?s))" by (simp add: join_split_on)
    then have "c = CHR '' '' \<or> (\<exists>x \<in> set (split_on CHR '' '' ?s). c \<in> set x)"
      using set_py_join by fastforce
    then show "is_space c"
      using all by (auto simp: strip_def strip_by_eq_Nil_iff is_space_def)
  qed
  then have "strip ?s = []" by (simp add: strip_def strip_by_eq_Nil_iff)
  then show False using ne by (simp add: strip_comments_def)
qed

lemma load_constant_line_Inl:
  "load_constant_line w l = Inl e \<Longrightarrow> strip_comments l \<noteq> [] \<Longrightarrow> e = InvalidMsgSpec"
  using line_words_nonempty [of l]
  by (auto simp: load_constant_line_def Let_def rbind_eq_Inl rbind_eq_Inr rcatch_def
        split: if_splits list.splits sum.splits)

section \<open>Lemmas on files and services\<close>

definition is_delim :: "string \<Rightarrow> bool" where
  "is_delim l \<longleftrightarrow> startswith (strip_comments l) IODELIM"

definition code_lines :: "string list \<Rightarrow> string" where
  "code_lines ls = concat (map (\<lambda>l. strip_comments l @ [newline]) ls)"

lemma srv_split_loop_out:
  "srv_split_loop True i j ls = (i, j @ code_lines (filter (\<lambda>l. \<not> is_delim l) ls))"
  by (induction ls arbitrary: j) (auto simp: is_delim_def code_lines_def Let_def)

lemma srv_split_loop_in:
  "srv_split_loop False i j ls = (i @ code_lines (takeWhile (\<lambda>l. \<not> is_delim l) ls),
     j @ code_lines (filter (\<lambda>l. \<not> is_delim l) (dropWhile (\<lambda>l. \<not> is_delim l) ls)))"
  by (induction ls arbitrary: i) (auto simp: is_delim_def code_lines_def Let_def srv_split_loop_out)

lemma float_pow2_pred_small: "b \<le> 52 \<Longrightarrow> float_pow2_pred b = 2 ^ b - 1"
proof -
  assume "b \<le> 52"
  then have "(2::int) ^ b \<le> 2 ^ 52" by (intro power_increasing) auto
  then have "\<bar>2 ^ b - 1 :: int\<bar> < 2 ^ 53" by simp
  from rnd_int [OF this] trunc_int [of "2 ^ b - 1"] show ?thesis by (simp add: float_pow2_pred_def)
qed

section \<open>Properties\<close>

text \<open>Which file describes a type. The file of the first directory of the package
  that holds one is returned, and \<open>MsgNotFound\<close> is raised exactly when the package has no
  search path or none of its directories holds the file.\<close>

theorem get_msg_file_first:
  "get_msg_file w pkg base sp ext =
     (case sp pkg of None \<Rightarrow> Inl (MsgNotFound base pkg)
      | Some paths \<Rightarrow>
          (case filter (\<lambda>f. w_files w f \<noteq> None) (map (\<lambda>d. path_join d (base @ ext)) paths) of
             [] \<Rightarrow> Inl (MsgNotFound base pkg) | f # _ \<Rightarrow> Inr f))"
proof -
  have "first_file w paths n =
      (case filter (\<lambda>f. w_files w f \<noteq> None) (map (\<lambda>d. path_join d n) paths) of [] \<Rightarrow> None | f # _ \<Rightarrow> Some f)" for paths n
    by (induction paths) (simp_all add: Let_def)
  then show ?thesis by (simp add: get_msg_file_def split: option.splits list.splits)
qed

text \<open>A service description is cut at its first delimiter line. The request is read from the
  lines before it and the response from the lines after it that are no delimiter, all without their comments;
  a failure of the request leaves the context unchanged.\<close>

theorem load_srv_from_string_split:
  "load_srv_from_string w txt name =
     (let ls = split_on newline txt;
          req = code_lines (takeWhile (\<lambda>l. \<not> is_delim l) ls);
          resp = code_lines (filter (\<lambda>l. \<not> is_delim l) (dropWhile (\<lambda>l. \<not> is_delim l) ls))
      in sbind (load_msg_from_string w req (name @ ''Request'')) (\<lambda>msg_in.
         sbind (load_msg_from_string w resp (name @ ''Response'')) (\<lambda>msg_out.
         slift (SrvSpec msg_in msg_out txt name [] []))))"
  by (simp add: load_srv_from_string_def srv_split_loop_in Let_def)

text \<open>The width and the sign of the integer types, and the range they give.\<close>

definition small_int_types :: "(string \<times> nat \<times> bool) list" where
  "small_int_types = [(''int8'', 8, True), (''byte'', 8, True), (''int16'', 16, True), (''int32'', 32, True),
     (''uint8'', 8, False), (''char'', 8, False), (''uint16'', 16, False), (''uint32'', 32, False)]"

definition int_range :: "nat \<Rightarrow> bool \<Rightarrow> int set" where
  "int_range bits signed = (if signed then {- (2 ^ (bits - 1)) .. 2 ^ (bits - 1) - 1} else {0 .. 2 ^ bits - 1})"

lemma small_int_types_bits:
  assumes "(ty, bits, signed) \<in> set small_int_types"
  shows "ty \<in> set [''int8'', ''uint8'', ''int16'', ''uint16'', ''int32'', ''uint32'', ''int64'', ''uint64'', ''char'', ''byte''] \<and>
     ty \<notin> set [''float32'', ''float64''] \<and> ty \<notin> set [''string''] \<and>
     the (map_of int_bits ty) = bits \<and> (hd ty = CHR ''u'' \<or> ty = ''char'') = (\<not> signed) \<and> bits \<le> 32"
proof -
  have "list_all (\<lambda>(ty, bits, signed).
      ty \<in> set [''int8'', ''uint8'', ''int16'', ''uint16'', ''int32'', ''uint32'', ''int64'', ''uint64'', ''char'', ''byte''] \<and>
      ty \<notin> set [''float32'', ''float64''] \<and> ty \<notin> set [''string''] \<and>
      the (map_of int_bits ty) = bits \<and> (hd ty = CHR ''u'' \<or> ty = ''char'') = (\<not> signed) \<and> bits \<le> 32) small_int_types"
    by code_simp
  with assms show ?thesis unfolding list_all_iff by blast
qed

text \<open>Constants of the integer types up to 32 bits. The printed value of an integer is
  accepted exactly when it lies in the range of the type, and is then the value of the constant.\<close>

theorem convert_constant_value_range:
  assumes "(ty, bits, signed) \<in> set small_int_types"
  shows "convert_constant_value w ty (str_of_int v) =
    (if v \<in> int_range bits signed then Inr (IntVal v) else Inl InvalidMsgSpec)"
proof -
  from small_int_types_bits [OF assms] have
    "ty \<in> set [''int8'', ''uint8'', ''int16'', ''uint16'', ''int32'', ''uint32'', ''int64'', ''uint64'', ''char'', ''byte'']"
    "ty \<notin> set [''float32'', ''float64'']" "ty \<notin> set [''string'']"
    "the (map_of int_bits ty) = bits" "(hd ty = CHR ''u'' \<or> ty = ''char'') = (\<not> signed)" "bits \<le> 32"
    by blast+
  note ty = this
  have "convert_constant_value w ty (str_of_int v) =
      (let upper = (if \<not> signed then float_pow2_pred bits else float_pow2_pred (bits - 1));
           lower = (if \<not> signed then 0 else - upper - 1)
       in if v > upper \<or> v < lower then Inl InvalidMsgSpec else Inr (IntVal v))"
    unfolding convert_constant_value_def
    by (simp only: ty if_True if_False py_int_str_of_int of_option_simps rbind_simps Let_def)
  then show ?thesis using ty(6) by (cases signed) (auto simp: float_pow2_pred_small int_range_def)
qed

theorem convert_constant_value_range_witness:
  "convert_constant_value \<lparr>w_files = Map.empty, w_literal = \<lambda>_. None\<rparr> ''int8'' (str_of_int (- 128)) = Inr (IntVal (- 128)) \<and>
   convert_constant_value \<lparr>w_files = Map.empty, w_literal = \<lambda>_. None\<rparr> ''int8'' (str_of_int 128) = Inl InvalidMsgSpec"
  using convert_constant_value_range [of "''int8''" 8 True _ "- 128"]
    convert_constant_value_range [of "''int8''" 8 True _ 128]
  by (simp add: small_int_types_def int_range_def)

text \<open>Constants of the 64 bit types. The bounds are computed in floating point, where
  $2^{64}-1$ and $2^{63}-1$ round up: \<open>uint64\<close> also accepts $2^{64}$, and \<open>int64\<close> accepts
  everything from $-2^{63}-1$ to $2^{63}$.\<close>

theorem convert_constant_value_64:
  "convert_constant_value w ''uint64'' (str_of_int v) =
     (if 0 \<le> v \<and> v \<le> 2 ^ 64 then Inr (IntVal v) else Inl InvalidMsgSpec) \<and>
   convert_constant_value w ''int64'' (str_of_int v) =
     (if - (2 ^ 63) - 1 \<le> v \<and> v \<le> 2 ^ 63 then Inr (IntVal v) else Inl InvalidMsgSpec)"
proof -
  have "float_pow2_pred 64 = 2 ^ 64" "float_pow2_pred 63 = 2 ^ 63" by code_simp+
  then show ?thesis by (simp add: convert_constant_value_def int_bits_def py_int_str_of_int)
qed

end
