(* ===== verification/Dependencies.thy ===== *)
theory Dependencies
  imports Loader
begin

text \<open>
  What \<open>load_msg_depends\<close> and \<open>get_all_depends\<close> do to a context. The invariant of a
  context is \<open>ctx_ok\<close>: a specification is registered under its own full name, and each
  of its field types resolves to a builtin or to a name with a package;
  \<open>deps_closed\<close> says that a type with recorded dependencies has them all registered
  with their own dependencies recorded. Both are kept by every run of the loader, also one
  that raises.
\<close>

section \<open>Names with a package\<close>

definition in_package :: "string \<Rightarrow> bool" where
  "in_package r \<longleftrightarrow> SEP \<in> set r \<and> hd r \<noteq> SEP \<and> CHR ''['' \<notin> set r"

lemma type_key_qualified:
  assumes "in_package r" and "type_key r = Inr (p, b)"
  shows "p \<noteq> [] \<and> r = p @ SEP # b \<and> SEP \<notin> set p \<and> SEP \<notin> set b"
  using assms by (auto simp: in_package_def type_key_def package_resource_name_Inr)

lemma qualified_not_header: "in_package r \<Longrightarrow> r \<noteq> HEADER"
  by (auto simp: in_package_def HEADER_def)

lemma qualified_join:
  "p \<noteq> [] \<Longrightarrow> SEP \<notin> set p \<Longrightarrow> CHR ''['' \<notin> set p \<Longrightarrow> CHR ''['' \<notin> set b \<Longrightarrow> in_package (p @ SEP # b)"
  by (cases p) (auto simp: in_package_def)

lemma qualified_header: "in_package HEADER_FULL_NAME"
  by (simp add: in_package_def HEADER_FULL_NAME_def)

text \<open>The resolved types of a specification, and those that are not builtin.\<close>

definition field_dep :: "msgspec \<Rightarrow> string \<Rightarrow> string" where
  "field_dep spec t = resolve_type (bare_msg_type t) (ms_package spec)"

definition spec_deps :: "msgspec \<Rightarrow> string list" where
  "spec_deps spec = filter (\<lambda>r. \<not> is_builtin r) (map (field_dep spec) (ms_types spec))"

definition spec_ok :: "msgspec \<Rightarrow> bool" where
  "spec_ok spec \<longleftrightarrow> ms_full_name spec \<noteq> [] \<and> (\<forall>r \<in> set (spec_deps spec). in_package r) \<and>
     (\<forall>t \<in> set (ms_types spec). field_dep spec t = bare_msg_type t)"

text \<open>The base of a valid type is a legal resource name, so it starts with a letter.\<close>

lemma valid_msg_type_bare:
  assumes "is_valid_msg_type t"
  shows "bare_msg_type t \<noteq> []" "hd (bare_msg_type t) \<noteq> SEP" "is_legal_resource_name (Some (bare_msg_type t))"
proof -
  show legal: "is_legal_resource_name (Some (bare_msg_type t))"
    using assms by (auto simp: is_valid_msg_type_def Let_def split: if_splits)
  then show "bare_msg_type t \<noteq> []" and "hd (bare_msg_type t) \<noteq> SEP"
    by (auto simp: is_legal_resource_name_def match_first_rest_def is_ascii_alpha_def split: list.splits)
qed

lemma resolve_valid_type:
  assumes "is_valid_msg_type t" and "pkg \<noteq> []" "SEP \<notin> set pkg" "CHR ''['' \<notin> set pkg"
  shows "is_builtin (resolve_type (bare_msg_type t) pkg) \<or> in_package (resolve_type (bare_msg_type t) pkg)"
  using valid_msg_type_bare [OF assms(1)] assms qualified_join [of pkg "bare_msg_type t"] qualified_header
  by (auto simp: resolve_type_def Let_def in_package_def)

lemma bare_join: "CHR ''['' \<notin> set p \<Longrightarrow> bare_msg_type (p @ SEP # t) = p @ SEP # bare_msg_type t"
  unfolding bare_msg_type_takeWhile by (induction p) auto

lemma bare_SEP_iff:
  assumes "is_valid_msg_type t" shows "SEP \<in> set t \<longleftrightarrow> SEP \<in> set (bare_msg_type t)"
proof
  assume "SEP \<in> set t"
  let ?b = "bare_msg_type t"
  have t: "t = ?b @ drop (length ?b) t"
    by (metis append_eq_conv_conj bare_msg_type_takeWhile takeWhile_dropWhile_id)
  have "array_suffix_loop 0 (drop (length ?b) t) = Some 0"
    using assms by (auto simp: is_valid_msg_type_def Let_def split: if_splits)
  moreover have "array_suffix_loop n s = Some m \<Longrightarrow> n \<le> 1 \<Longrightarrow> SEP \<notin> set s" for n s m
  proof (induction n s rule: array_suffix_loop.induct)
    case (2 n c cs)
    have "py_int [SEP] = None" by (simp add: py_int_def strip_by_def is_num_space_def int_digits_def is_digit_def)
    with 2 show ?case by (auto split: if_splits)
  qed simp
  ultimately have "SEP \<notin> set (drop (length ?b) t)" by blast
  with \<open>SEP \<in> set t\<close> show "SEP \<in> set ?b" by (subst (asm) t) auto
next
  assume "SEP \<in> set (bare_msg_type t)"
  then show "SEP \<in> set t" using bare_msg_type_sub by blast
qed

text \<open>A field line read in a package yields a type that resolves to itself there.\<close>

lemma load_field_line_resolved:
  assumes "load_field_line l pkg = Inr (t, n)" and "pkg \<noteq> []" "SEP \<notin> set pkg" "CHR ''['' \<notin> set pkg"
  shows "resolve_type t pkg = t" and "resolve_type (bare_msg_type t) pkg = bare_msg_type t"
    and "is_builtin (bare_msg_type t) \<or> in_package (bare_msg_type t)"
proof -
  obtain ft where ft: "is_valid_msg_type ft" and t: "t = (if pkg \<noteq> [] \<and> SEP \<notin> set ft then
            (if ft = HEADER then HEADER_FULL_NAME
             else if \<not> is_builtin (bare_msg_type ft) then pkg @ [SEP] @ ft else ft)
          else if ft = HEADER then HEADER_FULL_NAME else ft)"
    using load_field_line_Inr [OF assms(1)] by metis
  note sep = bare_SEP_iff [OF ft]
  have hdr: "SEP \<notin> set HEADER" "SEP \<in> set HEADER_FULL_NAME" by (simp_all add: type_name_defs)
  consider (header) "t = HEADER_FULL_NAME"
    | (rel) "SEP \<notin> set ft" "\<not> is_builtin (bare_msg_type ft)" "t = pkg @ SEP # ft"
    | (builtin) "is_builtin (bare_msg_type ft)" "t = ft"
    | (abs) "SEP \<in> set ft" "t = ft" "SEP \<in> set (bare_msg_type ft)"
    using t sep assms(2) by (auto split: if_splits)
  then have "resolve_type t pkg = t \<and> resolve_type (bare_msg_type t) pkg = bare_msg_type t \<and>
    (is_builtin (bare_msg_type t) \<or> in_package (bare_msg_type t))"
  proof cases
    case header
    then show ?thesis using qualified_header hdr by (simp add: resolve_type_def Let_def)
  next
    case rel
    have q: "in_package (pkg @ SEP # bare_msg_type ft)" using assms by (intro qualified_join) auto
    moreover have "\<not> is_builtin (pkg @ SEP # bare_msg_type ft)" by (auto dest: builtin_no_special)
    ultimately show ?thesis using rel(3) assms(4) qualified_not_header [OF q]
      by (simp add: resolve_type_def Let_def bare_join)
  next
    case builtin
    then show ?thesis by (simp add: resolve_type_def Let_def)
  next
    case abs
    then have "\<not> is_builtin (bare_msg_type t)" "bare_msg_type t \<noteq> HEADER"
      using hdr by (auto dest: builtin_no_special)
    then show ?thesis using abs resolve_valid_type [OF ft assms(2-4)]
      by (simp add: resolve_type_def Let_def)
  qed
  then show "resolve_type t pkg = t" and "resolve_type (bare_msg_type t) pkg = bare_msg_type t"
    and "is_builtin (bare_msg_type t) \<or> in_package (bare_msg_type t)"
    by auto
qed

section \<open>What loading one description gives\<close>

lemma load_line_types:
  assumes "rfoldl (load_line w pkg) (ts, ns, cs) ls = Inr (ts', ns', cs')"
    and "length ts = length ns" and "\<forall>t \<in> set ts. P t"
    and "\<And>l t n. load_field_line l pkg = Inr (t, n) \<Longrightarrow> P t"
  shows "length ts' = length ns' \<and> (\<forall>t \<in> set ts'. P t)"
  using assms
proof (induction ls arbitrary: ts ns cs)
  case (Cons l ls)
  from Cons.prems(1) obtain ts1 ns1 cs1 where
    one: "load_line w pkg (ts, ns, cs) l = Inr (ts1, ns1, cs1)" and
    rest: "rfoldl (load_line w pkg) (ts1, ns1, cs1) ls = Inr (ts', ns', cs')"
    by (auto simp: rbind_eq_Inr)
  have "length ts1 = length ns1 \<and> (\<forall>t \<in> set ts1. P t)"
    using one Cons.prems(2-4) by (auto simp: load_line_def Let_def rbind_eq_Inr split: if_splits)
  then show ?case using Cons.IH [OF rest] Cons.prems(4) by blast
qed simp

lemma load_msg_from_string_Inr:
  assumes "load_msg_from_string w text full_name ctx = (Inr spec, ctx')"
  obtains p b where "package_resource_name full_name = Inr (p, b)" "msgspec_ok spec"
    "ms_full_name spec = full_name" "ms_package spec = p" "ms_text spec = text"
    "register full_name spec ctx = (Inr (), ctx')"
    "rfoldl (load_line w p) ([], [], []) (split_on newline text)
       = Inr (ms_types spec, ms_names spec, ms_constants spec)"
proof -
  from assms obtain p b ts ns cs where
    pb: "package_resource_name full_name = Inr (p, b)" and
    lines: "rfoldl (load_line w p) ([], [], []) (split_on newline text) = Inr (ts, ns, cs)" and
    mk: "MsgSpec ts ns cs text full_name p [] = Inr spec" and
    reg: "register full_name spec ctx = (Inr (), ctx')"
    by (auto simp: load_msg_from_string_def sbind_eq_Inr split: prod.splits)
  from MsgSpec_Inr [OF mk] pb have "ms_package spec = p" by auto
  with MsgSpec_Inr [OF mk] pb lines reg show thesis by (intro that) auto
qed

lemma load_msg_from_string_Inl:
  "load_msg_from_string w text full_name ctx = (Inl e, ctx') \<Longrightarrow> ctx' = ctx"
  by (auto simp: load_msg_from_string_def sbind_eq_Inl split: prod.splits dest: register_Inl)

lemma load_spec_ok:
  assumes "load_msg_from_string w text full_name ctx = (Inr spec, ctx')"
    and "package_resource_name full_name = Inr (p, b)" "p \<noteq> []" "CHR ''['' \<notin> set p"
  shows "spec_ok spec"
proof -
  from assms(1) obtain p' b' where pb': "package_resource_name full_name = Inr (p', b')"
    "ms_full_name spec = full_name" "ms_package spec = p'"
    "rfoldl (load_line w p') ([], [], []) (split_on newline text)
       = Inr (ms_types spec, ms_names spec, ms_constants spec)"
    by (rule load_msg_from_string_Inr)
  with assms have p: "p' = p" "SEP \<notin> set p" "full_name \<noteq> []"
    by (auto simp: package_resource_name_Inr)
  have "\<forall>t \<in> set (ms_types spec). resolve_type (bare_msg_type t) p = bare_msg_type t \<and>
          (is_builtin (bare_msg_type t) \<or> in_package (bare_msg_type t))"
    using load_line_types [OF pb'(4) [unfolded p(1)], of "\<lambda>t. resolve_type (bare_msg_type t) p = bare_msg_type t \<and>
          (is_builtin (bare_msg_type t) \<or> in_package (bare_msg_type t))"]
      load_field_line_resolved(2,3) [OF _ assms(3) p(2) assms(4)] by auto
  then show ?thesis using pb' p by (auto simp: spec_ok_def spec_deps_def field_dep_def)
qed

section \<open>The invariant of a context\<close>

definition ctx_ok :: "msg_context \<Rightarrow> bool" where
  "ctx_ok ctx \<longleftrightarrow> (\<forall>t s. get_registered ctx t = Inr s \<longrightarrow>
     type_key (ms_full_name s) = type_key t \<and> CHR ''['' \<notin> set (ms_full_name s) \<and> spec_ok s)"

definition deps_closed :: "msg_context \<Rightarrow> bool" where
  "deps_closed ctx \<longleftrightarrow> (\<forall>t ds. get_depends ctx t = Some ds \<longrightarrow>
     (\<exists>s. get_registered ctx t = Inr s \<and> ds = spec_deps s) \<and>
     (\<forall>d \<in> set ds. get_depends ctx d \<noteq> None \<and> (\<exists>s. get_registered ctx d = Inr s)))"

text \<open>A later context: nothing registered is replaced and no recorded dependency is lost.\<close>

definition ctx_ext :: "msg_context \<Rightarrow> msg_context \<Rightarrow> bool" where
  "ctx_ext ctx ctx' \<longleftrightarrow> (\<forall>t s. get_registered ctx t = Inr s \<longrightarrow> get_registered ctx' t = Inr s) \<and>
     (\<forall>t. get_depends ctx t \<noteq> None \<longrightarrow> get_depends ctx' t \<noteq> None)"

lemma ctx_ext_refl [simp]: "ctx_ext c c"
  by (simp add: ctx_ext_def)

lemma ctx_ext_trans: "ctx_ext a b \<Longrightarrow> ctx_ext b c \<Longrightarrow> ctx_ext a c"
  by (auto simp: ctx_ext_def)

lemma full_name_unique:
  assumes "ctx_ok ctx" "get_registered ctx r = Inr s" "in_package r" shows "ms_full_name s = r"
proof -
  from assms have k: "type_key (ms_full_name s) = type_key r" and nb: "CHR ''['' \<notin> set (ms_full_name s)"
    by (auto simp: ctx_ok_def)
  obtain p b where pb: "type_key r = Inr (p, b)" using ctx.get_Inr_key [OF assms(2)] by auto
  with type_key_qualified [OF assms(3)] have "p \<noteq> []" by auto
  moreover have "package_resource_name r = Inr (p, b)" "package_resource_name (ms_full_name s) = Inr (p, b)"
    using k nb pb assms(3) by (auto simp: type_key_def in_package_def)
  ultimately show ?thesis using res_name.parts_inj by blast
qed

text \<open>Loading a missing type of a package adds its specification and keeps the rest.\<close>

lemma load_msg_by_type_step:
  assumes "load_msg_by_type w r sp ctx = (res, ctx')" and "in_package r"
    and "\<nexists>s. get_registered ctx r = Inr s" and "ctx_ok ctx" "deps_closed ctx"
  shows "ctx_ok ctx' \<and> deps_closed ctx' \<and> ctx_ext ctx ctx' \<and> dependencies ctx' = dependencies ctx \<and>
    (\<forall>s. res = Inr s \<longrightarrow> get_registered ctx' r = Inr s \<and> spec_ok s \<and> ms_full_name s = r)"
proof -
  note hd = qualified_not_header [OF assms(2)]
  have br: "bare_msg_type r = r" using assms(2) by (simp add: in_package_def)
  show ?thesis
  proof (cases res)
    case (Inl e)
    have "ctx' = ctx"
      using assms(1) hd
      by (auto simp: Inl load_msg_by_type_def load_msg_from_file_def sbind_eq_Inl
          split: prod.splits dest: load_msg_from_string_Inl)
    with Inl assms show ?thesis by simp
  next
    case (Inr s)
    from assms(1) hd obtain f body c where
      l: "load_msg_from_string w body r ctx = (Inr s, c)" and c: "ctx' = set_file r f c"
      by (auto simp: Inr load_msg_by_type_def load_msg_from_file_def sbind_eq_Inr split: prod.splits)
    from l obtain p b where pb: "package_resource_name r = Inr (p, b)"
      and fn: "ms_full_name s = r" and reg: "register r s ctx = (Inr (), c)"
      by (rule load_msg_from_string_Inr)
    have k: "type_key r = Inr (p, b)" using pb br by (simp add: type_key_def)
    have p: "p \<noteq> []" "CHR ''['' \<notin> set p"
      using type_key_qualified [OF assms(2) k] assms(2) by (auto simp: in_package_def)
    have sok: "spec_ok s" using load_spec_ok [OF l pb p] .
    have get: "get_registered ctx' u = (if type_key u = type_key r then Inr s else get_registered ctx u)" for u
      using ctx.get_put [OF reg] by (simp add: c)
    have dep: "dependencies ctx' = dependencies ctx"
      using register_frame [OF reg] by (simp add: c set_file_def)
    have none: "get_registered ctx u \<noteq> Inr x" if "type_key u = type_key r" for u x
      using that assms(3) k by (auto simp: get_registered_alt)
    have "ctx_ext ctx ctx'" using get none dep by (auto simp: ctx_ext_def get_depends_def)
    moreover have "ctx_ok ctx'"
      using assms(2,4) sok fn by (auto simp: ctx_ok_def get in_package_def split: if_splits)
    moreover have "deps_closed ctx'"
      using assms(5) calculation(1) by (simp add: deps_closed_def ctx_ext_def get_depends_def dep) blast
    ultimately show ?thesis using sok fn get dep by (simp add: Inr)
  qed
qed

lemma re_register:
  assumes "get_registered ctx r = Inr s" and "register r s ctx = (x, ctx')"
  shows "x = Inr () \<and> get_registered ctx' = get_registered ctx \<and> dependencies ctx' = dependencies ctx"
proof -
  obtain p b where k: "type_key r = Inr (p, b)" using ctx.get_Inr_key [OF assms(1)] by auto
  then have "get_registered ctx u = Inr s" if "type_key u = type_key r" for u
    using that assms(1) by (auto simp: get_registered_alt)
  moreover have x: "x = Inr ()" using ctx.put_returns [OF k, of s ctx] assms(2) by auto
  ultimately show ?thesis
    using ctx.get_put [of r s ctx ctx'] assms(2) register_frame [OF assms(2)] by auto
qed

section \<open>The recursion keeps the invariant\<close>

text \<open>The recorded dependencies as a relation; no recorded type contains itself.\<close>

definition dep_rel :: "msg_context \<Rightarrow> (string \<times> string) set" where
  "dep_rel ctx = {(t, d). \<exists>ds. get_depends ctx t = Some ds \<and> d \<in> set ds}"

definition deps_acyclic :: "msg_context \<Rightarrow> bool" where
  "deps_acyclic ctx \<longleftrightarrow> finite (dom (dependencies ctx)) \<and> acyclic (dep_rel ctx)"

definition dinv :: "msg_context \<Rightarrow> bool" where
  "dinv ctx \<longleftrightarrow> ctx_ok ctx \<and> deps_closed ctx \<and> deps_acyclic ctx"

lemma deps_acyclic_cong: "dependencies c = dependencies c' \<Longrightarrow> deps_acyclic c = deps_acyclic c'"
  by (simp add: deps_acyclic_def dep_rel_def get_depends_def)

lemma acyclic_extend:
  assumes "acyclic R" "t \<notin> Range R" "t \<notin> D" shows "acyclic (R \<union> {t} \<times> D)"
proof -
  have "y \<noteq> t \<and> (x \<noteq> t \<longrightarrow> (x, y) \<in> R\<^sup>+)" if "(x, y) \<in> (R \<union> {t} \<times> D)\<^sup>+" for x y
    using that
  proof (induction rule: trancl_induct)
    case (step y z)
    then show ?case using assms(2,3) by (auto intro: trancl_into_trancl)
  qed (use assms(2,3) in auto)
  then show ?thesis using assms(1) by (auto simp: acyclic_def)
qed

lemma set_depends_acyclic:
  assumes "deps_closed c" "deps_acyclic c" "\<forall>d \<in> set ds. get_depends c d \<noteq> None"
    and "\<And>ds'. get_depends c t = Some ds' \<Longrightarrow> ds' = ds"
  shows "deps_acyclic (set_depends t ds c)"
proof (cases "get_depends c t")
  case None
  then have "t \<notin> Range (dep_rel c)" "t \<notin> set ds"
    using assms(1,3) unfolding dep_rel_def deps_closed_def by (blast, auto)
  moreover have "dep_rel (set_depends t ds c) = dep_rel c \<union> {t} \<times> set ds"
    using None by (auto simp: dep_rel_def get_depends_def set_depends_def split: if_splits)
  ultimately show ?thesis
    using assms(2) by (simp add: deps_acyclic_def acyclic_extend) (simp add: set_depends_def)
next
  case (Some ds')
  then have "dependencies (set_depends t ds c) = dependencies c"
    using assms(4) by (auto simp: set_depends_def get_depends_def)
  then show ?thesis using assms(2) deps_acyclic_cong by blast
qed

lemma retrieve_spec_step:
  assumes "retrieve_spec w sp r ctx = (res, ctx')" and "in_package r" and "dinv ctx"
  shows "dinv ctx' \<and> ctx_ext ctx ctx' \<and>
    (\<forall>s. res = Inr s \<longrightarrow> get_registered ctx' r = Inr s \<and> spec_ok s \<and> ms_full_name s = r)"
proof (cases "is_registered ctx r")
  case (Inl e)
  then show ?thesis using assms by (auto simp: retrieve_spec_def sbind_def)
next
  case reg: (Inr b)
  show ?thesis
  proof (cases b)
    case True
    with reg have "is_registered ctx r = Inr True" by simp
    then obtain s where s: "get_registered ctx r = Inr s" by (auto simp: ctx.has_True_iff)
    have "ms_full_name s = r" "spec_ok s"
      using full_name_unique [OF _ s assms(2)] s assms(3) by (auto simp: dinv_def ctx_ok_def)
    with reg True s assms show ?thesis by (auto simp: retrieve_spec_def sbind_def)
  next
    case False
    have none: "\<nexists>s. get_registered ctx r = Inr s"
      using reg False ctx.has_True_iff [of ctx r] by auto
    obtain res1 c where l: "load_msg_by_type w r sp ctx = (res1, c)" by fastforce
    have st: "ctx_ok c \<and> deps_closed c \<and> ctx_ext ctx c \<and> deps_acyclic c \<and>
        (\<forall>s. res1 = Inr s \<longrightarrow> get_registered c r = Inr s \<and> spec_ok s \<and> ms_full_name s = r)"
      using load_msg_by_type_step [OF l assms(2) none] assms(3) deps_acyclic_cong [of c ctx]
      by (simp add: dinv_def)
    show ?thesis
    proof (cases res1)
      case (Inl e)
      then show ?thesis using assms(1) reg False l st
        by (simp add: retrieve_spec_def sbind_def dinv_def split: prod.splits)
    next
      case (Inr s)
      with st have gs: "get_registered c r = Inr s" by simp
      obtain x c' where rr: "register r s c = (x, c')" by fastforce
      note re = re_register [OF gs rr]
      have "ctx' = c'" "res = Inr s"
        using assms(1) reg False l Inr rr re
        by (auto simp: retrieve_spec_def sbind_def split: prod.splits sum.splits)
      moreover have "ctx_ok c'" "deps_closed c'" "ctx_ext ctx c'" "deps_acyclic c'"
        using st re deps_acyclic_cong [of c' c]
        by (simp_all add: ctx_ok_def deps_closed_def ctx_ext_def get_depends_def)
      ultimately show ?thesis using st re gs Inr by (simp add: dinv_def)
    qed
  qed
qed

text \<open>What the recursive call has to do for the loop to keep the invariant.\<close>

definition rec_ok :: "(msgspec \<Rightarrow> (msg_context, string list) act) \<Rightarrow> bool" where
  "rec_ok rec \<longleftrightarrow> (\<forall>s ctx r ctx'. rec s ctx = (r, ctx') \<longrightarrow> spec_ok s \<longrightarrow>
     get_registered ctx (ms_full_name s) = Inr s \<longrightarrow> dinv ctx \<longrightarrow>
     dinv ctx' \<and> ctx_ext ctx ctx' \<and> (\<forall>ds. r = Inr ds \<longrightarrow> get_depends ctx' (ms_full_name s) \<noteq> None))"

definition dep_ready :: "msg_context \<Rightarrow> string \<Rightarrow> bool" where
  "dep_ready ctx d \<longleftrightarrow> get_depends ctx d \<noteq> None \<and> (\<exists>s. get_registered ctx d = Inr s)"

lemma dep_ready_ext: "ctx_ext c c' \<Longrightarrow> dep_ready c d \<Longrightarrow> dep_ready c' d"
  by (auto simp: ctx_ext_def dep_ready_def)

lemma load_type_depend_step:
  assumes rec: "rec_ok rec" and run: "load_type_depend w rec pkg sp ds t ctx = (res, ctx')"
    and inv: "dinv ctx" and r: "r = resolve_type (bare_msg_type t) pkg"
    and q: "is_builtin r \<or> in_package r"
  shows "dinv ctx' \<and> ctx_ext ctx ctx' \<and> (\<forall>ds'. res = Inr ds' \<longrightarrow>
    ds' = ds @ (if is_builtin r then [] else [r]) \<and> (\<not> is_builtin r \<longrightarrow> dep_ready ctx' r))"
proof (cases "is_builtin r")
  case True
  then show ?thesis using run inv by (auto simp: load_type_depend_def r [symmetric])
next
  case False
  then have ip: "in_package r" using q by simp
  obtain x c where ret: "retrieve_spec w sp r ctx = (x, c)" by fastforce
  note st = retrieve_spec_step [OF ret ip inv]
  show ?thesis
  proof (cases x)
    case (Inl e)
    then show ?thesis using run st False ret
      by (simp add: load_type_depend_def r [symmetric] Let_def sbind_def) blast
  next
    case (Inr s)
    with st have s: "get_registered c r = Inr s" "spec_ok s" "ms_full_name s = r" by auto
    show ?thesis
    proof (cases "get_depends c r")
      case None
      obtain y c' where rc: "rec s c = (y, c')" by fastforce
      have st': "dinv c'" "ctx_ext c c'" "\<forall>ds. y = Inr ds \<longrightarrow> get_depends c' r \<noteq> None"
        using rec rc s st unfolding rec_ok_def by metis+
      have "ctx' = c'" "\<forall>ds'. res = Inr ds' \<longrightarrow> ds' = ds @ [r] \<and> (\<exists>z. y = Inr z)"
        using run False ret Inr None rc
        by (cases y; auto simp: load_type_depend_def r [symmetric] Let_def sbind_def)+
      then show ?thesis using st st' s False ctx_ext_trans
        by (auto simp: dep_ready_def ctx_ext_def)
    next
      case (Some d)
      have "ctx' = c" "res = Inr (ds @ [r])"
        using run False ret Inr Some by (auto simp: load_type_depend_def r [symmetric] Let_def sbind_def)
      then show ?thesis using st s Some False by (auto simp: dep_ready_def)
    qed
  qed
qed

lemma load_types_step:
  assumes rec: "rec_ok rec"
    and "sfoldl (load_type_depend w rec pkg sp) ds ts ctx = (res, ctx')" and "dinv ctx"
    and "\<forall>t \<in> set ts. let r = resolve_type (bare_msg_type t) pkg in is_builtin r \<or> in_package r"
    and "\<forall>d \<in> set ds. dep_ready ctx d"
  shows "dinv ctx' \<and> ctx_ext ctx ctx' \<and> (\<forall>ds'. res = Inr ds' \<longrightarrow>
    ds' = ds @ filter (\<lambda>r. \<not> is_builtin r) (map (\<lambda>t. resolve_type (bare_msg_type t) pkg) ts) \<and>
    (\<forall>d \<in> set ds'. dep_ready ctx' d))"
  using assms(2-)
proof (induction ts arbitrary: ds ctx)
  case (Cons t ts)
  obtain x c where one: "load_type_depend w rec pkg sp ds t ctx = (x, c)" by fastforce
  have q: "is_builtin (resolve_type (bare_msg_type t) pkg) \<or> in_package (resolve_type (bare_msg_type t) pkg)"
    using Cons.prems(3) by (simp add: Let_def)
  note st = load_type_depend_step [OF rec one Cons.prems(2) refl q]
  show ?case
  proof (cases x)
    case (Inl e)
    then show ?thesis using Cons.prems(1) one st by (auto simp: sbind_def)
  next
    case (Inr ds1)
    have "\<forall>d \<in> set ds1. dep_ready c d"
      using st Inr Cons.prems(4) dep_ready_ext by (auto split: if_splits)
    moreover have "sfoldl (load_type_depend w rec pkg sp) ds1 ts c = (res, ctx')"
      using Cons.prems(1) one Inr by (simp add: sbind_def)
    ultimately show ?thesis
      using Cons.IH [of ds1 c] st Inr Cons.prems(3) ctx_ext_trans [of ctx c ctx'] by auto
  qed
qed auto

text \<open>The whole recursion: the invariant is kept, and success records the dependencies.\<close>

lemma load_msg_depends_step:
  assumes "load_msg_depends k w spec sp ctx = (res, ctx')" and "spec_ok spec" and "dinv ctx"
    and "get_registered ctx (ms_full_name spec) = Inr spec"
  shows "dinv ctx' \<and> ctx_ext ctx ctx' \<and> (\<forall>ds. res = Inr ds \<longrightarrow>
    ds = spec_deps spec \<and> get_depends ctx' (ms_full_name spec) = Some ds \<and>
    (\<forall>d \<in> set ds. dep_ready ctx' d))"
  using assms
proof (induction k arbitrary: spec ctx res ctx')
  case (Suc k)
  let ?rec = "\<lambda>depspec. load_msg_depends k w depspec sp"
  have rec: "rec_ok ?rec" unfolding rec_ok_def using Suc.IH by (metis option.distinct(1))
  obtain x c where loop:
    "sfoldl (load_type_depend w ?rec (ms_package spec) sp) [] (ms_types spec) ctx = (x, c)" by fastforce
  have q: "\<forall>t \<in> set (ms_types spec). let r = resolve_type (bare_msg_type t) (ms_package spec)
      in is_builtin r \<or> in_package r"
    using Suc.prems(2) by (auto simp: spec_ok_def spec_deps_def field_dep_def)
  note st = load_types_step [OF rec loop Suc.prems(3) q]
  show ?case
  proof (cases x)
    case (Inl e)
    then show ?thesis using Suc.prems(1) loop st by (auto simp: sbind_def)
  next
    case (Inr ds)
    have ne: "ms_full_name spec \<noteq> []" using Suc.prems(2) by (simp add: spec_ok_def)
    have fin: "ctx' = set_depends (ms_full_name spec) ds c" "res = Inr ds"
      using Suc.prems(1) loop Inr ne by (auto simp: sbind_def)
    have ds: "ds = spec_deps spec" "\<forall>d \<in> set ds. dep_ready c d"
      using st Inr by (auto simp: spec_deps_def field_dep_def [abs_def])
    have gd: "get_depends ctx' t = (if t = ms_full_name spec then Some ds else get_depends c t)" for t
      by (simp add: fin get_depends_def set_depends_def)
    have gr: "get_registered ctx' = get_registered c" by (simp add: fin fun_eq_iff)
    have "ctx_ext c ctx'" by (simp add: ctx_ext_def gd gr)
    moreover have "ctx_ok ctx'" using st by (simp add: dinv_def ctx_ok_def gr)
    moreover have "deps_closed ctx'"
      using st ds Suc.prems(4) by (auto simp: dinv_def deps_closed_def dep_ready_def ctx_ext_def gd gr)
    moreover have "deps_acyclic ctx'"
    proof -
      have "get_registered c (ms_full_name spec) = Inr spec"
        using st Suc.prems(4) by (simp add: ctx_ext_def)
      then have "ds' = ds" if "get_depends c (ms_full_name spec) = Some ds'" for ds'
        using st that ds(1) by (fastforce simp: dinv_def deps_closed_def)
      then show ?thesis unfolding fin using set_depends_acyclic st ds(2) by (simp add: dinv_def dep_ready_def)
    qed
    ultimately show ?thesis
      using st fin ds gd ctx_ext_trans [of ctx c ctx'] dep_ready_ext [of c ctx'] by (simp add: dinv_def)
  qed
qed simp

section \<open>The exceptions of loading\<close>

lemma count_list_bare: "count_list (bare_msg_type t) c \<le> count_list t c"
proof -
  have "t = bare_msg_type t @ dropWhile (\<lambda>c. c \<noteq> CHR ''['') t"
    by (simp add: bare_msg_type_takeWhile)
  then have "count_list t c = count_list (bare_msg_type t) c + count_list (dropWhile (\<lambda>c. c \<noteq> CHR ''['') t) c"
    by (metis count_list_append)
  then show ?thesis by simp
qed

lemma type_key_Inr: "package_resource_name t = Inr x \<Longrightarrow> \<exists>y. type_key t = Inr y"
  using count_list_bare [of t SEP] package_resource_name_Inl [of t] package_resource_name_Inl [of "bare_msg_type t"]
  by (cases "type_key t"; cases "package_resource_name t") (auto simp: type_key_def)

lemma load_line_Inl: "load_line w pkg acc l = Inl e \<Longrightarrow> e = InvalidMsgSpec"
  using load_field_line_Inl load_constant_line_Inl
  by (auto simp: load_line_def Let_def rbind_eq_Inl split: prod.splits if_splits)

lemma rfoldl_Inl: "rfoldl f acc xs = Inl e \<Longrightarrow> \<exists>acc x. x \<in> set xs \<and> f acc x = Inl e"
  by (induction xs arbitrary: acc) (auto simp: rbind_eq_Inl, blast)

lemma load_lines_length:
  assumes "rfoldl (load_line w p) ([], [], []) ls = Inr (ts, ns, cs)"
  shows "length ts = length ns"
  using load_line_types [OF assms, of "\<lambda>_. True"] by simp

text \<open>A description is read completely or refused with \<open>InvalidMsgSpec\<close>, and a refused one
  leaves the context as it was.\<close>

lemma load_msg_from_string_error:
  assumes run: "load_msg_from_string w text full_name ctx = (Inl e, ctx')"
    and pb: "package_resource_name full_name = Inr pb"
  shows "e = InvalidMsgSpec"
proof -
  obtain p b where [simp]: "pb = (p, b)" by (cases pb)
  have reg: "register full_name s ctx \<noteq> (Inl e, c)" for s c
    using type_key_Inr [OF pb] ctx.put_returns [of full_name _ s ctx] by fastforce
  from run pb reg consider
    "rfoldl (load_line w p) ([], [], []) (split_on newline text) = Inl e"
    | ts ns cs where "rfoldl (load_line w p) ([], [], []) (split_on newline text) = Inr (ts, ns, cs)"
      "MsgSpec ts ns cs text full_name p [] = Inl e"
    by (auto simp: load_msg_from_string_def sbind_eq_Inl split: prod.splits)
  then show ?thesis
  proof cases
    case 1
    then show ?thesis by (auto dest!: rfoldl_Inl dest: load_line_Inl)
  next
    case 2
    then show ?thesis using MsgSpec_Inl pb load_lines_length by blast
  qed
qed

lemma load_msg_from_string_no_recursion_error:
  "load_msg_from_string w text full_name ctx \<noteq> (Inl RecursionError, ctx')"
proof (cases "package_resource_name full_name")
  case (Inl e)
  then have "e = ValueError" by (simp add: package_resource_name_Inl)
  with Inl show ?thesis by (simp add: load_msg_from_string_def)
next
  case (Inr x)
  then show ?thesis by (auto dest: load_msg_from_string_error)
qed

lemma load_msg_by_type_no_recursion_error: "fst (load_msg_by_type w r sp ctx) \<noteq> Inl RecursionError"
proof
  assume "fst (load_msg_by_type w r sp ctx) = Inl RecursionError"
  then obtain c where "load_msg_by_type w r sp ctx = (Inl RecursionError, c)"
    by (metis prod.collapse)
  then show False
    by (auto simp: load_msg_by_type_def load_msg_from_file_def get_msg_file_def Let_def sbind_eq_Inl
        package_resource_name_Inl load_msg_from_string_no_recursion_error
        split: prod.splits option.splits if_splits)
qed

section \<open>Termination of the recursion\<close>

text \<open>
  A rank of the type names that decreases from a description to its dependencies: every
  description on the search path (\<open>world_ranked\<close>) and every registered one
  (\<open>ctx_ranked\<close>). Such a rank exists when no message contains itself.
\<close>

definition deps_below :: "(string \<Rightarrow> nat) \<Rightarrow> string \<Rightarrow> msgspec \<Rightarrow> bool" where
  "deps_below rank r s \<longleftrightarrow> (\<forall>d \<in> set (spec_deps s). rank d < rank r)"

definition world_ranked :: "(string \<Rightarrow> nat) \<Rightarrow> world \<Rightarrow> search_path \<Rightarrow> bool" where
  "world_ranked rank w sp \<longleftrightarrow> (\<forall>r s c c'. in_package r \<longrightarrow>
     load_msg_by_type w r sp c = (Inr s, c') \<longrightarrow> deps_below rank r s)"

definition ctx_ranked :: "(string \<Rightarrow> nat) \<Rightarrow> msg_context \<Rightarrow> bool" where
  "ctx_ranked rank ctx \<longleftrightarrow> (\<forall>r s. in_package r \<longrightarrow> get_registered ctx r = Inr s \<longrightarrow> deps_below rank r s)"

lemma type_key_in_package_inj:
  "in_package r \<Longrightarrow> in_package u \<Longrightarrow> type_key u = type_key r \<Longrightarrow> type_key r = Inr k \<Longrightarrow> u = r"
  by (cases k) (metis type_key_qualified)

lemma retrieve_spec_ranked:
  assumes ret: "retrieve_spec w sp r ctx = (res, ctx')" and r: "in_package r"
    and w: "world_ranked rank w sp" and c: "ctx_ranked rank ctx"
  shows "ctx_ranked rank ctx' \<and> res \<noteq> Inl RecursionError"
proof -
  have key: "type_key r \<noteq> Inl RecursionError" by (simp add: type_key_def package_resource_name_Inl)
  show ?thesis
  proof (cases "is_registered ctx r")
    case (Inl e)
    then show ?thesis using ret c key by (cases "type_key r") (auto simp: retrieve_spec_def sbind_def is_registered_alt)
  next
    case reg: (Inr b)
    show ?thesis
    proof (cases b)
      case True
      with reg have "is_registered ctx r = Inr True" by simp
      then obtain s where "get_registered ctx r = Inr s" by (auto simp: ctx.has_True_iff)
      then show ?thesis using ret reg True c by (auto simp: retrieve_spec_def sbind_def)
    next
      case False
      obtain x d where l: "load_msg_by_type w r sp ctx = (x, d)" by fastforce
      show ?thesis
      proof (cases x)
        case (Inl e)
        have "d = ctx" using l Inl qualified_not_header [OF r]
          by (auto simp: load_msg_by_type_def load_msg_from_file_def sbind_eq_Inl
              split: prod.splits dest: load_msg_from_string_Inl)
        then show ?thesis using ret reg False l Inl c load_msg_by_type_no_recursion_error [of w r sp ctx]
          by (auto simp: retrieve_spec_def sbind_def)
      next
        case (Inr s)
        from l Inr qualified_not_header [OF r] obtain f body d0 where
          l0: "load_msg_from_string w body r ctx = (Inr s, d0)" and d: "d = set_file r f d0"
          by (auto simp: load_msg_by_type_def load_msg_from_file_def sbind_eq_Inr split: prod.splits)
        from l0 have rg: "register r s ctx = (Inr (), d0)" by (rule load_msg_from_string_Inr)
        have gd: "get_registered d r = Inr s" using ctx.get_put_same [OF rg] by (simp add: d)
        obtain y e where rr: "register r s d = (y, e)" by fastforce
        note re = re_register [OF gd rr]
        have fin: "ctx' = e" "res = Inr s" using ret reg False l Inr rr re
          by (auto simp: retrieve_spec_def sbind_def split: prod.splits sum.splits)
        have "deps_below rank r s" using w r l Inr by (auto simp: world_ranked_def)
        moreover have "u = r" if "in_package u" "type_key u = type_key r" for u
          using type_key_in_package_inj [OF r that] ctx.get_Inr_key [OF gd] by blast
        ultimately have "ctx_ranked rank ctx'"
          using c re fin ctx.get_put [OF rg] by (auto simp: ctx_ranked_def d split: if_splits)
        then show ?thesis using fin by simp
      qed
    qed
  qed
qed

text \<open>What the recursive call has to do for the loop to end, with \<open>k\<close> calls left.\<close>

definition rec_ends :: "(string \<Rightarrow> nat) \<Rightarrow> nat \<Rightarrow> (msgspec \<Rightarrow> (msg_context, string list) act) \<Rightarrow> bool" where
  "rec_ends rank k rec \<longleftrightarrow> (\<forall>s c u c'. rec s c = (u, c') \<longrightarrow> spec_ok s \<longrightarrow>
     get_registered c (ms_full_name s) = Inr s \<longrightarrow> dinv c \<longrightarrow>
     ctx_ranked rank c \<longrightarrow> (\<forall>d \<in> set (spec_deps s). rank d < k) \<longrightarrow>
     ctx_ranked rank c' \<and> u \<noteq> Inl RecursionError)"

lemma load_type_depend_ends:
  assumes w: "world_ranked rank w sp" and ends: "rec_ends rank k rec"
    and run: "load_type_depend w rec pkg sp ds t c = (y, d)"
    and inv: "dinv c" "ctx_ranked rank c" and r: "r = resolve_type (bare_msg_type t) pkg"
    and q: "is_builtin r \<or> in_package r \<and> rank r \<le> k"
  shows "ctx_ranked rank d \<and> y \<noteq> Inl RecursionError"
proof (cases "is_builtin r")
  case True
  then show ?thesis using run inv by (auto simp: load_type_depend_def r [symmetric])
next
  case False
  then have ip: "in_package r" and rk: "rank r \<le> k" using q by auto
  obtain z e where ret: "retrieve_spec w sp r c = (z, e)" by fastforce
  note rr = retrieve_spec_ranked [OF ret ip w inv(2)]
  note rs = retrieve_spec_step [OF ret ip inv(1)]
  show ?thesis
  proof (cases z)
    case (Inl err)
    then show ?thesis using run False ret rr
      by (auto simp: load_type_depend_def r [symmetric] Let_def sbind_def)
  next
    case (Inr s)
    obtain u f where rc: "rec s e = (u, f)" by fastforce
    have "deps_below rank r s" using rr rs ip Inr by (auto simp: ctx_ranked_def)
    then have "\<forall>d \<in> set (spec_deps s). rank d < k" using rk by (fastforce simp: deps_below_def)
    moreover have "spec_ok s" "dinv e" "ctx_ranked rank e" "get_registered e (ms_full_name s) = Inr s"
      using rs rr Inr by auto
    ultimately have "ctx_ranked rank f \<and> u \<noteq> Inl RecursionError"
      using ends rc unfolding rec_ends_def by blast
    then show ?thesis using run False ret Inr rr rc
      by (cases u) (auto simp: load_type_depend_def r [symmetric] Let_def sbind_def split: if_splits)
  qed
qed

lemma load_types_ends:
  assumes w: "world_ranked rank w sp" and ends: "rec_ends rank k rec" and rec: "rec_ok rec"
    and "sfoldl (load_type_depend w rec pkg sp) ds ts c = (x, c')" "dinv c" "ctx_ranked rank c"
    and "\<forall>t \<in> set ts. let r = resolve_type (bare_msg_type t) pkg in is_builtin r \<or> in_package r \<and> rank r \<le> k"
  shows "ctx_ranked rank c' \<and> x \<noteq> Inl RecursionError"
  using assms(4-)
proof (induction ts arbitrary: ds c)
  case (Cons t ts)
  let ?r = "resolve_type (bare_msg_type t) pkg"
  obtain y d where one: "load_type_depend w rec pkg sp ds t c = (y, d)" by fastforce
  have q: "is_builtin ?r \<or> in_package ?r \<and> rank ?r \<le> k" using Cons.prems(4) by (simp add: Let_def)
  note y = load_type_depend_ends [OF w ends one Cons.prems(2,3) refl q]
  have d: "dinv d" using load_type_depend_step [OF rec one Cons.prems(2) refl] q by blast
  show ?case
  proof (cases y)
    case (Inl err)
    then show ?thesis using Cons.prems(1) one y by (auto simp: sbind_def)
  next
    case (Inr ds1)
    then have "sfoldl (load_type_depend w rec pkg sp) ds1 ts d = (x, c')"
      using Cons.prems(1) one by (simp add: sbind_def)
    then show ?thesis using Cons.IH Cons.prems(4) y d by simp
  qed
qed auto

lemma load_types_builtin:
  "\<forall>t \<in> set ts. is_builtin (resolve_type (bare_msg_type t) pkg) \<Longrightarrow>
     sfoldl (load_type_depend w rec pkg sp) ds ts ctx = (Inr ds, ctx)"
  by (induction ts) (auto simp: load_type_depend_def sbind_def)

lemma load_msg_depends_terminates:
  assumes w: "world_ranked rank w sp"
    and "load_msg_depends (Suc k) w spec sp ctx = (res, ctx')" and "spec_ok spec" "dinv ctx"
    and "get_registered ctx (ms_full_name spec) = Inr spec" and "ctx_ranked rank ctx" and "\<forall>d \<in> set (spec_deps spec). rank d < k"
  shows "ctx_ranked rank ctx' \<and> res \<noteq> Inl RecursionError"
  using assms(2-)
proof (induction k arbitrary: spec ctx res ctx')
  case (0 spec)
  from 0 have "\<forall>t \<in> set (ms_types spec). is_builtin (resolve_type (bare_msg_type t) (ms_package spec))"
    by (auto simp: spec_deps_def field_dep_def filter_empty_conv)
  from load_types_builtin [OF this] 0 show ?case
    by (auto simp: sbind_def spec_ok_def ctx_ranked_def)
next
  case (Suc k)
  let ?rec = "\<lambda>depspec. load_msg_depends (Suc k) w depspec sp"
  obtain rec where rec: "rec = ?rec" by simp
  have ends: "rec_ends rank k rec" unfolding rec_ends_def rec using Suc.IH by blast
  have ok: "rec_ok rec"
    unfolding rec_ok_def rec using load_msg_depends_step by (metis option.distinct(1))
  obtain x c where l: "sfoldl (load_type_depend w rec (ms_package spec) sp) [] (ms_types spec) ctx = (x, c)"
    by fastforce
  have "\<forall>t \<in> set (ms_types spec). let r = resolve_type (bare_msg_type t) (ms_package spec)
      in is_builtin r \<or> in_package r \<and> rank r \<le> k"
    using Suc.prems(2,6) by (fastforce simp: spec_ok_def spec_deps_def field_dep_def Let_def)
  from load_types_ends [OF w ends ok l Suc.prems(3,5) this]
  have "ctx_ranked rank c \<and> x \<noteq> Inl RecursionError" .
  moreover have "(res, ctx') = sbind (\<lambda>_. (x, c)) (\<lambda>depends. if ms_full_name spec = [] then sraise AssertionError
     else sbind (smodify (set_depends (ms_full_name spec) depends)) (\<lambda>_. sret depends)) ctx"
    using Suc.prems(1) l unfolding rec load_msg_depends.simps(2) [of "Suc k"] by (simp add: sbind_def)
  ultimately show ?case
    by (cases x) (auto simp: sbind_def ctx_ranked_def split: if_splits)
qed

section \<open>The transitive dependencies\<close>

lemma get_all_depends_error:
  "deps_closed ctx \<Longrightarrow> get_depends ctx t \<noteq> None \<Longrightarrow> get_all_depends k ctx t = Inl e \<Longrightarrow> e = RecursionError"
proof (induction k arbitrary: t e)
  case (Suc k)
  then obtain ds where ds: "get_depends ctx t = Some ds" by auto
  with Suc.prems(3) have "rfoldl (\<lambda>all_deps d. rbind (get_all_depends k ctx d) (\<lambda>sub. Inr (all_deps @ [d] @ sub))) [] ds = Inl e"
    by simp
  from rfoldl_Inl [OF this] obtain acc d where "d \<in> set ds"
    "rbind (get_all_depends k ctx d) (\<lambda>sub. Inr (acc @ [d] @ sub)) = Inl e" by blast
  then have "get_all_depends k ctx d = Inl e" "get_depends ctx d \<noteq> None"
    using Suc.prems(1) ds by (auto simp: rbind_eq_Inl deps_closed_def)
  then show ?case using Suc.IH Suc.prems(1) by blast
qed simp

lemma rfoldl_all_deps:
  assumes "\<forall>d \<in> set ds. \<exists>l. f d = Inr l \<and> set l = R d"
  shows "\<exists>l. rfoldl (\<lambda>acc d. rbind (f d) (\<lambda>sub. Inr (acc @ [d] @ sub))) acc ds = Inr l \<and>
    set l = set acc \<union> (\<Union>d \<in> set ds. insert d (R d))"
  using assms
proof (induction ds arbitrary: acc)
  case (Cons d ds)
  then obtain l where "f d = Inr l" "set l = R d" by auto
  then show ?case using Cons.IH [of "acc @ [d] @ l"] Cons.prems by auto
qed simp

lemma reachable_unfold:
  assumes "get_depends ctx t = Some ds"
  shows "{d. (t, d) \<in> (dep_rel ctx)\<^sup>+} = (\<Union>d \<in> set ds. insert d {x. (d, x) \<in> (dep_rel ctx)\<^sup>+})"
proof -
  have one: "(t, d) \<in> dep_rel ctx \<longleftrightarrow> d \<in> set ds" for d using assms by (auto simp: dep_rel_def)
  show ?thesis
  proof (intro subset_antisym subsetI)
    fix x assume "x \<in> {d. (t, d) \<in> (dep_rel ctx)\<^sup>+}"
    then obtain z where "(t, z) \<in> dep_rel ctx" "(z, x) \<in> (dep_rel ctx)\<^sup>*" by (auto dest: tranclD)
    then show "x \<in> (\<Union>d \<in> set ds. insert d {x. (d, x) \<in> (dep_rel ctx)\<^sup>+})"
      using one by (auto simp: rtrancl_eq_or_trancl)
  qed (use one in \<open>auto intro: trancl_into_trancl2\<close>)
qed

lemma get_all_depends_rank:
  assumes "\<And>t d. (t, d) \<in> dep_rel ctx \<Longrightarrow> rank d < (rank t :: nat)" and "deps_closed ctx"
    and "get_depends ctx t \<noteq> None" and "rank t < k"
  shows "\<exists>l. get_all_depends k ctx t = Inr l \<and> set l = {d. (t, d) \<in> (dep_rel ctx)\<^sup>+}"
  using assms(3,4)
proof (induction k arbitrary: t)
  case (Suc k)
  then obtain ds where ds: "get_depends ctx t = Some ds" by auto
  have "\<exists>l. get_all_depends k ctx d = Inr l \<and> set l = {x. (d, x) \<in> (dep_rel ctx)\<^sup>+}" if "d \<in> set ds" for d
  proof (rule Suc.IH)
    show "get_depends ctx d \<noteq> None" using that ds assms(2) by (auto simp: deps_closed_def)
    have "(t, d) \<in> dep_rel ctx" using that ds by (auto simp: dep_rel_def)
    then show "rank d < k" using assms(1) Suc.prems(2) by fastforce
  qed
  then show ?case using rfoldl_all_deps [of ds "get_all_depends k ctx" "\<lambda>d. {x. (d, x) \<in> (dep_rel ctx)\<^sup>+}" "[]"]
      ds by (simp add: reachable_unfold)
qed simp

lemma rfoldl_all_deps_Inr:
  "rfoldl (\<lambda>acc d. rbind (f d) (\<lambda>sub. Inr (acc @ [d] @ sub))) acc ds = Inr l \<Longrightarrow> d \<in> set ds \<Longrightarrow> \<exists>l'. f d = Inr l'"
  by (induction ds arbitrary: acc) (auto simp: rbind_eq_Inr)

text \<open>Whatever number of calls was allowed, a list that is returned is the right one.\<close>

lemma get_all_depends_sound:
  "deps_closed ctx \<Longrightarrow> get_all_depends k ctx t = Inr l \<Longrightarrow> set l = {d. (t, d) \<in> (dep_rel ctx)\<^sup>+}"
proof (induction k arbitrary: t l)
  case (Suc k)
  then obtain ds where ds: "get_depends ctx t = Some ds"
    "rfoldl (\<lambda>all_deps d. rbind (get_all_depends k ctx d) (\<lambda>sub. Inr (all_deps @ [d] @ sub))) [] ds = Inr l"
    by (auto split: option.splits)
  have "\<exists>l. get_all_depends k ctx d = Inr l \<and> set l = {x. (d, x) \<in> (dep_rel ctx)\<^sup>+}" if "d \<in> set ds" for d
    using rfoldl_all_deps_Inr [OF ds(2) that] Suc.IH [OF Suc.prems(1), of d] by blast
  then show ?case using rfoldl_all_deps [of ds "get_all_depends k ctx" "\<lambda>d. {x. (d, x) \<in> (dep_rel ctx)\<^sup>+}" "[]"]
      ds by (simp add: reachable_unfold)
qed simp

text \<open>Without a cycle, as many nested calls as there are recorded types are enough.\<close>

lemma acyclic_rank:
  assumes "deps_closed ctx" "deps_acyclic ctx"
  defines "rank \<equiv> \<lambda>t. card {d. (t, d) \<in> (dep_rel ctx)\<^sup>+}"
  shows "(t, d) \<in> dep_rel ctx \<Longrightarrow> rank d < rank t" and "rank t \<le> card (dom (dependencies ctx))"
proof -
  have "Range (dep_rel ctx) \<subseteq> dom (dependencies ctx)"
    using assms(1) by (auto simp: dep_rel_def deps_closed_def get_depends_def)
  then have sub: "{d. (t, d) \<in> (dep_rel ctx)\<^sup>+} \<subseteq> dom (dependencies ctx)" for t
    by (metis (no_types, lifting) RangeI mem_Collect_eq subset_iff trancl_range)
  then have fin: "finite {d. (t, d) \<in> (dep_rel ctx)\<^sup>+}" for t
    using assms(2) finite_subset unfolding deps_acyclic_def by blast
  show "rank t \<le> card (dom (dependencies ctx))"
    unfolding rank_def using sub assms(2) by (intro card_mono) (auto simp: deps_acyclic_def)
  assume td: "(t, d) \<in> dep_rel ctx"
  have "{x. (d, x) \<in> (dep_rel ctx)\<^sup>+} \<subset> {x. (t, x) \<in> (dep_rel ctx)\<^sup>+}"
    using td assms(2) by (auto simp: deps_acyclic_def acyclic_def intro: trancl_into_trancl2)
  then show "rank d < rank t" unfolding rank_def by (rule psubset_card_mono [OF fin])
qed

text \<open>With the invariant alone, the transitive dependencies are computed.\<close>

lemma get_all_depends_total:
  assumes "dinv ctx" "get_depends ctx t \<noteq> None" "card (dom (dependencies ctx)) < k"
  shows "\<exists>l. get_all_depends k ctx t = Inr l \<and> set l = {d. (t, d) \<in> (dep_rel ctx)\<^sup>+}"
proof -
  have inv: "deps_closed ctx" "deps_acyclic ctx" using assms(1) by (auto simp: dinv_def)
  show ?thesis
    by (rule get_all_depends_rank [OF acyclic_rank(1) [OF inv] inv(1) assms(2)])
       (use acyclic_rank(2) [OF inv, of t] assms(3) in auto)
qed

text \<open>What is known of a type reachable from another one.\<close>

lemma dep_reachable:
  assumes "dinv ctx" "(t, d) \<in> (dep_rel ctx)\<^sup>+"
  shows "\<exists>s. get_registered ctx d = Inr s \<and> ms_full_name s = d \<and> get_depends ctx d = Some (spec_deps s)"
proof -
  have dc: "deps_closed ctx" "ctx_ok ctx" using assms(1) by (auto simp: dinv_def)
  obtain u us where u: "get_depends ctx u = Some us" "d \<in> set us"
    using tranclD2 [OF assms(2)] by (auto simp: dep_rel_def)
  then obtain td where td: "get_depends ctx d = Some td"
    using dc(1) unfolding deps_closed_def by (metis option.exhaust)
  then obtain s where s: "get_registered ctx d = Inr s" "td = spec_deps s"
    using dc(1) unfolding deps_closed_def by blast
  obtain su where "get_registered ctx u = Inr su" "us = spec_deps su"
    using dc(1) u(1) unfolding deps_closed_def by blast
  then have "in_package d" using dc(2) u(2) by (auto simp: ctx_ok_def spec_ok_def)
  then show ?thesis using full_name_unique [OF dc(2) s(1)] s td by simp
qed

text \<open>Loading a description under a new name of a package.\<close>

lemma load_new_msg_step:
  assumes run: "load_msg_from_string w txt r ctx = (Inr s, ctx')" and r: "in_package r"
    and new: "\<nexists>s. get_registered ctx r = Inr s" and inv: "dinv ctx"
  shows "dinv ctx' \<and> spec_ok s \<and> ms_full_name s = r \<and> get_registered ctx' r = Inr s \<and>
    dependencies ctx' = dependencies ctx \<and>
    (\<forall>u. get_registered ctx' u = (if type_key u = type_key r then Inr s else get_registered ctx u))"
proof -
  from run obtain p b where pb: "package_resource_name r = Inr (p, b)"
    and fn: "ms_full_name s = r" and reg: "register r s ctx = (Inr (), ctx')"
    by (rule load_msg_from_string_Inr)
  have k: "type_key r = Inr (p, b)" using pb r by (simp add: type_key_def in_package_def)
  have p: "p \<noteq> []" "CHR ''['' \<notin> set p"
    using type_key_qualified [OF r k] r by (auto simp: in_package_def)
  have sok: "spec_ok s" using load_spec_ok [OF run pb p] .
  note get = ctx.get_put [OF reg]
  have dep: "dependencies ctx' = dependencies ctx" using register_frame [OF reg] by simp
  have none: "get_registered ctx u \<noteq> Inr x" if "type_key u = type_key r" for u x
    using that new k by (auto simp: get_registered_alt)
  have "ctx_ok ctx'" using inv r sok fn by (auto simp: dinv_def ctx_ok_def get in_package_def split: if_splits)
  moreover have "get_registered ctx t = Inr x \<Longrightarrow> get_registered ctx' t = Inr x" for t x
    using get none by auto
  then have "deps_closed ctx'"
    using inv by (simp add: dinv_def deps_closed_def get_depends_def dep) blast
  moreover have "deps_acyclic ctx'" using inv deps_acyclic_cong [OF dep] by (simp add: dinv_def)
  ultimately show ?thesis using sok fn get dep by (simp add: dinv_def)
qed

section \<open>Properties\<close>

text \<open>C22: reading one description. On success the specification is registered under its name and
  no other answer of the registry changes; its names are distinct and its fields parsed; its types are
  builtin or carry a package, so that resolving one again changes nothing.\<close>

theorem load_msg_from_string_spec:
  assumes "load_msg_from_string w txt name ctx = (Inr spec, ctx')" and "in_package name"
  shows "msgspec_ok spec \<and> ms_full_name spec = name \<and> ms_text spec = txt \<and>
    (\<forall>t \<in> set (ms_types spec). resolve_type (bare_msg_type t) (ms_package spec) = bare_msg_type t \<and>
       (is_builtin (bare_msg_type t) \<or> in_package (bare_msg_type t))) \<and>
    (\<forall>u. get_registered ctx' u = (if type_key u = type_key name then Inr spec else get_registered ctx u)) \<and>
    files ctx' = files ctx \<and> dependencies ctx' = dependencies ctx"
proof -
  from assms(1) obtain p b where pb: "package_resource_name name = Inr (p, b)"
    and s: "msgspec_ok spec" "ms_full_name spec = name" "ms_text spec = txt"
    and reg: "register name spec ctx = (Inr (), ctx')"
    by (rule load_msg_from_string_Inr)
  have k: "type_key name = Inr (p, b)" using pb assms(2) by (simp add: type_key_def in_package_def)
  have p: "p \<noteq> []" "CHR ''['' \<notin> set p"
    using type_key_qualified [OF assms(2) k] assms(2) by (auto simp: in_package_def)
  have "spec_ok spec" using load_spec_ok [OF assms(1) pb p] .
  then have "resolve_type (bare_msg_type t) (ms_package spec) = bare_msg_type t \<and>
      (is_builtin (bare_msg_type t) \<or> in_package (bare_msg_type t))" if "t \<in> set (ms_types spec)" for t
    using that by (force simp: spec_ok_def spec_deps_def field_dep_def)
  then show ?thesis using s ctx.get_put [OF reg] register_frame [OF reg] by blast
qed

theorem load_msg_from_string_spec_witness:
  "\<exists>spec ctx'. load_msg_from_string \<lparr>w_files = Map.empty, w_literal = \<lambda>_. None\<rparr> ''B[4] b'' ''m/A'' MsgContext = (Inr spec, ctx') \<and>
     in_package ''m/A'' \<and> get_registered ctx' ''m/A'' = Inr spec \<and> ms_types spec = [''m/B[4]'']"
proof -
  let ?w = "\<lparr>w_files = Map.empty, w_literal = \<lambda>_. None\<rparr>"
  have "case fst (load_msg_from_string ?w ''B[4] b'' ''m/A'' MsgContext) of Inl _ \<Rightarrow> False
      | Inr spec \<Rightarrow> ms_types spec = [''m/B[4]'']" by code_simp
  then obtain spec ctx' where l: "load_msg_from_string ?w ''B[4] b'' ''m/A'' MsgContext = (Inr spec, ctx')"
    and t: "ms_types spec = [''m/B[4]'']" by (auto split: sum.splits simp: fst_def split: prod.splits)
  moreover have "in_package ''m/A''" by (simp add: in_package_def)
  ultimately show ?thesis using load_msg_from_string_spec [OF l] by auto
qed

text \<open>Refusing one description. For a name with at most one separator the only exception is
  \<open>InvalidMsgSpec\<close>, and the context is unchanged.\<close>

theorem load_msg_from_string_refused:
  assumes "load_msg_from_string w txt name ctx = (Inl e, ctx')" and "count_list name SEP \<le> 1"
  shows "e = InvalidMsgSpec \<and> ctx' = ctx"
proof -
  obtain pb where "package_resource_name name = Inr pb"
    using assms(2) package_resource_name_Inl [of name] by (cases "package_resource_name name") auto
  from load_msg_from_string_error [OF assms(1) this] load_msg_from_string_Inl [OF assms(1)]
  show ?thesis by simp
qed

theorem load_msg_from_string_refused_witness:
  "load_msg_from_string \<lparr>w_files = Map.empty, w_literal = \<lambda>_. None\<rparr> ''int8 X=128'' ''m/A'' MsgContext = (Inl InvalidMsgSpec, MsgContext)"
proof -
  let ?r = "load_msg_from_string \<lparr>w_files = Map.empty, w_literal = \<lambda>_. None\<rparr> ''int8 X=128'' ''m/A'' MsgContext"
  have "case fst ?r of Inl _ \<Rightarrow> True | Inr _ \<Rightarrow> False" by code_simp
  then obtain e c where "?r = (Inl e, c)" by (cases ?r) (auto split: sum.splits)
  then show ?thesis using load_msg_from_string_refused [of _ _ "''m/A''"] by simp
qed

end
