(* ===== verification/Gentools.thy ===== *)
theory Gentools
  imports Dependencies
begin

text \<open>
  The text that identifies a message: \<open>genmsg/gentools.py\<close> (md5 text, md5 sum and full
  text) and \<open>genmsg/deps.py\<close> (the files a description depends on). The hash function of
  \<open>hashlib\<close> is an argument \<open>H\<close> of the definitions: a \<open>hexdigest\<close> is \<open>H\<close> of the
  concatenation of what was passed to \<open>update\<close>. As in the loader, recursive functions take the
  number of nested calls that the interpreter allows.
\<close>

section \<open>The md5 text and the md5 sum\<close>

definition md5_constant_line :: "const_decl \<Rightarrow> string" where
  "md5_constant_line c = c_type c @ '' '' @ c_name c @ ''='' @ c_val_text c @ [newline]"

text \<open>The line of one field; \<open>md5_of\<close> stands for the recursive call on the embedded type.\<close>

definition md5_field_line :: "msg_context \<Rightarrow> (msgspec \<Rightarrow> string res) \<Rightarrow> string \<times> string \<Rightarrow> string res" where
  "md5_field_line ctx md5_of = (\<lambda>(ty, name).
     let msg_type = bare_msg_type ty in
     if is_builtin msg_type then Inr (ty @ '' '' @ name @ [newline])
     else rbind (package_resource_name msg_type) (\<lambda>_.
          rbind (get_registered ctx msg_type) (\<lambda>sub_spec.
          rbind (md5_of sub_spec) (\<lambda>sub_md5. Inr (sub_md5 @ '' '' @ name @ [newline])))))"

primrec compute_md5_text :: "nat \<Rightarrow> (string \<Rightarrow> string) \<Rightarrow> msg_context \<Rightarrow> msgspec \<Rightarrow> string res" where
  "compute_md5_text 0 H ctx spec = Inl RecursionError"
| "compute_md5_text (Suc k) H ctx spec =
     rbind (rmap (md5_field_line ctx (\<lambda>sub. map_sum id H (compute_md5_text k H ctx sub))) (ms_fields spec))
       (\<lambda>lines. Inr (strip (concat (map md5_constant_line (ms_constants spec)) @ concat lines)))"

fun compute_hash :: "nat \<Rightarrow> (string \<Rightarrow> string) \<Rightarrow> msg_context \<Rightarrow> any_spec \<Rightarrow> string \<Rightarrow> string res" where
  "compute_hash k H ctx (Msg spec) hash =
     rbind (compute_md5_text k H ctx spec) (\<lambda>t. Inr (H (hash @ t)))"
| "compute_hash k H ctx (Srv spec) hash =
     rbind (compute_md5_text k H ctx (ss_request spec)) (\<lambda>t1.
     rbind (compute_md5_text k H ctx (ss_response spec)) (\<lambda>t2. Inr (H (hash @ t1 @ t2))))"

definition compute_md5 :: "nat \<Rightarrow> (string \<Rightarrow> string) \<Rightarrow> msg_context \<Rightarrow> any_spec \<Rightarrow> string res" where
  "compute_md5 k H ctx spec = compute_hash k H ctx spec []"

section \<open>The full text\<close>

fun unique_deps_loop :: "string list \<Rightarrow> string list \<Rightarrow> string list" where
  "unique_deps_loop uniques [] = uniques"
| "unique_deps_loop uniques (d # ds) =
     unique_deps_loop (if d \<notin> set uniques then uniques @ [d] else uniques) ds"

definition unique_deps :: "string list \<Rightarrow> string list" where
  "unique_deps dep_list = unique_deps_loop [] dep_list"

definition full_text_sep :: string where
  "full_text_sep = replicate 80 CHR ''='' @ [newline]"

definition any_text :: "any_spec \<Rightarrow> string" where
  "any_text spec = (case spec of Msg m \<Rightarrow> ms_text m | Srv s \<Rightarrow> ss_text s)"

definition any_full_name :: "any_spec \<Rightarrow> string" where
  "any_full_name spec = (case spec of Msg m \<Rightarrow> ms_full_name m | Srv s \<Rightarrow> ss_full_name s)"

definition compute_full_text :: "nat \<Rightarrow> msg_context \<Rightarrow> any_spec \<Rightarrow> string res" where
  "compute_full_text k ctx spec =
     rbind (get_all_depends k ctx (any_full_name spec)) (\<lambda>deps.
     rbind (rmap (\<lambda>d. rbind (get_registered ctx d) (\<lambda>s.
              Inr (full_text_sep @ ''MSG: '' @ d @ [newline] @ ms_text s @ [newline]))) (unique_deps deps))
       (\<lambda>parts. Inr (slice_to (any_text spec @ [newline] @ concat parts) (- 1))))"

text \<open>The loop over the two extensions.\<close>

definition compute_full_type_name :: "string \<Rightarrow> string \<Rightarrow> string res" where
  "compute_full_type_name package_name file_name =
     (if endswith file_name EXT_MSG then
        Inr (package_name @ [SEP] @ slice_to file_name (- int (length EXT_MSG)))
      else if endswith file_name EXT_SRV then
        Inr (package_name @ [SEP] @ slice_to file_name (- int (length EXT_SRV)))
      else Inl MsgGenerationException)"

section \<open>The files a description depends on\<close>

definition deps_with_files :: "msg_context \<Rightarrow> string list \<Rightarrow> (string \<times> string option) set" where
  "deps_with_files ctx ds = (\<lambda>d. (d, get_file ctx d)) ` set ds"

definition invalid_to_generation :: "'a res \<Rightarrow> 'a res" where
  "invalid_to_generation r =
     rcatch r (\<lambda>e. if e = InvalidMsgSpec then Inl MsgGenerationException else Inl e)"

definition find_msg_dependencies_with_type :: "nat \<Rightarrow> world \<Rightarrow> string \<Rightarrow> string \<Rightarrow> search_path
    \<Rightarrow> (string \<times> string option) set res" where
  "find_msg_dependencies_with_type k w pkg_name msg_file search_paths =
     rbind (create_default w) (\<lambda>ctx0.
     rbind (compute_full_type_name pkg_name (path_basename msg_file)) (\<lambda>full_type_name.
     case load_msg_from_file w msg_file full_type_name ctx0 of (r1, ctx1) \<Rightarrow>
     rbind r1 (\<lambda>spec.
     case load_depends k w (Msg spec) search_paths ctx1 of (r2, ctx2) \<Rightarrow>
     rbind (invalid_to_generation r2) (\<lambda>_.
     rbind (get_all_depends k ctx2 full_type_name) (\<lambda>ds. Inr (deps_with_files ctx2 ds))))))"

definition find_msg_dependencies :: "nat \<Rightarrow> world \<Rightarrow> string \<Rightarrow> string \<Rightarrow> search_path \<Rightarrow> string option set res" where
  "find_msg_dependencies k w pkg_name msg_file search_paths =
     rbind (find_msg_dependencies_with_type k w pkg_name msg_file search_paths) (\<lambda>deps. Inr (snd ` deps))"

definition find_srv_dependencies_with_type :: "nat \<Rightarrow> world \<Rightarrow> string \<Rightarrow> string \<Rightarrow> search_path
    \<Rightarrow> (string \<times> string option) set res" where
  "find_srv_dependencies_with_type k w pkg_name msg_file search_paths =
     rbind (create_default w) (\<lambda>ctx0.
     rbind (compute_full_type_name pkg_name (path_basename msg_file)) (\<lambda>full_type_name.
     case load_srv_from_file w msg_file full_type_name ctx0 of (r1, ctx1) \<Rightarrow>
     rbind r1 (\<lambda>spec.
     case load_depends k w (Srv spec) search_paths ctx1 of (r2, ctx2) \<Rightarrow>
     rbind (invalid_to_generation r2) (\<lambda>_.
     rbind (get_all_depends k ctx2 (ms_full_name (ss_request spec))) (\<lambda>ds1.
     rbind (get_all_depends k ctx2 (ms_full_name (ss_response spec))) (\<lambda>ds2.
       Inr (deps_with_files ctx2 ds1 \<union> deps_with_files ctx2 ds2)))))))"

definition find_srv_dependencies :: "nat \<Rightarrow> world \<Rightarrow> string \<Rightarrow> string \<Rightarrow> search_path \<Rightarrow> string option set res" where
  "find_srv_dependencies k w pkg_name msg_file search_paths =
     rbind (find_srv_dependencies_with_type k w pkg_name msg_file search_paths) (\<lambda>deps. Inr (snd ` deps))"

section \<open>Lemmas\<close>

lemma unique_deps_loop_alt:
  "unique_deps_loop us ds = us @ rev (remdups (rev (filter (\<lambda>d. d \<notin> set us) ds)))"
proof (induction ds arbitrary: us)
  case (Cons d ds)
  show ?case
  proof (cases "d \<in> set us")
    case True
    then show ?thesis using Cons.IH by simp
  next
    case False
    have f: "filter (\<lambda>x. x \<notin> set us \<and> x \<noteq> d) ds = filter (\<lambda>x. x \<noteq> d) (filter (\<lambda>x. x \<notin> set us) ds)"
      by (simp add: conj_commute)
    have r: "rev (remdups (rev xs @ [d])) = d # rev (remdups (rev (filter (\<lambda>x. x \<noteq> d) xs)))" for xs :: "string list"
    proof -
      have "remdups (ys @ [d]) = remdups (filter (\<lambda>x. x \<noteq> d) ys) @ [d]" for ys :: "string list"
        by (induction ys) auto
      then show ?thesis by (simp add: rev_filter [symmetric])
    qed
    show ?thesis using False Cons.IH [of "us @ [d]"] f r by (simp add: conj_commute)
  qed
qed simp

lemma unique_deps_alt: "unique_deps ds = rev (remdups (rev ds))"
  by (simp add: unique_deps_def unique_deps_loop_alt)

lemma set_unique_deps [simp]: "set (unique_deps ds) = set ds"
  by (simp add: unique_deps_alt)

lemma rmap_total: "\<forall>x \<in> set xs. \<exists>y. f x = Inr y \<Longrightarrow> \<exists>ys. rmap f xs = Inr ys"
proof (induction xs)
  case (Cons x xs)
  then obtain y ys where "f x = Inr y" "rmap f xs = Inr ys" by auto
  then show ?case by simp
qed simp

lemma rmap_cong: "(\<And>x. x \<in> set xs \<Longrightarrow> f x = g x) \<Longrightarrow> rmap f xs = rmap g xs"
  by (induction xs) auto

text \<open>In a closed context a recorded, registered specification has an md5 text.\<close>

lemma compute_md5_text_returns:
  assumes dinv: "dinv ctx" and rank: "\<And>t d. (t, d) \<in> dep_rel ctx \<Longrightarrow> rank d < (rank t :: nat)"
    and "get_registered ctx t = Inr spec" "get_depends ctx t \<noteq> None" "rank t < k"
  shows "\<exists>txt. compute_md5_text k H ctx spec = Inr txt"
  using assms(3-)
proof (induction k arbitrary: t spec)
  case (Suc k)
  obtain ds where ds: "get_depends ctx t = Some ds" using Suc.prems(2) by auto
  then have "\<exists>s. get_registered ctx t = Inr s \<and> ds = spec_deps s"
    using dinv unfolding dinv_def deps_closed_def by blast
  then have sd: "ds = spec_deps spec" using Suc.prems(1) by simp
  have ok: "spec_ok spec" using dinv Suc.prems(1) by (auto simp: dinv_def ctx_ok_def)
  let ?f = "md5_field_line ctx (\<lambda>sub. map_sum id H (compute_md5_text k H ctx sub))"
  have "\<exists>y. ?f x = Inr y" if "x \<in> set (ms_fields spec)" for x
  proof -
    obtain ty n where x: "x = (ty, n)" by (cases x)
    then have "ty \<in> set (ms_types spec)" using that by (auto simp: ms_fields_def dest: set_zip_leftD)
    then have fd: "is_builtin (bare_msg_type ty) \<or> bare_msg_type ty \<in> set ds"
      using ok sd by (force simp: spec_ok_def spec_deps_def)
    show ?thesis
    proof (cases "is_builtin (bare_msg_type ty)")
      case True
      then show ?thesis by (simp add: x md5_field_line_def)
    next
      case False
      let ?d = "bare_msg_type ty"
      have d: "?d \<in> set ds" using False fd by simp
      then have "get_depends ctx ?d \<noteq> None" "\<exists>s. get_registered ctx ?d = Inr s"
        using dinv ds by (auto simp: dinv_def deps_closed_def)
      then obtain s where s: "get_registered ctx ?d = Inr s" by auto
      have "(t, ?d) \<in> dep_rel ctx" using d ds by (auto simp: dep_rel_def)
      then have "rank ?d < k" using rank Suc.prems(3) by fastforce
      then obtain v where "compute_md5_text k H ctx s = Inr v"
        using Suc.IH s \<open>get_depends ctx ?d \<noteq> None\<close> by blast
      moreover obtain pb where "package_resource_name ?d = Inr pb"
        using ctx.get_Inr_key [OF s] by (auto simp: type_key_def)
      ultimately show ?thesis using False s by (simp add: x md5_field_line_def)
    qed
  qed
  then have "\<exists>ls. rmap ?f (ms_fields spec) = Inr ls" by (intro rmap_total ballI)
  then obtain ls where "rmap ?f (ms_fields spec) = Inr ls" ..
  then show ?case by simp
qed simp

text \<open>The md5 text reads nothing of a specification but its constants, types and names.\<close>

lemma compute_md5_text_cong:
  "ms_types a = ms_types b \<Longrightarrow> ms_names a = ms_names b \<Longrightarrow>
   map md5_constant_line (ms_constants a) = map md5_constant_line (ms_constants b) \<Longrightarrow>
   compute_md5_text k H ctx a = compute_md5_text k H ctx b"
  by (cases k) (simp_all add: ms_fields_def)

section \<open>The default context\<close>

lemma builtin_field_lines:
  "load_line w [] (ts, ns, cs) ''uint32 secs'' = Inr (ts @ [''uint32''], ns @ [''secs''], cs)"
  "load_line w [] (ts, ns, cs) ''uint32 nsecs'' = Inr (ts @ [''uint32''], ns @ [''nsecs''], cs)"
  "load_line w [] (ts, ns, cs) ''int32 secs'' = Inr (ts @ [''int32''], ns @ [''secs''], cs)"
  "load_line w [] (ts, ns, cs) ''int32 nsecs'' = Inr (ts @ [''int32''], ns @ [''nsecs''], cs)"
  by (simp_all add: load_line_def load_field_line_def strip_comments_def line_words_def strip_def
      strip_by_def is_space_def is_valid_msg_field_name_def is_legal_resource_base_name_def
      match_first_rest_def is_ascii_alpha_def is_word_char_def is_digit_def is_valid_msg_type_def
      is_legal_resource_name_def startswith_def HEADER_def slice_from_def slice_idx_def)

definition time_spec :: "string \<Rightarrow> string \<Rightarrow> string \<Rightarrow> msgspec" where
  "time_spec ty text full_name =
     \<lparr>ms_types = [ty, ty], ms_names = [''secs'', ''nsecs''], ms_constants = [], ms_header_present = False,
      ms_text = text, ms_full_name = full_name, ms_short_name = full_name, ms_package = [],
      ms_parsed_fields = map (\<lambda>n. \<lparr>f_name = n, f_type = ty, f_base_type = ty, f_is_array = False,
        f_array_len = None, f_is_header = False, f_is_builtin = True\<rparr>) [''secs'', ''nsecs'']\<rparr>"

lemma split_time_msg:
  "split_on newline TIME_MSG = [''uint32 secs'', ''uint32 nsecs'']"
  "split_on newline DURATION_MSG = [''int32 secs'', ''int32 nsecs'']"
  by (simp_all add: TIME_MSG_def DURATION_MSG_def)

lemma builtin_int32: "is_builtin ''uint32''" "is_builtin ''int32''"
  by (simp_all add: is_builtin_def BUILTIN_TYPES_def PRIMITIVE_TYPES_def)

lemma load_time_msg:
  "load_msg_from_string w TIME_MSG TIME ctx =
     sbind (register TIME (time_spec ''uint32'' TIME_MSG TIME))
       (\<lambda>_. sret (time_spec ''uint32'' TIME_MSG TIME)) ctx"
  "load_msg_from_string w DURATION_MSG DURATION ctx =
     sbind (register DURATION (time_spec ''int32'' DURATION_MSG DURATION))
       (\<lambda>_. sret (time_spec ''int32'' DURATION_MSG DURATION)) ctx"
  by (simp_all add: load_msg_from_string_def split_time_msg builtin_field_lines TIME_def DURATION_def
      MsgSpec_def Field_def parse_type_def is_header_type_def type_name_defs builtin_int32 time_spec_def Let_def)

lemma type_key_time: "type_key TIME = Inr ([], TIME)" "type_key DURATION = Inr ([], DURATION)"
  by (simp_all add: type_key_def TIME_def DURATION_def)

lemma spec_ok_time: "is_builtin ty \<Longrightarrow> full_name \<noteq> [] \<Longrightarrow> spec_ok (time_spec ty text full_name)"
  by (simp add: spec_ok_def spec_deps_def field_dep_def time_spec_def resolve_type_def builtin_no_special Let_def)

text \<open>\<open>MsgContext.create_default()\<close> returns, and its context satisfies the invariant.\<close>

lemma create_default_ok:
  obtains ctx where "create_default w = Inr ctx" "dinv ctx" "dependencies ctx = Map.empty"
    "\<And>t s. get_registered ctx t = Inr s \<longleftrightarrow>
       (type_key t = Inr ([], TIME) \<and> s = time_spec ''uint32'' TIME_MSG TIME \<or>
        type_key t = Inr ([], DURATION) \<and> s = time_spec ''int32'' DURATION_MSG DURATION)"
proof -
  let ?t = "time_spec ''uint32'' TIME_MSG TIME" and ?d = "time_spec ''int32'' DURATION_MSG DURATION"
  obtain c1 where c1: "register TIME ?t MsgContext = (Inr (), c1)"
    using ctx.put_returns [OF type_key_time(1)] by blast
  obtain c2 where c2: "register DURATION ?d c1 = (Inr (), c2)"
    using ctx.put_returns [OF type_key_time(2)] by blast
  have cd: "create_default w = Inr c2"
    using c1 c2 by (simp add: create_default_def load_time_msg sbind_def)
  have dep: "dependencies c2 = Map.empty"
    using register_frame [OF c1] register_frame [OF c2] by (simp add: MsgContext_def)
  have empty: "get_registered MsgContext t \<noteq> Inr s" for t s
    by (cases "type_key t") (auto simp: get_registered_alt reg_lookup_def MsgContext_def)
  have ne: "TIME \<noteq> DURATION" by (simp add: TIME_def DURATION_def)
  have get: "get_registered c2 t = Inr s \<longleftrightarrow>
       (type_key t = Inr ([], TIME) \<and> s = ?t \<or> type_key t = Inr ([], DURATION) \<and> s = ?d)" for t s
    using ctx.get_put [OF c1, of t] ctx.get_put [OF c2, of t] empty [of t s] ne
    by (auto simp: type_key_time)
  have names: "ms_full_name ?t = TIME" "ms_full_name ?d = DURATION" by (simp_all add: time_spec_def)
  have "CHR ''['' \<notin> set TIME" "CHR ''['' \<notin> set DURATION" "TIME \<noteq> []" "DURATION \<noteq> []"
    by (simp_all add: TIME_def DURATION_def)
  then have "ctx_ok c2"
    by (auto simp: ctx_ok_def get names type_key_time spec_ok_time builtin_int32)
  then have "dinv c2"
    by (simp add: dinv_def deps_closed_def get_depends_def dep deps_acyclic_def dep_rel_def acyclic_def)
  then show thesis using cd dep get by (intro that)
qed

text \<open>A description of a package, read in the default context.\<close>

lemma load_first_msg:
  assumes "create_default w = Inr ctx0" and "load_msg_from_string w txt name ctx0 = (Inr spec, ctx1)"
    and "in_package name"
  shows "dinv ctx1" "spec_ok spec" "ms_full_name spec = name" "get_registered ctx1 name = Inr spec"
    "\<And>u x. in_package u \<Longrightarrow> get_registered ctx1 u = Inr x \<Longrightarrow> u = name \<and> x = spec"
proof -
  obtain c where c: "create_default w = Inr c" "dinv c" "\<And>t s. get_registered c t = Inr s \<longleftrightarrow>
       (type_key t = Inr ([], TIME) \<and> s = time_spec ''uint32'' TIME_MSG TIME \<or>
        type_key t = Inr ([], DURATION) \<and> s = time_spec ''int32'' DURATION_MSG DURATION)"
    by (rule create_default_ok [of w]) blast
  have none: "get_registered ctx0 u \<noteq> Inr x" if "in_package u" for u x
    using c assms(1) type_key_qualified [OF that] by auto
  have inv: "dinv ctx0" using c assms(1) by simp
  from load_new_msg_step [OF assms(2,3) _ inv] none [OF assms(3)]
  have *: "dinv ctx1 \<and> spec_ok spec \<and> ms_full_name spec = name \<and> get_registered ctx1 name = Inr spec \<and>
    (\<forall>u. get_registered ctx1 u = (if type_key u = type_key name then Inr spec else get_registered ctx0 u))" by blast
  then show "dinv ctx1" "spec_ok spec" "ms_full_name spec = name" and g: "get_registered ctx1 name = Inr spec" by auto
  show "u = name \<and> x = spec" if "in_package u" "get_registered ctx1 u = Inr x" for u x
    using that * none [OF that(1)] ctx.get_Inr_key [OF g] type_key_in_package_inj [OF assms(3) that(1)]
    by (auto split: if_splits)
qed

section \<open>Comments do not change the md5 text\<close>

definition code_of :: "string \<Rightarrow> string list" where
  "code_of txt = filter (\<lambda>l. l \<noteq> []) (map strip_comments (split_on newline txt))"

text \<open>No line declares a constant of type \<open>string\<close>, whose value keeps its comment.\<close>

definition no_string_constant :: "string list \<Rightarrow> bool" where
  "no_string_constant ls \<longleftrightarrow> (\<forall>l \<in> set ls. CONSTCHAR \<in> set (strip_comments l) \<longrightarrow>
     hd (line_words (strip_comments l)) \<noteq> ''string'')"

lemma load_line_code:
  "no_string_constant [l] \<Longrightarrow> load_line w p acc (strip_comments l) = load_line w p acc l"
  by (auto simp: load_line_def load_constant_line_def load_field_line_def no_string_constant_def Let_def
      split: prod.splits)

lemma load_line_blank: "strip_comments l = [] \<Longrightarrow> load_line w p acc l = Inr acc"
  by (simp add: load_line_def split: prod.splits)

lemma load_lines_code:
  "no_string_constant ls \<Longrightarrow>
   rfoldl (load_line w p) acc (filter (\<lambda>l. l \<noteq> []) (map strip_comments ls)) = rfoldl (load_line w p) acc ls"
proof (induction ls arbitrary: acc)
  case (Cons l ls)
  have one: "no_string_constant [l]" and rest: "no_string_constant ls"
    using Cons.prems by (simp_all add: no_string_constant_def)
  show ?case
  proof (cases "strip_comments l = []")
    case True
    then show ?thesis using Cons.IH [OF rest] by (simp add: load_line_blank)
  next
    case False
    then show ?thesis using Cons.IH [OF rest] load_line_code [OF one] by (cases "load_line w p acc l") simp_all
  qed
qed simp

lemma MsgSpec_text:
  "MsgSpec ts ns cs txt name p sn = Inr s \<Longrightarrow> MsgSpec ts ns cs txt' name p sn = Inr (s\<lparr>ms_text := txt'\<rparr>)"
  by (erule MsgSpec_InrD) (simp add: MsgSpec_def Let_def length_remdups_distinct)

lemma load_same_code:
  assumes "code_of txt = code_of txt'"
    and "no_string_constant (split_on newline txt)" "no_string_constant (split_on newline txt')"
    and run: "load_msg_from_string w txt name ctx = (Inr s, c)"
  shows "\<exists>c'. load_msg_from_string w txt' name ctx = (Inr (s\<lparr>ms_text := txt'\<rparr>), c')"
proof -
  from run obtain p b ts ns cs where pb: "package_resource_name name = Inr (p, b)" and
    ls: "rfoldl (load_line w p) ([], [], []) (split_on newline txt) = Inr (ts, ns, cs)" and
    mk: "MsgSpec ts ns cs txt name p [] = Inr s" and reg: "register name s ctx = (Inr (), c)"
    by (auto simp: load_msg_from_string_def sbind_eq_Inr split: prod.splits)
  have "rfoldl (load_line w p) ([], [], []) (split_on newline txt') = Inr (ts, ns, cs)"
    using ls assms(1) load_lines_code [OF assms(2)] load_lines_code [OF assms(3)] by (simp add: code_of_def)
  moreover obtain c' where "register name (s\<lparr>ms_text := txt'\<rparr>) ctx = (Inr (), c')"
    using ctx.put_cases [of name s ctx] ctx.put_returns [of name _ "s\<lparr>ms_text := txt'\<rparr>" ctx] reg by force
  ultimately show ?thesis
    using pb MsgSpec_text [OF mk, of txt'] by (simp add: load_msg_from_string_def sbind_def)
qed

section \<open>Properties\<close>

text \<open>C23: the md5 sum identifies the code of a description, not its layout. Two texts with the same
  non-blank lines after comments and surrounding blanks are removed, without constants of type \<open>string\<close>,
  are both read and have the same md5 sum in every context.\<close>

theorem md5_ignores_comments:
  assumes "code_of txt = code_of txt'"
    and "no_string_constant (split_on newline txt)" "no_string_constant (split_on newline txt')"
    and "load_msg_from_string w txt name ctx = (Inr s, c)"
  shows "\<exists>s' c'. load_msg_from_string w txt' name ctx = (Inr s', c') \<and>
    compute_md5 k H d (Msg s') = compute_md5 k H d (Msg s)"
proof -
  obtain c' where "load_msg_from_string w txt' name ctx = (Inr (s\<lparr>ms_text := txt'\<rparr>), c')"
    using load_same_code [OF assms] by blast
  moreover have "compute_md5_text k H d (s\<lparr>ms_text := txt'\<rparr>) = compute_md5_text k H d s"
    by (rule compute_md5_text_cong) simp_all
  ultimately show ?thesis by (auto simp: compute_md5_def)
qed

theorem md5_ignores_comments_witness:
  "\<exists>s c s' c'. load_msg_from_string \<lparr>w_files = Map.empty, w_literal = \<lambda>_. None\<rparr> ''int8 x'' ''m/A'' MsgContext = (Inr s, c) \<and>
     load_msg_from_string \<lparr>w_files = Map.empty, w_literal = \<lambda>_. None\<rparr> '' int8 x # y'' ''m/A'' MsgContext = (Inr s', c') \<and>
     compute_md5 3 id MsgContext (Msg s') = compute_md5 3 id MsgContext (Msg s)"
proof -
  let ?w = "\<lparr>w_files = Map.empty, w_literal = \<lambda>_. None\<rparr>"
  let ?r = "load_msg_from_string ?w ''int8 x'' ''m/A'' MsgContext"
  have "case fst ?r of Inl _ \<Rightarrow> False | Inr _ \<Rightarrow> True" by code_simp
  then obtain s c where r: "?r = (Inr s, c)" by (cases ?r) (auto split: sum.splits)
  have "code_of ''int8 x'' = code_of '' int8 x # y''" by code_simp
  moreover have "no_string_constant (split_on newline ''int8 x'')"
    "no_string_constant (split_on newline '' int8 x # y'')" by code_simp+
  ultimately show ?thesis using md5_ignores_comments [OF _ _ _ r] r by blast
qed

text \<open>The texts of a message whose dependencies were loaded are computed.\<close>

lemma texts_after_load:
  assumes "create_default w = Inr ctx0" and "load_msg_from_string w txt name ctx0 = (Inr spec, ctx1)"
    and "in_package name" and "load_depends k w (Msg spec) sp ctx1 = (Inr ds, ctx2)"
    and "card (dom (dependencies ctx2)) < n"
  shows "(\<exists>m. compute_md5 n H ctx2 (Msg spec) = Inr m) \<and> (\<exists>t. compute_full_text n ctx2 (Msg spec) = Inr t)"
proof -
  note l = load_first_msg [OF assms(1-3)]
  have st: "dinv ctx2" "get_depends ctx2 name = Some ds" "get_registered ctx2 name = Inr spec"
    using load_msg_depends_step [of k w spec sp ctx1 "Inr ds" ctx2] assms(4) l by (auto simp: ctx_ext_def)
  have inv: "deps_closed ctx2" "deps_acyclic ctx2" using st(1) by (auto simp: dinv_def)
  obtain v where v: "compute_md5_text n H ctx2 spec = Inr v"
    using compute_md5_text_returns [OF st(1) acyclic_rank(1) [OF inv] st(3)] st(2)
      acyclic_rank(2) [OF inv, of name] assms(5) by fastforce
  have "get_depends ctx2 name \<noteq> None" using st(2) by simp
  from get_all_depends_total [OF st(1) this assms(5)] obtain ls where
    ls: "get_all_depends n ctx2 name = Inr ls" "set ls = {d. (name, d) \<in> (dep_rel ctx2)\<^sup>+}" by blast
  have "\<exists>s. get_registered ctx2 d = Inr s" if "d \<in> set ls" for d
    using dep_reachable [OF st(1)] that ls(2) by blast
  then have "\<exists>ps. rmap (\<lambda>d. rbind (get_registered ctx2 d) (\<lambda>s.
      Inr (full_text_sep @ ''MSG: '' @ d @ [newline] @ ms_text s @ [newline]))) (unique_deps ls) = Inr ps"
    by (intro rmap_total) fastforce
  then show ?thesis using v ls(1) l(3) by (auto simp: compute_md5_def compute_full_text_def any_full_name_def)
qed

text \<open>A message or a service was read from a text.\<close>

fun read_as :: "world \<Rightarrow> string \<Rightarrow> string \<Rightarrow> msg_context \<Rightarrow> any_spec \<Rightarrow> msg_context \<Rightarrow> bool" where
  "read_as w txt name c (Msg s) c' \<longleftrightarrow> load_msg_from_string w txt name c = (Inr s, c')"
| "read_as w txt name c (Srv s) c' \<longleftrightarrow> load_srv_from_string w txt name c = (Inr s, c')"

lemma in_package_append: "in_package name \<Longrightarrow> CHR ''['' \<notin> set b \<Longrightarrow> in_package (name @ b)"
  by (cases name) (auto simp: in_package_def)

text \<open>What loading leaves of a recorded type is enough for its md5 text and for the list of its dependencies.\<close>

lemma md5_text_of_loaded:
  assumes "dinv c" "get_registered c t = Inr s" "get_depends c t \<noteq> None" "card (dom (dependencies c)) < n"
  shows "\<exists>v. compute_md5_text n H c s = Inr v"
proof -
  have inv: "deps_closed c" "deps_acyclic c" using assms(1) by (auto simp: dinv_def)
  show ?thesis
    using compute_md5_text_returns [OF assms(1) acyclic_rank(1) [OF inv] assms(2,3)]
      acyclic_rank(2) [OF inv, of t] assms(3,4) by fastforce
qed

lemma full_text_of_loaded:
  assumes "dinv c" "get_depends c (any_full_name spec) \<noteq> None" "card (dom (dependencies c)) < n"
  shows "\<exists>t. compute_full_text n c spec = Inr t"
proof -
  from get_all_depends_total [OF assms] obtain ls where
    ls: "get_all_depends n c (any_full_name spec) = Inr ls" "set ls = {d. (any_full_name spec, d) \<in> (dep_rel c)\<^sup>+}" by blast
  have "\<exists>s. get_registered c d = Inr s" if "d \<in> set ls" for d
    using dep_reachable [OF assms(1)] that ls(2) by blast
  then have "\<exists>ps. rmap (\<lambda>d. rbind (get_registered c d) (\<lambda>s.
      Inr (full_text_sep @ ''MSG: '' @ d @ [newline] @ ms_text s @ [newline]))) (unique_deps ls) = Inr ps"
    by (intro rmap_total) fastforce
  then show ?thesis using ls(1) by (auto simp: compute_full_text_def)
qed

lemma full_text_unrecorded:
  "get_depends c (any_full_name spec) = None \<Longrightarrow> 0 < n \<Longrightarrow>
   compute_full_text n c spec = Inl (KeyError (any_full_name spec))"
  by (cases n) (auto simp: compute_full_text_def)

lemma service_loaded:
  assumes "create_default w = Inr ctx0" and "load_srv_from_string w txt name ctx0 = (Inr spec, ctx1)"
    and "in_package name" and "load_depends k w (Srv spec) sp ctx1 = (Inr ds, ctx2)"
  shows "dinv ctx2 \<and> ss_full_name spec = name \<and>
    (\<forall>s \<in> {ss_request spec, ss_response spec}. \<exists>t. get_registered ctx2 t = Inr s \<and> get_depends ctx2 t \<noteq> None)"
proof -
  obtain tin tout where sp: "srv_split_loop False [] [] (split_on newline txt) = (tin, tout)" by fastforce
  let ?q = "name @ ''Request''" and ?p = "name @ ''Response''"
  have pkg: "in_package ?q" "in_package ?p" using assms(3) by (simp_all add: in_package_append)
  obtain m1 c m2 where r1: "load_msg_from_string w tin ?q ctx0 = (Inr m1, c)"
    and r2: "load_msg_from_string w tout ?p c = (Inr m2, ctx1)"
    and spec: "SrvSpec m1 m2 txt name [] [] = Inr spec"
    using assms(2) unfolding load_srv_from_string_def sp by (auto simp: sbind_def split: prod.splits sum.splits)
  note l = load_first_msg [OF assms(1) r1 pkg(1)]
  have new: "\<nexists>s. get_registered c ?p = Inr s" using l(5) [OF pkg(2)] by auto
  note l2 = load_new_msg_step [OF r2 pkg(2) new l(1)]
  have kq: "type_key ?p \<noteq> type_key ?q"
    using type_key_in_package_inj [OF pkg(1,2)] ctx.get_Inr_key [OF l(4)] by auto
  have reg: "get_registered ctx1 ?q = Inr m1" "get_registered ctx1 ?p = Inr m2" using l2 l(4) kq by auto
  have parts: "ss_request spec = m1" "ss_response spec = m2" "ss_full_name spec = name"
    using spec by (auto simp: SrvSpec_def rbind_eq_Inr split: prod.splits)
  obtain ds1 ds2 c1 where d1: "load_msg_depends k w m1 sp ctx1 = (Inr ds1, c1)"
    and d2: "load_msg_depends k w m2 sp c1 = (Inr ds2, ctx2)"
    using assms(4) parts by (auto simp: sbind_def split: prod.splits sum.splits)
  have s1: "dinv c1 \<and> ctx_ext ctx1 c1 \<and> get_depends c1 ?q \<noteq> None"
    using load_msg_depends_step [OF d1 l(2)] l2 l(3) reg(1) by auto
  have s2: "dinv ctx2 \<and> ctx_ext c1 ctx2 \<and> get_depends ctx2 ?p \<noteq> None"
    using load_msg_depends_step [OF d2] s1 l2 reg(2) by (auto simp: ctx_ext_def)
  have "get_registered ctx2 ?q = Inr m1 \<and> get_depends ctx2 ?q \<noteq> None" "get_registered ctx2 ?p = Inr m2"
    using s1 s2 reg unfolding ctx_ext_def by blast+
  then show ?thesis unfolding parts using s2 by blast
qed

text \<open>The texts of a message or a service whose dependencies were loaded.\<close>

lemma texts_after_load_any:
  assumes "create_default w = Inr ctx0" and "read_as w txt name ctx0 spec ctx1"
    and "in_package name" and "load_depends k w spec sp ctx1 = (Inr ds, ctx2)"
    and "card (dom (dependencies ctx2)) < n"
  shows "(\<exists>m. compute_md5 n H ctx2 spec = Inr m) \<and>
    (if get_depends ctx2 name = None then (\<exists>s. spec = Srv s) \<and> compute_full_text n ctx2 spec = Inl (KeyError name)
     else \<exists>t. compute_full_text n ctx2 spec = Inr t)"
proof (cases spec)
  case (Msg m)
  then have r: "load_msg_from_string w txt name ctx0 = (Inr m, ctx1)" using assms(2) by simp
  note l = load_first_msg [OF assms(1) r assms(3)]
  have st: "dinv ctx2" "get_depends ctx2 name \<noteq> None" "get_registered ctx2 name = Inr m"
    using load_msg_depends_step [of k w m sp ctx1 "Inr ds" ctx2] assms(4) Msg l by (auto simp: ctx_ext_def)
  then show ?thesis
    using md5_text_of_loaded [OF st(1,3,2) assms(5), of H] full_text_of_loaded [OF st(1) _ assms(5), of spec] l(3) Msg
    by (auto simp: compute_md5_def any_full_name_def)
next
  case (Srv s)
  then have r: "load_srv_from_string w txt name ctx0 = (Inr s, ctx1)" using assms(2) by simp
  note st = service_loaded [OF assms(1) r assms(3) assms(4) [unfolded Srv]]
  have "\<exists>v. compute_md5_text n H ctx2 x = Inr v" if "x \<in> {ss_request s, ss_response s}" for x
    using md5_text_of_loaded st that assms(5) by blast
  then obtain v1 v2 where "compute_md5_text n H ctx2 (ss_request s) = Inr v1"
    "compute_md5_text n H ctx2 (ss_response s) = Inr v2" by blast
  moreover have "any_full_name spec = name" using st Srv by (simp add: any_full_name_def)
  ultimately show ?thesis
    using full_text_of_loaded [OF conjunct1 [OF st], of spec n] full_text_unrecorded [of ctx2 spec n] assms(5) Srv
    by (simp add: compute_md5_def)
qed

end
