(* ===== verification/Struct_Patterns.thy ===== *)
theory Struct_Patterns
  imports Py_Prelude
begin

text \<open>
  Struct patterns: \<open>genpy/base.py\<close>, \<open>genpy/generate_struct.py\<close> and
  \<open>genpy/generate_numpy.py\<close>. The generator batches fields of a fixed size into one format
  string of Python's \<open>struct\<close> module and shortens runs of a code to a count. The
  module-level list of the patterns in use is the field of a state record, which the state of
  the generator extends. What \<open>struct\<close> does with a format string is the function
  \<open>fmt_items\<close>: it reads the counts and codes of a little-endian format.
\<close>

section \<open>Simple types\<close>

definition simple_types_items :: "(string \<times> string) list" where
  "simple_types_items =
     [(''int8'', ''b''), (''uint8'', ''B''), (''bool'', ''B''), (''int16'', ''h''), (''uint16'', ''H''),
      (''int32'', ''i''), (''uint32'', ''I''), (''int64'', ''q''), (''uint64'', ''Q''),
      (''float32'', ''f''), (''float64'', ''d''), (''char'', ''B''), (''byte'', ''b'')]"

definition SIMPLE_TYPES_DICT :: "string \<rightharpoonup> string" where
  "SIMPLE_TYPES_DICT = map_of simple_types_items"

definition is_simple :: "string \<Rightarrow> bool" where
  "is_simple ty \<longleftrightarrow> SIMPLE_TYPES_DICT ty \<noteq> None"

section \<open>The patterns in use\<close>

record struct_state =
  context_patterns :: "string list"

definition add_pattern :: "string \<Rightarrow> ('s struct_state_scheme, unit) act" where
  "add_pattern p = smodify (\<lambda>s. s\<lparr>context_patterns := context_patterns s @ [p]\<rparr>)"

definition clear_patterns :: "('s struct_state_scheme, unit) act" where
  "clear_patterns = smodify (\<lambda>s. s\<lparr>context_patterns := []\<rparr>)"

definition get_patterns :: "('s struct_state_scheme, string list) act" where
  "get_patterns = sgets context_patterns"

section \<open>Patterns\<close>

text \<open>\<open>None\<close> for no types, and for a type that is not simple (a \<open>KeyError\<close>, caught).\<close>

definition compute_struct_pattern :: "string list \<Rightarrow> string option" where
  "compute_struct_pattern types =
     (if types = [] then None
      else if \<exists>t \<in> set types. SIMPLE_TYPES_DICT t = None then None
      else Some (py_join [] (map (\<lambda>t. the (SIMPLE_TYPES_DICT t)) types)))"

text \<open>The digits \<open>str(i) for i in range(0, 9)\<close>.\<close>

definition pattern_nums :: "string list" where
  "pattern_nums = map str_of_nat [0..<9]"

fun reduce_loop :: "char \<Rightarrow> nat \<Rightarrow> string \<Rightarrow> string \<Rightarrow> char \<times> nat \<times> string" where
  "reduce_loop prev count new_pattern [] = (prev, count, new_pattern)"
| "reduce_loop prev count new_pattern (c # cs) =
     (if c = prev \<and> [c] \<notin> set pattern_nums then reduce_loop prev (count + 1) new_pattern cs
      else reduce_loop c 1
             (if count > 1 then new_pattern @ str_of_nat count @ [prev] else new_pattern @ [prev]) cs)"

text \<open>After the loop a count above one was reached by the last character, which is then \<open>prev\<close>.\<close>

definition reduce_pattern :: "string \<Rightarrow> string" where
  "reduce_pattern pattern =
     (if pattern = [] \<or> length pattern = 1 \<or> CHR ''%'' \<in> set pattern then pattern
      else case reduce_loop (hd pattern) 1 [] (tl pattern) of (prev, count, new_pattern) \<Rightarrow>
        if count > 1 then new_pattern @ str_of_nat count @ [last pattern] else new_pattern @ [prev])"

section \<open>Generated calls\<close>

definition serialize :: "string \<Rightarrow> string" where
  "serialize expr = ''buff.write('' @ expr @ '')''"

definition int32_pack :: "string \<Rightarrow> string" where
  "int32_pack var = serialize (''_struct_I.pack('' @ var @ '')'')"

definition int32_unpack :: "string \<Rightarrow> string \<Rightarrow> string" where
  "int32_unpack var buff = ''('' @ var @ '',) = _struct_I.unpack('' @ buff @ '')''"

definition pack :: "string \<Rightarrow> string \<Rightarrow> ('s struct_state_scheme, string) act" where
  "pack pattern vars =
     (let p = reduce_pattern pattern in
      sbind (add_pattern p) (\<lambda>_. sret (serialize (''_get_struct_'' @ p @ ''().pack('' @ vars @ '')''))))"

definition pack2 :: "string \<Rightarrow> string \<Rightarrow> string" where
  "pack2 pattern vars = serialize (''struct.pack('' @ pattern @ '', '' @ vars @ '')'')"

definition unpack :: "string \<Rightarrow> string \<Rightarrow> string \<Rightarrow> ('s struct_state_scheme, string) act" where
  "unpack var pattern buff =
     (let p = reduce_pattern pattern in
      sbind (add_pattern p) (\<lambda>_. sret (var @ '' = _get_struct_'' @ p @ ''().unpack('' @ buff @ '')'')))"

definition unpack2 :: "string \<Rightarrow> string \<Rightarrow> string \<Rightarrow> string" where
  "unpack2 var pattern buff = var @ '' = struct.unpack('' @ pattern @ '', '' @ buff @ '')''"

section \<open>Numpy\<close>

definition NUMPY_DTYPE :: "string \<rightharpoonup> string" where
  "NUMPY_DTYPE = map_of
     [(''float32'', ''numpy.float32''), (''float64'', ''numpy.float64''), (''bool'', ''numpy.bool''),
      (''int8'', ''numpy.int8''), (''int16'', ''numpy.int16''), (''int32'', ''numpy.int32''),
      (''int64'', ''numpy.int64''), (''uint8'', ''numpy.uint8''), (''uint16'', ''numpy.uint16''),
      (''uint32'', ''numpy.uint32''), (''uint64'', ''numpy.uint64''), (''char'', ''numpy.uint8''),
      (''byte'', ''numpy.int8'')]"

definition unpack_numpy :: "string \<Rightarrow> string \<Rightarrow> string \<Rightarrow> string \<Rightarrow> string" where
  "unpack_numpy var count dtype buff =
     var @ '' = numpy.frombuffer('' @ buff @ '', dtype='' @ dtype @ '', count='' @ count @ '')''"

definition pack_numpy :: "string \<Rightarrow> string" where
  "pack_numpy var = serialize (var @ ''.tostring()'')"

section \<open>The format strings of the struct module\<close>

fun code_size :: "char \<Rightarrow> nat option" where
  "code_size c =
     (if c \<in> set ''bBcs?x'' then Some 1 else if c \<in> set ''hH'' then Some 2
      else if c \<in> set ''iIlLf'' then Some 4 else if c \<in> set ''qQd'' then Some 8 else None)"

declare code_size.simps [simp del]

text \<open>The counts and codes of a format after its byte order; \<open>None\<close> is \<open>struct.error\<close>.\<close>

fun fmt_items :: "nat option \<Rightarrow> string \<Rightarrow> (nat \<times> char) list option" where
  "fmt_items acc [] = (if acc = None then Some [] else None)"
| "fmt_items acc (c # cs) =
     (if is_digit c then fmt_items (Some (10 * (case acc of None \<Rightarrow> 0 | Some n \<Rightarrow> n) + digit_val c)) cs
      else if code_size c = None then None
      else map_option (\<lambda>items. ((case acc of None \<Rightarrow> 1 | Some n \<Rightarrow> n), c) # items) (fmt_items None cs))"

definition calcsize :: "string \<Rightarrow> nat res" where
  "calcsize fmt = (case fmt_items None fmt of None \<Rightarrow> Inl StructError
     | Some items \<Rightarrow> Inr (sum_list (map (\<lambda>(n, c). n * the (code_size c)) items)))"

text \<open>The sequence of values a format describes, one code per value.\<close>

definition fmt_codes :: "(nat \<times> char) list \<Rightarrow> string" where
  "fmt_codes items = concat (map (\<lambda>(n, c). replicate n c) items)"

section \<open>Lemmas\<close>

definition is_code :: "char \<Rightarrow> bool" where
  "is_code c \<longleftrightarrow> \<not> is_digit c \<and> code_size c \<noteq> None \<and> c \<noteq> CHR ''%''"

lemma pattern_nums_eq: "pattern_nums = [''0'', ''1'', ''2'', ''3'', ''4'', ''5'', ''6'', ''7'', ''8'']"
  by code_simp

lemma code_not_num: "is_code c \<Longrightarrow> [c] \<notin> set pattern_nums"
  by (auto simp: pattern_nums_eq is_code_def is_digit_def)

lemma fmt_items_num: "fmt_items None (str_of_nat n @ s) = fmt_items (Some n) s"
proof (induction n arbitrary: s rule: str_of_nat.induct)
  case (1 n)
  then show ?case by (subst str_of_nat.simps) auto
qed

lemma fmt_items_append:
  "fmt_items acc x = Some a \<Longrightarrow> fmt_items acc (x @ y) = map_option ((@) a) (fmt_items None y)"
  by (induction acc x arbitrary: a rule: fmt_items.induct; cases "fmt_items None y") (auto split: if_splits)

lemma fmt_codes_simps [simp]:
  "fmt_codes [] = []" "fmt_codes (x # xs) = replicate (fst x) (snd x) @ fmt_codes xs"
  "fmt_codes (xs @ ys) = fmt_codes xs @ fmt_codes ys"
  by (auto simp: fmt_codes_def split: prod.splits)

text \<open>A run in the notation of the format: the count, left out when it is one, and the code.\<close>

lemma fmt_items_run:
  "is_code c \<Longrightarrow> count \<ge> 1 \<Longrightarrow>
   fmt_items None (if count > 1 then str_of_nat count @ [c] else [c]) = Some [(count, c)]"
  by (auto simp: fmt_items_num is_code_def)

lemma reduce_loop_items:
  assumes "reduce_loop prev count new cs = (prev', count', new')"
    and "fmt_items None new = Some items" "count \<ge> 1" "is_code prev" "\<forall>c \<in> set cs. is_code c"
  shows "count' \<ge> 1 \<and> prev' = last (prev # cs) \<and> (\<exists>items'. fmt_items None new' = Some items' \<and>
    fmt_codes items' @ replicate count' prev' = fmt_codes items @ replicate count prev @ cs)"
  using assms
proof (induction prev count new cs arbitrary: items rule: reduce_loop.induct)
  case (2 prev count new c cs)
  show ?case
  proof (cases "c = prev")
    case True
    then have "reduce_loop prev (count + 1) new cs = (prev', count', new')"
      using 2 code_not_num by simp
    from 2(1) [OF _ this] 2(3-) True code_not_num show ?thesis
      by (auto simp: replicate_app_Cons_same)
  next
    case False
    let ?run = "if count > 1 then str_of_nat count @ [prev] else [prev]"
    have "fmt_items None (new @ ?run) = Some (items @ [(count, prev)])"
      using fmt_items_append [OF 2(4)] fmt_items_run [OF 2(6,5)] by simp
    moreover have "reduce_loop c 1 (new @ ?run) cs = (prev', count', new')"
      using 2(3) False by (simp split: if_splits)
    ultimately show ?thesis using 2(2) [of "items @ [(count, prev)]"] 2(7) False
      by (auto split: if_splits)
  qed
qed simp

lemma reduce_pattern_items:
  assumes "p \<noteq> []" "\<forall>c \<in> set p. is_code c"
  shows "\<exists>items. fmt_items None (reduce_pattern p) = Some items \<and> fmt_codes items = p"
proof (cases "length p = 1")
  case True
  then obtain c where "p = [c]" by (cases p) auto
  with assms show ?thesis by (auto simp: reduce_pattern_def is_code_def)
next
  case False
  have pc: "CHR ''%'' \<notin> set p" using assms(2) by (auto simp: is_code_def)
  obtain a q where p: "p = a # q" using assms(1) by (cases p) auto
  obtain prev count new where r: "reduce_loop a 1 [] q = (prev, count, new)" by (cases "reduce_loop a 1 [] q")
  from reduce_loop_items [OF r, of "[]"] assms(2) p obtain items where
    c: "count \<ge> 1" "prev = last p" and i: "fmt_items None new = Some items"
    and e: "fmt_codes items @ replicate count prev = p" by auto
  have "is_code prev" using c assms by simp
  note run = fmt_items_run [OF this c(1)]
  have "reduce_pattern p = new @ (if count > 1 then str_of_nat count @ [prev] else [prev])"
    using False pc p r c by (simp add: reduce_pattern_def)
  then have "fmt_items None (reduce_pattern p) = Some (items @ [(count, prev)])"
    using fmt_items_append [OF i] run by simp
  then show ?thesis using e by auto
qed

lemma calcsize_codes:
  assumes "fmt_items None s = Some items"
  shows "calcsize s = Inr (sum_list (map (\<lambda>c. the (code_size c)) (fmt_codes items)))"
proof -
  have "sum_list (map (\<lambda>(n, c). n * the (code_size c)) items) = sum_list (map (\<lambda>c. the (code_size c)) (fmt_codes items))"
    by (induction items) (auto simp: sum_list_replicate)
  with assms show ?thesis by (simp add: calcsize_def)
qed

text \<open>The bytes of a value of a simple type, from its width.\<close>

definition simple_size :: "string \<rightharpoonup> nat" where
  "simple_size = map_of [(''int8'', 1), (''uint8'', 1), (''bool'', 1), (''int16'', 2), (''uint16'', 2),
     (''int32'', 4), (''uint32'', 4), (''int64'', 8), (''uint64'', 8), (''float32'', 4), (''float64'', 8),
     (''char'', 1), (''byte'', 1)]"

lemma simple_types_table:
  "list_all (\<lambda>(t, code). length code = 1 \<and> is_code (hd code) \<and> code_size (hd code) = simple_size t \<and>
     simple_size t \<noteq> None) simple_types_items"
  by code_simp

lemma simple_code:
  assumes "SIMPLE_TYPES_DICT t = Some code"
  shows "\<exists>c. code = [c] \<and> is_code c \<and> code_size c = simple_size t \<and> simple_size t \<noteq> None"
proof -
  have "(t, code) \<in> set simple_types_items" using assms by (simp add: SIMPLE_TYPES_DICT_def map_of_SomeD)
  then show ?thesis using simple_types_table by (fastforce simp: list_all_iff length_Suc_conv)
qed

lemma compute_struct_pattern_Some:
  "compute_struct_pattern ts = Some p \<longleftrightarrow>
     ts \<noteq> [] \<and> (\<forall>t \<in> set ts. is_simple t) \<and> p = concat (map (\<lambda>t. the (SIMPLE_TYPES_DICT t)) ts)"
proof -
  have "py_join [] xs = concat xs" for xs by (induction xs rule: induct_list012) auto
  then show ?thesis by (auto simp: compute_struct_pattern_def is_simple_def)
qed

lemma pattern_codes:
  assumes "compute_struct_pattern ts = Some p"
  shows "p \<noteq> [] \<and> length p = length ts \<and> (\<forall>c \<in> set p. is_code c) \<and>
    map (\<lambda>c. the (code_size c)) p = map (\<lambda>t. the (simple_size t)) ts"
proof -
  have ts: "ts \<noteq> []" "\<forall>t \<in> set ts. is_simple t" "p = concat (map (\<lambda>t. the (SIMPLE_TYPES_DICT t)) ts)"
    using assms by (simp_all add: compute_struct_pattern_Some)
  have "length q = length us \<and> (\<forall>c \<in> set q. is_code c) \<and> map (\<lambda>c. the (code_size c)) q = map (\<lambda>t. the (simple_size t)) us"
    if "\<forall>t \<in> set us. is_simple t" "q = concat (map (\<lambda>t. the (SIMPLE_TYPES_DICT t)) us)" for us q
    using that
  proof (induction us arbitrary: q)
    case (Cons u us)
    then obtain c where "SIMPLE_TYPES_DICT u = Some [c]" "is_code c" "code_size c = simple_size u"
      using simple_code by (fastforce simp: is_simple_def)
    then show ?case using Cons by simp
  qed simp
  from this [OF ts(2,3)] ts(1) show ?thesis by auto
qed

section \<open>Properties\<close>

text \<open>C24: batching fields. The shortened pattern of a list of simple types is a valid format
  that describes one value per field in the order of the fields, and its size is the sum of the
  sizes of the fields.\<close>

theorem reduced_pattern_meaning:
  assumes "compute_struct_pattern types = Some p"
  shows "\<exists>items. fmt_items None (reduce_pattern p) = Some items \<and>
    fmt_codes items = concat (map (\<lambda>t. the (SIMPLE_TYPES_DICT t)) types) \<and>
    length (fmt_codes items) = length types \<and>
    calcsize (reduce_pattern p) = Inr (sum_list (map (\<lambda>t. the (simple_size t)) types))"
proof -
  note c = pattern_codes [OF assms]
  obtain items where i: "fmt_items None (reduce_pattern p) = Some items" "fmt_codes items = p"
    using reduce_pattern_items c by blast
  from assms have "p = concat (map (\<lambda>t. the (SIMPLE_TYPES_DICT t)) types)"
    by (simp add: compute_struct_pattern_Some)
  then show ?thesis using i c calcsize_codes [OF i(1)] by auto
qed

theorem reduced_pattern_meaning_witness:
  "compute_struct_pattern [''int32'', ''int32'', ''float64''] = Some ''iid'' \<and>
   calcsize (reduce_pattern ''iid'') = Inr 16"
proof -
  have p: "compute_struct_pattern [''int32'', ''int32'', ''float64''] = Some ''iid''" by code_simp
  moreover have "sum_list (map (\<lambda>t. the (simple_size t)) [''int32'', ''int32'', ''float64'']) = 16" by code_simp
  ultimately show ?thesis using reduced_pattern_meaning [OF p] by metis
qed

lemma reduce_loop_identity:
  "successively (\<lambda>a b. a \<noteq> b \<or> [a] \<in> set pattern_nums) (prev # cs) \<Longrightarrow>
   reduce_loop prev 1 new cs = (last (prev # cs), 1, new @ butlast (prev # cs))"
  by (induction cs arbitrary: prev new) auto

lemma nine_only: "is_digit c \<Longrightarrow> [c] \<notin> set pattern_nums \<Longrightarrow> c = CHR ''9''"
proof -
  assume d: "is_digit c" and n: "[c] \<notin> set pattern_nums"
  have "list_all (\<lambda>k. [digit_char k] \<in> set pattern_nums \<or> digit_char k = CHR ''9'') [0..<10]" by code_simp
  moreover have "c = digit_char (digit_val c)" "digit_val c < 10"
    using d by (auto simp: is_digit_def digit_char_def digit_val_def Let_def)
  ultimately show ?thesis using n unfolding list_all_iff by (metis atLeast0LessThan atLeast_upt lessThan_iff)
qed

text \<open>Patterns with a count. The pattern of an array of \<open>n\<close> values is left as it is when
  the decimal digits of \<open>n\<close> have no two adjacent nines. The digits the loop leaves alone end at
  eight, so two nines are counted as a run: 99 values become 29.\<close>

theorem reduce_pattern_count:
  "(is_code c \<and> successively (\<lambda>a b. a \<noteq> CHR ''9'' \<or> b \<noteq> CHR ''9'') (str_of_nat n) \<longrightarrow>
      reduce_pattern (str_of_nat n @ [c]) = str_of_nat n @ [c]) \<and>
   reduce_pattern ''99B'' = ''29B'' \<and> calcsize ''99B'' = Inr 99 \<and> calcsize (reduce_pattern ''99B'') = Inr 29"
proof -
  have "reduce_pattern (str_of_nat n @ [c]) = str_of_nat n @ [c]"
    if "is_code c" and nn: "successively (\<lambda>a b. a \<noteq> CHR ''9'' \<or> b \<noteq> CHR ''9'') (str_of_nat n)"
  proof -
    have dig: "\<forall>d \<in> set (str_of_nat n). is_digit d" by (rule str_of_nat_digits)
    then have pc: "CHR ''%'' \<notin> set (str_of_nat n @ [c])"
      using \<open>is_code c\<close> by (auto simp: is_code_def is_digit_def)
    have "successively (\<lambda>a b. a \<noteq> b \<or> [a] \<in> set pattern_nums) (str_of_nat n)"
      using nn by (rule successively_mono) (use dig nine_only in blast)
    moreover have "last (str_of_nat n) \<noteq> c" using dig \<open>is_code c\<close> last_in_set [of "str_of_nat n"]
      by (auto simp: is_code_def simp del: last_in_set)
    ultimately have "successively (\<lambda>a b. a \<noteq> b \<or> [a] \<in> set pattern_nums) (str_of_nat n @ [c])"
      by (auto simp: successively_append_iff)
    moreover obtain a q where p: "str_of_nat n @ [c] = a # q" by (cases "str_of_nat n @ [c]") auto
    ultimately have "reduce_loop a 1 [] q = (last (a # q), 1, butlast (a # q))"
      using reduce_loop_identity [of a q "[]"] by simp
    then show ?thesis using pc unfolding p by (auto simp: reduce_pattern_def simp del: last.simps butlast.simps)
  qed
  moreover have "reduce_pattern ''99B'' = ''29B''" "calcsize ''99B'' = Inr 99" "calcsize ''29B'' = Inr 29" by code_simp+
  ultimately show ?thesis by simp
qed

theorem reduce_pattern_count_witness:
  "reduce_pattern (str_of_nat 16 @ [CHR ''B'']) = ''16B''"
proof -
  have "str_of_nat 16 = ''16''" "is_code CHR ''B''" by code_simp+
  then show ?thesis using reduce_pattern_count [of "CHR ''B''" 16] by simp
qed

end
