(* ===== verification/Generator_Util.thy ===== *)
theory Generator_Util
  imports Gentools Struct_Patterns
begin

text \<open>
  The first half of \<open>genpy/generator.py\<close>: the special types, default values, flattening of
  embedded messages, names that are safe in Python, constructors and import statements. An
  expression of generated code is a string; \<open>None\<close> is printed as \<open>None\<close> where the code
  formats it.
\<close>

section \<open>Special types\<close>

definition INDENT :: string where "INDENT = ''  ''"

definition get_registered_ex :: "msg_context \<Rightarrow> string \<Rightarrow> msgspec res" where
  "get_registered_ex ctx ty = rcatch (get_registered ctx ty) (\<lambda>e. Inl MsgGenerationException)"

record special =
  sp_constructor :: string
  sp_post_deserialize :: "string option"
  sp_import_str :: string

definition get_post_deserialize :: "special \<Rightarrow> string \<Rightarrow> string option" where
  "get_post_deserialize s varname = map_option (\<lambda>fmt. py_replace ''%s'' varname fmt) (sp_post_deserialize s)"

definition SPECIAL_TYPES :: "string \<rightharpoonup> special" where
  "SPECIAL_TYPES = map_of
     [(HEADER, \<lparr>sp_constructor = ''std_msgs.msg._Header.Header()'', sp_post_deserialize = None,
                sp_import_str = ''import std_msgs.msg''\<rparr>),
      (TIME, \<lparr>sp_constructor = ''genpy.Time()'', sp_post_deserialize = Some ''%s.canon()'',
              sp_import_str = ''import genpy''\<rparr>),
      (DURATION, \<lparr>sp_constructor = ''genpy.Duration()'', sp_post_deserialize = Some ''%s.canon()'',
                  sp_import_str = ''import genpy''\<rparr>)]"

definition is_special :: "string \<Rightarrow> bool" where
  "is_special ty \<longleftrightarrow> SPECIAL_TYPES ty \<noteq> None"

definition get_special :: "string \<Rightarrow> special option" where
  "get_special ty = SPECIAL_TYPES ty"

definition compute_post_deserialize :: "string \<Rightarrow> string \<Rightarrow> string option" where
  "compute_post_deserialize ty varname =
     (case get_special ty of None \<Rightarrow> None | Some s \<Rightarrow> get_post_deserialize s varname)"

section \<open>Constructors and default values\<close>

definition compute_pkg_type :: "string \<Rightarrow> string \<Rightarrow> (string \<times> string) res" where
  "compute_pkg_type package ty =
     (case split_on SEP ty of [b] \<Rightarrow> Inr (package, b) | [p, b] \<Rightarrow> Inr (p, b) | _ \<Rightarrow> Inl MsgGenerationException)"

definition compute_constructor :: "msg_context \<Rightarrow> string \<Rightarrow> string \<Rightarrow> string option res" where
  "compute_constructor ctx package ty =
     (if is_special ty then Inr (Some (sp_constructor (the (get_special ty))))
      else if bare_msg_type ty \<noteq> ty then Inr None
      else rbind (compute_pkg_type package ty) (\<lambda>(base_pkg, base_type).
        rbind (is_registered ctx (base_pkg @ ''/'' @ base_type)) (\<lambda>registered.
          if \<not> registered then Inr None
          else Inr (Some (base_pkg @ ''.msg.'' @ base_type @ ''()'')))))"

definition opt_str :: "string option \<Rightarrow> string" where
  "opt_str v = (case v of None \<Rightarrow> ''None'' | Some s \<Rightarrow> s)"

lemma parse_type_len_shorter:
  assumes "parse_type t = Inr (b, a, Some n)" shows "length b < length t"
proof -
  have "a" using assms by (auto simp: parse_type_def Let_def rbind_eq_Inr split: if_splits)
  with parse_type_base [OF assms] have b: "b = bare_msg_type t" and "CHR ''['' \<in> set t" by auto
  then obtain x y where t: "t = x @ CHR ''['' # y" "CHR ''['' \<notin> set x" by (metis split_list_first)
  then show ?thesis using b by simp
qed

text \<open>A default value is an expression, or \<open>None\<close> for a type without a constructor;
  concatenating a string with \<open>None\<close> is a \<open>TypeError\<close>.\<close>

function default_value :: "msg_context \<Rightarrow> string \<Rightarrow> string \<Rightarrow> string option res" where
  "default_value ctx field_type default_package =
     (if field_type \<in> set [''byte'', ''int8'', ''int16'', ''int32'', ''int64'',
                           ''char'', ''uint8'', ''uint16'', ''uint32'', ''uint64''] then Inr (Some ''0'')
      else if field_type \<in> set [''float32'', ''float64''] then Inr (Some ''0.'')
      else if field_type = ''string'' then Inr (Some [CHR 0x27, CHR 0x27])
      else if field_type = ''bool'' then Inr (Some ''False'')
      else if endswith field_type '']'' then
        (case parse_type field_type of Inl e \<Rightarrow> Inl e
         | Inr (base_type, is_array, array_len) \<Rightarrow>
             if base_type \<in> set [''char'', ''uint8''] then
               (case array_len of
                  Some n \<Rightarrow> Inr (Some (''b'' @ [CHR 0x27, CHR 0x5C, CHR ''0'', CHR 0x27] @ ''*'' @ str_of_int n))
                | None \<Rightarrow> Inr (Some (''b'' @ [CHR 0x27, CHR 0x27])))
             else (case array_len of None \<Rightarrow> Inr (Some ''[]'')
               | Some n \<Rightarrow>
                   (case default_value ctx base_type default_package of
                      Inl e \<Rightarrow> Inl e
                    | Inr None \<Rightarrow> Inl TypeError
                    | Inr (Some def_val) \<Rightarrow>
                        if base_type \<in> set [''byte'', ''int8'', ''int16'', ''int32'', ''int64'', ''uint16'',
                             ''uint32'', ''uint64'', ''float32'', ''float64'', ''string'', ''bool'']
                        then Inr (Some (''['' @ def_val @ ''] * '' @ str_of_int n))
                        else Inr (Some (''['' @ def_val @ '' for _ in range('' @ str_of_int n @ '')]'')))))
      else compute_constructor ctx default_package field_type)"
  by pat_completeness auto

termination
  by (relation "measure (\<lambda>(ctx, t, p). length t)") (auto dest: parse_type_len_shorter)

declare default_value.simps [simp del]

section \<open>Flattening\<close>

text \<open>The body of the loop of \<open>flatten\<close>; \<open>rec\<close> stands for the recursive call.\<close>

definition flatten_field :: "msg_context \<Rightarrow> (msgspec \<Rightarrow> msgspec res) \<Rightarrow> string list \<times> string list
    \<Rightarrow> string \<times> string \<Rightarrow> (string list \<times> string list) res" where
  "flatten_field ctx rec acc field = (case acc of (new_types, new_names) \<Rightarrow> case field of (t, n) \<Rightarrow>
     rbind (parse_type t) (\<lambda>(msg_type, is_array, _).
     rbind (if is_array then Inr False else is_registered ctx t) (\<lambda>embedded.
       if embedded then
         rbind (get_registered ctx t) (\<lambda>sub.
         rbind (rec sub) (\<lambda>msg_spec.
           Inr (new_types @ ms_types msg_spec, new_names @ map (\<lambda>n2. n @ ''.'' @ n2) (ms_names msg_spec))))
       else Inr (new_types @ [t], new_names @ [n]))))"

primrec flatten :: "nat \<Rightarrow> msg_context \<Rightarrow> msgspec \<Rightarrow> msgspec res" where
  "flatten 0 ctx msg = Inl RecursionError"
| "flatten (Suc k) ctx msg =
     rbind (rfoldl (flatten_field ctx (flatten k ctx)) ([], []) (zip (ms_types msg) (ms_names msg)))
       (\<lambda>(new_types, new_names).
          MsgSpec new_types new_names (ms_constants msg) (ms_text msg) (ms_full_name msg) [] [])"

section \<open>Names that are safe in Python\<close>

text \<open>\<open>keyword.kwlist\<close> of Python 3.\<close>

definition kwlist :: "string list" where
  "kwlist =
     [''False'', ''None'', ''True'', ''and'', ''as'', ''assert'', ''async'', ''await'', ''break'',
      ''class'', ''continue'', ''def'', ''del'', ''elif'', ''else'', ''except'', ''finally'', ''for'',
      ''from'', ''global'', ''if'', ''import'', ''in'', ''is'', ''lambda'', ''nonlocal'', ''not'',
      ''or'', ''pass'', ''raise'', ''return'', ''try'', ''while'', ''with'', ''yield'']"

definition reserved :: "string list" where
  "reserved = kwlist @ [''self'']"

definition remap_reserved :: "string \<Rightarrow> string" where
  "remap_reserved field_name =
     (let idx = py_rfind CHR ''.'' field_name;
          prefix = (if idx > 0 then slice_to field_name (idx + 1) else []);
          sub_field_name = (if idx > 0 then slice_from field_name (idx + 1) else field_name)
      in prefix @ (if sub_field_name \<in> set reserved then sub_field_name @ ''_'' else sub_field_name))"

definition make_python_safe :: "msgspec \<Rightarrow> msgspec res" where
  "make_python_safe spec =
     MsgSpec (ms_types spec) (map remap_reserved (ms_names spec))
       (map (\<lambda>c. Constant (c_type c) (remap_reserved (c_name c)) (c_val c) (c_val_text c)) (ms_constants spec))
       (ms_text spec) (ms_full_name spec) [] []"

section \<open>Imports and the escaped text\<close>

primrec compute_import :: "nat \<Rightarrow> msg_context \<Rightarrow> string \<Rightarrow> string \<Rightarrow> string list res" where
  "compute_import 0 ctx package ty = Inl RecursionError"
| "compute_import (Suc k) ctx package ty =
     (let orig_base_type = bare_msg_type ty in
      rbind (compute_pkg_type package orig_base_type) (\<lambda>(pkg, base_type).
      let full_msg_type = pkg @ ''/'' @ base_type in
      if is_builtin orig_base_type \<or> is_header_type orig_base_type then
        (if is_special base_type then Inr [sp_import_str (the (get_special base_type))] else Inr [])
      else rbind (is_registered ctx full_msg_type) (\<lambda>registered.
        if \<not> registered then Inr []
        else rbind (get_registered_ex ctx full_msg_type) (\<lambda>spec.
          rfoldl (\<lambda>retval t.
              if t = full_msg_type then Inl AssertionError
              else rbind (compute_import k ctx package t) (\<lambda>sub.
                Inr (retval @ filter (\<lambda>x. x \<notin> set retval) sub)))
            [''import '' @ pkg @ ''.msg''] (ms_types spec)))))"


definition triple_quote :: string where
  "triple_quote = [dquote, dquote, dquote]"

definition compute_full_text_escaped :: "nat \<Rightarrow> msg_context \<Rightarrow> any_spec \<Rightarrow> string res" where
  "compute_full_text_escaped k ctx spec =
     rbind (compute_full_text k ctx spec) (\<lambda>msg_definition.
       Inr (py_replace triple_quote [backslash, dquote, backslash, dquote, backslash, dquote] msg_definition))"

section \<open>What flattening gives\<close>

text \<open>The fields of the leaves of a message: an array or a type that is not registered is a
  leaf; the leaves of an embedded message carry the path to them.\<close>

inductive leaf_field :: "msg_context \<Rightarrow> msgspec \<Rightarrow> string \<Rightarrow> string \<Rightarrow> bool" for ctx where
  leaf: "(t, n) \<in> set (ms_fields spec) \<Longrightarrow> parse_type t = Inr (b, is_array, l) \<Longrightarrow>
    is_array \<or> is_registered ctx t = Inr False \<Longrightarrow> leaf_field ctx spec t n"
| embedded: "(t, n) \<in> set (ms_fields spec) \<Longrightarrow> parse_type t = Inr (b, False, l) \<Longrightarrow>
    get_registered ctx t = Inr sub \<Longrightarrow> leaf_field ctx sub t' p \<Longrightarrow> leaf_field ctx spec t' (n @ ''.'' @ p)"

text \<open>The leaves one field stands for.\<close>

definition field_leaves :: "msg_context \<Rightarrow> string \<times> string \<Rightarrow> (string \<times> string) set" where
  "field_leaves ctx f = {(t', n'). \<exists>b a l. parse_type (fst f) = Inr (b, a, l) \<and>
     ((a \<or> is_registered ctx (fst f) = Inr False) \<and> t' = fst f \<and> n' = snd f \<or>
      \<not> a \<and> (\<exists>sub p. get_registered ctx (fst f) = Inr sub \<and> leaf_field ctx sub t' p \<and> n' = snd f @ ''.'' @ p))}"

lemma leaf_field_fields: "leaf_field ctx spec t n \<longleftrightarrow> (\<exists>f \<in> set (ms_fields spec). (t, n) \<in> field_leaves ctx f)"
proof
  assume "leaf_field ctx spec t n"
  then show "\<exists>f \<in> set (ms_fields spec). (t, n) \<in> field_leaves ctx f"
  proof (cases rule: leaf_field.cases)
    case leaf
    then show ?thesis by (intro bexI [of _ "(t, n)"]) (auto simp: field_leaves_def)
  next
    case (embedded u m b l sub p)
    then show ?thesis by (intro bexI [of _ "(u, m)"]) (auto simp: field_leaves_def)
  qed
next
  assume "\<exists>f \<in> set (ms_fields spec). (t, n) \<in> field_leaves ctx f"
  then show "leaf_field ctx spec t n"
    using leaf_field.embedded [of _ _ spec _ _ ctx] by (auto simp: field_leaves_def intro: leaf_field.leaf)
qed

lemma flatten_field_leaves:
  assumes "flatten_field ctx rec (ts, ns) f = Inr (ts', ns')" and "length ts = length ns"
    and rec: "\<And>sub s. rec sub = Inr s \<Longrightarrow> length (ms_types s) = length (ms_names s) \<and>
      set (ms_fields s) = {(t, n). leaf_field ctx sub t n}"
  shows "length ts' = length ns' \<and> set (zip ts' ns') = set (zip ts ns) \<union> field_leaves ctx f"
proof -
  obtain t n where f: "f = (t, n)" by (cases f)
  obtain b a l where pt: "parse_type t = Inr (b, a, l)"
    using assms(1) by (cases "parse_type t") (auto simp: flatten_field_def f)
  show ?thesis
  proof (cases "a \<or> is_registered ctx t = Inr False")
    case True
    then have "ts' = ts @ [t]" "ns' = ns @ [n]"
      using assms(1) pt by (auto simp: flatten_field_def f split: if_splits)
    moreover have "\<not> (\<exists>s. get_registered ctx t = Inr s)" if "\<not> a"
      using True that ctx.has_True_iff [of ctx t] by auto
    then have "field_leaves ctx f = {(t, n)}" using True pt by (auto simp: field_leaves_def f)
    ultimately show ?thesis using assms(2) by simp
  next
    case False
    then obtain sub s where sub: "get_registered ctx t = Inr sub" "rec sub = Inr s"
      and r: "ts' = ts @ ms_types s" "ns' = ns @ map (\<lambda>n2. n @ ''.'' @ n2) (ms_names s)"
      using assms(1) pt by (auto simp: flatten_field_def f rbind_eq_Inr split: if_splits)
    note s = rec [OF sub(2)]
    have "field_leaves ctx f = (\<lambda>(t', p). (t', n @ ''.'' @ p)) ` {(t', p). leaf_field ctx sub t' p}"
      using False pt sub(1) by (auto simp: field_leaves_def f)
    also have "\<dots> = (\<lambda>(t', p). (t', n @ ''.'' @ p)) ` set (ms_fields s)" using s by simp
    also have "\<dots> = set (zip (ms_types s) (map (\<lambda>n2. n @ ''.'' @ n2) (ms_names s)))"
      by (auto simp: ms_fields_def zip_map2 image_iff split: prod.splits)
    finally show ?thesis using s assms(2) r by simp
  qed
qed

lemma flatten_loop_leaves:
  assumes "rfoldl (flatten_field ctx rec) (ts, ns) fs = Inr (ts', ns')" and "length ts = length ns"
    and "\<And>sub s. rec sub = Inr s \<Longrightarrow> length (ms_types s) = length (ms_names s) \<and>
      set (ms_fields s) = {(t, n). leaf_field ctx sub t n}"
  shows "length ts' = length ns' \<and> set (zip ts' ns') = set (zip ts ns) \<union> (\<Union>f \<in> set fs. field_leaves ctx f)"
  using assms(1,2)
proof (induction fs arbitrary: ts ns)
  case (Cons f fs)
  from Cons.prems(1) obtain ts1 ns1 where one: "flatten_field ctx rec (ts, ns) f = Inr (ts1, ns1)"
    and rest: "rfoldl (flatten_field ctx rec) (ts1, ns1) fs = Inr (ts', ns')"
    by (auto simp: rbind_eq_Inr)
  from flatten_field_leaves [OF one Cons.prems(2) assms(3)] Cons.IH [OF rest] show ?case by auto
qed simp

lemma flatten_Inr:
  assumes "flatten k ctx spec = Inr s"
  shows "msgspec_ok s \<and> set (ms_fields s) = {(t, n). leaf_field ctx spec t n} \<and>
    ms_constants s = ms_constants spec \<and> ms_text s = ms_text spec \<and> ms_full_name s = ms_full_name spec"
  using assms
proof (induction k arbitrary: spec s)
  case (Suc k)
  from Suc.prems obtain ts ns where
    loop: "rfoldl (flatten_field ctx (flatten k ctx)) ([], []) (zip (ms_types spec) (ms_names spec)) = Inr (ts, ns)"
    and mk: "MsgSpec ts ns (ms_constants spec) (ms_text spec) (ms_full_name spec) [] [] = Inr s"
    by (auto simp: rbind_eq_Inr)
  have rec: "length (ms_types s') = length (ms_names s') \<and> set (ms_fields s') = {(t, n). leaf_field ctx sub t n}"
    if "flatten k ctx sub = Inr s'" for sub s'
    using Suc.IH [OF that] by (auto simp: msgspec_ok_def)
  from flatten_loop_leaves [OF loop _ rec] have
    "set (zip ts ns) = (\<Union>f \<in> set (zip (ms_types spec) (ms_names spec)). field_leaves ctx f)" by simp
  also have "\<dots> = {(t, n). leaf_field ctx spec t n}"
    by (auto simp: leaf_field_fields ms_fields_def)
  finally show ?case using MsgSpec_Inr [OF mk] by (simp add: ms_fields_def)
qed simp

section \<open>Properties\<close>

text \<open>Flattening. When \<open>flatten\<close> returns, the fields of its result are exactly the leaves of
  the message under their dotted paths, their names are distinct, and no field that is left is an embedded
  message; the constants, the text and the name are those of the message.\<close>

theorem flatten_gives_leaves:
  assumes "flatten k ctx spec = Inr s"
  shows "set (ms_fields s) = {(t, n). leaf_field ctx spec t n} \<and> distinct (ms_names s) \<and>
    (\<forall>(t, n) \<in> set (ms_fields s). \<forall>b l. parse_type t = Inr (b, False, l) \<longrightarrow> is_registered ctx t = Inr False) \<and>
    ms_constants s = ms_constants spec \<and> ms_text s = ms_text spec \<and> ms_full_name s = ms_full_name spec"
proof -
  have "is_registered ctx t = Inr False" if "leaf_field ctx spec t n" "parse_type t = Inr (b, False, l)" for t n b l
    using that by (induction rule: leaf_field.induct) auto
  then show ?thesis using flatten_Inr [OF assms] by (auto simp: msgspec_ok_def)
qed

theorem flatten_gives_leaves_witness:
  "\<exists>ctx spec s. create_default \<lparr>w_files = Map.empty, w_literal = \<lambda>_. None\<rparr> = Inr ctx \<and>
     flatten 2 ctx spec = Inr s \<and> ms_names s = [''stamp.secs'', ''stamp.nsecs'', ''n''] \<and>
     leaf_field ctx spec ''uint32'' ''stamp.secs''"
proof -
  let ?w = "\<lparr>w_files = Map.empty, w_literal = \<lambda>_. None\<rparr>"
  have "case create_default ?w of Inl e \<Rightarrow> False | Inr ctx0 \<Rightarrow>
      (case load_msg_from_string ?w (''time stamp'' @ [newline] @ ''int8 n'') ''m/A'' ctx0 of (Inl e, _) \<Rightarrow> False
       | (Inr spec, c) \<Rightarrow> (case flatten 2 ctx0 spec of Inl e \<Rightarrow> False
         | Inr s \<Rightarrow> ms_names s = [''stamp.secs'', ''stamp.nsecs'', ''n''] \<and> (''uint32'', ''stamp.secs'') \<in> set (ms_fields s)))"
    by code_simp
  then obtain ctx spec s where *: "create_default ?w = Inr ctx" "flatten 2 ctx spec = Inr s"
    "ms_names s = [''stamp.secs'', ''stamp.nsecs'', ''n'']" "(''uint32'', ''stamp.secs'') \<in> set (ms_fields s)"
    unfolding run_returns_iff by blast
  then show ?thesis using flatten_gives_leaves [OF *(2)] by blast
qed

definition safe_name :: "string \<Rightarrow> string" where
  "safe_name b = (if b \<in> set reserved then b @ ''_'' else b)"

lemma safe_name_not_reserved: "safe_name b \<notin> set reserved"
proof -
  have "list_all (\<lambda>r. r @ ''_'' \<notin> set reserved) reserved" by code_simp
  then show ?thesis by (auto simp: safe_name_def list_all_iff)
qed

lemma remap_reserved_simple: "CHR ''.'' \<notin> set b \<Longrightarrow> remap_reserved b = safe_name b"
  by (simp add: remap_reserved_def safe_name_def)

lemma remap_reserved_path:
  assumes "CHR ''.'' \<notin> set b" "p \<noteq> []"
  shows "remap_reserved (p @ ''.'' @ b) = p @ ''.'' @ safe_name b"
proof -
  have "py_rfind CHR ''.'' (p @ CHR ''.'' # b) = int (length p)" using assms(1) by simp
  moreover have "slice_to (p @ CHR ''.'' # b) (int (length p) + 1) = p @ ''.''"
    by (simp add: slice_to_def slice_idx_def nat_add_distrib)
  ultimately show ?thesis using assms(2) by (simp add: remap_reserved_def safe_name_def Let_def)
qed

text \<open>Names in generated code. \<open>make_python_safe\<close> keeps the types of a specification and renames
  its fields one by one; the last component of a renamed name is never a reserved word, the path
  before it is kept, and a name that is not reserved is kept.\<close>

theorem make_python_safe_names:
  assumes "make_python_safe spec = Inr s"
  shows "ms_types s = ms_types spec \<and> ms_names s = map remap_reserved (ms_names spec) \<and> distinct (ms_names s) \<and>
    (\<forall>b. CHR ''.'' \<notin> set b \<longrightarrow> safe_name b \<notin> set reserved \<and> remap_reserved b = safe_name b \<and>
       (\<forall>p. p \<noteq> [] \<longrightarrow> remap_reserved (p @ ''.'' @ b) = p @ ''.'' @ safe_name b))"
  using MsgSpec_Inr [OF assms [unfolded make_python_safe_def]] safe_name_not_reserved
    remap_reserved_simple remap_reserved_path by (simp add: msgspec_ok_def)

theorem make_python_safe_names_witness:
  "\<exists>spec s. make_python_safe spec = Inr s \<and> ms_names spec = [''class'', ''x''] \<and> ms_names s = [''class_'', ''x'']"
proof -
  have "case MsgSpec [''int8'', ''int8''] [''class'', ''x''] [] [] ''m/A'' [] [] of Inl e \<Rightarrow> False
     | Inr spec \<Rightarrow> (case make_python_safe spec of Inl e \<Rightarrow> False
        | Inr s \<Rightarrow> ms_names spec = [''class'', ''x''] \<and> map remap_reserved (ms_names spec) = [''class_'', ''x''])"
    by code_simp
  then obtain spec s where "make_python_safe spec = Inr s" "ms_names spec = [''class'', ''x'']"
    "map remap_reserved (ms_names spec) = [''class_'', ''x'']"
    unfolding run_returns_iff by (elim exE conjE) (rule that)
  then show ?thesis using make_python_safe_names [of spec s] by metis
qed

end
