(* ===== verification/Serializers.thy ===== *)
theory Serializers
  imports Generator_Util
begin

text \<open>
  The (de)serialization generators of \<open>genpy/generator.py\<close>. A Python generator that yields
  lines of code is an action that returns the list of its lines; its only consumers run
  it to the end. The module globals \<open>_counter\<close>, \<open>_serial_context\<close> and \<open>_context_stack\<close> extend
  the state of the pattern list. \<open>serializer_generator\<close> recurs through embedded messages, so
  it takes the number of nested calls the interpreter allows; the generators it calls take
  the recursive call as an argument.
\<close>

section \<open>The state of the generators\<close>

record gen_state = struct_state +
  counter :: nat
  serial_context :: string
  context_stack :: "string list"

type_synonym 'a gen = "(gen_state, 'a) act"

definition next_var :: "string gen" where
  "next_var = sbind (smodify (\<lambda>s. s\<lparr>counter := counter s + 1\<rparr>)) (\<lambda>_.
     sgets (\<lambda>s. ''_v'' @ str_of_nat (counter s)))"

definition reset_var :: "unit gen" where
  "reset_var = smodify (\<lambda>s. s\<lparr>counter := 0\<rparr>)"

text \<open>The top of the stack is the last element of the list.\<close>

definition push_context :: "string \<Rightarrow> unit gen" where
  "push_context context = smodify (\<lambda>s.
     s\<lparr>context_stack := context_stack s @ [serial_context s], serial_context := context\<rparr>)"

definition pop_context :: "unit gen" where
  "pop_context = (\<lambda>s. if context_stack s = [] then (Inl IndexError, s)
     else (Inr (), s\<lparr>serial_context := last (context_stack s), context_stack := butlast (context_stack s)\<rparr>))"

text \<open>The generators run one after the other, their lines in order.\<close>

fun seq_lines :: "string list gen list \<Rightarrow> string list gen" where
  "seq_lines [] = sret []"
| "seq_lines (g # gs) = sbind g (\<lambda>l. sbind (seq_lines gs) (\<lambda>ls. sret (l @ ls)))"

section \<open>Lengths and strings\<close>

definition len_serializer_generator :: "string \<Rightarrow> bool \<Rightarrow> bool \<Rightarrow> string list" where
  "len_serializer_generator var is_string ser =
     (if ser then [''length = len('' @ var @ '')''] @ (if \<not> is_string then [int32_pack ''length''] else [])
      else [''start = end'', ''end += 4'', int32_unpack ''length'' ''str[start:end]''])"

text \<open>The two struct calls of a variable length string, \<open>'<I%sB'%length\<close> and \<open>'<I%ss'%length\<close>.\<close>

definition fmt_IB :: string where "fmt_IB = [squote] @ ''<I%sB'' @ [squote] @ ''%length''"
definition fmt_Is :: string where "fmt_Is = [squote] @ ''<I%ss'' @ [squote] @ ''%length''"
definition utf8 :: string where "utf8 = [squote] @ ''utf-8'' @ [squote]"

definition bytes_comment :: string where
  "bytes_comment = ''# - if encoded as a list instead, serialize as bytes instead of string''"

definition string_body :: "string \<Rightarrow> int option \<Rightarrow> string \<Rightarrow> bool \<Rightarrow> string list gen" where
  "string_body base_type array_len var ser =
     (if ser then
        (if base_type \<in> set [''uint8'', ''char''] then
           (case array_len of
              None \<Rightarrow> sret [bytes_comment, ''if type('' @ var @ '') in [list, tuple]:'',
                INDENT @ pack2 fmt_IB (''length, *'' @ var), ''else:'',
                INDENT @ pack2 fmt_Is (''length, '' @ var)]
            | Some n \<Rightarrow>
                sbind (pack (str_of_int n @ ''B'') (''*'' @ var)) (\<lambda>p1.
                sbind (pack (str_of_int n @ ''s'') var) (\<lambda>p2.
                sret [bytes_comment, ''if type('' @ var @ '') in [list, tuple]:'', INDENT @ p1, ''else:'', INDENT @ p2])))
         else sret [''if python3 or type('' @ var @ '') == unicode:'',
                INDENT @ var @ '' = '' @ var @ ''.encode('' @ utf8 @ '')'',
                INDENT @ ''length = len('' @ var @ '')'',
                pack2 fmt_Is (''length, '' @ var)])
      else sret ([''start = end''] @
        (case array_len of
           Some n \<Rightarrow> [''end += '' @ str_of_int n, var @ '' = str[start:end]'']
         | None \<Rightarrow> [''end += length''] @
             (if base_type \<in> set [''uint8'', ''char''] then [var @ '' = str[start:end]'']
              else [''if python3:'', INDENT @ var @ '' = str[start:end].decode('' @ utf8 @ '')'', ''else:'',
                    INDENT @ var @ '' = str[start:end]'']))))"

definition string_serializer_generator :: "string \<Rightarrow> string \<Rightarrow> bool \<Rightarrow> string list gen" where
  "string_serializer_generator ty name ser =
     sbind (sgets serial_context) (\<lambda>context.
     let use_x = (context \<noteq> [] \<and> ser);
         first = (if use_x then [''_x = '' @ context @ name] else []);
         var = (if use_x then ''_x'' else context @ name)
     in sbind (slift (parse_type ty)) (\<lambda>(base_type, is_array, array_len).
        let lens = (if base_type \<notin> set [''uint8'', ''char''] \<or> array_len = None
                    then len_serializer_generator var True ser else [])
        in sbind (string_body base_type array_len var ser) (\<lambda>body. sret (first @ lens @ body))))"

section \<open>Arrays\<close>

text \<open>The lines of an array of a simple type.\<close>

definition simple_array :: "string \<Rightarrow> int option \<Rightarrow> string \<Rightarrow> bool \<Rightarrow> bool \<Rightarrow> string list gen" where
  "simple_array base_type array_len var ser is_numpy =
     (let code = (case compute_struct_pattern [base_type] of None \<Rightarrow> ''None'' | Some p \<Rightarrow> p);
          dtype = (case NUMPY_DTYPE base_type of None \<Rightarrow> [] | Some d \<Rightarrow> d);
          to_bool = (if \<not> ser \<and> base_type = ''bool'' then [var @ '' = map(bool, '' @ var @ '')''] else [])
      in case array_len of
        None \<Rightarrow>
          sret ([''pattern = '' @ [squote] @ ''<%s'' @ code @ [squote] @ ''%length''] @
            (if ser then [if is_numpy then pack_numpy var else pack2 ''pattern'' (''*'' @ var)]
             else [''start = end'', ''end += struct.calcsize(pattern)'',
                   if is_numpy then unpack_numpy var ''length'' dtype ''str[start:end]''
                   else unpack2 var ''pattern'' ''str[start:end]'']) @ to_bool)
      | Some n \<Rightarrow>
          let pattern = str_of_int n @ code in
          if ser then
            sbind (if is_numpy then sret (pack_numpy var) else pack pattern (''*'' @ var)) (\<lambda>l. sret ([l] @ to_bool))
          else sbind (slift (calcsize pattern)) (\<lambda>size.
            sbind (if is_numpy then sret (unpack_numpy var (str_of_int n) dtype ''str[start:end]'')
                   else unpack var pattern ''str[start:end]'') (\<lambda>l.
            sret ([''start = end'', ''end += '' @ str_of_nat size, l] @ to_bool))))"

text \<open>The loop over an array of strings or messages: the lines before the elements and the
  lines of one element, and the loop itself. The context is pushed before the elements are
  generated and popped after them.\<close>

definition loop_factory :: "msg_context \<Rightarrow> (msgspec \<Rightarrow> string list gen) \<Rightarrow> string \<Rightarrow> string \<Rightarrow> bool
    \<Rightarrow> string list gen gen" where
  "loop_factory ctx rec base_type loop_var ser =
     (if base_type = ''string'' then sret (string_serializer_generator base_type loop_var ser)
      else sbind (slift (rbind (get_registered_ex ctx base_type) make_python_safe)) (\<lambda>sub. sret (rec sub)))"

definition loop_head :: "msg_context \<Rightarrow> string \<Rightarrow> string \<Rightarrow> int option \<Rightarrow> string \<Rightarrow> string \<Rightarrow> bool \<Rightarrow> string list res" where
  "loop_head ctx package base_type array_len var loop_var ser =
     (if ser then Inr [''for '' @ loop_var @ '' in '' @ var @ '':'']
      else
        let start = [var @ '' = []'',
              case array_len of None \<Rightarrow> ''for i in range(0, length):''
              | Some n \<Rightarrow> ''for i in range(0, '' @ str_of_int n @ ''):'']
        in if base_type \<noteq> ''string'' then
             rbind (compute_constructor ctx package base_type) (\<lambda>c.
               Inr (start @ [INDENT @ loop_var @ '' = '' @ opt_str c]))
           else Inr start)"

definition loop_array :: "msg_context \<Rightarrow> (msgspec \<Rightarrow> string list gen) \<Rightarrow> string \<Rightarrow> string \<Rightarrow> int option
    \<Rightarrow> string \<Rightarrow> bool \<Rightarrow> string list gen" where
  "loop_array ctx rec package base_type array_len var ser =
     sbind (sgets (\<lambda>s. ''val'' @ str_of_nat (length (context_stack s)))) (\<lambda>loop_var.
     sbind (push_context (if base_type = ''string'' then [] else loop_var @ ''.'')) (\<lambda>_.
     sbind (sbind (loop_factory ctx rec base_type loop_var ser) (\<lambda>factory.
            sbind (slift (loop_head ctx package base_type array_len var loop_var ser)) (\<lambda>head.
            sbind factory (\<lambda>body. sret (head @ map (\<lambda>y. INDENT @ y) body))))) (\<lambda>lines.
     sbind pop_context (\<lambda>_.
       sret (lines @ (if \<not> ser then [INDENT @ var @ ''.append('' @ loop_var @ '')''] else []))))))"

definition array_serializer_generator :: "msg_context \<Rightarrow> (msgspec \<Rightarrow> string list gen) \<Rightarrow> string \<Rightarrow> string \<Rightarrow> string
    \<Rightarrow> bool \<Rightarrow> bool \<Rightarrow> string list gen" where
  "array_serializer_generator ctx rec package ty name ser is_numpy =
     sbind (slift (parse_type ty)) (\<lambda>(base_type, is_array, array_len).
       if \<not> is_array then sraise MsgGenerationException
       else if base_type \<in> set [''char'', ''uint8''] then string_serializer_generator ty name ser
       else sbind (sgets serial_context) (\<lambda>context.
         let var = context @ name;
             lens = (if array_len = None then len_serializer_generator var False ser else [])
         in sbind (if is_simple base_type then simple_array base_type array_len var ser is_numpy
                   else loop_array ctx rec package base_type array_len var ser) (\<lambda>body.
              sret (lens @ body))))"

section \<open>Complex and simple fields\<close>

text \<open>The descent into an embedded message.\<close>

definition embedded_serializer :: "msg_context \<Rightarrow> (msgspec \<Rightarrow> string list gen) \<Rightarrow> string \<Rightarrow> string \<Rightarrow> string list gen" where
  "embedded_serializer ctx rec ty name =
     sbind next_var (\<lambda>ctx_var.
     sbind (sgets serial_context) (\<lambda>context.
     sbind (push_context (ctx_var @ ''.'')) (\<lambda>_.
     sbind (sbind (slift (rbind (get_registered_ex ctx ty) make_python_safe)) rec) (\<lambda>body.
     sbind pop_context (\<lambda>_.
       sret ([ctx_var @ '' = '' @ context @ name] @ body))))))"

definition complex_serializer_generator :: "msg_context \<Rightarrow> (msgspec \<Rightarrow> string list gen) \<Rightarrow> string \<Rightarrow> string \<Rightarrow> string
    \<Rightarrow> bool \<Rightarrow> bool \<Rightarrow> string list gen" where
  "complex_serializer_generator ctx rec package ty name ser is_numpy =
     sbind (slift (parse_type ty)) (\<lambda>(_, is_array, _).
       if is_array then array_serializer_generator ctx rec package ty name ser is_numpy
       else if ty = ''string'' then string_serializer_generator ty name ser
       else
         sbind (if \<not> is_special ty
                then slift (rbind (compute_pkg_type package ty) (\<lambda>(pkg, base_type). Inr (pkg @ ''/'' @ base_type)))
                else sret ty) (\<lambda>ty'.
         sbind (slift (is_registered ctx ty')) (\<lambda>registered.
           if registered then embedded_serializer ctx rec ty' name
           else sraise MsgGenerationException)))"

text \<open>The slice \<open>xs[start:end]\<close> of a list.\<close>

definition list_slice :: "'a list \<Rightarrow> nat \<Rightarrow> nat \<Rightarrow> 'a list" where
  "list_slice xs start stop = take (stop - start) (drop start xs)"

definition simple_serializer_generator :: "msgspec \<Rightarrow> nat \<Rightarrow> nat \<Rightarrow> bool \<Rightarrow> string list gen" where
  "simple_serializer_generator spec start stop ser =
     sbind (sgets serial_context) (\<lambda>context.
     let names = list_slice (ms_names spec) start stop;
         types = list_slice (ms_types spec) start stop;
         use_x = (stop - start > 1 \<and> endswith context ''.'');
         first = (if use_x then [''_x = '' @ slice_to context (- 1)] else []);
         vars = (if use_x then ''_x.'' @ py_join '', _x.'' names else context @ py_join ('', '' @ context) names);
         pattern = (case compute_struct_pattern types of None \<Rightarrow> ''None'' | Some p \<Rightarrow> p)
     in if ser then sbind (pack pattern vars) (\<lambda>l. sret (first @ [l]))
        else sbind (slift (calcsize (reduce_pattern pattern))) (\<lambda>size.
          sbind (unpack (''('' @ vars @ '',)'') pattern ''str[start:end]'') (\<lambda>l.
          sret (first @ [''start = end'', ''end += '' @ str_of_nat size, l] @
            map (\<lambda>(f, t). let var = context @ f in var @ '' = bool('' @ var @ '')'')
              (filter (\<lambda>(f, t). t = ''bool'') (zip names types))))))"

section \<open>The serializer of a message\<close>

text \<open>The loop of \<open>serializer_generator\<close> cuts the fields into pieces: a run of simple fields,
  in chunks of at most 255, or one complex field.\<close>

datatype piece = Simple nat nat | Complex nat

function chunk_ranges :: "nat \<Rightarrow> nat \<Rightarrow> piece list" where
  "chunk_ranges cur stop =
     (if cur < stop then Simple cur (min (cur + 255) stop) # chunk_ranges (cur + 255) stop else [])"
  by pat_completeness auto
termination
  by (relation "measure (\<lambda>(cur, stop). stop - cur)") auto

declare chunk_ranges.simps [simp del]

fun pieces_loop :: "nat \<Rightarrow> nat \<Rightarrow> string list \<Rightarrow> piece list" where
  "pieces_loop cur i [] = (if cur < i then chunk_ranges cur i else [])"
| "pieces_loop cur i (full_type # types) =
     (if \<not> is_simple full_type
      then (if i \<noteq> cur then chunk_ranges cur i else []) @ [Complex i] @ pieces_loop (i + 1) (i + 1) types
      else pieces_loop cur (i + 1) types)"

definition serialize_piece :: "msg_context \<Rightarrow> (msgspec \<Rightarrow> string list gen) \<Rightarrow> msgspec \<Rightarrow> bool \<Rightarrow> bool \<Rightarrow> piece
    \<Rightarrow> string list gen" where
  "serialize_piece ctx rec spec ser is_numpy p = (case p of
     Simple start stop \<Rightarrow> simple_serializer_generator spec start stop ser
   | Complex i \<Rightarrow> complex_serializer_generator ctx rec (ms_package spec) (ms_types spec ! i) (ms_names spec ! i) ser is_numpy)"

primrec serializer_generator :: "nat \<Rightarrow> msg_context \<Rightarrow> msgspec \<Rightarrow> bool \<Rightarrow> bool \<Rightarrow> string list gen" where
  "serializer_generator 0 ctx spec ser is_numpy = sraise RecursionError"
| "serializer_generator (Suc k) ctx spec ser is_numpy =
     (if ser \<and> ms_names spec = [] then sret [''pass'']
      else seq_lines (map
        (serialize_piece ctx (\<lambda>sub. serializer_generator k ctx sub ser is_numpy) spec ser is_numpy)
        (pieces_loop 0 0 (ms_types spec))))"

section \<open>The bodies of serialize and deserialize\<close>

definition struct_error_line :: string where
  "struct_error_line = ''except struct.error as se: self._check_types(struct.error('' @ [dquote] @
     ''%s: '' @ [squote] @ ''%s'' @ [squote] @ '' when writing '' @ [squote] @ ''%s'' @ [squote] @ [dquote] @
     '' % (type(se), str(se), str(locals().get('' @ [squote] @ ''_x'' @ [squote] @ '', self)))))''"

definition type_error_line :: string where
  "type_error_line = ''except TypeError as te: self._check_types(ValueError('' @ [dquote] @
     ''%s: '' @ [squote] @ ''%s'' @ [squote] @ '' when writing '' @ [squote] @ ''%s'' @ [squote] @ [dquote] @
     '' % (type(te), str(te), str(locals().get('' @ [squote] @ ''_x'' @ [squote] @ '', self)))))''"

definition flattened_body :: "nat \<Rightarrow> msg_context \<Rightarrow> msgspec \<Rightarrow> bool \<Rightarrow> bool \<Rightarrow> string list gen" where
  "flattened_body k ctx spec ser is_numpy =
     sbind (push_context ''self.'') (\<lambda>_.
     sbind (sbind (slift (rbind (flatten k ctx spec) make_python_safe)) (\<lambda>flattened.
              serializer_generator k ctx flattened ser is_numpy)) (\<lambda>body.
     sbind pop_context (\<lambda>_. sret (map (\<lambda>y. ''  '' @ y) body))))"

definition serialize_fn_generator :: "nat \<Rightarrow> msg_context \<Rightarrow> msgspec \<Rightarrow> bool \<Rightarrow> string list gen" where
  "serialize_fn_generator k ctx spec is_numpy =
     sbind (flattened_body k ctx spec True is_numpy) (\<lambda>body.
       sret ([''try:''] @ body @ [struct_error_line, type_error_line]))"

definition instantiate_lines :: "msg_context \<Rightarrow> string \<Rightarrow> string \<times> string \<Rightarrow> string list res" where
  "instantiate_lines ctx package f = (case f of (ty, name) \<Rightarrow>
     rbind (is_registered ctx ty) (\<lambda>registered.
       if registered then rbind (compute_constructor ctx package ty) (\<lambda>c.
         Inr [''  if self.'' @ name @ '' is None:'', ''    self.'' @ name @ '' = '' @ opt_str c])
       else Inr []))"

definition post_deserialize_lines :: "string \<times> string \<Rightarrow> string list" where
  "post_deserialize_lines f = (case f of (ty, name) \<Rightarrow>
     case compute_post_deserialize ty (''self.'' @ name) of None \<Rightarrow> []
     | Some code \<Rightarrow> if code = [] then [] else [''  '' @ code])"

definition deserialize_fn_generator :: "nat \<Rightarrow> msg_context \<Rightarrow> msgspec \<Rightarrow> bool \<Rightarrow> string list gen" where
  "deserialize_fn_generator k ctx spec is_numpy =
     sbind (slift (rmap (instantiate_lines ctx (ms_package spec)) (ms_fields spec))) (\<lambda>inst.
     sbind (flattened_body k ctx spec False is_numpy) (\<lambda>body.
       sret ([''try:''] @ concat inst @ [''  end = 0''] @ body @
             concat (map post_deserialize_lines (ms_fields spec)) @
             [''  return self'', ''except struct.error as e:'',
              ''  raise genpy.DeserializationError(e) #most likely buffer underfill''])))"

section \<open>The pieces of a message\<close>

fun piece_fields :: "piece \<Rightarrow> nat list" where
  "piece_fields (Simple a b) = [a..<b]"
| "piece_fields (Complex i) = [i]"

fun piece_ok :: "(nat \<Rightarrow> bool) \<Rightarrow> piece \<Rightarrow> bool" where
  "piece_ok simple (Simple a b) \<longleftrightarrow> a < b \<and> b \<le> a + 255 \<and> (\<forall>i. a \<le> i \<and> i < b \<longrightarrow> simple i)"
| "piece_ok simple (Complex i) \<longleftrightarrow> \<not> simple i"

lemma chunk_ranges_fields: "a \<le> b \<Longrightarrow> concat (map piece_fields (chunk_ranges a b)) = [a..<b]"
proof (induction a b rule: chunk_ranges.induct)
  case (1 a b)
  show ?case
  proof (cases "a + 255 \<le> b")
    case True
    then have "[a..<b] = [a..<a + 255] @ [a + 255..<b]" by (metis le_add1 le_iff_add upt_add_eq_append)
    then show ?thesis using True 1 by (subst chunk_ranges.simps) (simp add: min_def)
  next
    case False
    then show ?thesis using 1(2)
      by (subst chunk_ranges.simps) (simp add: min_def chunk_ranges.simps [of "a + 255"])
  qed
qed

lemma chunk_ranges_ok:
  "(\<And>i. a \<le> i \<Longrightarrow> i < b \<Longrightarrow> simple i) \<Longrightarrow> list_all (piece_ok simple) (chunk_ranges a b)"
proof (induction a b rule: chunk_ranges.induct)
  case (1 a b)
  then show ?case by (subst chunk_ranges.simps) auto
qed

lemma pieces_loop_fields:
  "cur \<le> i \<Longrightarrow> concat (map piece_fields (pieces_loop cur i types)) = [cur..<i + length types]"
proof (induction types arbitrary: cur i)
  case (Cons t types)
  have split: "[cur..<i + length (t # types)] = [cur..<i] @ [i] @ [i + 1..<i + 1 + length types]"
    using upt_add_eq_append [OF Cons.prems, of "length (t # types)"] upt_conv_Cons [of i "i + length (t # types)"]
    by (simp del: upt_Suc)
  show ?case
    using Cons.IH [of cur "i + 1"] Cons.IH [of "i + 1" "i + 1"] Cons.prems split
    by (auto simp: chunk_ranges_fields)
qed (auto simp: chunk_ranges_fields)

lemma pieces_loop_ok:
  "cur \<le> i \<Longrightarrow> \<forall>j. cur \<le> j \<and> j < i \<longrightarrow> simple j \<Longrightarrow> \<forall>j < length types. simple (i + j) = is_simple (types ! j) \<Longrightarrow>
   list_all (piece_ok simple) (pieces_loop cur i types)"
proof (induction types arbitrary: cur i)
  case (Cons t types)
  have t: "simple i = is_simple t" using Cons.prems(3) by (metis add.right_neutral length_greater_0_conv list.distinct(1) nth_Cons_0)
  have rest: "\<forall>j < length types. simple (i + 1 + j) = is_simple (types ! j)" using Cons.prems(3) by auto
  show ?case
  proof (cases "is_simple t")
    case True
    then have "\<forall>j. cur \<le> j \<and> j < i + 1 \<longrightarrow> simple j" using t Cons.prems(2) by (auto simp: less_Suc_eq)
    then show ?thesis using True Cons.IH [of cur "i + 1"] Cons.prems(1) rest by simp
  next
    case False
    then show ?thesis using Cons.IH [of "i + 1" "i + 1"] chunk_ranges_ok [of cur i simple] Cons.prems(2) rest t
      by auto
  qed
qed (auto simp: chunk_ranges_ok)

section \<open>The context stack is balanced\<close>

definition keeps_context :: "'a gen \<Rightarrow> bool" where
  "keeps_context g \<longleftrightarrow> (\<forall>s r s'. g s = (Inr r, s') \<longrightarrow>
     serial_context s' = serial_context s \<and> context_stack s' = context_stack s)"

named_theorems keeps

lemma keeps_basic [keeps]:
  "keeps_context (sret x)" "keeps_context (sraise e)" "keeps_context (slift r)" "keeps_context (sgets f)"
  "keeps_context (pack p v)" "keeps_context (unpack a p b)" "keeps_context next_var"
  by (auto simp: keeps_context_def sret_def sraise_def slift_def sgets_def pack_def unpack_def next_var_def
      add_pattern_def sbind_def smodify_def Let_def split: sum.splits)

lemma keeps_sbind [keeps]:
  assumes "keeps_context m" "\<And>x. keeps_context (f x)" shows "keeps_context (sbind m f)"
  unfolding keeps_context_def
proof (intro allI impI)
  fix s r s' assume "sbind m f s = (Inr r, s')"
  then obtain x t where "m s = (Inr x, t)" "f x t = (Inr r, s')" by (auto simp: sbind_eq_Inr)
  then show "serial_context s' = serial_context s \<and> context_stack s' = context_stack s"
    using assms unfolding keeps_context_def by metis
qed

lemma keeps_if [keeps]: "keeps_context a \<Longrightarrow> keeps_context b \<Longrightarrow> keeps_context (if c then a else b)"
  by simp

lemma keeps_seq_lines: "\<forall>g \<in> set gs. keeps_context g \<Longrightarrow> keeps_context (seq_lines gs)"
  by (induction gs) (auto intro!: keeps)

text \<open>A context pushed before a part that keeps the context and popped after it.\<close>

lemma keeps_bracket:
  assumes "\<And>y. keeps_context (f y)"
  shows "keeps_context (sbind (push_context c) (\<lambda>_. sbind (f ()) (\<lambda>x. sbind pop_context (\<lambda>_. sret (h x)))))"
  unfolding keeps_context_def
proof (intro allI impI)
  fix s r s'
  assume run: "sbind (push_context c) (\<lambda>_. sbind (f ()) (\<lambda>x. sbind pop_context (\<lambda>_. sret (h x)))) s = (Inr r, s')"
  let ?s = "s\<lparr>context_stack := context_stack s @ [serial_context s], serial_context := c\<rparr>"
  from run obtain x t where x: "f () ?s = (Inr x, t)" and p: "pop_context t = (Inr (), s')"
    by (auto simp: sbind_eq_Inr push_context_def smodify_def sret_def)
  have "context_stack t = context_stack s @ [serial_context s]"
    using assms x unfolding keeps_context_def by fastforce
  then show "serial_context s' = serial_context s \<and> context_stack s' = context_stack s"
    using p by (auto simp: pop_context_def)
qed

lemma keeps_string_serializer [keeps]: "keeps_context (string_serializer_generator ty name ser)"
  unfolding string_serializer_generator_def string_body_def Let_def
  by (auto intro!: keeps split: prod.splits option.splits)

lemma keeps_simple_array [keeps]: "keeps_context (simple_array base_type array_len var ser is_numpy)"
  unfolding simple_array_def Let_def by (auto intro!: keeps split: option.splits)

lemma keeps_loop_factory:
  assumes "\<And>sub. keeps_context (rec sub)"
  shows "keeps_context (sbind (loop_factory ctx rec base_type loop_var ser) (\<lambda>factory.
            sbind (slift head) (\<lambda>h. sbind factory (\<lambda>body. sret (g h body)))))"
proof (cases "base_type = ''string''")
  case True
  have "sbind (loop_factory ctx rec base_type loop_var ser) (\<lambda>factory. sbind (slift head) (\<lambda>h. sbind factory (\<lambda>body. sret (g h body))))
      = sbind (slift head) (\<lambda>h. sbind (string_serializer_generator base_type loop_var ser) (\<lambda>body. sret (g h body)))"
    using True by (simp add: loop_factory_def fun_eq_iff sbind_def sret_def)
  then show ?thesis by (simp only:) (intro keeps)
next
  case False
  let ?m = "rbind (get_registered_ex ctx base_type) make_python_safe"
  have "sbind (loop_factory ctx rec base_type loop_var ser) (\<lambda>factory. sbind (slift head) (\<lambda>h. sbind factory (\<lambda>body. sret (g h body))))
      = sbind (slift ?m) (\<lambda>sub. sbind (slift head) (\<lambda>h. sbind (rec sub) (\<lambda>body. sret (g h body))))"
    using False by (cases ?m) (simp_all add: loop_factory_def fun_eq_iff sbind_def sret_def slift_def)
  then show ?thesis by (simp only:) (intro keeps assms)
qed

lemma keeps_array:
  assumes "\<And>sub. keeps_context (rec sub)"
  shows "keeps_context (array_serializer_generator ctx rec package ty name ser is_numpy)"
proof -
  have "keeps_context (loop_array ctx rec package base_type array_len var ser)" for base_type array_len var
    unfolding loop_array_def
    by (intro keeps_sbind keeps_basic keeps_bracket keeps_loop_factory assms)
  then show ?thesis
    unfolding array_serializer_generator_def Let_def by (auto intro!: keeps split: prod.splits)
qed

lemma keeps_complex:
  assumes "\<And>sub. keeps_context (rec sub)"
  shows "keeps_context (complex_serializer_generator ctx rec package ty name ser is_numpy)"
proof -
  have "keeps_context (embedded_serializer ctx rec ty' name)" for ty' name
    unfolding embedded_serializer_def by (intro keeps_sbind keeps_basic keeps_bracket assms)
  then show ?thesis
    unfolding complex_serializer_generator_def
    by (auto intro!: keeps keeps_array assms split: prod.splits)
qed

lemma keeps_simple: "keeps_context (simple_serializer_generator spec start stop ser)"
  unfolding simple_serializer_generator_def Let_def by (auto intro!: keeps)

lemma keeps_serializer: "keeps_context (serializer_generator k ctx spec ser is_numpy)"
proof (induction k arbitrary: spec)
  case (Suc k)
  have "keeps_context (serialize_piece ctx (\<lambda>sub. serializer_generator k ctx sub ser is_numpy) spec ser is_numpy p)" for p
    by (cases p) (simp_all add: serialize_piece_def keeps_simple keeps_complex Suc.IH)
  then have "keeps_context (seq_lines (map (serialize_piece ctx (\<lambda>sub. serializer_generator k ctx sub ser is_numpy) spec ser is_numpy)
      (pieces_loop 0 0 (ms_types spec))))" by (intro keeps_seq_lines) auto
  then show ?case by (auto intro!: keeps)
qed (auto intro!: keeps)

section \<open>Properties\<close>

text \<open>How a message is cut into pieces. The pieces cover the fields exactly once and in order;
  a simple piece holds between one and 255 fields, all of them simple, and every other piece is
  one field that is not simple.\<close>

theorem pieces_partition_fields:
  "concat (map piece_fields (pieces_loop 0 0 types)) = [0..<length types] \<and>
   list_all (piece_ok (\<lambda>i. is_simple (types ! i))) (pieces_loop 0 0 types)"
  using pieces_loop_fields [of 0 0 types] pieces_loop_ok [of 0 0 "\<lambda>i. is_simple (types ! i)" types] by simp

text \<open>C25: the context stack. A run of \<open>serialize_fn_generator\<close> or \<open>deserialize_fn_generator\<close> that
  returns leaves the variable context and the stack of contexts as it found them, however deep the embedded
  messages and arrays are nested.\<close>

theorem serializer_context_balanced:
  assumes "serialize_fn_generator k ctx spec is_numpy s = (Inr ls, s') \<or>
    deserialize_fn_generator k ctx spec is_numpy s = (Inr ls, s')"
  shows "serial_context s' = serial_context s \<and> context_stack s' = context_stack s"
proof -
  have body: "keeps_context (flattened_body k ctx spec ser is_numpy)" for ser
    unfolding flattened_body_def by (intro keeps_bracket keeps_sbind keeps_basic keeps_serializer)
  have "keeps_context (serialize_fn_generator k ctx spec is_numpy)"
    unfolding serialize_fn_generator_def by (intro keeps body)
  moreover have "keeps_context (deserialize_fn_generator k ctx spec is_numpy)"
    unfolding deserialize_fn_generator_def by (intro keeps body)
  ultimately show ?thesis using assms unfolding keeps_context_def by blast
qed

theorem serializer_context_balanced_witness:
  "\<exists>spec ls s'. serialize_fn_generator 2 MsgContext spec False
      \<lparr>context_patterns = [], counter = 0, serial_context = ''x.'', context_stack = [''y'']\<rparr> = (Inr ls, s') \<and>
     ls = [''try:'', ''  buff.write(_get_struct_b().pack(self.n))'', struct_error_line, type_error_line] \<and>
     serial_context s' = ''x.'' \<and> context_stack s' = [''y'']"
proof -
  let ?s = "\<lparr>context_patterns = [], counter = 0, serial_context = ''x.'', context_stack = [''y'']\<rparr>"
  have "case MsgSpec [''int8''] [''n''] [] [] ''m/A'' [] [] of Inl e \<Rightarrow> False
     | Inr spec \<Rightarrow> fst (serialize_fn_generator 2 MsgContext spec False ?s) =
         Inr [''try:'', ''  buff.write(_get_struct_b().pack(self.n))'', struct_error_line, type_error_line]"
    by code_simp
  then obtain spec where "fst (serialize_fn_generator 2 MsgContext spec False ?s) =
      Inr [''try:'', ''  buff.write(_get_struct_b().pack(self.n))'', struct_error_line, type_error_line]"
    unfolding run_returns_iff by (elim exE conjE) (rule that)
  then obtain ls s' where r: "serialize_fn_generator 2 MsgContext spec False ?s = (Inr ls, s')"
    and l: "ls = [''try:'', ''  buff.write(_get_struct_b().pack(self.n))'', struct_error_line, type_error_line]"
    by (metis prod.collapse)
  from serializer_context_balanced [OF disjI1 [OF r]] r l show ?thesis
    by (intro exI [of _ spec] exI [of _ ls] exI [of _ s']) simp
qed

end
