(* ===== verification/Msg_Generator.thy ===== *)
theory Msg_Generator
  imports Serializers "HOL-Library.List_Lexorder" "HOL-Library.Char_ord"
begin

text \<open>
  The second half of \<open>genpy/generator.py\<close>: the module generated for a message or a service, and
  the class \<open>Generator\<close> that writes one module per file, with the exit code of
  \<open>genpy/genpy_main.py\<close>. The record \<open>py_env\<close> holds what the code takes from Python and the
  operating system: the order in which a set of strings is iterated, \<open>str\<close> of a float and
  \<open>os.path.abspath\<close>. The state is that of the loader, that of the generators and the files
  written; \<open>Partial\<close> is a file whose generator raised after it was opened.
\<close>

section \<open>Environment and state\<close>

record py_env =
  set_order :: "string set \<Rightarrow> string list"
  float_str :: "pyfloat \<Rightarrow> string"
  abspath :: "string \<Rightarrow> string"

datatype out_file = Complete string | Partial

record run_state =
  rs_ctx :: msg_context
  rs_gen :: gen_state
  rs_out :: "string \<rightharpoonup> out_file"

definition on_ctx :: "(msg_context, 'a) act \<Rightarrow> (run_state, 'a) act" where
  "on_ctx m s = (case m (rs_ctx s) of (r, c) \<Rightarrow> (r, s\<lparr>rs_ctx := c\<rparr>))"

definition on_gen :: "'a gen \<Rightarrow> (run_state, 'a) act" where
  "on_gen m s = (case m (rs_gen s) of (r, g) \<Rightarrow> (r, s\<lparr>rs_gen := g\<rparr>))"

text \<open>A generator that reads the context.\<close>

definition with_ctx :: "(msg_context \<Rightarrow> 'a gen) \<Rightarrow> (run_state, 'a) act" where
  "with_ctx m = sbind (sgets rs_ctx) (\<lambda>c. on_gen (m c))"

definition text_lines :: "string list \<Rightarrow> string" where
  "text_lines ls = py_join [newline] ls"

definition bool_str :: "bool \<Rightarrow> string" where
  "bool_str b = (if b then ''True'' else ''False'')"

definition indent4 :: "string list \<Rightarrow> string list" where
  "indent4 ls = map (\<lambda>y. ''    '' @ y) ls"

section \<open>Parts of a generated module\<close>

definition module_head :: "msgspec \<Rightarrow> string list" where
  "module_head spec =
     [''# This Python file uses the following encoding: utf-8'',
      triple_quote @ ''autogenerated by genpy from '' @ ms_full_name spec @ ''.msg. Do not edit.'' @ triple_quote,
      ''import sys'',
      ''python3 = True if sys.hexversion > 0x03000000 else False'',
      ''import genpy'' @ [newline] @ ''import struct'' @ [newline]]"

definition import_lines :: "nat \<Rightarrow> py_env \<Rightarrow> msg_context \<Rightarrow> msgspec \<Rightarrow> string list res" where
  "import_lines k env ctx spec =
     rbind (rfoldl (\<lambda>strs t. rbind (compute_import k ctx (ms_package spec) t) (\<lambda>is. Inr (strs @ is))) [] (ms_types spec))
       (\<lambda>import_strs. Inr (filter (\<lambda>i. i \<noteq> []) (set_order env (set import_strs)) @ [[]]))"

definition class_head :: "msgspec \<Rightarrow> string \<Rightarrow> string list" where
  "class_head spec md5sum =
     [''class '' @ ms_short_name spec @ ''(genpy.Message):'',
      ''  _md5sum = '' @ [dquote] @ md5sum @ [dquote],
      ''  _type = '' @ [dquote] @ ms_full_name spec @ [dquote],
      ''  _has_header = '' @ bool_str (has_header spec) @ '' #flag to mark the presence of a Header object'']"

definition full_text_line :: "string \<Rightarrow> string" where
  "full_text_line t =
     (let t' = (if endswith t [dquote] \<and> \<not> endswith t [backslash, dquote]
                then slice_to t (- 1) @ [backslash, dquote] else t)
      in ''  _full_text = '' @ triple_quote @ t' @ triple_quote)"

fun const_str :: "py_env \<Rightarrow> const_val \<Rightarrow> string" where
  "const_str env (IntVal i) = str_of_int i"
| "const_str env (FloatVal x) = float_str env x"
| "const_str env (StrVal s) = s"
| "const_str env (BoolVal b) = bool_str b"

definition constant_line :: "py_env \<Rightarrow> const_decl \<Rightarrow> string" where
  "constant_line env c =
     (let val = const_str env (c_val c); start = ''  '' @ c_name c @ '' = '' in
      if c_type c = ''string'' then
        (if dquote \<in> set val \<and> squote \<in> set val then
           let escaped = py_replace [dquote] [backslash, dquote] (py_replace [backslash] [backslash, backslash] val)
           in start @ [dquote] @ escaped @ [dquote]
         else if dquote \<in> set val then start @ ''r'' @ [squote] @ val @ [squote]
         else if squote \<in> set val then start @ ''r'' @ [dquote] @ val @ [dquote]
         else start @ [squote] @ val @ [squote])
      else start @ val)"

definition constant_lines :: "py_env \<Rightarrow> msgspec \<Rightarrow> string list" where
  "constant_lines env spec =
     (if ms_constants spec = [] then []
      else [''  # Pseudo-constants''] @ map (constant_line env) (ms_constants spec) @ [[]])"

definition quoted_list :: "string list \<Rightarrow> string" where
  "quoted_list xs = ''['' @ [squote] @ py_join [squote, CHR '','', squote] xs @ [squote] @ '']''"

definition slot_lines :: "msgspec \<Rightarrow> string list" where
  "slot_lines spec =
     (if ms_names spec \<noteq> []
      then [''  __slots__ = '' @ quoted_list (ms_names spec), ''  _slot_types = '' @ quoted_list (ms_types spec)]
      else [''  __slots__ = []'', ''  _slot_types = []''])"

definition init_head :: "msgspec \<Rightarrow> string" where
  "init_head spec = text_lines
     [[], ''  def __init__(self, *args, **kwds):'', ''    '' @ triple_quote,
      ''    Constructor. Any message fields that are implicitly/explicitly'',
      ''    set to None will be assigned a default value. The recommend'',
      ''    use is keyword arguments as this is more robust to future message'',
      ''    changes.  You cannot mix in-order arguments and keyword arguments.'', [],
      ''    The available fields are:'', ''       '' @ py_join '','' (ms_names spec), [],
      ''    :param args: complete set of field values, in .msg order'',
      ''    :param kwds: use keyword arguments corresponding to message field names'',
      ''    to set specific fields.'', ''    '' @ triple_quote, ''    if args or kwds:'',
      ''      super('' @ ms_short_name spec @ '', self).__init__(*args, **kwds)'']"

text \<open>The assignments of default values, with a test for \<open>None\<close> and without.\<close>

definition default_lines :: "msg_context \<Rightarrow> msgspec \<Rightarrow> string list res" where
  "default_lines ctx spec =
     (if ms_names spec = [] then Inr []
      else rbind (rmap (\<lambda>(t, s). rbind (default_value ctx t (ms_package spec)) (\<lambda>v. Inr (s, opt_str v)))
                    (zip (ms_types spec) (ms_names spec))) (\<lambda>vals.
        Inr ([''      #message fields cannot be None, assign default values for those that are''] @
             concat (map (\<lambda>(s, v). [''      if self.'' @ s @ '' is None:'', ''        self.'' @ s @ '' = '' @ v]) vals) @
             [''    else:''] @ map (\<lambda>(s, v). ''      self.'' @ s @ '' = '' @ v) vals)))"

definition serialize_head :: string where
  "serialize_head = text_lines
     [[], ''  def _get_types(self):'', ''    '' @ triple_quote, ''    internal API method'', ''    '' @ triple_quote,
      ''    return self._slot_types'', [], ''  def serialize(self, buff):'', ''    '' @ triple_quote,
      ''    serialize message into buffer'', ''    :param buff: buffer, ``StringIO``'', ''    '' @ triple_quote]"

definition deserialize_head :: string where
  "deserialize_head = text_lines
     [[], ''  def deserialize(self, str):'', ''    '' @ triple_quote,
      ''    unpack serialized message in str into this message instance'',
      ''    :param str: byte array of serialized message, ``str``'', ''    '' @ triple_quote]"

definition serialize_numpy_head :: string where
  "serialize_numpy_head = text_lines
     [[], ''  def serialize_numpy(self, buff, numpy):'', ''    '' @ triple_quote,
      ''    serialize message with numpy array types into buffer'', ''    :param buff: buffer, ``StringIO``'',
      ''    :param numpy: numpy python module'', ''    '' @ triple_quote]"

definition deserialize_numpy_head :: string where
  "deserialize_numpy_head = text_lines
     [[], ''  def deserialize_numpy(self, str, numpy):'', ''    '' @ triple_quote,
      ''    unpack serialized message in str into this message instance using numpy for array types'',
      ''    :param str: byte array of serialized message, ``str``'',
      ''    :param numpy: numpy python module'', ''    '' @ triple_quote]"

definition method_lines :: "nat \<Rightarrow> msgspec \<Rightarrow> (run_state, string list) act" where
  "method_lines k spec =
     sbind (with_ctx (\<lambda>ctx. serialize_fn_generator k ctx spec False)) (\<lambda>ser.
     sbind (with_ctx (\<lambda>ctx. deserialize_fn_generator k ctx spec False)) (\<lambda>des.
     sbind (with_ctx (\<lambda>ctx. serialize_fn_generator k ctx spec True)) (\<lambda>ser_np.
     sbind (with_ctx (\<lambda>ctx. deserialize_fn_generator k ctx spec True)) (\<lambda>des_np.
     sret ([serialize_head] @ indent4 ser @ [deserialize_head] @ indent4 des @ [[]] @
           [serialize_numpy_head] @ indent4 ser_np @ [deserialize_numpy_head] @ indent4 des_np @ [[]])))))"

text \<open>The lazily created struct of one pattern.\<close>

definition pattern_lines :: "string \<Rightarrow> string list" where
  "pattern_lines p =
     (if p = ''I'' then []
      else let var_name = ''_struct_'' @ py_replace ''<'' [] p in
        [var_name @ '' = None'', ''def _get'' @ var_name @ ''():'', ''    global '' @ var_name,
         ''    if '' @ var_name @ '' is None:'',
         ''        '' @ var_name @ '' = struct.Struct('' @ [dquote] @ ''<'' @ p @ [dquote] @ '')'',
         ''    return '' @ var_name])"

definition struct_lines :: "py_env \<Rightarrow> string list gen" where
  "struct_lines env =
     sbind get_patterns (\<lambda>patterns.
     sbind clear_patterns (\<lambda>_.
       sret ([''_struct_I = genpy.struct_I'', ''def _get_struct_I():'', ''    global _struct_I'', ''    return _struct_I''] @
             concat (map pattern_lines (set_order env (set patterns))))))"

section \<open>The module of a message and of a service\<close>

text \<open>The handler of \<open>InvalidMsgSpec\<close> formats names that are not bound: a \<open>NameError\<close>.\<close>

definition load_depends_guarded :: "nat \<Rightarrow> world \<Rightarrow> msgspec \<Rightarrow> search_path \<Rightarrow> (msg_context, string list) act" where
  "load_depends_guarded k w spec search_path ctx = (case load_depends k w (Msg spec) search_path ctx of
     (Inl e, ctx') \<Rightarrow> (Inl (if e = InvalidMsgSpec then NameError else e), ctx')
   | (Inr ds, ctx') \<Rightarrow> (Inr ds, ctx'))"

definition msg_generator :: "nat \<Rightarrow> py_env \<Rightarrow> (string \<Rightarrow> string) \<Rightarrow> world \<Rightarrow> msgspec \<Rightarrow> search_path
    \<Rightarrow> (run_state, string list) act" where
  "msg_generator k env H w spec0 search_path =
     sbind (on_ctx (load_depends_guarded k w spec0 search_path)) (\<lambda>_.
     sbind (sgets rs_ctx) (\<lambda>ctx.
     sbind (slift (compute_md5 k H ctx (Msg spec0))) (\<lambda>md5sum.
     sbind (slift (make_python_safe spec0)) (\<lambda>spec.
     sbind (on_gen clear_patterns) (\<lambda>_.
     sbind (slift (import_lines k env ctx spec)) (\<lambda>imports.
     sbind (slift (compute_full_text_escaped k ctx (Msg spec))) (\<lambda>full_text.
     sbind (slift (default_lines ctx spec)) (\<lambda>defaults.
     sbind (method_lines k spec) (\<lambda>methods.
     sbind (on_gen (struct_lines env)) (\<lambda>structs.
     sret (module_head spec @ imports @ class_head spec md5sum @ [full_text_line full_text] @
           constant_lines env spec @ slot_lines spec @ [init_head spec] @ defaults @ methods @ structs)))))))))))"

definition srv_generator :: "nat \<Rightarrow> py_env \<Rightarrow> (string \<Rightarrow> string) \<Rightarrow> world \<Rightarrow> srvspec \<Rightarrow> search_path
    \<Rightarrow> (run_state, string list) act" where
  "srv_generator k env H w spec search_path =
     sbind (msg_generator k env H w (ss_request spec) search_path) (\<lambda>req_lines.
     sbind (msg_generator k env H w (ss_response spec) search_path) (\<lambda>resp_lines.
     sbind (on_ctx (load_depends k w (Srv spec) search_path)) (\<lambda>_.
     sbind (sgets rs_ctx) (\<lambda>ctx.
     sbind (slift (compute_md5 k H ctx (Srv spec))) (\<lambda>md5.
     let name = ss_short_name spec; q = (\<lambda>s. [squote] @ s @ [squote]) in
     sret (req_lines @ resp_lines @
       [''class '' @ name @ ''(object):'', ''  _type          = '' @ q (ss_full_name spec),
        ''  _md5sum = '' @ q md5, ''  _request_class  = '' @ name @ ''Request'',
        ''  _response_class = '' @ name @ ''Response'']))))))"

section \<open>Files\<close>

definition py_module_name :: "string \<Rightarrow> string" where
  "py_module_name type_name = ''_'' @ type_name"

definition compute_resource_name :: "string \<Rightarrow> string \<Rightarrow> string" where
  "compute_resource_name filename ext = slice_to (path_basename filename) (- int (length ext))"

definition compute_outfile_name :: "string \<Rightarrow> string \<Rightarrow> string \<Rightarrow> string" where
  "compute_outfile_name outdir infile_name ext =
     path_join outdir (py_module_name (compute_resource_name infile_name ext) @ ''.py'')"

text \<open>A generator class: the extension, the loader of a file and the generator of the lines.
  The two instances load messages and services.\<close>

record 'spec generator =
  gen_ext :: string
  spec_loader_fn :: "string \<Rightarrow> string \<Rightarrow> (msg_context, 'spec) act"
  generator_fn :: "'spec \<Rightarrow> search_path \<Rightarrow> (run_state, string list) act"

definition MsgGenerator :: "nat \<Rightarrow> py_env \<Rightarrow> (string \<Rightarrow> string) \<Rightarrow> world \<Rightarrow> msgspec generator" where
  "MsgGenerator k env H w = \<lparr>gen_ext = EXT_MSG, spec_loader_fn = load_msg_from_file w,
     generator_fn = msg_generator k env H w\<rparr>"

definition SrvGenerator :: "nat \<Rightarrow> py_env \<Rightarrow> (string \<Rightarrow> string) \<Rightarrow> world \<Rightarrow> srvspec generator" where
  "SrvGenerator k env H w = \<lparr>gen_ext = EXT_SRV, spec_loader_fn = load_srv_from_file w,
     generator_fn = srv_generator k env H w\<rparr>"

definition write_file :: "string \<Rightarrow> out_file \<Rightarrow> (run_state, unit) act" where
  "write_file path content = smodify (\<lambda>s. s\<lparr>rs_out := (rs_out s)(path \<mapsto> content)\<rparr>)"

definition generate_module :: "'spec generator \<Rightarrow> string \<Rightarrow> string \<Rightarrow> string \<Rightarrow> search_path \<Rightarrow> (run_state, string) act" where
  "generate_module gen full_type f outdir search_path =
     sbind (on_ctx (spec_loader_fn gen f full_type)) (\<lambda>spec.
     let outfile = compute_outfile_name outdir (path_basename f) (gen_ext gen) in
     sbind (write_file outfile Partial) (\<lambda>_.
     sbind (generator_fn gen spec search_path) (\<lambda>ls.
     sbind (write_file outfile (Complete (concat (map (\<lambda>l. l @ [newline]) ls)))) (\<lambda>_.
     sret outfile))))"

text \<open>One turn of the loop over the files, and the loop: an exception sets the return code and the
  loop goes on.\<close>

definition generate_one :: "'spec generator \<Rightarrow> py_env \<Rightarrow> string \<Rightarrow> string \<Rightarrow> search_path \<Rightarrow> string
    \<Rightarrow> (run_state, string) act" where
  "generate_one gen env package outdir search_path f0 =
     (let f = abspath env f0 in
      sbind (slift (compute_full_type_name package (path_basename f))) (\<lambda>full_type.
        generate_module gen full_type f outdir search_path))"

fun generate_loop :: "(string \<Rightarrow> (run_state, string) act) \<Rightarrow> int \<Rightarrow> string list \<Rightarrow> run_state \<Rightarrow> int \<times> run_state" where
  "generate_loop step retcode [] s = (retcode, s)"
| "generate_loop step retcode (f # fs) s =
     (case step f s of (Inr _, s') \<Rightarrow> generate_loop step retcode fs s'
      | (Inl _, s') \<Rightarrow> generate_loop step 1 fs s')"

definition generate_messages :: "'spec generator \<Rightarrow> py_env \<Rightarrow> world \<Rightarrow> string \<Rightarrow> string list \<Rightarrow> string \<Rightarrow> search_path
    \<Rightarrow> (gen_state \<times> (string \<rightharpoonup> out_file)) \<Rightarrow> (int \<times> run_state) res" where
  "generate_messages gen env w package package_files outdir search_path go =
     (if \<not> is_legal_resource_base_name (Some package) then Inl MsgGenerationException
      else rbind (create_default w) (\<lambda>ctx.
        Inr (generate_loop (generate_one gen env package outdir search_path) 0 package_files
               \<lparr>rs_ctx = ctx, rs_gen = fst go, rs_out = snd go\<rparr>)))"

text \<open>The exit code of \<open>genmain\<close> for the result of a run.\<close>

definition exit_code :: "int res \<Rightarrow> int" where
  "exit_code r = (case r of Inr retcode \<Rightarrow> retcode
     | Inl e \<Rightarrow> if e = InvalidMsgSpec then 1 else if e = MsgGenerationException then 2 else 3)"

section \<open>The loop over the files\<close>

lemma generate_loop_code:
  "generate_loop step rc fs s = (rc', s') \<Longrightarrow> rc' = rc \<or> rc' = 1"
  by (induction step rc fs s rule: generate_loop.induct) (auto split: prod.splits sum.splits)

text \<open>The outcome of every file, each in the state the files before it left.\<close>

fun outcomes :: "(string \<Rightarrow> (run_state, string) act) \<Rightarrow> string list \<Rightarrow> run_state \<Rightarrow> string res list" where
  "outcomes step [] s = []"
| "outcomes step (f # fs) s = (case step f s of (r, s') \<Rightarrow> r # outcomes step fs s')"

lemma length_outcomes [simp]: "length (outcomes step fs s) = length fs"
  by (induction fs arbitrary: s) (auto split: prod.splits)

lemma generate_loop_outcomes:
  "fst (generate_loop step rc fs s) = (if \<exists>e. Inl e \<in> set (outcomes step fs s) then 1 else rc)"
  by (induction step rc fs s rule: generate_loop.induct) (auto split: prod.splits sum.splits)

section \<open>Generators do not touch the written files\<close>

definition keeps_out :: "(run_state, 'a) act \<Rightarrow> bool" where
  "keeps_out m \<longleftrightarrow> (\<forall>s. rs_out (snd (m s)) = rs_out s)"

lemma keeps_out_basic [intro!]:
  "keeps_out (sret x)" "keeps_out (slift r)" "keeps_out (sgets f)" "keeps_out (on_ctx a)" "keeps_out (on_gen b)"
  by (auto simp: keeps_out_def sret_def slift_def sgets_def on_ctx_def on_gen_def split: prod.splits)

lemma keeps_out_sbind [intro!]:
  "keeps_out m \<Longrightarrow> (\<And>x. keeps_out (f x)) \<Longrightarrow> keeps_out (sbind m f)"
  unfolding keeps_out_def sbind_def by (auto split: prod.splits sum.splits) (metis snd_conv)+

lemma keeps_out_with_ctx [intro!]: "keeps_out (with_ctx m)"
  unfolding with_ctx_def by auto

lemma keeps_out_msg_generator: "keeps_out (msg_generator k env H w spec sp)"
  unfolding msg_generator_def method_lines_def by (intro keeps_out_basic keeps_out_sbind keeps_out_with_ctx)

lemma keeps_out_srv_generator: "keeps_out (srv_generator k env H w spec sp)"
  unfolding srv_generator_def Let_def
  by (intro keeps_out_basic keeps_out_sbind keeps_out_msg_generator)

text \<open>What the loop relies on: a generator of lines leaves the files alone.\<close>

locale line_generator =
  fixes gen :: "'spec generator"
  assumes lines_keep_out: "keeps_out (generator_fn gen spec sp)"
begin

lemma generate_writes:
  assumes "generate_module gen full_type f outdir sp s = (Inr outfile, s')"
  shows "\<exists>txt. rs_out s' = (rs_out s)(outfile \<mapsto> Complete txt)"
proof -
  from assms obtain spec s1 ls s2 where
    one: "on_ctx (spec_loader_fn gen f full_type) s = (Inr spec, s1)"
    and fn: "generator_fn gen spec sp (s1\<lparr>rs_out := (rs_out s1)(outfile \<mapsto> Partial)\<rparr>) = (Inr ls, s2)"
    and s': "s' = s2\<lparr>rs_out := (rs_out s2)(outfile \<mapsto> Complete (concat (map (\<lambda>l. l @ [newline]) ls)))\<rparr>"
    by (auto simp: generate_module_def sbind_eq_Inr write_file_def smodify_def sret_def Let_def)
  have "rs_out s1 = rs_out s" using one by (auto simp: on_ctx_def split: prod.splits)
  moreover have "rs_out s2 = (rs_out s1)(outfile \<mapsto> Partial)"
    using lines_keep_out [of spec sp] fn by (simp add: keeps_out_def) (metis run_state.select_convs(3) run_state.surjective run_state.update_convs(3) snd_conv)
  ultimately show ?thesis using s' by auto
qed

lemma generate_one_writes:
  "generate_one gen env package outdir sp f s = (Inr outfile, s') \<Longrightarrow>
   \<exists>txt. rs_out s' = (rs_out s)(outfile \<mapsto> Complete txt)"
  using generate_writes by (auto simp: generate_one_def sbind_eq_Inr Let_def)

lemma loop_keeps_complete:
  assumes "generate_loop (generate_one gen env package outdir sp) rc fs s = (rc', s')"
    and "\<forall>e. Inl e \<notin> set (outcomes (generate_one gen env package outdir sp) fs s)"
    and "rs_out s x = Some (Complete c)"
  shows "\<exists>txt'. rs_out s' x = Some (Complete txt')"
  using assms
proof (induction fs arbitrary: s c)
  case (Cons f fs)
  then obtain o1 s1 where one: "generate_one gen env package outdir sp f s = (Inr o1, s1)"
    by (cases "generate_one gen env package outdir sp f s"; cases "fst (generate_one gen env package outdir sp f s)") auto
  obtain t1 where "rs_out s1 = (rs_out s)(o1 \<mapsto> Complete t1)" using generate_one_writes [OF one] by auto
  then have "\<exists>t. rs_out s1 x = Some (Complete t)" using Cons.prems(3) by auto
  then show ?case using Cons one by auto
qed auto

lemma loop_all_complete:
  assumes "generate_loop (generate_one gen env package outdir sp) rc fs s = (rc', s')"
    and "\<forall>e. Inl e \<notin> set (outcomes (generate_one gen env package outdir sp) fs s)"
    and "Inr outfile \<in> set (outcomes (generate_one gen env package outdir sp) fs s)"
  shows "\<exists>txt. rs_out s' outfile = Some (Complete txt)"
  using assms
proof (induction fs arbitrary: s)
  case (Cons f fs)
  then obtain o1 s1 where one: "generate_one gen env package outdir sp f s = (Inr o1, s1)"
    by (cases "generate_one gen env package outdir sp f s"; cases "fst (generate_one gen env package outdir sp f s)") auto
  show ?case
  proof (cases "o1 = outfile")
    case True
    obtain t1 where "rs_out s1 = (rs_out s)(outfile \<mapsto> Complete t1)" using generate_one_writes [OF one] True by auto
    then show ?thesis using loop_keeps_complete [of env package outdir sp rc fs s1 rc' s' outfile t1] Cons.prems one by auto
  next
    case False
    then show ?thesis using Cons one by auto
  qed
qed simp

end

interpretation msg_gen: line_generator "MsgGenerator k env H w"
  by unfold_locales (simp add: MsgGenerator_def keeps_out_msg_generator)

interpretation srv_gen: line_generator "SrvGenerator k env H w"
  by unfold_locales (simp add: SrvGenerator_def keeps_out_srv_generator)

section \<open>Properties\<close>

text \<open>Generating the modules of a package. Every file is attempted, also after one that
  failed; the return code is 1 if one of them raised and 0 otherwise, and with return code 0
  the module of every file has been written to its end.\<close>

theorem generate_messages_reports:
  assumes "generate_messages (MsgGenerator k env H w) env w package fs outdir sp go = Inr (rc, s)"
  shows "\<exists>ctx. create_default w = Inr ctx \<and>
    (let rs = outcomes (generate_one (MsgGenerator k env H w) env package outdir sp) fs
                \<lparr>rs_ctx = ctx, rs_gen = fst go, rs_out = snd go\<rparr>
     in length rs = length fs \<and> rc = (if \<exists>e. Inl e \<in> set rs then 1 else 0) \<and>
        (rc = 0 \<longrightarrow> (\<forall>r \<in> set rs. \<exists>outfile txt. r = Inr outfile \<and> rs_out s outfile = Some (Complete txt))))"
proof -
  from assms obtain ctx where ctx: "create_default w = Inr ctx"
    and loop: "generate_loop (generate_one (MsgGenerator k env H w) env package outdir sp) 0 fs
        \<lparr>rs_ctx = ctx, rs_gen = fst go, rs_out = snd go\<rparr> = (rc, s)"
    by (auto simp: generate_messages_def rbind_eq_Inr split: if_splits)
  let ?rs = "outcomes (generate_one (MsgGenerator k env H w) env package outdir sp) fs
    \<lparr>rs_ctx = ctx, rs_gen = fst go, rs_out = snd go\<rparr>"
  have rc: "rc = (if \<exists>e. Inl e \<in> set ?rs then 1 else 0)" using generate_loop_outcomes loop by (metis fst_conv)
  have "\<exists>outfile txt. r = Inr outfile \<and> rs_out s outfile = Some (Complete txt)" if "rc = 0" "r \<in> set ?rs" for r
  proof (cases r)
    case (Inl e)
    then show ?thesis using that rc by (auto split: if_splits)
  next
    case (Inr outfile)
    then show ?thesis using msg_gen.loop_all_complete [OF loop] that rc by (auto split: if_splits)
  qed
  then show ?thesis using ctx rc by (auto simp: Let_def)
qed

text \<open>An environment for the examples: sets in sorted order, absolute paths only.\<close>

definition sorted_env :: py_env where
  "sorted_env = \<lparr>set_order = sorted_list_of_set, float_str = (\<lambda>_. ''0.0''), abspath = (\<lambda>p. p)\<rparr>"

definition empty_gen :: gen_state where
  "empty_gen = \<lparr>context_patterns = [], counter = 0, serial_context = [], context_stack = []\<rparr>"

theorem generate_messages_reports_witness:
  "\<exists>s. generate_messages (MsgGenerator 3 sorted_env id \<lparr>w_files = [''/m/B.msg'' \<mapsto> ''int32 x''], w_literal = \<lambda>_. None\<rparr>)
       sorted_env \<lparr>w_files = [''/m/B.msg'' \<mapsto> ''int32 x''], w_literal = \<lambda>_. None\<rparr>
       ''m'' [''/m/A.msg'', ''/m/B.msg''] ''/out'' Map.empty (empty_gen, Map.empty) = Inr (1, s)"
proof -
  let ?w = "\<lparr>w_files = [''/m/B.msg'' \<mapsto> ''int32 x''], w_literal = \<lambda>_. None\<rparr>"
  let ?r = "generate_messages (MsgGenerator 3 sorted_env id ?w) sorted_env ?w
       ''m'' [''/m/A.msg'', ''/m/B.msg''] ''/out'' Map.empty (empty_gen, Map.empty)"
  have "case ?r of Inl e \<Rightarrow> False | Inr (rc, s) \<Rightarrow> rc = 1 \<and> rs_out s ''/out/_B.py'' \<noteq> None" by code_simp
  then obtain rc s where "?r = Inr (rc, s)" "rc = 1" by (cases ?r) auto
  then show ?thesis using generate_messages_reports [of 3 sorted_env id ?w] by blast
qed

end
