(* ===== verification/Dependency_Tracker.thy ===== *)
theory Dependency_Tracker
  imports Py_Prelude
begin

text \<open>
  The caching \<open>DependencyTracker\<close> of \<open>rosmake/parallel_build.py\<close>. \<open>rospkg\<close> is an argument of
  the operations; the locale \<open>cache\<close> states what a cache over it promises, and both caches of the
  tracker are instances.
\<close>

section \<open>The dependency tracker\<close>

text \<open>What the tracker asks \<open>rospkg\<close>: the dependencies of a package, \<open>None\<close> for
  \<open>ResourceNotFound\<close>.\<close>

type_synonym depends_query = "string \<Rightarrow> string list option"

record tracker =
  valid_packages :: "string list"
  deps_1 :: "string \<rightharpoonup> string list"
  deps :: "string \<rightharpoonup> string list"

definition DependencyTracker :: "string list \<Rightarrow> tracker" where
  "DependencyTracker valid = \<lparr>valid_packages = valid, deps_1 = Map.empty, deps = Map.empty\<rparr>"

definition potential :: "depends_query \<Rightarrow> string list \<Rightarrow> string \<Rightarrow> string list" where
  "potential query valid package =
     filter (\<lambda>p. p \<in> set valid) (case query package of None \<Rightarrow> [] | Some ps \<Rightarrow> ps)"

definition get_deps_1 :: "depends_query \<Rightarrow> string \<Rightarrow> tracker \<Rightarrow> string list \<times> tracker" where
  "get_deps_1 query package t = (case deps_1 t package of
     Some ds \<Rightarrow> (ds, t)
   | None \<Rightarrow> let ds = potential query (valid_packages t) package
             in (ds, t\<lparr>deps_1 := (deps_1 t)(package \<mapsto> ds)\<rparr>))"

definition get_deps :: "depends_query \<Rightarrow> string \<Rightarrow> tracker \<Rightarrow> string list \<times> tracker" where
  "get_deps query package t = (case deps t package of
     Some ds \<Rightarrow> (ds, t)
   | None \<Rightarrow> let ds = potential query (valid_packages t) package
             in (ds, t\<lparr>deps := (deps t)(package \<mapsto> ds)\<rparr>))"

definition load_fake_deps :: "(string \<rightharpoonup> string list) \<Rightarrow> (string \<rightharpoonup> string list) \<Rightarrow> tracker \<Rightarrow> tracker" where
  "load_fake_deps fake fake_1 t = t\<lparr>deps := fake, deps_1 := fake_1\<rparr>"

text \<open>A cache over a query: it answers what the query answers, and asking keeps it a cache. Both
  caches of the tracker are instances.\<close>

locale cache =
  fixes ask :: "depends_query \<Rightarrow> string \<Rightarrow> 't \<Rightarrow> string list \<times> 't"
    and stored :: "'t \<Rightarrow> string \<rightharpoonup> string list"
    and valid :: "'t \<Rightarrow> string list"
  assumes ask_hit: "stored t p = Some ds \<Longrightarrow> ask q p t = (ds, t)"
    and ask_miss: "stored t p = None \<Longrightarrow> ask q p t = (r, t') \<Longrightarrow>
      r = potential q (valid t) p \<and> stored t' = (stored t)(p \<mapsto> r) \<and> valid t' = valid t"
begin

definition faithful :: "depends_query \<Rightarrow> 't \<Rightarrow> bool" where
  "faithful q t \<longleftrightarrow> (\<forall>p ds. stored t p = Some ds \<longrightarrow> ds = potential q (valid t) p)"

lemma ask_faithful:
  assumes "faithful q t" "ask q p t = (r, t')"
  shows "r = potential q (valid t) p \<and> faithful q t' \<and> valid t' = valid t"
proof (cases "stored t p")
  case None
  from ask_miss [OF this assms(2)] assms(1) show ?thesis by (auto simp: faithful_def)
next
  case (Some ds)
  then show ?thesis using ask_hit [OF Some, of q] assms by (auto simp: faithful_def)
qed

lemma ask_again: "ask q p t = (r, t') \<Longrightarrow> ask q p t' = (r, t')"
  using ask_miss [of t p q r t'] ask_hit [of t p _ q] ask_hit [of t' p r q] by (cases "stored t p") auto

end

interpretation direct: cache get_deps_1 deps_1 valid_packages
  by unfold_locales (auto simp: get_deps_1_def Let_def)

interpretation full: cache get_deps deps valid_packages
  by unfold_locales (auto simp: get_deps_def Let_def)

text \<open>The tracker is transparent: a cache that was filled by asking answers what \<open>rospkg\<close> answers,
  restricted to the valid packages, for both kinds of dependencies, and stays such a cache.\<close>

theorem tracker_transparent:
  assumes "\<forall>p ds. deps t p = Some ds \<longrightarrow> ds = potential query (valid_packages t) p"
    and "\<forall>p ds. deps_1 t p = Some ds \<longrightarrow> ds = potential query1 (valid_packages t) p"
  shows "fst (get_deps query p t) = potential query (valid_packages t) p \<and>
    fst (get_deps_1 query1 p t) = potential query1 (valid_packages t) p \<and>
    (\<forall>p' ds. deps (snd (get_deps query p t)) p' = Some ds \<longrightarrow> ds = potential query (valid_packages t) p') \<and>
    deps_1 (snd (get_deps query p t)) = deps_1 t \<and>
    (\<forall>p' ds. deps_1 (snd (get_deps_1 query1 p t)) p' = Some ds \<longrightarrow> ds = potential query1 (valid_packages t) p') \<and>
    deps (snd (get_deps_1 query1 p t)) = deps t"
proof -
  have "full.faithful query t" "direct.faithful query1 t"
    using assms by (auto simp: full.faithful_def direct.faithful_def)
  then have "fst (get_deps query p t) = potential query (valid_packages t) p \<and>
      full.faithful query (snd (get_deps query p t)) \<and> valid_packages (snd (get_deps query p t)) = valid_packages t"
    and "fst (get_deps_1 query1 p t) = potential query1 (valid_packages t) p \<and>
      direct.faithful query1 (snd (get_deps_1 query1 p t)) \<and>
      valid_packages (snd (get_deps_1 query1 p t)) = valid_packages t"
    using full.ask_faithful direct.ask_faithful by (metis prod.collapse)+
  moreover have "deps_1 (snd (get_deps query p t)) = deps_1 t" "deps (snd (get_deps_1 query1 p t)) = deps t"
    by (auto simp: get_deps_def get_deps_1_def Let_def split: option.splits)
  ultimately show ?thesis by (auto simp: full.faithful_def direct.faithful_def)
qed

theorem tracker_transparent_witness:
  "fst (get_deps (\<lambda>p. if p = ''b'' then Some [''a'', ''z''] else None) ''b'' (DependencyTracker [''a'', ''b''])) = [''a'']"
  using tracker_transparent [of "DependencyTracker [''a'', ''b'']" "\<lambda>p. if p = ''b'' then Some [''a'', ''z''] else None"
      "\<lambda>p. None" "''b''"]
  by (simp add: DependencyTracker_def potential_def)

end
