(* ===== verification/Package_Flags.thy ===== *)
theory Package_Flags
  imports Dependency_Tracker
begin

text \<open>
  The \<open>PackageFlagTracker\<close> of \<open>rosmake/package_stats.py\<close>: which packages are blacklisted, are
  marked as built or have no Makefile, found out once per package and kept. \<open>rospkg\<close> is the record
  \<open>rospkg\<close>, an argument of every operation; the file system is part of the state, because
  \<open>add_nobuild\<close> and \<open>remove_nobuild\<close> change it. Package names in messages are printed as \<open>repr\<close>
  prints a name without quotes and backslashes.
\<close>

section \<open>The state\<close>

text \<open>What \<open>rospkg\<close> answers: \<open>None\<close> is \<open>ResourceNotFound\<close>, and \<open>invalid\<close> says which queries read a
  manifest that cannot be parsed and raise \<open>InvalidManifest\<close> (\<open>get_path\<close> reads none).\<close>

datatype rospkg_query = Depends | DependsDirect | DependsOn | Manifest

record rospkg =
  get_path :: "string \<Rightarrow> string option"
  depends :: depends_query
  depends_direct :: depends_query
  depends_on :: depends_query
  is_catkin :: "string \<Rightarrow> bool option"
  invalid :: "rospkg_query \<Rightarrow> string \<Rightarrow> bool"

definition ask_rospkg :: "rospkg \<Rightarrow> rospkg_query \<Rightarrow> string \<Rightarrow> 'a option \<Rightarrow> 'a res" where
  "ask_rospkg w k package answer =
     (if invalid w k package then Inl (InvalidManifest package) else of_option (ResourceNotFound package) answer)"

lemma ask_rospkg_Inr [simp]: "ask_rospkg w k p a = Inr x \<longleftrightarrow> \<not> invalid w k p \<and> a = Some x"
  by (auto simp: ask_rospkg_def of_option_def split: option.splits)

lemma ask_rospkg_Inl [simp]: "ask_rospkg w k p a = Inl x \<longleftrightarrow>
    (invalid w k p \<and> x = InvalidManifest p) \<or> (\<not> invalid w k p \<and> a = None \<and> x = ResourceNotFound p)"
  by (auto simp: ask_rospkg_def of_option_def split: option.splits)

text \<open>Platforms are pairs of an operating system and a version.\<close>

definition platform_supported :: "(string \<times> string) list \<Rightarrow> string \<Rightarrow> string \<Rightarrow> bool" where
  "platform_supported platforms os version \<longleftrightarrow> list_ex (\<lambda>(o', v). os = o' \<and> version = v) platforms"

record flags =
  blacklisted :: "string \<rightharpoonup> string list"
  blacklisted_osx :: "string \<rightharpoonup> string list"
  nobuild :: "string set"
  nomakefile :: "string set"
  packages_tested :: "string set"
  dependency_tracker :: tracker
  build_failed :: "string set"
  disk :: "string set"

definition PackageFlagTracker :: "tracker \<Rightarrow> string set \<Rightarrow> flags" where
  "PackageFlagTracker t fs = \<lparr>blacklisted = Map.empty, blacklisted_osx = Map.empty, nobuild = {}, nomakefile = {},
     packages_tested = {}, dependency_tracker = t, build_failed = {}, disk = fs\<rparr>"

section \<open>The operations\<close>

definition register_blacklisted :: "string \<Rightarrow> string \<Rightarrow> flags \<Rightarrow> flags" where
  "register_blacklisted b p f = (case blacklisted f p of
     Some bs \<Rightarrow> f\<lparr>blacklisted := (blacklisted f)(p \<mapsto> bs @ [b])\<rparr>
   | None \<Rightarrow> f\<lparr>blacklisted := (blacklisted f)(p \<mapsto> [b])\<rparr>)"

definition register_blacklisted_osx :: "string \<Rightarrow> string \<Rightarrow> flags \<Rightarrow> flags" where
  "register_blacklisted_osx b p f = (case blacklisted_osx f p of
     Some bs \<Rightarrow> f\<lparr>blacklisted_osx := (blacklisted_osx f)(p \<mapsto> bs @ [b])\<rparr>
   | None \<Rightarrow> f\<lparr>blacklisted_osx := (blacklisted_osx f)(p \<mapsto> [b])\<rparr>)"

text \<open>The marker files of a package.\<close>

definition marked :: "rospkg \<Rightarrow> string \<Rightarrow> string set \<Rightarrow> string \<Rightarrow> bool" where
  "marked w name fs p \<longleftrightarrow> (case get_path w p of None \<Rightarrow> False | Some path \<Rightarrow> path_join path name \<in> fs)"

text \<open>One of the two blocks that register a package and what depends on it.\<close>

definition register_marked ::
    "rospkg \<Rightarrow> string \<Rightarrow> (string \<Rightarrow> string \<Rightarrow> flags \<Rightarrow> flags) \<Rightarrow> string \<Rightarrow> (flags, unit) act" where
  "register_marked w name register package =
     sbind (sgets (\<lambda>f. marked w name (disk f) package)) (\<lambda>m.
       if \<not> m then sret ()
       else sbind (smodify (register package package)) (\<lambda>_.
            sbind (slift (ask_rospkg w DependsOn package (depends_on w package))) (\<lambda>ps.
              smodify (fold (register package) ps))))"

definition check_package_flags :: "rospkg \<Rightarrow> string \<Rightarrow> (flags, unit) act" where
  "check_package_flags w package = sbind (sgets packages_tested) (\<lambda>tested.
     if package \<in> tested then sret ()
     else sbind (slift (of_option (ResourceNotFound package) (get_path w package))) (\<lambda>path.
       sbind (register_marked w ''ROS_BUILD_BLACKLIST'' register_blacklisted package) (\<lambda>_.
       sbind (register_marked w ''ROS_BUILD_BLACKLIST_OSX'' register_blacklisted_osx package) (\<lambda>_.
       sbind (smodify (\<lambda>f. if path_join path ''ROS_NOBUILD'' \<in> disk f
                            then f\<lparr>nobuild := insert package (nobuild f)\<rparr> else f)) (\<lambda>_.
       sbind (slift (ask_rospkg w Manifest package (is_catkin w package))) (\<lambda>catkin.
       sbind (smodify (\<lambda>f. if catkin then f\<lparr>nobuild := insert package (nobuild f)\<rparr> else f)) (\<lambda>_.
       sbind (smodify (\<lambda>f. if path_join path ''Makefile'' \<notin> disk f
                            then f\<lparr>nomakefile := insert package (nomakefile f)\<rparr> else f)) (\<lambda>_.
       smodify (\<lambda>f. f\<lparr>packages_tested := insert package (packages_tested f)\<rparr>)))))))))"

text \<open>The dependencies of a package, through the cache of the tracker. The tracker enters an empty list
  before it asks \<open>rospkg\<close>, which stays there when an invalid manifest is raised.\<close>

definition ask_deps :: "rospkg \<Rightarrow> string \<Rightarrow> (flags, string list) act" where
  "ask_deps w package f = (if deps (dependency_tracker f) package = None \<and> invalid w Depends package
     then (Inl (InvalidManifest package),
           f\<lparr>dependency_tracker := (dependency_tracker f)\<lparr>deps := (deps (dependency_tracker f))(package \<mapsto> [])\<rparr>\<rparr>)
     else case get_deps (depends w) package (dependency_tracker f) of
     (ds, t) \<Rightarrow> (Inr ds, f\<lparr>dependency_tracker := t\<rparr>))"

definition check_all :: "rospkg \<Rightarrow> string \<Rightarrow> (flags, unit) act" where
  "check_all w package = sbind (check_package_flags w package) (\<lambda>_.
     sbind (ask_deps w package) (\<lambda>ds. sfoldl (\<lambda>_ p. check_package_flags w p) () ds))"

definition is_blacklisted :: "rospkg \<Rightarrow> string \<Rightarrow> (flags, string list) act" where
  "is_blacklisted w package = sbind (check_all w package) (\<lambda>_.
     sgets (\<lambda>f. case blacklisted f package of Some bs \<Rightarrow> bs | None \<Rightarrow> []))"

definition is_blacklisted_osx :: "rospkg \<Rightarrow> string \<Rightarrow> (flags, string list) act" where
  "is_blacklisted_osx w package = sbind (check_all w package) (\<lambda>_.
     sgets (\<lambda>f. case blacklisted_osx f package of Some bs \<Rightarrow> bs | None \<Rightarrow> []))"

definition has_nobuild :: "rospkg \<Rightarrow> string \<Rightarrow> (flags, bool) act" where
  "has_nobuild w package = sbind (check_package_flags w package) (\<lambda>_. sgets (\<lambda>f. package \<in> nobuild f))"

definition has_makefile :: "rospkg \<Rightarrow> string \<Rightarrow> (flags, bool) act" where
  "has_makefile w package = sbind (check_package_flags w package) (\<lambda>_. sgets (\<lambda>f. package \<notin> nomakefile f))"

definition add_nobuild :: "rospkg \<Rightarrow> string \<Rightarrow> (flags, bool) act" where
  "add_nobuild w package = sbind (has_nobuild w package) (\<lambda>has.
     if has then sret True
     else sbind (slift (of_option (ResourceNotFound package) (get_path w package))) (\<lambda>path.
       sbind (smodify (\<lambda>f. f\<lparr>disk := insert (path_join path ''ROS_NOBUILD'') (disk f),
                             nobuild := insert package (nobuild f)\<rparr>)) (\<lambda>_. sret True)))"

text \<open>Removing the file fails where there is none; every exception is caught there.\<close>

definition remove_nobuild :: "rospkg \<Rightarrow> string \<Rightarrow> (flags, bool) act" where
  "remove_nobuild w package = sbind (has_nobuild w package) (\<lambda>has.
     if \<not> has then sret True
     else sbind (sgets (\<lambda>f. marked w ''ROS_NOBUILD'' (disk f) package)) (\<lambda>m.
       case get_path w package of
         Some path \<Rightarrow> if m
           then sbind (smodify (\<lambda>f. f\<lparr>disk := disk f - {path_join path ''ROS_NOBUILD''},
                                     nobuild := nobuild f - {package}\<rparr>)) (\<lambda>_. sret True)
           else sret False
       | None \<Rightarrow> sret False))"

definition mark_build_failed :: "string \<Rightarrow> flags \<Rightarrow> flags" where
  "mark_build_failed package f = f\<lparr>build_failed := insert package (build_failed f)\<rparr>"

definition list_repr :: "string list \<Rightarrow> string" where
  "list_repr xs = ''['' @ py_join '', '' (map (\<lambda>x. [CHR 0x27] @ x @ [CHR 0x27]) xs) @ '']''"

text \<open>The results of \<open>can_build\<close> after each of its four checks, in the order of the code: a check may
  clear \<open>buildable\<close>, set the state and add to the message.\<close>

fun note_failed :: "string \<Rightarrow> string list \<Rightarrow> bool \<times> bool \<times> string \<Rightarrow> bool \<times> bool \<times> string" where
  "note_failed pkg failed (buildable, state, msg) = (if failed = [] then (buildable, state, msg)
     else (False, False, msg @ '' Package '' @ pkg @ '' cannot be built for dependent package(s) '' @
           list_repr failed @ '' failed. '' @ [CHR 0x0A]))"

fun note_blacklisted :: "string \<Rightarrow> string list \<Rightarrow> bool \<times> bool \<times> string \<Rightarrow> bool \<times> bool \<times> string" where
  "note_blacklisted pkg bs (buildable, state, msg) = (if bs = [] then (buildable, state, msg)
     else (False, state, msg @ ''Cannot build '' @ pkg @ '' ROS_BUILD_BLACKLIST found in packages '' @ list_repr bs))"

fun note_nobuild :: "string \<Rightarrow> bool \<Rightarrow> bool \<times> bool \<times> string \<Rightarrow> bool \<times> bool \<times> string" where
  "note_nobuild pkg nb (buildable, state, msg) = (if \<not> nb then (buildable, state, msg)
     else (False, True, msg @ ''ROS_NOBUILD in package '' @ pkg @ [CHR 0x0A]))"

fun note_makefile :: "string \<Rightarrow> bool \<Rightarrow> bool \<times> bool \<times> string \<Rightarrow> bool \<times> bool \<times> string" where
  "note_makefile pkg mf (buildable, state, msg) = (if mf then (buildable, state, msg)
     else (False, True, msg @ '' No Makefile in package '' @ pkg @ [CHR 0x0A]))"

fun cut_newline :: "bool \<times> bool \<times> string \<Rightarrow> bool \<times> bool \<times> string" where
  "cut_newline (buildable, state, msg) =
     (buildable, state, if msg \<noteq> [] \<and> last msg = CHR 0x0A then butlast msg else msg)"

definition can_build ::
    "rospkg \<Rightarrow> string \<Rightarrow> bool \<Rightarrow> string list \<Rightarrow> bool \<Rightarrow> (flags, bool \<times> bool \<times> string) act" where
  "can_build w pkg use_blacklist failed_packages use_makefile =
     sbind (if failed_packages = [] then sret [] else ask_deps w pkg) (\<lambda>ds.
     let s1 = note_failed pkg (filter (\<lambda>p. p \<in> set ds) failed_packages) (True, True, [])
     in sbind (if use_blacklist then is_blacklisted w pkg else sret []) (\<lambda>bs.
     let s2 = note_blacklisted pkg bs s1
     in sbind (has_nobuild w pkg) (\<lambda>nb.
     let s3 = note_nobuild pkg nb s2
     in sbind (if use_makefile then has_makefile w pkg else sret True) (\<lambda>mf.
     sret (cut_newline (note_makefile pkg mf s3))))))"

section \<open>Registers of blacklisted packages\<close>

text \<open>What both registers do: an entry is added to the list of one package, and nothing else of the
  state changes.\<close>

definition same_rest :: "flags \<Rightarrow> flags \<Rightarrow> bool" where
  "same_rest f f' \<longleftrightarrow> nobuild f' = nobuild f \<and> nomakefile f' = nomakefile f \<and>
     packages_tested f' = packages_tested f \<and> dependency_tracker f' = dependency_tracker f \<and> disk f' = disk f"

locale blacklist =
  fixes register :: "string \<Rightarrow> string \<Rightarrow> flags \<Rightarrow> flags"
    and look :: "flags \<Rightarrow> string \<rightharpoonup> string list"
    and other :: "flags \<Rightarrow> string \<rightharpoonup> string list"
  assumes look_register: "look (register b p f) =
      (look f)(p \<mapsto> (case look f p of Some bs \<Rightarrow> bs @ [b] | None \<Rightarrow> [b]))"
    and other_register: "other (register b p f) = other f"
    and rest_register: "same_rest f (register b p f)"
begin

definition entries :: "flags \<Rightarrow> string \<Rightarrow> string set" where
  "entries f p = (case look f p of Some bs \<Rightarrow> set bs | None \<Rightarrow> {})"

lemma entries_register: "entries (register b p f) x = entries f x \<union> (if x = p then {b} else {})"
  by (auto simp: entries_def look_register split: option.splits)

lemma fold_register:
  "entries (fold (register b) ps f) x = entries f x \<union> (if x \<in> set ps then {b} else {})"
  "other (fold (register b) ps f) = other f" "same_rest f (fold (register b) ps f)"
proof (induction ps arbitrary: f)
  case (Cons p ps)
  { case 1 show ?case by (simp add: Cons.IH entries_register) }
  { case 2 show ?case by (simp add: Cons.IH other_register) }
  { case 3 show ?case using Cons.IH(3) [of "register b p f"] rest_register [of f b p] by (simp add: same_rest_def) }
qed (auto simp: same_rest_def)

text \<open>A block that registers: it adds the package to its own list and to those of its dependents,
  exactly if the marker file is there.\<close>

lemma register_marked_returns:
  assumes "register_marked w name register package f = (Inr u, f')"
  shows "entries f' x = entries f x \<union>
      (if marked w name (disk f) package \<and> (x = package \<or> (\<exists>ps. depends_on w package = Some ps \<and> x \<in> set ps))
       then {package} else {})"
    and "other f' = other f" and "same_rest f f'"
proof -
  have "entries f' x = entries f x \<union>
      (if marked w name (disk f) package \<and> (x = package \<or> (\<exists>ps. depends_on w package = Some ps \<and> x \<in> set ps))
       then {package} else {}) \<and> other f' = other f \<and> same_rest f f'"
  proof (cases "marked w name (disk f) package")
    case False
    then show ?thesis using assms by (auto simp: register_marked_def same_rest_def)
  next
    case True
    let ?g = "register package package f"
    obtain ps where ps: "depends_on w package = Some ps" and f': "f' = fold (register package) ps ?g"
      using assms True by (auto simp: register_marked_def sbind_eq_Inr of_option_def split: option.splits)
    show ?thesis using True ps rest_register [of f package package] fold_register(3) [of ?g package ps]
      by (auto simp: f' fold_register entries_register other_register same_rest_def)
  qed
  then show "entries f' x = entries f x \<union>
      (if marked w name (disk f) package \<and> (x = package \<or> (\<exists>ps. depends_on w package = Some ps \<and> x \<in> set ps))
       then {package} else {})" "other f' = other f" "same_rest f f'" by auto
qed

end

interpretation bl: blacklist register_blacklisted blacklisted blacklisted_osx
  by unfold_locales (auto simp: register_blacklisted_def same_rest_def split: option.splits)

interpretation osx: blacklist register_blacklisted_osx blacklisted_osx blacklisted
  by unfold_locales (auto simp: register_blacklisted_osx_def same_rest_def split: option.splits)

section \<open>The invariant of the tracker\<close>

definition dependent :: "rospkg \<Rightarrow> string \<Rightarrow> string \<Rightarrow> bool" where
  "dependent w p q \<longleftrightarrow> p = q \<or> (\<exists>ps. depends_on w q = Some ps \<and> p \<in> set ps)"

definition flags_inv :: "rospkg \<Rightarrow> flags \<Rightarrow> bool" where
  "flags_inv w f \<longleftrightarrow>
     (\<forall>p. bl.entries f p = {q \<in> packages_tested f. marked w ''ROS_BUILD_BLACKLIST'' (disk f) q \<and> dependent w p q}) \<and>
     (\<forall>p. osx.entries f p = {q \<in> packages_tested f. marked w ''ROS_BUILD_BLACKLIST_OSX'' (disk f) q \<and> dependent w p q}) \<and>
     nobuild f = {q \<in> packages_tested f. marked w ''ROS_NOBUILD'' (disk f) q \<or> is_catkin w q = Some True} \<and>
     nomakefile f = {q \<in> packages_tested f. \<not> marked w ''Makefile'' (disk f) q} \<and>
     full.faithful (depends w) (dependency_tracker f)"

lemma flags_inv_init: "full.faithful (depends w) t \<Longrightarrow> flags_inv w (PackageFlagTracker t fs)"
  by (simp add: flags_inv_def PackageFlagTracker_def bl.entries_def osx.entries_def)

lemma other_entries:
  "blacklisted_osx f' = blacklisted_osx f \<Longrightarrow> osx.entries f' = osx.entries f"
  "blacklisted f' = blacklisted f \<Longrightarrow> bl.entries f' = bl.entries f"
  by (simp_all add: fun_eq_iff osx.entries_def bl.entries_def)

lemma check_package_flags_inv:
  assumes "check_package_flags w package f = (Inr u, f')" "flags_inv w f"
  shows "flags_inv w f' \<and> packages_tested f' = insert package (packages_tested f) \<and>
    dependency_tracker f' = dependency_tracker f \<and> disk f' = disk f"
proof (cases "package \<in> packages_tested f")
  case True
  then show ?thesis using assms by (auto simp: check_package_flags_def)
next
  case False
  obtain path f1 f2 catkin where path: "get_path w package = Some path"
    and r1: "register_marked w ''ROS_BUILD_BLACKLIST'' register_blacklisted package f = (Inr (), f1)"
    and r2: "register_marked w ''ROS_BUILD_BLACKLIST_OSX'' register_blacklisted_osx package f1 = (Inr (), f2)"
    and catkin: "is_catkin w package = Some catkin"
    and f': "f' = (let f3 = (if path_join path ''ROS_NOBUILD'' \<in> disk f2 then f2\<lparr>nobuild := insert package (nobuild f2)\<rparr> else f2);
                   f4 = (if catkin then f3\<lparr>nobuild := insert package (nobuild f3)\<rparr> else f3);
                   f5 = (if path_join path ''Makefile'' \<notin> disk f4 then f4\<lparr>nomakefile := insert package (nomakefile f4)\<rparr> else f4)
               in f5\<lparr>packages_tested := insert package (packages_tested f5)\<rparr>)"
    using assms(1) False unfolding check_package_flags_def
    by (auto simp: sbind_eq_Inr Let_def)
  note b = bl.register_marked_returns [OF r1] and o = osx.register_marked_returns [OF r2]
  have same: "same_rest f f2" using b(3) o(3) by (simp add: same_rest_def)
  have bl: "bl.entries f2 x = bl.entries f x \<union>
      (if marked w ''ROS_BUILD_BLACKLIST'' (disk f) package \<and> dependent w x package then {package} else {})" for x
    using b(1) [of x] other_entries(2) [OF o(2)] by (simp add: dependent_def)
  have ox: "osx.entries f2 x = osx.entries f x \<union>
      (if marked w ''ROS_BUILD_BLACKLIST_OSX'' (disk f) package \<and> dependent w x package then {package} else {})" for x
    using o(1) [of x] other_entries(1) [OF b(2)] b(3) by (simp add: dependent_def same_rest_def)
  have e: "bl.entries f' = bl.entries f2" "osx.entries f' = osx.entries f2"
    by (auto simp: f' Let_def bl.entries_def osx.entries_def fun_eq_iff)
  have rest: "packages_tested f' = insert package (packages_tested f)" "disk f' = disk f"
    "dependency_tracker f' = dependency_tracker f"
    "nobuild f' = nobuild f \<union> (if marked w ''ROS_NOBUILD'' (disk f) package \<or> catkin then {package} else {})"
    "nomakefile f' = nomakefile f \<union> (if marked w ''Makefile'' (disk f) package then {} else {package})"
    using same path by (auto simp: f' Let_def same_rest_def marked_def)
  show ?thesis using assms(2) False catkin unfolding flags_inv_def e rest bl ox by auto
qed

lemma ask_deps_inv:
  assumes "ask_deps w package f = (Inr ds, f')" "flags_inv w f"
  shows "ds = potential (depends w) (valid_packages (dependency_tracker f)) package \<and>
    flags_inv w f' \<and> packages_tested f' = packages_tested f \<and> disk f' = disk f \<and>
    valid_packages (dependency_tracker f') = valid_packages (dependency_tracker f)"
proof -
  obtain ds' t where r: "get_deps (depends w) package (dependency_tracker f) = (ds', t)" by fastforce
  have "full.faithful (depends w) (dependency_tracker f)" using assms(2) by (simp add: flags_inv_def)
  from full.ask_faithful [OF this r] show ?thesis using assms
    by (auto simp: ask_deps_def r flags_inv_def bl.entries_def osx.entries_def split: if_splits)
qed

lemma check_list_inv:
  assumes "sfoldl (\<lambda>_ p. check_package_flags w p) () ps f = (Inr u, f')" "flags_inv w f"
  shows "flags_inv w f' \<and> packages_tested f' = set ps \<union> packages_tested f \<and>
    dependency_tracker f' = dependency_tracker f \<and> disk f' = disk f"
  using assms
proof (induction ps arbitrary: f)
  case (Cons p ps)
  then obtain f1 where "check_package_flags w p f = (Inr (), f1)"
    "sfoldl (\<lambda>_ p. check_package_flags w p) () ps f1 = (Inr u, f')" by (auto simp: sbind_eq_Inr)
  then show ?case using Cons.IH check_package_flags_inv [OF _ Cons.prems(2)] by fastforce
qed simp

lemma check_all_inv:
  assumes "check_all w package f = (Inr u, f')" "flags_inv w f"
  shows "flags_inv w f' \<and> disk f' = disk f \<and>
    packages_tested f' = insert package (packages_tested f) \<union>
      set (potential (depends w) (valid_packages (dependency_tracker f)) package) \<and>
    valid_packages (dependency_tracker f') = valid_packages (dependency_tracker f)"
proof -
  obtain f1 ds f2 where c: "check_package_flags w package f = (Inr (), f1)" and a: "ask_deps w package f1 = (Inr ds, f2)"
    and l: "sfoldl (\<lambda>_ p. check_package_flags w p) () ds f2 = (Inr u, f')"
    using assms(1) by (auto simp: check_all_def sbind_eq_Inr)
  note i1 = check_package_flags_inv [OF c assms(2)]
  note i2 = ask_deps_inv [OF a conjunct1 [OF i1]]
  show ?thesis using check_list_inv [OF l] i1 i2 by auto
qed

text \<open>With \<open>get_depends_on\<close> the converse of \<open>get_depends\<close>, the answer of \<open>is_blacklisted\<close> is the
  blacklisted packages among a package and its dependencies.\<close>

lemma is_blacklisted_set:
  assumes "is_blacklisted w package f = (Inr bs, f')" "flags_inv w f"
    and "\<And>q. q \<noteq> package \<Longrightarrow> (\<exists>ps. depends_on w q = Some ps \<and> package \<in> set ps) \<longleftrightarrow>
      q \<in> set (potential (depends w) (valid_packages (dependency_tracker f)) package)"
  shows "set bs = {q \<in> insert package (set (potential (depends w) (valid_packages (dependency_tracker f)) package)).
      marked w ''ROS_BUILD_BLACKLIST'' (disk f) q} \<and> flags_inv w f' \<and> disk f' = disk f"
proof -
  have c: "check_all w package f = (Inr (), f')" and bs: "set bs = bl.entries f' package"
    using assms(1) by (auto simp: is_blacklisted_def sbind_eq_Inr bl.entries_def split: option.splits)
  note i = check_all_inv [OF c assms(2)]
  then have "set bs = {q \<in> packages_tested f'. marked w ''ROS_BUILD_BLACKLIST'' (disk f) q \<and> dependent w package q}"
    unfolding bs flags_inv_def by auto
  then show ?thesis using i assms(3) by (auto simp: dependent_def)
qed

lemma has_flags:
  assumes "flags_inv w f"
  shows "has_nobuild w p f = (Inr b, f') \<Longrightarrow>
      b = (marked w ''ROS_NOBUILD'' (disk f) p \<or> is_catkin w p = Some True) \<and> flags_inv w f' \<and> disk f' = disk f"
    and "has_makefile w p f = (Inr b, f') \<Longrightarrow> b = marked w ''Makefile'' (disk f) p \<and> flags_inv w f' \<and> disk f' = disk f"
proof -
  assume "has_nobuild w p f = (Inr b, f')"
  then have c: "check_package_flags w p f = (Inr (), f')" and b: "b = (p \<in> nobuild f')"
    by (auto simp: has_nobuild_def sbind_eq_Inr)
  from check_package_flags_inv [OF c assms] show
    "b = (marked w ''ROS_NOBUILD'' (disk f) p \<or> is_catkin w p = Some True) \<and> flags_inv w f' \<and> disk f' = disk f"
    by (auto simp: flags_inv_def b)
next
  assume "has_makefile w p f = (Inr b, f')"
  then have c: "check_package_flags w p f = (Inr (), f')" and b: "b = (p \<notin> nomakefile f')"
    by (auto simp: has_makefile_def sbind_eq_Inr)
  from check_package_flags_inv [OF c assms] show "b = marked w ''Makefile'' (disk f) p \<and> flags_inv w f' \<and> disk f' = disk f"
    by (auto simp: flags_inv_def b)
qed

definition explained :: "bool \<times> bool \<times> string \<Rightarrow> bool" where
  "explained v \<longleftrightarrow> (if fst v then snd (snd v) = [] else 2 \<le> length (snd (snd v)))"

lemma note_results:
  "fst (note_failed pkg xs v) \<longleftrightarrow> fst v \<and> xs = []" "fst (snd (note_failed pkg xs v)) \<longleftrightarrow> fst (snd v) \<and> xs = []"
  "fst (note_blacklisted pkg xs v) \<longleftrightarrow> fst v \<and> xs = []" "fst (snd (note_blacklisted pkg xs v)) = fst (snd v)"
  "fst (note_nobuild pkg nb v) \<longleftrightarrow> fst v \<and> \<not> nb" "fst (snd (note_nobuild pkg nb v)) \<longleftrightarrow> fst (snd v) \<or> nb"
  "fst (note_makefile pkg mf v) \<longleftrightarrow> fst v \<and> mf" "fst (snd (note_makefile pkg mf v)) \<longleftrightarrow> fst (snd v) \<or> \<not> mf"
  "fst (cut_newline v) = fst v" "fst (snd (cut_newline v)) = fst (snd v)"
  by (cases v; simp)+

lemma note_explained:
  "explained v \<Longrightarrow> explained (note_failed pkg xs v)" "explained v \<Longrightarrow> explained (note_blacklisted pkg xs v)"
  "explained v \<Longrightarrow> explained (note_nobuild pkg nb v)" "explained v \<Longrightarrow> explained (note_makefile pkg mf v)"
  "explained v \<Longrightarrow> snd (snd (cut_newline v)) = [] \<longleftrightarrow> fst v"
proof -
  show "explained v \<Longrightarrow> snd (snd (cut_newline v)) = [] \<longleftrightarrow> fst v"
    by (cases v) (auto simp: explained_def butlast_conv_take split: if_splits)
qed (cases v; auto simp: explained_def split: if_splits)+

lemma verdict_notes:
  assumes "cut_newline (note_makefile pkg mf (note_nobuild pkg nb (note_blacklisted pkg bs (note_failed pkg failed (True, True, []))))) =
    (buildable, state, why)"
  shows "(buildable \<longleftrightarrow> failed = [] \<and> bs = [] \<and> \<not> nb \<and> mf) \<and> (state \<longleftrightarrow> failed = [] \<or> nb \<or> \<not> mf) \<and>
    (why = [] \<longleftrightarrow> buildable)"
proof -
  let ?v = "note_makefile pkg mf (note_nobuild pkg nb (note_blacklisted pkg bs (note_failed pkg failed (True, True, []))))"
  have "explained ?v" by (intro note_explained(1-4)) (simp add: explained_def)
  from note_explained(5) [OF this] have "why = [] \<longleftrightarrow> fst ?v" using assms by simp
  moreover have "buildable = fst (cut_newline ?v)" "state = fst (snd (cut_newline ?v))" by (simp_all only: assms fst_conv snd_conv)
  ultimately show ?thesis by (auto simp only: note_results fst_conv snd_conv simp_thms)
qed

text \<open>C38: The verdict of \<open>can_build\<close>: a package is buildable exactly if none of its dependencies failed,
  neither it nor a dependency is blacklisted (when the blacklist is used), it is not marked as
  built or a catkin package, and it has a Makefile (when one is needed); the second result says
  that its dependents may go on, and a reason is given exactly when it is not buildable. What is
  known of the packages stays consistent with their marker files. \<open>rospkg\<close> is taken to answer
  \<open>get_depends_on\<close> as the converse of \<open>get_depends\<close>.\<close>

theorem can_build_verdict:
  fixes w :: rospkg and f :: flags and pkg :: string
  defines "ds \<equiv> set (potential (depends w) (valid_packages (dependency_tracker f)) pkg)"
  assumes inv: "flags_inv w f"
    and run: "can_build w pkg use_blacklist failed_packages use_makefile f = (Inr (buildable, state, why), f')"
    and converse: "\<And>q. q \<noteq> pkg \<Longrightarrow> (\<exists>ps. depends_on w q = Some ps \<and> pkg \<in> set ps) \<longleftrightarrow> q \<in> ds"
  shows "(buildable \<longleftrightarrow> set failed_packages \<inter> ds = {} \<and>
        (use_blacklist \<longrightarrow> (\<forall>q \<in> insert pkg ds. \<not> marked w ''ROS_BUILD_BLACKLIST'' (disk f) q)) \<and>
        \<not> marked w ''ROS_NOBUILD'' (disk f) pkg \<and> is_catkin w pkg \<noteq> Some True \<and>
        (use_makefile \<longrightarrow> marked w ''Makefile'' (disk f) pkg)) \<and>
     (state \<longleftrightarrow> set failed_packages \<inter> ds = {} \<or> marked w ''ROS_NOBUILD'' (disk f) pkg \<or> is_catkin w pkg = Some True \<or>
        (use_makefile \<and> \<not> marked w ''Makefile'' (disk f) pkg)) \<and>
     (why = [] \<longleftrightarrow> buildable) \<and> flags_inv w f' \<and> disk f' = disk f"
proof -
  obtain dl f1 bs f2 nb f3 mf where a: "(if failed_packages = [] then sret [] else ask_deps w pkg) f = (Inr dl, f1)"
    and b: "(if use_blacklist then is_blacklisted w pkg else sret []) f1 = (Inr bs, f2)"
    and n: "has_nobuild w pkg f2 = (Inr nb, f3)"
    and m: "(if use_makefile then has_makefile w pkg else sret True) f3 = (Inr mf, f')"
    and verdict: "buildable \<longleftrightarrow> filter (\<lambda>p. p \<in> set dl) failed_packages = [] \<and> bs = [] \<and> \<not> nb \<and> mf"
      "state \<longleftrightarrow> filter (\<lambda>p. p \<in> set dl) failed_packages = [] \<or> nb \<or> \<not> mf" "why = [] \<longleftrightarrow> buildable"
  proof -
    from run obtain dl f1 bs f2 nb f3 mf where
      "(if failed_packages = [] then sret [] else ask_deps w pkg) f = (Inr dl, f1)"
      "(if use_blacklist then is_blacklisted w pkg else sret []) f1 = (Inr bs, f2)" "has_nobuild w pkg f2 = (Inr nb, f3)"
      "(if use_makefile then has_makefile w pkg else sret True) f3 = (Inr mf, f')"
      and v: "cut_newline (note_makefile pkg mf (note_nobuild pkg nb (note_blacklisted pkg bs
        (note_failed pkg (filter (\<lambda>p. p \<in> set dl) failed_packages) (True, True, []))))) = (buildable, state, why)"
      unfolding can_build_def Let_def sbind_eq_Inr act_eval by (elim exE conjE) (auto simp only: prod.inject sum.inject)
    then show ?thesis using verdict_notes [OF v] by (intro that) simp_all
  qed
  have i1: "flags_inv w f1" "disk f1 = disk f" "valid_packages (dependency_tracker f1) = valid_packages (dependency_tracker f)"
    "failed_packages \<noteq> [] \<Longrightarrow> set dl = ds"
    using a ask_deps_inv [OF _ inv, of pkg dl f1] inv by (auto simp: ds_def split: if_splits)
  have "flags_inv w f2 \<and> disk f2 = disk f \<and>
      set bs = (if use_blacklist then {q \<in> insert pkg ds. marked w ''ROS_BUILD_BLACKLIST'' (disk f) q} else {})"
    using b is_blacklisted_set [of w pkg f1 bs f2] i1 converse by (simp add: ds_def split: if_splits)
  then have i2: "flags_inv w f2" "disk f2 = disk f" "bs = [] \<longleftrightarrow> (use_blacklist \<longrightarrow> (\<forall>q \<in> insert pkg ds. \<not> marked w ''ROS_BUILD_BLACKLIST'' (disk f) q))"
    unfolding set_empty [symmetric] by auto
  have i3: "flags_inv w f3" "disk f3 = disk f" "nb = (marked w ''ROS_NOBUILD'' (disk f) pkg \<or> is_catkin w pkg = Some True)"
    using has_flags(1) [OF i2(1) n] i2 by auto
  have i4: "flags_inv w f'" "disk f' = disk f" "mf = (use_makefile \<longrightarrow> marked w ''Makefile'' (disk f) pkg)"
    using m has_flags(2) [OF i3(1), of pkg mf f'] i3 by (auto split: if_splits)
  have fl: "filter (\<lambda>p. p \<in> set dl) failed_packages = [] \<longleftrightarrow> set failed_packages \<inter> ds = {}"
    using i1(4) by (cases "failed_packages = []") (auto simp: filter_empty_conv)
  show ?thesis unfolding verdict fl i2(3) i3(3) i4(3) using i4(1,2) by auto
qed

definition two_packages :: rospkg where
  "two_packages = \<lparr>get_path = (\<lambda>p. if p = ''a'' then Some ''/a'' else if p = ''b'' then Some ''/b'' else None),
     depends = (\<lambda>p. if p = ''a'' then Some [] else if p = ''b'' then Some [''a''] else None),
     depends_direct = (\<lambda>p. if p = ''a'' then Some [] else if p = ''b'' then Some [''a''] else None),
     depends_on = (\<lambda>p. if p = ''a'' then Some [''b''] else if p = ''b'' then Some [] else None),
     is_catkin = (\<lambda>p. if p = ''a'' \<or> p = ''b'' then Some False else None),
     invalid = (\<lambda>k p. p = ''broken'')\<rparr>"

definition two_flags :: flags where
  "two_flags = PackageFlagTracker (DependencyTracker [''a'', ''b''])
     {''/a/ROS_BUILD_BLACKLIST'', ''/a/Makefile'', ''/b/Makefile''}"

lemma two_flags_inv: "flags_inv two_packages two_flags"
  unfolding two_flags_def by (rule flags_inv_init) (simp add: full.faithful_def DependencyTracker_def)

theorem can_build_verdict_witness:
  "(case can_build two_packages ''b'' True [''z''] True two_flags of
      (Inr (buildable, state, why), f') \<Rightarrow> \<not> buildable \<and> state \<and> why \<noteq> [] | _ \<Rightarrow> False)"
proof -
  have "case can_build two_packages ''b'' True [''z''] True two_flags of (Inl e, f') \<Rightarrow> False | (Inr v, f') \<Rightarrow> True"
    by code_simp
  then obtain buildable state why f' where
    run: "can_build two_packages ''b'' True [''z''] True two_flags = (Inr (buildable, state, why), f')"
    by (auto split: prod.splits sum.splits)
  have ds: "set (potential (depends two_packages) (valid_packages (dependency_tracker two_flags)) ''b'') = {''a''}"
    by code_simp
  have "(\<exists>ps. depends_on two_packages q = Some ps \<and> ''b'' \<in> set ps) \<longleftrightarrow>
      q \<in> set (potential (depends two_packages) (valid_packages (dependency_tracker two_flags)) ''b'')" for q
    unfolding ds by (simp add: two_packages_def)
  from can_build_verdict [OF two_flags_inv run this] have "\<not> buildable \<and> state \<and> why \<noteq> []"
    unfolding ds by (auto simp: marked_def two_packages_def two_flags_def PackageFlagTracker_def path_join_def startswith_def endswith_def)
  then show ?thesis by (simp add: run)
qed

end
