(* ===== verification/Build_Queue.thy ===== *)
theory Build_Queue
  imports Dependency_Tracker "HOL-Library.Multiset" "HOL-Library.Sublist"
begin

text \<open>
  The parallel build of \<open>rosmake/parallel_build.py\<close>: the \<open>BuildQueue\<close> and the threads that
  work on it. Every method of the queue runs under its
  condition variable, so it is one atomic step; \<open>get_valid_package\<close> gives the lock up only while
  it waits, so a pass over the packages is one step and a wake-up is another. The threads of
  class \<open>CompileThread\<close> are program counters, and the relation \<open>step\<close> interleaves them in
  every order and with every result of a build. What the
  dependency tracker answers is the argument \<open>dep\<close>.
\<close>

section \<open>The queue\<close>

record queue =
  total_pkgs :: nat
  to_build :: "string list"
  built :: "string list"
  failed :: "string list"
  q_done :: bool
  robust_build :: bool
  started :: "string list"
  hack_end_counter :: nat

definition BuildQueue :: "string list \<Rightarrow> bool \<Rightarrow> queue" where
  "BuildQueue package_list robust =
     \<lparr>total_pkgs = length package_list, to_build = package_list, built = [], failed = [], q_done = False,
      robust_build = robust, started = [], hack_end_counter = 0\<rparr>"

definition progress_str :: "queue \<Rightarrow> string" where
  "progress_str q = ''[ '' @ str_of_nat (length (started q)) @ '' Active '' @ str_of_nat (length (built q)) @ ''/'' @
     str_of_nat (total_pkgs q) @ '' Complete ]''"

definition get_started_threads :: "queue \<Rightarrow> string list" where
  "get_started_threads q = started q"

definition is_completed :: "queue \<Rightarrow> bool" where
  "is_completed q \<longleftrightarrow> length (built q) + length (failed q) = total_pkgs q"

definition is_done :: "queue \<Rightarrow> bool" where
  "is_done q \<longleftrightarrow> is_completed q \<or> q_done q"

definition succeeded :: "queue \<Rightarrow> bool" where
  "succeeded q \<longleftrightarrow> length (built q) = total_pkgs q"

definition stop :: "queue \<Rightarrow> queue" where
  "stop q = q\<lparr>q_done := True\<rparr>"

definition return_built :: "string \<Rightarrow> bool \<Rightarrow> queue \<Rightarrow> queue" where
  "return_built package successful q =
     (let q1 = (if successful then q\<lparr>built := built q @ [package]\<rparr> else q\<lparr>failed := failed q @ [package]\<rparr>);
          q2 = q1\<lparr>started := remove1 package (started q1)\<rparr>
      in if is_completed q2 then q2\<lparr>q_done := True\<rparr> else q2)"

definition dependencies_met :: "(string \<Rightarrow> string list) \<Rightarrow> queue \<Rightarrow> string \<Rightarrow> bool" where
  "dependencies_met dep q p \<longleftrightarrow>
     list_all (\<lambda>d. d \<in> set (built q) \<or> (robust_build q \<and> d \<in> set (failed q))) (dep p)"

text \<open>The \<open>for\<close> loop over the packages: a package to build, \<open>return None\<close>, or the end of the loop.\<close>

datatype scan = Take string | Hung | NothingReady

fun scan_packages :: "(string \<Rightarrow> string list) \<Rightarrow> queue \<Rightarrow> string list \<Rightarrow> scan" where
  "scan_packages dep q [] = NothingReady"
| "scan_packages dep q (p # ps) =
     (if dependencies_met dep q p then Take p
      else if started q = [] \<and> hack_end_counter q > 2 then Hung
      else scan_packages dep q ps)"

definition take_package :: "string \<Rightarrow> queue \<Rightarrow> queue" where
  "take_package p q = q\<lparr>to_build := remove1 p (to_build q),
     started := (if p \<in> set (started q) then started q else started q @ [p]), hack_end_counter := 0\<rparr>"

text \<open>One pass of \<open>get_valid_package\<close>: what the thread gets, or that it waits.\<close>

datatype answer = Got string | Nothing | Wait

definition try_get :: "(string \<Rightarrow> string list) \<Rightarrow> queue \<Rightarrow> answer \<times> queue" where
  "try_get dep q =
     (if is_done q \<or> to_build q = [] then (Nothing, q)
      else case scan_packages dep q (to_build q) of
        Take p \<Rightarrow> (Got p, take_package p q) | Hung \<Rightarrow> (Nothing, q) | NothingReady \<Rightarrow> (Wait, q))"

definition wake :: "queue \<Rightarrow> queue" where
  "wake q = q\<lparr>hack_end_counter := hack_end_counter q + 1\<rparr>"

section \<open>The threads\<close>

datatype pc = Loop | Getting | Waiting | Building string | Stopping | Exited

type_synonym build = "queue \<times> pc list"

text \<open>One step of one thread. The result of building a package is arbitrary; a failure in a build
  that is not robust stops the queue.\<close>

inductive step :: "(string \<Rightarrow> string list) \<Rightarrow> build \<Rightarrow> build \<Rightarrow> bool" for dep where
  loop: "i < length ts \<Longrightarrow> ts ! i = Loop \<Longrightarrow>
    step dep (q, ts) (q, ts[i := (if is_done q then Exited else Getting)])"
| got: "i < length ts \<Longrightarrow> ts ! i = Getting \<Longrightarrow> try_get dep q = (Got p, q') \<Longrightarrow>
    step dep (q, ts) (q', ts[i := Building p])"
| none_left: "i < length ts \<Longrightarrow> ts ! i = Getting \<Longrightarrow> try_get dep q = (Nothing, q') \<Longrightarrow>
    step dep (q, ts) (q', ts[i := Exited])"
| wait: "i < length ts \<Longrightarrow> ts ! i = Getting \<Longrightarrow> try_get dep q = (Wait, q') \<Longrightarrow>
    step dep (q, ts) (q', ts[i := Waiting])"
| wake: "i < length ts \<Longrightarrow> ts ! i = Waiting \<Longrightarrow>
    step dep (q, ts) (wake q, ts[i := (if is_done (wake q) then Exited else Getting)])"
| built: "i < length ts \<Longrightarrow> ts ! i = Building p \<Longrightarrow>
    step dep (q, ts) (return_built p r q, ts[i := (if r \<or> robust_build q then Loop else Stopping)])"
| stop: "i < length ts \<Longrightarrow> ts ! i = Stopping \<Longrightarrow> step dep (q, ts) (stop q, ts[i := Exited])"

inductive reachable :: "(string \<Rightarrow> string list) \<Rightarrow> string list \<Rightarrow> bool \<Rightarrow> nat \<Rightarrow> build \<Rightarrow> bool"
  for dep pkgs robust n where
  init: "reachable dep pkgs robust n (BuildQueue pkgs robust, replicate n Loop)"
| step: "reachable dep pkgs robust n b \<Longrightarrow> step dep b b' \<Longrightarrow> reachable dep pkgs robust n b'"

inductive_cases stepE: "step dep (q, ts) b"

text \<open>A schedule: which thread moves, and the result of its build where it ends one. A
  thread that has ended stays where it is.\<close>

fun move :: "(string \<Rightarrow> string list) \<Rightarrow> nat \<times> bool \<Rightarrow> build \<Rightarrow> build" where
  "move dep (i, r) (q, ts) = (if i < length ts then (case ts ! i of
     Loop \<Rightarrow> (q, ts[i := (if is_done q then Exited else Getting)])
   | Getting \<Rightarrow> (case try_get dep q of
       (Got p, q') \<Rightarrow> (q', ts[i := Building p])
     | (Nothing, q') \<Rightarrow> (q', ts[i := Exited])
     | (Wait, q') \<Rightarrow> (q', ts[i := Waiting]))
   | Waiting \<Rightarrow> (wake q, ts[i := (if is_done (wake q) then Exited else Getting)])
   | Building p \<Rightarrow> (return_built p r q, ts[i := (if r \<or> robust_build q then Loop else Stopping)])
   | Stopping \<Rightarrow> (stop q, ts[i := Exited])
   | Exited \<Rightarrow> (q, ts)) else (q, ts))"

fun run_schedule :: "(string \<Rightarrow> string list) \<Rightarrow> (nat \<times> bool) list \<Rightarrow> build \<Rightarrow> build" where
  "run_schedule dep [] b = b"
| "run_schedule dep (m # ms) b = run_schedule dep ms (move dep m b)"

lemma move_step: "move dep m b = b \<or> step dep b (move dep m b)"
proof -
  obtain i r q ts where [simp]: "m = (i, r)" "b = (q, ts)" by (metis prod.exhaust)
  show ?thesis
  proof (cases "i < length ts")
    case i: True
    show ?thesis
    proof (cases "ts ! i")
      case Loop
      then show ?thesis using step.loop [OF i] i by simp
    next
      case Getting
      obtain a q' where "try_get dep q = (a, q')" by (metis prod.exhaust)
      then show ?thesis using Getting i step.got [OF i] step.none_left [OF i] step.wait [OF i] by (cases a) auto
    next
      case Waiting
      then show ?thesis using step.wake [OF i] i by simp
    next
      case (Building p)
      then show ?thesis using step.built [OF i] i by simp
    next
      case Stopping
      then show ?thesis using step.stop [OF i] i by simp
    qed simp
  qed simp
qed

lemma reachable_schedule:
  "reachable dep pkgs robust n b \<Longrightarrow> reachable dep pkgs robust n (run_schedule dep ms b)"
proof (induction ms arbitrary: b)
  case (Cons m ms)
  have "reachable dep pkgs robust n (move dep m b)"
    using Cons.prems move_step [of dep m b] reachable.step by metis
  then show ?case using Cons.IH by simp
qed simp

section \<open>Invariants of the build\<close>

fun pc_packages :: "pc \<Rightarrow> string multiset" where
  "pc_packages (Building p) = {#p#}"
| "pc_packages _ = {#}"

definition building :: "pc list \<Rightarrow> string multiset" where
  "building ts = sum_list (map pc_packages ts)"

lemma building_simps [simp]:
  "building [] = {#}" "building (t # ts) = pc_packages t + building ts"
  "building (a @ b) = building a + building b" "building (replicate n Loop) = {#}"
  by (induction n) (simp_all add: building_def)

lemma building_update:
  assumes "i < length ts"
  shows "\<exists>rest. building ts = pc_packages (ts ! i) + rest \<and> (\<forall>x. building (ts[i := x]) = pc_packages x + rest)"
proof -
  let ?rest = "building (take i ts) + building (drop (Suc i) ts)"
  have "building ts = building (take i ts @ ts ! i # drop (Suc i) ts)" using assms by (simp add: id_take_nth_drop [symmetric])
  moreover have "building (ts[i := x]) = building (take i ts @ x # drop (Suc i) ts)" for x
    using assms by (simp add: upd_conv_take_nth_drop)
  ultimately show ?thesis by (intro exI [of _ ?rest]) (simp add: ac_simps)
qed

text \<open>Where every package is, who builds what, and that what was taken was ready.\<close>

definition conserved :: "string list \<Rightarrow> bool \<Rightarrow> build \<Rightarrow> bool" where
  "conserved pkgs robust b = (case b of (q, ts) \<Rightarrow>
     mset (to_build q) + mset (started q) + mset (built q) + mset (failed q) = mset pkgs \<and>
     mset (started q) = building ts \<and> subseq (to_build q) pkgs \<and>
     total_pkgs q = length pkgs \<and> robust_build q = robust \<and> distinct pkgs)"

definition taken_ready :: "(string \<Rightarrow> string list) \<Rightarrow> queue \<Rightarrow> bool" where
  "taken_ready dep q \<longleftrightarrow> (\<forall>p \<in> set (started q) \<union> set (built q) \<union> set (failed q). dependencies_met dep q p)"

lemma scan_Take:
  "scan_packages dep q ps = Take p \<Longrightarrow> p \<in> set ps \<and> dependencies_met dep q p"
  by (induction ps) (auto split: if_splits)

lemma try_get_cases:
  obtains (got) p where "try_get dep q = (Got p, take_package p q)" "p \<in> set (to_build q)" "dependencies_met dep q p"
    "\<not> is_done q"
  | (none_left) "try_get dep q = (Nothing, q)"
    "is_done q \<or> to_build q = [] \<or> scan_packages dep q (to_build q) = Hung"
  | (wait) "try_get dep q = (Wait, q)" "\<not> is_done q" "to_build q \<noteq> []"
  by (cases "is_done q \<or> to_build q = []"; cases "scan_packages dep q (to_build q)")
     (auto simp: try_get_def dest: scan_Take)

lemma return_built_fields [simp]:
  "to_build (return_built p r q) = to_build q" "started (return_built p r q) = remove1 p (started q)"
  "built (return_built p r q) = (if r then built q @ [p] else built q)"
  "failed (return_built p r q) = (if r then failed q else failed q @ [p])"
  "total_pkgs (return_built p r q) = total_pkgs q" "robust_build (return_built p r q) = robust_build q"
  "hack_end_counter (return_built p r q) = hack_end_counter q"
  by (auto simp: return_built_def Let_def)

lemma queue_fields [simp]:
  "to_build (wake q) = to_build q" "started (wake q) = started q" "built (wake q) = built q" "failed (wake q) = failed q"
  "total_pkgs (wake q) = total_pkgs q" "robust_build (wake q) = robust_build q" "q_done (wake q) = q_done q"
  "to_build (stop q) = to_build q" "started (stop q) = started q" "built (stop q) = built q" "failed (stop q) = failed q"
  "total_pkgs (stop q) = total_pkgs q" "robust_build (stop q) = robust_build q" "q_done (stop q)"
  "built (take_package p q) = built q" "failed (take_package p q) = failed q" "q_done (take_package p q) = q_done q"
  "total_pkgs (take_package p q) = total_pkgs q" "robust_build (take_package p q) = robust_build q"
  "to_build (take_package p q) = remove1 p (to_build q)"
  "started (take_package p q) = (if p \<in> set (started q) then started q else started q @ [p])"
  by (auto simp: wake_def stop_def take_package_def)

lemma subseq_remove1: "subseq (remove1 p xs) xs"
  by (induction xs) auto

lemma conserved_distinct:
  assumes "conserved pkgs robust (q, ts)"
  shows "distinct (to_build q @ started q @ built q @ failed q)"
    and "set (to_build q) \<union> set (started q) \<union> set (built q) \<union> set (failed q) = set pkgs"
proof -
  have m: "mset (to_build q @ started q @ built q @ failed q) = mset pkgs"
    using assms by (auto simp: conserved_def ac_simps)
  then show "distinct (to_build q @ started q @ built q @ failed q)"
    using assms mset_eq_imp_distinct_iff [OF m] by (simp add: conserved_def)
  show "set (to_build q) \<union> set (started q) \<union> set (built q) \<union> set (failed q) = set pkgs"
    using mset_eq_setD [OF m] by auto
qed

lemma step_conserved:
  assumes "step dep b b'" "conserved pkgs robust b" shows "conserved pkgs robust b'"
  using assms
proof (cases rule: step.cases)
  case (got i ts q p q')
  obtain rest where u: "building ts = pc_packages (ts ! i) + rest" "\<forall>x. building (ts[i := x]) = pc_packages x + rest"
    using building_update [OF got(3)] by blast
  have p: "q' = take_package p q" "p \<in> set (to_build q)" using got(5) by (cases dep q rule: try_get_cases; simp)+
  have "distinct (to_build q @ started q @ built q @ failed q)"
    using conserved_distinct(1) [of pkgs robust q ts] assms(2) got(1) by simp
  then have new: "p \<notin> set (started q)" using p(2) by auto
  have "add_mset p (mset (to_build q) - {#p#}) = mset (to_build q)" using p(2) by simp
  then have "mset (remove1 p (to_build q)) + add_mset p (mset (started q)) = mset (to_build q) + mset (started q)"
    by simp
  moreover have "subseq (remove1 p (to_build q)) pkgs"
  proof (rule subseq_order.trans [OF subseq_remove1])
    show "subseq (to_build q) pkgs" using assms(2) got(1) by (simp add: conserved_def)
  qed
  ultimately show ?thesis using got assms(2) p u new by (auto simp: conserved_def)
next
  case (none_left i ts q q')
  obtain rest where u: "building ts = pc_packages (ts ! i) + rest" "\<forall>x. building (ts[i := x]) = pc_packages x + rest"
    using building_update [OF none_left(3)] by blast
  moreover have "q' = q" using none_left(5) by (cases dep q rule: try_get_cases) auto
  ultimately show ?thesis using none_left assms(2) by (auto simp: conserved_def)
next
  case (wait i ts q q')
  obtain rest where u: "building ts = pc_packages (ts ! i) + rest" "\<forall>x. building (ts[i := x]) = pc_packages x + rest"
    using building_update [OF wait(3)] by blast
  moreover have "q' = q" using wait(5) by (cases dep q rule: try_get_cases) auto
  ultimately show ?thesis using wait assms(2) by (auto simp: conserved_def)
next
  case (built i ts p q r)
  obtain rest where u: "building ts = pc_packages (ts ! i) + rest" "\<forall>x. building (ts[i := x]) = pc_packages x + rest"
    using building_update [OF built(3)] by blast
  then have st: "mset (started q) = add_mset p rest" using assms(2) built by (simp add: conserved_def)
  have "pc_packages (if r \<or> robust_build q then Loop else Stopping) = {#}" by simp
  then show ?thesis using built assms(2) st u by (simp add: conserved_def del: if_split)
next
  case (loop i ts q)
  then show ?thesis using assms(2) building_update [OF loop(3)] by (auto simp: conserved_def)
next
  case (wake i ts q)
  then show ?thesis using assms(2) building_update [OF wake(3)] by (auto simp: conserved_def)
next
  case (stop i ts q)
  then show ?thesis using assms(2) building_update [OF stop(3)] by (auto simp: conserved_def)
qed

lemma met_mono:
  assumes "dependencies_met dep q p" "set (built q) \<subseteq> set (built q')" "set (failed q) \<subseteq> set (failed q')"
    "robust_build q' = robust_build q"
  shows "dependencies_met dep q' p"
  using assms by (auto simp: dependencies_met_def list_all_iff)

lemma met_frame [simp]:
  "dependencies_met dep (wake q) p = dependencies_met dep q p" "dependencies_met dep (stop q) p = dependencies_met dep q p"
  by (simp_all add: dependencies_met_def)

lemma step_taken_ready:
  assumes "step dep b b'" "taken_ready dep (fst b)" "conserved pkgs robust b"
  shows "taken_ready dep (fst b')"
  using assms(1)
proof (cases rule: step.cases)
  case (got i ts q p q')
  then have "q' = take_package p q" "dependencies_met dep q p" by (cases dep q rule: try_get_cases; simp)+
  then show ?thesis using got assms(2) met_mono [of dep q _ q'] by (auto simp: taken_ready_def)
next
  case (none_left i ts q q')
  then have "q' = q" by (cases dep q rule: try_get_cases) auto
  then show ?thesis using none_left assms(2) by simp
next
  case (wait i ts q q')
  then have "q' = q" by (cases dep q rule: try_get_cases) auto
  then show ?thesis using wait assms(2) by simp
next
  case (built i ts p q r)
  obtain rest where u: "building ts = pc_packages (ts ! i) + rest" using building_update [OF built(3)] by blast
  then have "mset (started q) = add_mset p rest" using assms(3) built by (simp add: conserved_def)
  then have p: "p \<in> set (started q)" by (metis set_mset_mset union_single_eq_member)
  have "dependencies_met dep (return_built p r q) x" if "dependencies_met dep q x" for x
    using that by (rule met_mono) auto
  moreover have "set (remove1 p (started q)) \<subseteq> set (started q)" by (rule set_remove1_subset)
  ultimately show ?thesis using built assms(2) p by (auto simp: taken_ready_def)
qed (use assms(2) in \<open>auto simp: taken_ready_def\<close>)

lemma reachable_invariant:
  assumes "reachable dep pkgs robust n b" "distinct pkgs"
  shows "conserved pkgs robust b \<and> taken_ready dep (fst b) \<and> length (snd b) = n"
  using assms
proof induction
  case init
  then show ?case by (simp add: conserved_def BuildQueue_def taken_ready_def)
next
  case (step b b')
  then have "length (snd b') = length (snd b)" by (auto elim: step.cases)
  then show ?case using step step_conserved step_taken_ready by blast
qed

lemma conserved_length:
  assumes "conserved pkgs robust (q, ts)"
  shows "length (to_build q) + length (started q) + length (built q) + length (failed q) = length pkgs"
proof -
  have "mset (to_build q) + mset (started q) + mset (built q) + mset (failed q) = mset pkgs"
    using assms by (auto simp: conserved_def)
  then show ?thesis by (metis size_mset size_union)
qed

lemma completed_iff:
  assumes "conserved pkgs robust (q, ts)"
  shows "is_completed q \<longleftrightarrow> to_build q = [] \<and> started q = []"
proof -
  have "total_pkgs q = length pkgs" using assms by (auto simp: conserved_def)
  then have "is_completed q \<longleftrightarrow> length (to_build q) + length (started q) = 0"
    using conserved_length [OF assms] unfolding is_completed_def by linarith
  then show ?thesis by simp
qed

section \<open>Packages in dependency order\<close>

text \<open>Every dependency of a package stands before it in the list.\<close>

fun topo :: "(string \<Rightarrow> string list) \<Rightarrow> string set \<Rightarrow> string list \<Rightarrow> bool" where
  "topo dep seen [] \<longleftrightarrow> True"
| "topo dep seen (p # ps) \<longleftrightarrow> set (dep p) \<subseteq> seen \<and> topo dep (insert p seen) ps"

lemma topo_snoc: "topo dep seen (xs @ [p]) \<longleftrightarrow> topo dep seen xs \<and> set (dep p) \<subseteq> seen \<union> set xs"
  by (induction xs arbitrary: seen) auto

lemma subseq_set: "subseq ys xs \<Longrightarrow> set ys \<subseteq> set xs"
  by (induction rule: list_emb.induct) auto

lemma topo_head:
  "topo dep seen pkgs \<Longrightarrow> distinct pkgs \<Longrightarrow> subseq (p # ys) pkgs \<Longrightarrow> d \<in> set (dep p) \<Longrightarrow>
   d \<in> seen \<or> d \<in> set pkgs - set (p # ys)"
proof (induction pkgs arbitrary: seen)
  case (Cons x xs)
  show ?case
  proof (cases "p = x")
    case True
    then show ?thesis using Cons.prems by auto
  next
    case False
    then have sub: "subseq (p # ys) xs" using Cons.prems(3) by simp
    then have "x \<notin> set (p # ys)" using Cons.prems(2) subseq_set [OF sub] by auto
    then show ?thesis using Cons.IH [of "insert x seen"] Cons.prems sub by auto
  qed
qed simp

lemma scan_stuck:
  "scan_packages dep q ps = Hung \<Longrightarrow> ps \<noteq> [] \<and> started q = [] \<and> \<not> dependencies_met dep q (hd ps)"
  "scan_packages dep q ps = NothingReady \<Longrightarrow> ps \<noteq> [] \<Longrightarrow> \<not> dependencies_met dep q (hd ps)"
proof -
  have st: "scan_packages dep q xs = Hung \<Longrightarrow> started q = []" for xs
    by (induction xs) (auto split: if_splits)
  show "scan_packages dep q ps = Hung \<Longrightarrow> ps \<noteq> [] \<and> started q = [] \<and> \<not> dependencies_met dep q (hd ps)"
    using st [of ps] by (cases ps) (auto split: if_splits)
  show "scan_packages dep q ps = NothingReady \<Longrightarrow> ps \<noteq> [] \<Longrightarrow> \<not> dependencies_met dep q (hd ps)"
    by (cases ps) (auto split: if_splits)
qed

text \<open>Of packages in dependency order, the first one left is ready as soon as nothing is being
  built: a thread waits only for another one, and never gives up.\<close>

definition tolerant :: "queue \<Rightarrow> bool" where
  "tolerant q \<longleftrightarrow> robust_build q \<or> failed q = []"

lemma first_ready:
  assumes "conserved pkgs robust (q, ts)" "topo dep {} pkgs" "tolerant q" "started q = []" "to_build q \<noteq> []"
  shows "dependencies_met dep q (hd (to_build q))"
proof -
  obtain p ys where ps: "to_build q = p # ys" using assms(5) by (cases "to_build q") auto
  have sub: "subseq (p # ys) pkgs" "distinct pkgs" using assms(1) by (auto simp: conserved_def ps)
  have "d \<in> set (built q) \<union> set (failed q)" if "d \<in> set (dep p)" for d
    using topo_head [OF assms(2) sub(2,1) that] conserved_distinct(2) [OF assms(1)] assms(4) by (auto simp: ps)
  then show ?thesis using assms(3) by (auto simp: dependencies_met_def list_all_iff ps tolerant_def)
qed

lemma never_hung:
  assumes "conserved pkgs robust (q, ts)" "topo dep {} pkgs" "tolerant q"
  shows "scan_packages dep q (to_build q) \<noteq> Hung"
    and "try_get dep q = (Wait, q') \<Longrightarrow> started q \<noteq> []"
proof -
  show "scan_packages dep q (to_build q) \<noteq> Hung"
    using scan_stuck(1) [of dep q "to_build q"] first_ready [OF assms] by auto
  show "try_get dep q = (Wait, q') \<Longrightarrow> started q \<noteq> []"
    using scan_stuck(2) [of dep q "to_build q"] first_ready [OF assms]
    by (auto simp: try_get_def split: if_splits scan.splits)
qed

text \<open>Threads leave only when nothing is left to take.\<close>

definition leaving :: "build \<Rightarrow> bool" where
  "leaving b = (case b of (q, ts) \<Rightarrow> tolerant q \<longrightarrow>
     (q_done q \<longrightarrow> to_build q = [] \<and> started q = []) \<and>
     (Exited \<in> set ts \<longrightarrow> to_build q = []) \<and> Stopping \<notin> set ts)"

lemma tolerant_simps [simp]:
  "tolerant (wake q) = tolerant q" "tolerant (stop q) = tolerant q" "tolerant (take_package p q) = tolerant q"
  "tolerant (return_built p r q) \<longleftrightarrow> robust_build q \<or> r \<and> failed q = []"
  by (auto simp: tolerant_def)

lemma done_return_built: "q_done (return_built p r q) \<longleftrightarrow> q_done q \<or> is_completed (return_built p r q)"
  by (auto simp: return_built_def Let_def is_completed_def)

lemma leaving_update:
  assumes "leaving (q, ts)"
    and "tolerant q' \<Longrightarrow> tolerant q \<and> t \<noteq> Stopping"
    and "tolerant q' \<Longrightarrow> to_build q = [] \<Longrightarrow> to_build q' = []"
    and "tolerant q' \<Longrightarrow> q_done q' \<Longrightarrow> to_build q' = [] \<and> started q' = []"
    and "tolerant q' \<Longrightarrow> t = Exited \<Longrightarrow> to_build q' = []"
  shows "leaving (q', ts[i := t])"
proof -
  have upd: "set (ts[i := t]) \<subseteq> insert t (set ts)" by (rule set_update_subset_insert)
  show ?thesis using assms upd unfolding leaving_def by blast
qed

lemma done_leaves:
  assumes "conserved pkgs robust (q, ts)" "leaving (q, ts)" "tolerant q" "is_done q"
  shows "to_build q = [] \<and> started q = []"
  using assms completed_iff [OF assms(1)] by (auto simp: is_done_def leaving_def)

lemma step_leaving:
  assumes "step dep b b'" "conserved pkgs robust b" "topo dep {} pkgs" "leaving b"
  shows "leaving b'"
  using assms(1)
proof (cases rule: step.cases)
  case (loop i ts q)
  then have l: "leaving (q, ts)" and c: "conserved pkgs robust (q, ts)" using assms by auto
  show ?thesis unfolding loop(2) using done_leaves [OF c l] l
    by (intro leaving_update [OF l]) (auto simp: leaving_def split: if_splits)
next
  case (got i ts q p q')
  then have q: "q' = take_package p q" "\<not> is_done q" "p \<in> set (to_build q)"
    by (cases dep q rule: try_get_cases; simp)+
  have l: "leaving (q, ts)" using got assms by auto
  show ?thesis unfolding got(2) using q by (intro leaving_update [OF l]) (auto simp: is_done_def)
next
  case (none_left i ts q q')
  then have q: "q' = q" "is_done q \<or> to_build q = [] \<or> scan_packages dep q (to_build q) = Hung"
    by (cases dep q rule: try_get_cases; simp)+
  have l: "leaving (q, ts)" and c: "conserved pkgs robust (q, ts)" using none_left assms by auto
  have "tolerant q \<Longrightarrow> to_build q = []" using q(2) never_hung(1) [OF c assms(3)] done_leaves [OF c l] by auto
  then show ?thesis unfolding none_left(2) q(1) using l by (intro leaving_update [OF l]) (auto simp: leaving_def)
next
  case (wait i ts q q')
  then have q: "q' = q" by (cases dep q rule: try_get_cases) auto
  have l: "leaving (q, ts)" using wait assms by auto
  show ?thesis unfolding wait(2) q using l by (intro leaving_update [OF l]) (auto simp: leaving_def)
next
  case (wake i ts q)
  have d: "is_done (wake q) = is_done q" by (simp add: is_done_def is_completed_def)
  have l: "leaving (q, ts)" and c: "conserved pkgs robust (q, ts)" using wake assms by auto
  show ?thesis unfolding wake(2) using done_leaves [OF c l] l
    by (intro leaving_update [OF l]) (auto simp: leaving_def d split: if_splits)
next
  case (built i ts p q r)
  have l: "leaving (q, ts)" using built assms by auto
  have "conserved pkgs robust b'" using step_conserved assms(1,2) by blast
  then have c: "is_completed (return_built p r q) \<longleftrightarrow> to_build q = [] \<and> remove1 p (started q) = []"
    using completed_iff built(2) by force
  have t: "tolerant (return_built p r q) \<Longrightarrow> tolerant q \<and> (r \<or> robust_build q)"
    by (auto simp: tolerant_def split: if_splits)
  show ?thesis unfolding built(2) using c l
    by (intro leaving_update [OF l]) (auto simp: leaving_def done_return_built simp del: tolerant_simps(4) dest!: t)
next
  case (stop i ts q)
  have l: "leaving (q, ts)" and "Stopping \<in> set ts" using stop assms nth_mem [of i ts] by auto
  then have "\<not> tolerant q" by (auto simp: leaving_def)
  then show ?thesis unfolding stop(2) by (intro leaving_update [OF l]) auto
qed

lemma reachable_leaving:
  assumes "reachable dep pkgs robust n b" "distinct pkgs" "topo dep {} pkgs"
  shows "leaving b"
  using assms
proof induction
  case init
  show ?case by (auto simp: leaving_def BuildQueue_def)
next
  case (step b b')
  then show ?case using step_leaving reachable_invariant by blast
qed

text \<open>Without a robust build the packages are finished in dependency order.\<close>

lemma reachable_built_topo:
  assumes "reachable dep pkgs robust n b" "distinct pkgs" "\<not> robust"
  shows "topo dep {} (built (fst b))"
  using assms
proof induction
  case init
  show ?case by (simp add: BuildQueue_def)
next
  case (step b b')
  note inv = reachable_invariant [OF step.hyps(1) step.prems(1)]
  have IH: "topo dep {} (built (fst b))" using step by blast
  from step.hyps(2) show ?case
  proof (cases rule: step.cases)
    case (built i ts p q r)
    obtain rest where "building ts = pc_packages (ts ! i) + rest" using building_update [OF built(3)] by blast
    then have "mset (started q) = add_mset p rest" using inv built by (simp add: conserved_def)
    then have "p \<in> set (started q)" by (metis set_mset_mset union_single_eq_member)
    then have "dependencies_met dep q p" using inv built by (auto simp: taken_ready_def)
    moreover have "\<not> robust_build q" using inv built step.prems by (auto simp: conserved_def)
    ultimately show ?thesis using IH built by (auto simp: topo_snoc dependencies_met_def list_all_iff)
  next
    case (got i ts q p q')
    then have "q' = take_package p q" by (cases dep q rule: try_get_cases) auto
    then show ?thesis using IH got by simp
  next
    case (none_left i ts q q')
    then have "q' = q" by (cases dep q rule: try_get_cases) auto
    then show ?thesis using IH none_left by simp
  next
    case (wait i ts q q')
    then have "q' = q" by (cases dep q rule: try_get_cases) auto
    then show ?thesis using IH wait by simp
  qed (use IH in auto)
qed

section \<open>Progress\<close>

text \<open>The work that is left: every step makes it smaller, except a thread that begins to wait.\<close>

fun pc_work :: "pc \<Rightarrow> nat" where
  "pc_work Loop = 3" | "pc_work Getting = 2" | "pc_work Waiting = 3" | "pc_work (Building p) = 4"
| "pc_work Stopping = 1" | "pc_work Exited = 0"

definition work :: "build \<Rightarrow> nat" where
  "work b = 3 * length (to_build (fst b)) + sum_list (map pc_work (snd b))"

lemma sum_list_update_nat:
  "i < length ts \<Longrightarrow> sum_list (map f (ts[i := t])) + f (ts ! i) = sum_list (map f ts) + (f t :: nat)"
proof (induction ts arbitrary: i)
  case (Cons x xs)
  show ?case
  proof (cases i)
    case (Suc j)
    then show ?thesis using Cons.IH [of j] Cons.prems by simp
  qed simp
qed simp

lemma step_work:
  assumes "step dep b b'"
  shows "work b' < work b \<or> (\<exists>q'. try_get dep (fst b) = (Wait, q'))"
  using assms
proof (cases rule: step.cases)
  case (got i ts q p q')
  then have q: "q' = take_package p q" "p \<in> set (to_build q)" by (cases dep q rule: try_get_cases; simp)+
  then have "length (to_build q') < length (to_build q)"
    by (simp add: length_remove1) (metis One_nat_def diff_less length_pos_if_in_set zero_less_one)
  then show ?thesis using got sum_list_update_nat [OF got(3), of pc_work "Building p"] by (simp add: work_def)
next
  case (none_left i ts q q')
  then have "q' = q" by (cases dep q rule: try_get_cases) auto
  then show ?thesis using none_left sum_list_update_nat [OF none_left(3), of pc_work Exited] by (simp add: work_def)
next
  case (loop i ts q)
  then show ?thesis using sum_list_update_nat [OF loop(3), of pc_work "if is_done q then Exited else Getting"]
    by (auto simp: work_def split: if_splits)
next
  case (wake i ts q)
  then show ?thesis using sum_list_update_nat [OF wake(3), of pc_work "if is_done (wake q) then Exited else Getting"]
    by (auto simp: work_def split: if_splits)
next
  case (built i ts p q r)
  then show ?thesis using sum_list_update_nat [OF built(3), of pc_work "if r \<or> robust_build q then Loop else Stopping"]
    by (auto simp: work_def split: if_splits)
next
  case (stop i ts q)
  then show ?thesis using sum_list_update_nat [OF stop(3), of pc_work Exited] by (simp add: work_def)
qed auto

definition finished :: "build \<Rightarrow> nat" where
  "finished b = length (built (fst b)) + length (failed (fst b))"

lemma step_finished:
  assumes "step dep b b'"
  shows "finished b \<le> finished b'"
    and "snd b ! i = Building p \<Longrightarrow> snd b' ! i \<noteq> Building p \<Longrightarrow> finished b < finished b'"
proof -
  have q': "built q' = built q \<and> failed q' = failed q" if "try_get dep q = (a, q')" for q a q'
    using that by (cases dep q rule: try_get_cases) auto
  show "finished b \<le> finished b'"
    using assms by (cases rule: step.cases) (auto simp: finished_def dest: q')
  show "snd b ! i = Building p \<Longrightarrow> snd b' ! i \<noteq> Building p \<Longrightarrow> finished b < finished b'"
    using assms by (cases rule: step.cases) (auto simp: finished_def nth_list_update split: if_splits dest: q')
qed

lemma finished_bound: "conserved pkgs robust b \<Longrightarrow> finished b \<le> length pkgs"
  using conserved_length [of pkgs robust "fst b" "snd b"] by (simp add: finished_def)

text \<open>A monotone bounded counter is constant from some point on.\<close>

lemma bounded_mono_stable:
  fixes f :: "nat \<Rightarrow> nat"
  assumes "\<And>k. f k \<le> f (Suc k)" "\<And>k. f k \<le> N"
  shows "\<exists>K. \<forall>k \<ge> K. f k = f K"
proof -
  have "\<exists>K. \<forall>k. f k \<le> f K"
    using ex_has_greatest_nat [of "\<lambda>_. True" 0 f "Suc N"] assms(2) by (auto simp: le_imp_less_Suc)
  then obtain K where K: "\<And>k. f k \<le> f K" by blast
  have "f K \<le> f k" if "K \<le> k" for k using assms(1) that by (rule lift_Suc_mono_le)
  then show ?thesis using K by (metis le_antisym)
qed

lemma no_infinite_descent:
  fixes f :: "nat \<Rightarrow> nat"
  assumes "\<And>k. K \<le> k \<Longrightarrow> f (Suc k) < f k" shows False
proof -
  have "f (K + j) + j \<le> f K" for j
  proof (induction j)
    case (Suc j)
    then show ?case using assms [of "K + j"] by simp
  qed simp
  from this [of "Suc (f K)"] show False by simp
qed

text \<open>An infinite run in which every build returns.\<close>

definition endless :: "(string \<Rightarrow> string list) \<Rightarrow> string list \<Rightarrow> bool \<Rightarrow> nat \<Rightarrow> (nat \<Rightarrow> build) \<Rightarrow> bool" where
  "endless dep pkgs robust n run \<longleftrightarrow>
     run 0 = (BuildQueue pkgs robust, replicate n Loop) \<and> (\<forall>k. step dep (run k) (run (Suc k))) \<and>
     (\<forall>k i p. i < n \<longrightarrow> snd (run k) ! i = Building p \<longrightarrow> (\<exists>m \<ge> k. snd (run m) ! i \<noteq> Building p))"

lemma change_point:
  assumes "P (k :: nat)" "k \<le> m" "\<not> P m"
  shows "\<exists>j \<ge> k. P j \<and> \<not> P (Suc j)"
  using assms(2,3)
proof (induction rule: dec_induct)
  case base
  then show ?case using assms(1) by simp
next
  case (step m)
  then show ?case by blast
qed

lemma building_pos: "building ts \<noteq> {#} \<Longrightarrow> \<exists>i < length ts. \<exists>p. ts ! i = Building p"
proof (induction ts)
  case (Cons t ts)
  show ?case
  proof (cases t)
    case (Building p)
    then show ?thesis by (intro exI [of _ 0]) simp
  qed (use Cons in \<open>auto simp: nth_Cons split: nat.splits\<close>)
qed simp

lemma endless_stable:
  assumes "endless dep pkgs robust n run" "distinct pkgs"
  shows "\<exists>K. \<forall>k \<ge> K. started (fst (run k)) = []"
proof -
  have st: "step dep (run k) (run (Suc k))" for k using assms(1) by (simp add: endless_def)
  have reach: "reachable dep pkgs robust n (run k)" for k
  proof (induction k)
    case 0
    show ?case using assms(1) by (simp add: endless_def reachable.init)
  next
    case (Suc k)
    then show ?case using st reachable.step by blast
  qed
  note inv = reachable_invariant [OF reach assms(2)]
  have "\<exists>K. \<forall>k \<ge> K. finished (run k) = finished (run K)"
    using step_finished(1) [OF st] finished_bound inv by (intro bounded_mono_stable [of _ "length pkgs"]) blast+
  then obtain K where K: "\<And>k. k \<ge> K \<Longrightarrow> finished (run k) = finished (run K)" by blast
  have "started (fst (run k)) = []" if "k \<ge> K" for k
  proof (rule ccontr)
    assume "started (fst (run k)) \<noteq> []"
    then have "building (snd (run k)) \<noteq> {#}"
      using inv [of k] by (cases "run k") (auto simp: conserved_def)
    then obtain i p where i: "i < n" "snd (run k) ! i = Building p" using building_pos inv [of k] by metis
    then obtain m where m: "m \<ge> k" "snd (run m) ! i \<noteq> Building p" using assms(1) unfolding endless_def by blast
    obtain j where "j \<ge> k" "snd (run j) ! i = Building p" "snd (run (Suc j)) ! i \<noteq> Building p"
      using change_point [of "\<lambda>j. snd (run j) ! i = Building p" k m] i m by blast
    then have "finished (run j) < finished (run (Suc j))" using step_finished(2) [OF st] by blast
    then show False using K [of j] K [of "Suc j"] that \<open>j \<ge> k\<close> by simp
  qed
  then show ?thesis by blast
qed

text \<open>C4: In every state the build can reach, whatever the order in which the threads run and whatever
  the builds return, every package is in exactly one of the four lists, each started package is
  being built by one thread, and every package that was started had all its dependencies built
  before it (or failed, in a robust build); without \<open>robust_build\<close> the finished packages are in
  dependency order.\<close>

theorem build_order_safe:
  assumes "reachable dep pkgs robust n (q, ts)" "distinct pkgs"
  shows "distinct (to_build q @ started q @ built q @ failed q) \<and>
    set (to_build q) \<union> set (started q) \<union> set (built q) \<union> set (failed q) = set pkgs \<and>
    mset (started q) = building ts \<and>
    (\<forall>p \<in> set (started q) \<union> set (built q) \<union> set (failed q). \<forall>d \<in> set (dep p).
       d \<in> set (built q) \<or> (robust \<and> d \<in> set (failed q))) \<and>
    (\<not> robust \<longrightarrow> topo dep {} (built q))"
proof -
  note inv = reachable_invariant [OF assms]
  then have c: "conserved pkgs robust (q, ts)" by simp
  have "\<forall>p \<in> set (started q) \<union> set (built q) \<union> set (failed q). \<forall>d \<in> set (dep p).
       d \<in> set (built q) \<or> (robust \<and> d \<in> set (failed q))"
    using inv c by (auto simp: taken_ready_def dependencies_met_def list_all_iff conserved_def)
  moreover have "mset (started q) = building ts" using c by (simp add: conserved_def)
  ultimately show ?thesis
    using conserved_distinct [OF c] reachable_built_topo [OF assms] by simp
qed

lemma all_exited_complete:
  assumes "reachable dep pkgs robust n (q, ts)" "distinct pkgs" "topo dep {} pkgs"
    and "0 < n" "set ts \<subseteq> {Exited}" "robust \<or> failed q = []"
  shows "is_completed q \<and> set (built q) \<union> set (failed q) = set pkgs \<and> (failed q = [] \<longrightarrow> succeeded q)"
proof -
  note inv = reachable_invariant [OF assms(1,2)]
  then have c: "conserved pkgs robust (q, ts)" and n: "length ts = n" by auto
  have tol: "tolerant q" using assms(6) c by (auto simp: tolerant_def conserved_def)
  have "Exited \<in> set ts" using assms(4,5) n by (cases ts) auto
  then have tb: "to_build q = []" using reachable_leaving [OF assms(1-3)] tol by (auto simp: leaving_def)
  have "building ts = {#}"
  proof (rule ccontr)
    assume "building ts \<noteq> {#}"
    then obtain i p where "i < length ts" "ts ! i = Building p" using building_pos by blast
    then show False using assms(5) nth_mem [of i ts] by auto
  qed
  then have "started q = []" using c by (simp add: conserved_def)
  then show ?thesis using tb completed_iff [OF c] conserved_distinct(2) [OF c] conserved_length [OF c] c
    by (auto simp: succeeded_def conserved_def)
qed

text \<open>C5: When the threads have all ended, a build of a list in dependency order is complete: if it is
  robust or nothing failed, every package of the list has been built or has failed, and without
  failures \<open>succeeded\<close> holds.\<close>

theorem build_completes:
  assumes "reachable dep pkgs robust n (q, ts)" "distinct pkgs" "topo dep {} pkgs"
    and "0 < n" "set ts \<subseteq> {Exited}" "robust \<or> failed q = []"
  shows "is_completed q \<and> set (built q) \<union> set (failed q) = set pkgs \<and> (failed q = [] \<longrightarrow> succeeded q)"
  using all_exited_complete [OF assms] .

text \<open>C6: A build of a list in dependency order ends: there is no infinite run of the threads in which
  every build returns and, unless the build is robust, none fails.\<close>

theorem build_ends:
  assumes "distinct pkgs" "topo dep {} pkgs"
  shows "\<not> (\<exists>run. endless dep pkgs robust n run \<and> (robust \<or> (\<forall>k. failed (fst (run k)) = [])))"
proof
  assume "\<exists>run. endless dep pkgs robust n run \<and> (robust \<or> (\<forall>k. failed (fst (run k)) = []))"
  then obtain run where run: "endless dep pkgs robust n run" "robust \<or> (\<forall>k. failed (fst (run k)) = [])" by blast
  have st: "step dep (run k) (run (Suc k))" for k using run(1) by (simp add: endless_def)
  have "conserved pkgs robust (run k)" for k
  proof (induction k)
    case 0
    show ?case using run(1) assms(1) by (simp add: endless_def conserved_def BuildQueue_def)
  next
    case (Suc k)
    then show ?case using st step_conserved by blast
  qed
  then have c: "conserved pkgs robust (fst (run k), snd (run k))" for k by simp
  have tol: "tolerant (fst (run k))" for k using run(2) c [of k] by (auto simp: tolerant_def conserved_def)
  obtain K where "\<And>k. K \<le> k \<Longrightarrow> started (fst (run k)) = []" using endless_stable [OF run(1) assms(1)] by blast
  then have "work (run (Suc k)) < work (run k)" if "K \<le> k" for k
    using step_work [OF st] never_hung(2) [OF c assms(2) tol] that by blast
  then show False by (rule no_infinite_descent)
qed

section \<open>Instances\<close>

definition chain_dep :: "string \<Rightarrow> string list" where
  "chain_dep p = (if p = ''b'' then [''a''] else if p = ''c'' then [''b''] else [])"

definition chain_schedule :: "(nat \<times> bool) list" where
  "chain_schedule = [(0, True), (1, True), (0, True), (1, True), (0, True), (1, True), (1, True), (1, True),
     (0, True), (0, True), (1, True), (1, True), (0, True), (0, True), (0, True), (1, True), (0, True)]"

definition chain_end :: build where
  "chain_end = run_schedule chain_dep chain_schedule (BuildQueue [''a'', ''b'', ''c''] False, replicate 2 Loop)"

lemma chain_reachable: "reachable chain_dep [''a'', ''b'', ''c''] False 2 (fst chain_end, snd chain_end)"
  unfolding prod.collapse chain_end_def by (rule reachable_schedule [OF reachable.init])

lemma chain_end_eval:
  "built (fst chain_end) = [''a'', ''b'', ''c'']" "failed (fst chain_end) = []" "set (snd chain_end) \<subseteq> {Exited}"
  by code_simp+

lemma chain_sorted: "distinct [''a'', ''b'', ''c'']" "topo chain_dep {} [''a'', ''b'', ''c'']"
  by (simp_all add: chain_dep_def)

theorem build_order_safe_witness:
  "topo chain_dep {} (built (fst chain_end)) \<and> length (built (fst chain_end)) = 3"
  using build_order_safe [OF chain_reachable chain_sorted(1)] by (simp add: chain_end_eval)

theorem build_completes_witness: "is_completed (fst chain_end) \<and> succeeded (fst chain_end)"
  using build_completes [OF chain_reachable chain_sorted _ chain_end_eval(3)] chain_end_eval(2) by simp

theorem build_ends_witness:
  "\<not> (\<exists>run. endless chain_dep [''a'', ''b'', ''c''] True 4 run)"
  using build_ends [OF chain_sorted, of True 4] by simp

section \<open>A list that is not in order\<close>

text \<open>Nothing is being built, the counter has passed its limit, and the first package of the list is not ready.\<close>

definition stuck :: "(string \<Rightarrow> string list) \<Rightarrow> build \<Rightarrow> bool" where
  "stuck dep b \<longleftrightarrow> (case b of (q, ts) \<Rightarrow> 2 < hack_end_counter q \<and> started q = [] \<and> to_build q \<noteq> [] \<and>
     \<not> dependencies_met dep q (hd (to_build q)) \<and> set ts \<subseteq> {Loop, Getting, Waiting, Exited})"

definition same_lists :: "queue \<Rightarrow> queue \<Rightarrow> bool" where
  "same_lists q q' \<longleftrightarrow> to_build q' = to_build q \<and> started q' = started q \<and> built q' = built q \<and> failed q' = failed q"

fun moves_left :: "pc \<Rightarrow> nat" where
  "moves_left Exited = 0"
| "moves_left Getting = 1"
| "moves_left pc = 2"

lemma stuck_try_get: "stuck dep (q, ts) \<Longrightarrow> try_get dep q = (Nothing, q)"
  by (cases "to_build q") (auto simp: stuck_def try_get_def)

lemma stuck_wake: "stuck dep (q, ts) \<Longrightarrow> stuck dep (wake q, ts)"
  by (simp add: stuck_def wake_def dependencies_met_def)

lemma stuck_update: "stuck dep (q, ts) \<Longrightarrow> x \<in> {Getting, Exited} \<Longrightarrow> stuck dep (q, ts[i := x])"
  using set_update_subset_insert [of ts i x] by (auto simp: stuck_def)

lemma moves_left_update:
  "i < length ts \<Longrightarrow> moves_left x < moves_left (ts ! i) \<Longrightarrow> sum_list (map moves_left (ts[i := x])) < sum_list (map moves_left ts)"
proof (induction ts arbitrary: i)
  case (Cons t ts)
  then show ?case by (cases i) auto
qed simp

lemma stuck_step:
  assumes "stuck dep (q, ts)" "step dep (q, ts) (q', ts')"
  shows "stuck dep (q', ts') \<and> same_lists q q' \<and> sum_list (map moves_left ts') < sum_list (map moves_left ts)"
proof -
  have ts: "ts ! i \<in> {Loop, Getting, Waiting, Exited}" if "i < length ts" for i
    using assms(1) nth_mem [OF that] by (auto simp: stuck_def simp del: nth_mem)
  from assms(2) show ?thesis
  proof cases
    case (loop i)
    then show ?thesis using assms(1) stuck_update [OF assms(1)] by (auto simp: same_lists_def intro: moves_left_update)
  next
    case (wake i)
    then show ?thesis using stuck_update [OF stuck_wake [OF assms(1)]]
      by (auto simp: same_lists_def Build_Queue.wake_def intro: moves_left_update)
  next
    case (none_left i)
    then show ?thesis using stuck_try_get [OF assms(1)] stuck_update [OF assms(1)]
      by (auto simp: same_lists_def intro: moves_left_update)
  qed (use ts stuck_try_get [OF assms(1)] in fastforce)+
qed

lemma stuck_run:
  "(step dep ^^ k) (q, ts) (q', ts') \<Longrightarrow> stuck dep (q, ts) \<Longrightarrow>
     stuck dep (q', ts') \<and> same_lists q q' \<and> k + sum_list (map moves_left ts') \<le> sum_list (map moves_left ts)"
proof (induction k arbitrary: q' ts')
  case 0
  then show ?case by (simp add: same_lists_def)
next
  case (Suc k)
  obtain q1 ts1 where run: "(step dep ^^ k) (q, ts) (q1, ts1)" and last: "step dep (q1, ts1) (q', ts')"
    using Suc.prems(1) by auto
  then show ?case using Suc.IH [OF run Suc.prems(2)] stuck_step [OF _ last] by (auto simp: same_lists_def)
qed

lemma stuck_ends:
  assumes "stuck dep (q, ts)" "\<not> set ts \<subseteq> {Exited}" shows "\<exists>b. step dep (q, ts) b"
proof -
  obtain i where i: "i < length ts" "ts ! i \<noteq> Exited" using assms(2) by (metis in_set_conv_nth insertI1 subsetI)
  then consider "ts ! i = Loop" | "ts ! i = Getting" | "ts ! i = Waiting"
    using assms(1) nth_mem [OF i(1)] by (auto simp: stuck_def simp del: nth_mem)
  then show ?thesis
  proof cases
    case 1 then show ?thesis using step.loop [OF i(1)] by blast
  next
    case 2 then show ?thesis using step.none_left [OF i(1) _ stuck_try_get [OF assms(1)]] by blast
  next
    case 3 then show ?thesis using step.wake [OF i(1)] by blast
  qed
qed

lemma moves_left_bound: "sum_list (map moves_left ts) \<le> 2 * length ts"
proof (induction ts)
  case (Cons t ts)
  then show ?case by (cases t) auto
qed simp

text \<open>C29: A list that is not in dependency order can be abandoned. When nothing is being built, the first package
  of the list is not ready and the counter of the waits is above two, the build is over, whatever other
  packages of the list are ready: on every schedule no thread takes a package and no list changes any more, and
  after at most two steps of each thread all threads have ended.\<close>

theorem unsorted_build_abandoned:
  assumes "2 < hack_end_counter q" "started q = []" "to_build q = p # ps" "\<not> dependencies_met dep q p"
    and "set ts \<subseteq> {Loop, Getting, Waiting, Exited}" and "(step dep ^^ k) (q, ts) (q', ts')"
  shows "to_build q' = p # ps \<and> started q' = [] \<and> built q' = built q \<and> failed q' = failed q \<and> k \<le> 2 * length ts \<and>
    ((\<nexists>b. step dep (q', ts') b) \<longrightarrow> set ts' \<subseteq> {Exited})"
proof -
  have "stuck dep (q, ts)" using assms(1-5) by (simp add: stuck_def)
  from stuck_run [OF assms(6) this] have r: "stuck dep (q', ts')" "same_lists q q'" "k \<le> 2 * length ts"
    using moves_left_bound [of ts] by auto
  then show ?thesis using assms(2,3) stuck_ends [OF r(1)] by (auto simp: same_lists_def)
qed

text \<open>Such a state is reached: of the packages \<open>x\<close>, \<open>a\<close>, \<open>b\<close>, where \<open>a\<close> needs \<open>b\<close> and \<open>b\<close> needs \<open>x\<close>,
  both threads leave while \<open>b\<close> is ready, because one of them timed out three times during the build of \<open>x\<close>.\<close>

definition unsorted_dep :: "string \<Rightarrow> string list" where
  "unsorted_dep p = (if p = ''a'' then [''b''] else if p = ''b'' then [''x''] else [])"

definition timeouts :: "(nat \<times> bool) list" where
  "timeouts = [(0, True), (0, True), (1, True), (1, True), (1, True), (1, True), (1, True), (1, True), (1, True), (1, True),
     (0, True)]"

theorem unsorted_build_abandoned_witness:
  "\<exists>q ts. reachable unsorted_dep [''x'', ''a'', ''b''] False 2 (q, ts) \<and> dependencies_met unsorted_dep q ''b'' \<and> failed q = [] \<and>
     (\<forall>k q' ts'. (step unsorted_dep ^^ k) (q, ts) (q', ts') \<longrightarrow> to_build q' = [''a'', ''b''] \<and> k \<le> 4)"
proof -
  let ?b = "run_schedule unsorted_dep timeouts (BuildQueue [''x'', ''a'', ''b''] False, replicate 2 Loop)"
  have r: "reachable unsorted_dep [''x'', ''a'', ''b''] False 2 (fst ?b, snd ?b)"
    unfolding prod.collapse by (rule reachable_schedule [OF reachable.init])
  have b: "2 < hack_end_counter (fst ?b)" "started (fst ?b) = []" "to_build (fst ?b) = [''a'', ''b'']"
    "\<not> dependencies_met unsorted_dep (fst ?b) ''a''" "dependencies_met unsorted_dep (fst ?b) ''b''" "failed (fst ?b) = []"
    "set (snd ?b) \<subseteq> {Loop, Getting, Waiting, Exited}" "length (snd ?b) = 2"
    by code_simp+
  have "to_build q' = [''a'', ''b''] \<and> k \<le> 4" if "(step unsorted_dep ^^ k) (fst ?b, snd ?b) (q', ts')" for k q' ts'
    using unsorted_build_abandoned [OF b(1-4,7) that] b(8) by simp
  then show ?thesis using r b(5,6) by blast
qed

end
