(* ===== verification/Rosmake.thy ===== *)
theory Rosmake
  imports Package_Flags Build_Queue "HOL-Library.AList"
begin

text \<open>
  The engine of rosmake (\<open>rosmake/engine.py\<close>, class \<open>RosMakeAll\<close>) with the classification of
  compiler warnings (\<open>gcc_output_parse.py\<close>): the list of packages to build in the order of their
  dependencies, the build of one package with its result, and the outcome of a parallel build.
  \<open>rospkg\<close>, the run of \<open>make\<close> and the writing of the log of a build are arguments, with the exceptions
  they raise. The text of logs, times and the terminal are not modelled;
  a time is the string it is printed as.
\<close>

section \<open>Warnings\<close>

definition warning_lines :: "string \<Rightarrow> string list" where
  "warning_lines out = filter (\<lambda>x. contains '' warning:'' x \<and> \<not> startswith x '' warning:'') (splitlines out)"

text \<open>\<open>re.search\<close> of a pattern of literals joined by \<open>.*?\<close> in a line: the literals one after the other.\<close>

fun search_literals :: "string list \<Rightarrow> string \<Rightarrow> bool" where
  "search_literals [] s \<longleftrightarrow> True"
| "search_literals (p # ps) [] \<longleftrightarrow> p = [] \<and> search_literals ps []"
| "search_literals (p # ps) (c # cs) \<longleftrightarrow>
     (startswith (c # cs) p \<and> search_literals ps (drop (length p) (c # cs))) \<or> search_literals (p # ps) cs"

definition warning_pattern_map :: "(string \<times> string list) list" where
  "warning_pattern_map = [(''antiquated'', ['' antiquated'']), (''deprecated'', ['' deprecated'']),
     (''unused_func'', ['' defined but not used'']), (''isoc'', ['' ISO C'']),
     (''missing_init'', ['' missing initializer'']), (''out_of_bounds'', ['' subscript '', '' bounds'']),
     (''unused_var'', ['' unused variable''])]"

definition byType :: "string \<Rightarrow> string list \<Rightarrow> string list res" where
  "byType warntype lines = rbind (of_option (KeyError warntype) (map_of warning_pattern_map warntype))
     (\<lambda>p. Inr (filter (search_literals p) lines))"

definition analyze :: "string list \<Rightarrow> (string \<times> string list) list" where
  "analyze lines = map (\<lambda>(t, p). (t, filter (search_literals p) lines)) warning_pattern_map"

section \<open>What is printed\<close>

text \<open>The width of the terminal is an argument.\<close>

definition set_status :: "nat \<Rightarrow> string \<Rightarrow> string \<Rightarrow> string" where
  "set_status w left right =
     (let header = ''[ rosmake ] '' in
      if int (length left) + int (length right) < int w - int (length header)
      then header @ left @ replicate (w - length header - length left - length right) CHR '' '' @ right
      else header @ slice_to left (int w - int (length header) - int (length right) - 4) @ ''... '' @ right)"

definition pad_str_to_width :: "string \<Rightarrow> nat \<Rightarrow> string" where
  "pad_str_to_width s width = s @ replicate (width - length s) CHR '' ''"

definition print_all :: "nat \<Rightarrow> string \<Rightarrow> string option \<Rightarrow> string" where
  "print_all w s thread_name = pad_str_to_width (case thread_name of
     None \<Rightarrow> ''[ rosmake ] '' @ s | Some t \<Rightarrow> ''[rosmake-'' @ t @ ''] '' @ s) w"

text \<open>The printed lines: a title, a rule, the lines \<open>lines[l]\<close> for \<open>l\<close> from \<open>- num_lines\<close> up to but not
  including \<open>- 1\<close>, and a rule.\<close>

definition print_tail :: "bool \<Rightarrow> string \<Rightarrow> nat \<Rightarrow> string list" where
  "print_tail full_verbose s tail_lines =
     (let lines = splitlines s;
          tail = (if full_verbose then length lines else tail_lines);
          num_lines = min (length lines) tail
      in [''[ rosmake ] '' @ (if num_lines = tail then ''Last '' else ''All '') @ str_of_nat num_lines @ '' lines'',
          ''{'' @ replicate 79 CHR ''-''] @
         map (\<lambda>l. ''  '' @ l) (butlast (drop (length lines - num_lines) lines)) @ [replicate 79 CHR ''-'' @ ''}''])"

text \<open>A status line fills the terminal exactly if the right part fits beside the header.\<close>

lemma set_status_width:
  assumes "length ''[ rosmake ] '' + length right + 4 \<le> w"
  shows "length (set_status w left right) = w"
  using assms by (auto simp: set_status_def slice_to_def slice_idx_def Let_def)

text \<open>The last line of the output is never printed.\<close>

lemma print_tail_drops_last:
  "print_tail False (''error: x'' @ [CHR 0x0A] @ ''make failed'') 40 =
   [''[ rosmake ] All 2 lines'', ''{'' @ replicate 79 CHR ''-'', ''  error: x'', replicate 79 CHR ''-'' @ ''}'']"
  by code_simp

section \<open>The state of the engine\<close>

text \<open>The flag tracker holds the dependency tracker that the engine was made with; \<open>own_tracker\<close> is the
  one that replaces it when only the specified packages are built. The results are kept per make
  target.\<close>

record engine =
  flag_tracker :: flags
  own_tracker :: "tracker option"
  build_list :: "string list"
  result :: "string option \<rightharpoonup> (string \<times> bool) list"

definition RosMakeAll :: "string list \<Rightarrow> string set \<Rightarrow> engine" where
  "RosMakeAll packages fs = \<lparr>flag_tracker = PackageFlagTracker (DependencyTracker packages) fs,
     own_tracker = None, build_list = [], result = Map.empty\<rparr>"

definition queue_tracker :: "engine \<Rightarrow> tracker" where
  "queue_tracker e = (case own_tracker e of Some t \<Rightarrow> t | None \<Rightarrow> dependency_tracker (flag_tracker e))"

definition with_flags :: "(flags, 'a) act \<Rightarrow> (engine, 'a) act" where
  "with_flags m e = (case m (flag_tracker e) of (r, f) \<Rightarrow> (r, e\<lparr>flag_tracker := f\<rparr>))"

section \<open>The list of packages\<close>

definition ask_deps_1 :: "rospkg \<Rightarrow> string \<Rightarrow> (flags, string list) act" where
  "ask_deps_1 w package f = (if deps_1 (dependency_tracker f) package = None \<and> invalid w DependsDirect package
     then (Inl (InvalidManifest package),
           f\<lparr>dependency_tracker := (dependency_tracker f)\<lparr>deps_1 := (deps_1 (dependency_tracker f))(package \<mapsto> [])\<rparr>\<rparr>)
     else case get_deps_1 (depends_direct w) package (dependency_tracker f) of
     (ds, t) \<Rightarrow> (Inr ds, f\<lparr>dependency_tracker := t\<rparr>))"

text \<open>The first argument bounds the nested calls, as the interpreter does.\<close>

fun build_or_recurse :: "nat \<Rightarrow> rospkg \<Rightarrow> bool \<Rightarrow> string \<Rightarrow> (engine, unit) act" where
  "build_or_recurse 0 w robust p = sraise RecursionError"
| "build_or_recurse (Suc n) w robust p = sbind (sgets build_list) (\<lambda>l.
     if p \<in> set l then sret ()
     else sbind (with_flags (ask_deps_1 w p)) (\<lambda>ds.
          sbind (sfoldl (\<lambda>_ d. build_or_recurse n w robust d) () ds) (\<lambda>_.
          case get_path w p of
            Some _ \<Rightarrow> smodify (\<lambda>e. e\<lparr>build_list := build_list e @ [p]\<rparr>)
          | None \<Rightarrow> if robust then sret () else sraise (SystemExit (- 1)))))"

text \<open>The part of \<open>main\<close> that makes the list: all required packages, then only the specified ones if
  the option asks for it, with a tracker that knows only them. The calls of \<open>can_build\<close> before it, whose answers are
  not used, are left out.\<close>

definition make_build_list :: "nat \<Rightarrow> rospkg \<Rightarrow> bool \<Rightarrow> string list \<Rightarrow> string list \<Rightarrow> bool \<Rightarrow> (engine, unit) act" where
  "make_build_list n w robust required specified specified_only =
     sbind (sfoldl (\<lambda>_ p. build_or_recurse n w robust p) () required) (\<lambda>_.
       if specified_only then
         smodify (\<lambda>e. let l = filter (\<lambda>p. p \<in> set specified) (build_list e)
           in e\<lparr>build_list := l, own_tracker := (if l = [] then own_tracker e else Some (DependencyTracker specified))\<rparr>)
       else sret ())"

section \<open>Building a package\<close>

definition argument_str :: "string option \<Rightarrow> string" where
  "argument_str argument = (case argument of None \<Rightarrow> ''None'' | Some a \<Rightarrow> a)"

definition results_of :: "string option \<Rightarrow> (engine, (string \<times> bool) list) act" where
  "results_of argument = sbind (sgets (\<lambda>e. result e argument))
     (\<lambda>r. slift (of_option (KeyError (argument_str argument)) r))"

definition failed_results :: "string option \<Rightarrow> (engine, string list) act" where
  "failed_results argument = (if argument = Some ''test'' then sret []
     else sbind (results_of argument) (\<lambda>r. sret (map fst (filter (\<lambda>x. \<not> snd x) r))))"

definition set_result :: "string option \<Rightarrow> string \<Rightarrow> bool \<Rightarrow> (engine, unit) act" where
  "set_result argument p v = sbind (results_of argument)
     (\<lambda>r. smodify (\<lambda>e. e\<lparr>result := (result e)(argument \<mapsto> AList.update p v r)\<rparr>))"

definition pass_string :: "string \<Rightarrow> string \<Rightarrow> string" where
  "pass_string secs out = (let ws = warning_lines out in
     if ws = [] then ''[PASS] [ '' @ secs @ '' seconds ]''
     else ''[PASS] [ '' @ secs @ '' seconds ] [ '' @ str_of_nat (length ws) @ '' warnings '' @
       concat (map (\<lambda>(t, ls). if ls = [] then [] else ''[ '' @ str_of_nat (length ls) @ '' '' @ t @ '' ] '') (analyze ws)) @ '' ]'')"

text \<open>What a run of \<open>make\<close> gives: its return code, its output and the time it took as printed, or what
  starting the process or decoding its output raises. The output is then written to a log file.\<close>

type_synonym make_run = "string \<Rightarrow> string option \<Rightarrow> (int \<times> string \<times> string) res"

type_synonym log_write = "string \<Rightarrow> string option \<Rightarrow> string \<Rightarrow> unit res"

text \<open>The result is recorded before the log is written.\<close>

definition log_and_return :: "log_write \<Rightarrow> string \<Rightarrow> string option \<Rightarrow> string \<Rightarrow> bool \<times> string \<Rightarrow> (engine, bool \<times> string) act" where
  "log_and_return log p argument out v =
     sbind (set_result argument p (fst v)) (\<lambda>_. sbind (slift (log p argument out)) (\<lambda>_. sret v))"

definition build_body :: "rospkg \<Rightarrow> make_run \<Rightarrow> log_write \<Rightarrow> bool \<Rightarrow> bool \<Rightarrow> string \<Rightarrow> string option \<Rightarrow> (engine, bool \<times> string) act" where
  "build_body w run_make log skip_blacklist robust p argument =
     sbind (failed_results argument) (\<lambda>failed_packages.
     sbind (with_flags (can_build w p skip_blacklist failed_packages True)) (\<lambda>(buildable, error, why).
       if buildable \<or> robust then
         sbind (slift (of_option (ResourceNotFound p) (get_path w p))) (\<lambda>_.
         sbind (slift (run_make p argument)) (\<lambda>(returncode, out, secs).
           if returncode = 0 then log_and_return log p argument out (True, pass_string secs out)
           else let no_target = contains ''No rule to make target'' out;
                    interrupt = contains ''Interrupt'' out
                in log_and_return log p argument out (no_target,
                    if no_target then ''[SKIP] No rule to make target '' @ argument_str argument
                    else if interrupt then ''[Interrupted]''
                    else ''[FAIL] [ '' @ secs @ '' seconds ]'')))
       else sbind (set_result argument p error) (\<lambda>_. sret (error, why))))"

definition build :: "rospkg \<Rightarrow> make_run \<Rightarrow> log_write \<Rightarrow> bool \<Rightarrow> bool \<Rightarrow> string \<Rightarrow> string option \<Rightarrow> (engine, bool \<times> string) act" where
  "build w run_make log skip_blacklist robust p argument e = (case build_body w run_make log skip_blacklist robust p argument e of
     (Inl (ResourceNotFound r), e') \<Rightarrow> sbind (set_result argument p False) (\<lambda>_. sret (False, [])) e'
   | r \<Rightarrow> r)"

text \<open>The outcome of \<open>parallel_build_pkgs\<close> from the queue and the results after all threads joined.\<close>

definition build_passed :: "queue \<Rightarrow> (string \<times> bool) list \<Rightarrow> bool" where
  "build_passed q results \<longleftrightarrow> succeeded q \<and> list_all snd results"

section \<open>The list is in dependency order\<close>

definition direct_deps :: "rospkg \<Rightarrow> engine \<Rightarrow> string \<Rightarrow> string list" where
  "direct_deps w e p = potential (depends_direct w) (valid_packages (dependency_tracker (flag_tracker e))) p"

definition list_inv :: "rospkg \<Rightarrow> engine \<Rightarrow> bool" where
  "list_inv w e \<longleftrightarrow> direct.faithful (depends_direct w) (dependency_tracker (flag_tracker e)) \<and>
     distinct (build_list e) \<and> topo (direct_deps w e) {} (build_list e)"

text \<open>How a call changes the engine: the list only grows, by packages of bounded rank.\<close>

definition extends :: "(string \<Rightarrow> nat) \<Rightarrow> nat \<Rightarrow> engine \<Rightarrow> engine \<Rightarrow> bool" where
  "extends rank m e e' \<longleftrightarrow> (\<exists>new. build_list e' = build_list e @ new \<and> (\<forall>x \<in> set new. rank x < m)) \<and>
     valid_packages (dependency_tracker (flag_tracker e')) = valid_packages (dependency_tracker (flag_tracker e)) \<and>
     own_tracker e' = own_tracker e"

lemma extends_refl [simp]: "extends rank m e e"
  by (simp add: extends_def)

lemma extends_trans: "extends rank m e e' \<Longrightarrow> extends rank m e' e'' \<Longrightarrow> extends rank m e e''"
  by (auto simp: extends_def)

lemma extends_mono: "extends rank m e e' \<Longrightarrow> m \<le> m' \<Longrightarrow> extends rank m' e e'"
  by (fastforce simp: extends_def)

lemma extends_subset: "extends rank m e e' \<Longrightarrow> set (build_list e) \<subseteq> set (build_list e')"
  by (auto simp: extends_def)

lemma extends_deps: "extends rank m e e' \<Longrightarrow> direct_deps w e' = direct_deps w e"
  by (simp add: extends_def direct_deps_def fun_eq_iff)

lemma ask_deps_1_inv:
  assumes "list_inv w e" "\<not> invalid w DependsDirect p"
  shows "\<exists>e'. with_flags (ask_deps_1 w p) e = (Inr (direct_deps w e p), e') \<and> list_inv w e' \<and>
    extends rank 0 e e' \<and> build_list e' = build_list e"
proof -
  obtain ds t where r: "get_deps_1 (depends_direct w) p (dependency_tracker (flag_tracker e)) = (ds, t)" by fastforce
  have "direct.faithful (depends_direct w) (dependency_tracker (flag_tracker e))" using assms by (simp add: list_inv_def)
  note a = direct.ask_faithful [OF this r]
  let ?e = "e\<lparr>flag_tracker := flag_tracker e\<lparr>dependency_tracker := t\<rparr>\<rparr>"
  have "direct_deps w ?e = direct_deps w e" using a by (simp add: direct_deps_def fun_eq_iff)
  then show ?thesis using assms a
    by (auto simp: with_flags_def ask_deps_1_def r list_inv_def extends_def direct_deps_def [of w e p])
qed

lemma recurse_list:
  assumes call: "\<And>d e. d \<in> set ds \<Longrightarrow> list_inv w e \<Longrightarrow> valid_packages (dependency_tracker (flag_tracker e)) = valid \<Longrightarrow>
      \<exists>e'. f d e = (Inr (), e') \<and> list_inv w e' \<and> extends rank m e e' \<and> d \<in> set (build_list e')"
    and "list_inv w e" "valid_packages (dependency_tracker (flag_tracker e)) = valid"
  shows "\<exists>e'. sfoldl (\<lambda>_ d. f d) () ds e = (Inr (), e') \<and> list_inv w e' \<and> extends rank m e e' \<and>
      set ds \<subseteq> set (build_list e')"
  using assms
proof (induction ds arbitrary: e)
  case (Cons d ds)
  obtain e1 where e1: "f d e = (Inr (), e1)" "list_inv w e1" "extends rank m e e1" "d \<in> set (build_list e1)"
    using Cons.prems by force
  then have "valid_packages (dependency_tracker (flag_tracker e1)) = valid"
    using Cons.prems(3) by (simp add: extends_def)
  then obtain e2 where e2: "sfoldl (\<lambda>_ d. f d) () ds e1 = (Inr (), e2)" "list_inv w e2" "extends rank m e1 e2"
    "set ds \<subseteq> set (build_list e2)"
    using Cons.IH [of e1] Cons.prems(1) e1(2) by auto
  then show ?case using e1 extends_trans [OF e1(3) e2(3)] extends_subset [OF e2(3)]
    by (auto simp: sbind_eval(2))
qed simp

text \<open>The dependencies have a rank, every package of the tracker has a path, and enough nested calls
  are allowed: then the call returns and the package is in the list, after its dependencies.\<close>

lemma build_or_recurse_returns:
  assumes rank: "\<And>p d. d \<in> set (potential (depends_direct w) valid p) \<Longrightarrow> rank d < rank p"
    and paths: "\<And>p. p \<in> set valid \<Longrightarrow> get_path w p \<noteq> None \<and> \<not> invalid w DependsDirect p"
    and "list_inv w e" "valid_packages (dependency_tracker (flag_tracker e)) = valid"
      "get_path w p \<noteq> None \<and> \<not> invalid w DependsDirect p" "rank p < n"
  shows "\<exists>e'. build_or_recurse n w robust p e = (Inr (), e') \<and> list_inv w e' \<and> extends rank (Suc (rank p)) e e' \<and>
      p \<in> set (build_list e')"
  using assms(3-6)
proof (induction n arbitrary: p e)
  case (Suc n)
  show ?case
  proof (cases "p \<in> set (build_list e)")
    case True
    then show ?thesis using Suc.prems(1) by simp
  next
    case False
    let ?ds = "direct_deps w e p"
    have ds: "?ds = potential (depends_direct w) valid p" using Suc.prems(2) by (simp add: direct_deps_def)
    obtain e1 where e1: "with_flags (ask_deps_1 w p) e = (Inr ?ds, e1)" "list_inv w e1" "extends rank 0 e e1"
      "build_list e1 = build_list e"
      using ask_deps_1_inv [OF Suc.prems(1) conjunct2 [OF Suc.prems(3)]] by blast
    then have v1: "valid_packages (dependency_tracker (flag_tracker e1)) = valid"
      using Suc.prems(2) by (simp add: extends_def)
    have "\<exists>e2. sfoldl (\<lambda>_ d. build_or_recurse n w robust d) () ?ds e1 = (Inr (), e2) \<and> list_inv w e2 \<and>
        extends rank (rank p) e1 e2 \<and> set ?ds \<subseteq> set (build_list e2)"
    proof (rule recurse_list [OF _ e1(2) v1])
      fix d e
      assume d: "d \<in> set ?ds" "list_inv w e" "valid_packages (dependency_tracker (flag_tracker e)) = valid"
      then have "rank d < rank p" and ok: "get_path w d \<noteq> None \<and> \<not> invalid w DependsDirect d" using rank paths by (auto simp: ds potential_def)
      then have "rank d < n" using Suc.prems(4) by linarith
      with ok obtain e' where "build_or_recurse n w robust d e = (Inr (), e')" "list_inv w e'"
        "extends rank (Suc (rank d)) e e'" "d \<in> set (build_list e')"
        using Suc.IH [OF d(2,3)] by blast
      with \<open>rank d < rank p\<close> show "\<exists>e'. build_or_recurse n w robust d e = (Inr (), e') \<and> list_inv w e' \<and>
          extends rank (rank p) e e' \<and> d \<in> set (build_list e')"
        using extends_mono [of rank "Suc (rank d)" e e' "rank p"] by auto
    qed
    then obtain e2 where e2: "sfoldl (\<lambda>_ d. build_or_recurse n w robust d) () ?ds e1 = (Inr (), e2)" "list_inv w e2"
      "extends rank (rank p) e1 e2" "set ?ds \<subseteq> set (build_list e2)" by blast
    let ?e = "e2\<lparr>build_list := build_list e2 @ [p]\<rparr>"
    obtain new where new: "build_list e2 = build_list e @ new" "\<forall>x \<in> set new. rank x < rank p"
      using e2(3) e1(4) by (auto simp: extends_def)
    have "p \<notin> set (build_list e2)" using new False by auto
    moreover have "direct_deps w e2 = direct_deps w e"
      using extends_deps [OF extends_trans [OF extends_mono [OF e1(3)] e2(3)]] by simp
    moreover have "direct_deps w ?e = direct_deps w e2" by (simp add: direct_deps_def fun_eq_iff)
    ultimately have "list_inv w ?e" using e2(2,4) by (simp add: list_inv_def topo_snoc)
    moreover have "extends rank (Suc (rank p)) e ?e" using new e1(3) e2(3) by (auto simp: extends_def)
    moreover have "build_or_recurse (Suc n) w robust p e = (Inr (), ?e)"
      using False e1(1) e2(1) Suc.prems(3) by (auto simp: sbind_eval(2))
    ultimately show ?thesis by (intro exI [of _ ?e]) simp
  qed
qed simp

text \<open>Order by direct dependencies is order by all dependencies, also of a part of the list.\<close>

lemma topo_closure:
  assumes "topo dep seen l" "\<And>p. p \<in> seen \<Longrightarrow> full_dep p \<subseteq> seen"
    and "\<And>p. full_dep p \<subseteq> set (dep p) \<union> (\<Union>d \<in> set (dep p). full_dep d)"
    and "\<And>p. set (dep' p) \<subseteq> full_dep p"
  shows "topo dep' seen l"
  using assms(1,2)
proof (induction l arbitrary: seen)
  case (Cons p ps)
  have "full_dep p \<subseteq> seen" using Cons.prems assms(3) [of p] by fastforce
  then show ?case using Cons.IH [of "insert p seen"] Cons.prems assms(4) [of p] by auto
qed simp

lemma topo_filter:
  "topo dep seen l \<Longrightarrow> topo (\<lambda>p. filter P (dep p)) (Collect P \<inter> seen) (filter P l)"
proof (induction l arbitrary: seen)
  case (Cons p ps)
  have "Collect P \<inter> insert p seen = (if P p then insert p (Collect P \<inter> seen) else Collect P \<inter> seen)" by auto
  moreover have "topo (\<lambda>p. filter P (dep p)) (Collect P \<inter> insert p seen) (filter P ps)"
    using Cons by simp
  ultimately show ?case using Cons.prems by (auto split: if_splits)
qed simp

lemma list_inv_init: "list_inv w (RosMakeAll packages fs)"
  by (simp add: list_inv_def RosMakeAll_def PackageFlagTracker_def DependencyTracker_def direct.faithful_def)

text \<open>\<open>rospkg\<close> answers the direct dependencies without cycles, and for all dependencies only what is
  reached through direct ones; every package of the list has a path and a manifest that can be read.\<close>

definition well_ordered :: "rospkg \<Rightarrow> string list \<Rightarrow> (string \<Rightarrow> nat) \<Rightarrow> bool" where
  "well_ordered w packages rank \<longleftrightarrow>
     (\<forall>p d. d \<in> set (potential (depends_direct w) packages p) \<longrightarrow> rank d < rank p) \<and>
     (\<forall>p d. d \<in> set (potential (depends w) packages p) \<longrightarrow>
        (d, p) \<in> {(d, p). d \<in> set (potential (depends_direct w) packages p)}\<^sup>+) \<and>
     (\<forall>p \<in> set packages. get_path w p \<noteq> None \<and> \<not> invalid w DependsDirect p)"

lemma ordered_all:
  assumes "well_ordered w packages rank" "topo (\<lambda>p. potential (depends_direct w) packages p) {} l"
  shows "topo (\<lambda>p. potential (depends w) packages p) {} l"
proof (rule topo_closure [OF assms(2)])
  let ?R = "{(d, p). d \<in> set (potential (depends_direct w) packages p)}"
  show "{d. (d, p) \<in> ?R\<^sup>+} \<subseteq> set (potential (depends_direct w) packages p) \<union>
      (\<Union>d \<in> set (potential (depends_direct w) packages p). {x. (x, d) \<in> ?R\<^sup>+})" for p
    by (auto elim: tranclE)
  show "set (potential (depends w) packages p) \<subseteq> {d. (d, p) \<in> ?R\<^sup>+}" for p
    using assms(1) by (auto simp: well_ordered_def)
qed simp

lemma potential_restrict:
  "set specified \<subseteq> set packages \<Longrightarrow>
   potential q specified p = filter (\<lambda>d. d \<in> set specified) (potential q packages p)"
  by (auto simp: potential_def intro: filter_cong)

lemma make_build_list_returns:
  assumes "well_ordered w packages rank" "set required \<subseteq> set packages" "set specified \<subseteq> set packages"
    and "\<forall>p \<in> set required. rank p < n"
  shows "\<exists>e. make_build_list n w robust required specified specified_only (RosMakeAll packages fs) = (Inr (), e) \<and>
    distinct (build_list e) \<and>
    topo (\<lambda>p. potential (depends w) (valid_packages (queue_tracker e)) p) {} (build_list e) \<and>
    {p \<in> set required. specified_only \<longrightarrow> p \<in> set specified} \<subseteq> set (build_list e)"
proof -
  let ?e0 = "RosMakeAll packages fs"
  have v0: "valid_packages (dependency_tracker (flag_tracker ?e0)) = packages" "own_tracker ?e0 = None"
    by (simp_all add: RosMakeAll_def PackageFlagTracker_def DependencyTracker_def)
  have "\<exists>e'. sfoldl (\<lambda>_ p. build_or_recurse n w robust p) () required ?e0 = (Inr (), e') \<and> list_inv w e' \<and>
      extends rank n ?e0 e' \<and> set required \<subseteq> set (build_list e')"
  proof (rule recurse_list [OF _ list_inv_init v0(1)])
    fix p e
    assume p: "p \<in> set required" and e: "list_inv w e" "valid_packages (dependency_tracker (flag_tracker e)) = packages"
    have "get_path w p \<noteq> None \<and> \<not> invalid w DependsDirect p" "rank p < n" using assms p by (auto simp: well_ordered_def)
    then obtain e' where "build_or_recurse n w robust p e = (Inr (), e')" "list_inv w e'"
      "extends rank (Suc (rank p)) e e'" "p \<in> set (build_list e')"
      using build_or_recurse_returns [of w packages rank e p n robust] assms(1) e by (auto simp: well_ordered_def)
    then show "\<exists>e'. build_or_recurse n w robust p e = (Inr (), e') \<and> list_inv w e' \<and> extends rank n e e' \<and> p \<in> set (build_list e')"
      using extends_mono [of rank "Suc (rank p)" e e' n] \<open>rank p < n\<close> by auto
  qed
  then obtain e where e: "sfoldl (\<lambda>_ p. build_or_recurse n w robust p) () required ?e0 = (Inr (), e)" "list_inv w e"
    "extends rank n ?e0 e" "set required \<subseteq> set (build_list e)" by blast
  have v: "valid_packages (dependency_tracker (flag_tracker e)) = packages" "own_tracker e = None"
    using e(3) v0 by (auto simp: extends_def)
  have "direct_deps w e = (\<lambda>p. potential (depends_direct w) packages p)" using v(1) by (simp add: direct_deps_def fun_eq_iff)
  then have all: "topo (\<lambda>p. potential (depends w) packages p) {} (build_list e)"
    using e(2) by (intro ordered_all [OF assms(1)]) (simp add: list_inv_def)
  show ?thesis
  proof (cases specified_only)
    case False
    then show ?thesis using e all v by (auto simp: make_build_list_def sbind_eval(2) list_inv_def queue_tracker_def)
  next
    case True
    let ?l = "filter (\<lambda>p. p \<in> set specified) (build_list e)"
    have "topo (\<lambda>p. potential (depends w) specified p) {} ?l"
      using topo_filter [OF all, of "\<lambda>p. p \<in> set specified"] potential_restrict [OF assms(3)] by simp
    then show ?thesis using True e
      by (auto simp: make_build_list_def sbind_eval(2) list_inv_def queue_tracker_def DependencyTracker_def Let_def)
  qed
qed

section \<open>The result of a build\<close>

lemma sbind_raises:
  assumes "sbind m f s = (Inl x, s')" "\<And>x s'. m s = (Inl x, s') \<Longrightarrow> P x" "\<And>y u x s'. m s = (Inr y, u) \<Longrightarrow> f y u = (Inl x, s') \<Longrightarrow> P x"
  shows "P x"
  using assms by (auto simp: sbind_eq_Inl)

text \<open>What the checks of a package raise: a package that is not found, or an invalid manifest.\<close>

definition rospkg_raises :: "rospkg \<Rightarrow> py_error \<Rightarrow> bool" where
  "rospkg_raises w x \<longleftrightarrow> (\<exists>r. x = ResourceNotFound r) \<or> (\<exists>k r. invalid w k r \<and> x = InvalidManifest r)"

lemma rospkg_raises_intros [intro, simp]:
  "rospkg_raises w (ResourceNotFound r)" "invalid w k r \<Longrightarrow> rospkg_raises w (InvalidManifest r)"
  by (auto simp: rospkg_raises_def)

lemma check_raises: "check_package_flags w p f = (Inl x, f') \<Longrightarrow> rospkg_raises w x"
  by (auto simp: check_package_flags_def register_marked_def sbind_eq_Inl split: if_splits)

lemma check_list_raises: "sfoldl (\<lambda>_ p. check_package_flags w p) () ps f = (Inl x, f') \<Longrightarrow> rospkg_raises w x"
proof (induction ps arbitrary: f)
  case (Cons p ps)
  then show ?case using check_raises by (auto simp: sbind_eq_Inl)
qed simp

lemma ask_deps_raises: "ask_deps w p f = (Inl x, f') \<Longrightarrow> rospkg_raises w x"
  by (auto simp: ask_deps_def split: prod.splits if_splits)

lemma can_build_raises: "can_build w p ub fps um f = (Inl x, f') \<Longrightarrow> rospkg_raises w x"
  using check_raises check_list_raises ask_deps_raises
  by (auto simp: can_build_def Let_def is_blacklisted_def check_all_def has_nobuild_def has_makefile_def sbind_eq_Inl
      split: if_splits)

lemma set_result_eval:
  "result e argument = Some r \<Longrightarrow>
   set_result argument p v e = (Inr (), e\<lparr>result := (result e)(argument \<mapsto> AList.update p v r)\<rparr>)"
  by (simp add: set_result_def results_of_def sbind_def)

definition same_results :: "engine \<Rightarrow> engine \<Rightarrow> bool" where
  "same_results e e' \<longleftrightarrow> result e' = result e \<and> build_list e' = build_list e \<and> own_tracker e' = own_tracker e"

definition recorded :: "string option \<Rightarrow> string \<Rightarrow> bool \<Rightarrow> engine \<Rightarrow> engine \<Rightarrow> bool" where
  "recorded argument p v e e' \<longleftrightarrow> (\<exists>r. result e argument = Some r \<and>
     result e' = (result e)(argument \<mapsto> AList.update p v r)) \<and>
     build_list e' = build_list e \<and> own_tracker e' = own_tracker e"

lemma set_result_recorded:
  assumes "result e argument = Some r" "same_results e e1"
  shows "\<exists>e'. set_result argument p v e1 = (Inr (), e') \<and> recorded argument p v e e'"
  using assms by (auto simp: set_result_eval recorded_def same_results_def)

lemma set_result_again:
  assumes "recorded argument p v e e1"
  shows "\<exists>e'. set_result argument p v' e1 = (Inr (), e') \<and> recorded argument p v' e e'"
proof -
  obtain r where "result e1 argument = Some (AList.update p v r)" "result e argument = Some r"
    "result e1 = (result e)(argument \<mapsto> AList.update p v r)"
    using assms by (auto simp: recorded_def)
  then show ?thesis using assms by (auto simp: set_result_eval recorded_def)
qed

text \<open>The verdict that the output of \<open>make\<close> gives.\<close>

definition make_verdict :: "int \<Rightarrow> string \<Rightarrow> bool" where
  "make_verdict rc out \<longleftrightarrow> rc = 0 \<or> contains ''No rule to make target'' out"

text \<open>How the body of \<open>build\<close> ends: with a recorded verdict; with an exception of \<open>rospkg\<close> or of
  \<open>make\<close> and nothing recorded; or with an exception of the log after the verdict was recorded.\<close>

definition build_ended ::
    "rospkg \<Rightarrow> make_run \<Rightarrow> log_write \<Rightarrow> string \<Rightarrow> string option \<Rightarrow> engine \<Rightarrow> (bool \<times> string) res \<times> engine \<Rightarrow> bool" where
  "build_ended w run_make log p argument e = (\<lambda>(res, e'). case res of
     Inr (v, str) \<Rightarrow> recorded argument p v e e'
   | Inl x \<Rightarrow> (same_results e e' \<and> (rospkg_raises w x \<or> run_make p argument = Inl x)) \<or>
       (\<exists>rc out secs. run_make p argument = Inr (rc, out, secs) \<and> log p argument out = Inl x \<and>
          recorded argument p (make_verdict rc out) e e'))"

lemma log_and_return_ends:
  assumes "result e argument = Some r" "same_results e e1" "run_make p argument = Inr (rc, out, secs)"
    and "fst v \<longleftrightarrow> make_verdict rc out"
  shows "build_ended w run_make log p argument e (log_and_return log p argument out v e1)"
proof -
  obtain e' where e': "set_result argument p (fst v) e1 = (Inr (), e')" "recorded argument p (fst v) e e'"
    using set_result_recorded [OF assms(1,2)] by blast
  show ?thesis
    using e' assms(3,4) by (cases v; cases "log p argument out") (auto simp: log_and_return_def sbind_def slift_def build_ended_def)
qed

lemma build_body_ends:
  assumes "result e argument = Some r"
  shows "build_ended w run_make log p argument e (build_body w run_make log skip robust p argument e)"
proof -
  let ?fp = "if argument = Some ''test'' then [] else map fst (filter (\<lambda>x. \<not> snd x) r)"
  have fp: "failed_results argument e = (Inr ?fp, e)"
    using assms by (simp add: failed_results_def results_of_def sbind_def)
  obtain c f where c: "can_build w p skip ?fp True (flag_tracker e) = (c, f)" by fastforce
  let ?e1 = "e\<lparr>flag_tracker := f\<rparr>"
  have same: "same_results e ?e1" by (simp add: same_results_def)
  note run = build_body_def sbind_eval(2) [where m = "failed_results argument" and s = e, OF fp]
  show ?thesis
  proof (cases c)
    case (Inl x)
    then have "rospkg_raises w x" using can_build_raises c by blast
    then show ?thesis using c Inl same unfolding run by (simp add: with_flags_def sbind_def build_ended_def)
  next
    case (Inr v)
    obtain buildable error why where v: "v = (buildable, error, why)" by (metis prod.exhaust)
    have step: "with_flags (can_build w p skip ?fp True) e = (Inr (buildable, error, why), ?e1)"
      using c Inr v by (simp add: with_flags_def)
    note run' = run sbind_eval(2) [where m = "with_flags (can_build w p skip ?fp True)" and s = e, OF step] prod.case
    show ?thesis
    proof (cases "buildable \<or> robust")
      case False
      obtain e' where "set_result argument p error ?e1 = (Inr (), e')" "recorded argument p error e e'"
        using set_result_recorded [OF assms same] by blast
      then show ?thesis using False unfolding run' by (simp add: sbind_eval(2) build_ended_def)
    next
      case True
      show ?thesis
      proof (cases "get_path w p = None \<or> (\<exists>x. run_make p argument = Inl x)")
        case True
        then show ?thesis using \<open>buildable \<or> robust\<close> same unfolding run'
          by (cases "get_path w p") (auto simp: sbind_def slift_def of_option_def build_ended_def)
      next
        case False
        then obtain path rc out secs where mk: "get_path w p = Some path" "run_make p argument = Inr (rc, out, secs)"
          by (cases "run_make p argument") auto
        note l = log_and_return_ends [where w = w and log = log and run_make = run_make, OF assms same mk(2)]
        show ?thesis using \<open>buildable \<or> robust\<close> mk unfolding run'
          by (simp add: sbind_def slift_def of_option_def Let_def l make_verdict_def)
      qed
    qed
  qed
qed

text \<open>C8: What building a package leaves. A verdict is recorded as it is returned, as the result of the
  package for this target. No package that is not found ends the call with an exception; another
  exception comes from an invalid manifest or from the run of \<open>make\<close>, and then nothing is recorded, or
  from the writing of the log, and then the verdict on the run of \<open>make\<close> is already recorded. No other result and no
  list of packages is changed. So there always is a verdict as long as the manifests can be read
  and neither \<open>make\<close> nor the log raises.\<close>

theorem build_records_result:
  assumes "result e argument = Some r"
  shows "\<exists>res e'. build w run_make log skip_blacklist robust p argument e = (res, e') \<and> build_list e' = build_list e \<and>
    (case res of
       Inr (v, str) \<Rightarrow> result e' = (result e)(argument \<mapsto> AList.update p v r)
     | Inl x \<Rightarrow> (\<forall>q. x \<noteq> ResourceNotFound q) \<and>
         (((\<exists>k q. invalid w k q \<and> x = InvalidManifest q) \<or> run_make p argument = Inl x) \<and> result e' = result e \<or>
          (\<exists>rc out secs. run_make p argument = Inr (rc, out, secs) \<and> log p argument out = Inl x \<and>
             result e' = (result e)(argument \<mapsto>
               AList.update p (rc = 0 \<or> contains ''No rule to make target'' out) r)))) \<and>
    (\<forall>v. map_of (AList.update p v r) p = Some v \<and>
       (\<forall>q. q \<noteq> p \<longrightarrow> map_of (AList.update p v r) q = map_of r q))"
proof -
  let ?body = "build_body w run_make log skip_blacklist robust p argument e"
  have upd: "map_of (AList.update p v r) = (map_of r)(p \<mapsto> v)" for v by (rule AList.update_conv')
  obtain res e' where b: "?body = (res, e')" by fastforce
  have ends: "build_ended w run_make log p argument e (res, e')" using build_body_ends [OF assms] b by metis
  show ?thesis
  proof (cases "\<exists>q. res = Inl (ResourceNotFound q)")
    case True
    then obtain q where q: "res = Inl (ResourceNotFound q)" by blast
    then have "same_results e e' \<or> (\<exists>v. recorded argument p v e e')" using ends by (auto simp: build_ended_def)
    then obtain e2 where "set_result argument p False e' = (Inr (), e2)" "recorded argument p False e e2"
      using set_result_recorded [OF assms] set_result_again by metis
    then show ?thesis using b q assms by (auto simp: build_def sbind_eval(2) recorded_def upd)
  next
    case False
    then have "build w run_make log skip_blacklist robust p argument e = (res, e')"
      using b by (auto simp: build_def split: sum.splits py_error.splits)
    then show ?thesis using ends False assms
      by (cases res) (auto simp: build_ended_def recorded_def same_results_def rospkg_raises_def make_verdict_def upd)
  qed
qed

text \<open>C7: From requested packages to a finished build: for packages without cyclic dependencies, that have paths and
  readable manifests, the list is computed without running out of nested calls, it has no duplicates and is in the order of all
  dependencies that its tracker knows, it holds every requested package, and any run of the build
  threads on it that ends (robust, or without failures) has built or tried all of them.\<close>

theorem rosmake_builds_requested:
  assumes "well_ordered w packages rank" "set required \<subseteq> set packages" "set specified \<subseteq> set packages"
    and "\<forall>p \<in> set required. rank p < n"
  shows "\<exists>e. make_build_list n w robust required specified specified_only (RosMakeAll packages fs) = (Inr (), e) \<and>
    distinct (build_list e) \<and>
    topo (\<lambda>p. potential (depends w) (valid_packages (queue_tracker e)) p) {} (build_list e) \<and>
    (\<forall>q ts m tolerate. reachable (\<lambda>p. potential (depends w) (valid_packages (queue_tracker e)) p) (build_list e) tolerate m (q, ts) \<longrightarrow>
       0 < m \<longrightarrow> set ts \<subseteq> {Exited} \<longrightarrow> tolerate \<or> failed q = [] \<longrightarrow>
       (\<forall>p \<in> set required. (specified_only \<longrightarrow> p \<in> set specified) \<longrightarrow> p \<in> set (built q) \<union> set (failed q)))"
proof -
  obtain e where e: "make_build_list n w robust required specified specified_only (RosMakeAll packages fs) = (Inr (), e)"
    "distinct (build_list e)" "topo (\<lambda>p. potential (depends w) (valid_packages (queue_tracker e)) p) {} (build_list e)"
    "{p \<in> set required. specified_only \<longrightarrow> p \<in> set specified} \<subseteq> set (build_list e)"
    using make_build_list_returns [OF assms] by blast
  have "set (built q) \<union> set (failed q) = set (build_list e)"
    if "reachable (\<lambda>p. potential (depends w) (valid_packages (queue_tracker e)) p) (build_list e) tolerate m (q, ts)"
      "0 < m" "set ts \<subseteq> {Exited}" "tolerate \<or> failed q = []" for q ts m tolerate
    using all_exited_complete [OF that(1) e(2,3) that(2-4)] by blast
  then show ?thesis using e by blast
qed

theorem build_records_result_witness:
  "\<exists>res e'. build two_packages (\<lambda>p a. Inr (2, ''make: Interrupt'', ''0.10'')) (\<lambda>p a out. Inl (IOError ''log''))
       False False ''b'' None
       (RosMakeAll [''a'', ''b''] {''/b/Makefile''}\<lparr>result := [None \<mapsto> [(''a'', True)]]\<rparr>) = (res, e') \<and>
     build_list e' = [] \<and> (\<forall>q. res \<noteq> Inl (ResourceNotFound q))"
  using build_records_result [of "RosMakeAll [''a'', ''b''] {''/b/Makefile''}\<lparr>result := [None \<mapsto> [(''a'', True)]]\<rparr>"
      None "[(''a'', True)]" two_packages "\<lambda>p a. Inr (2, ''make: Interrupt'', ''0.10'')" "\<lambda>p a out. Inl (IOError ''log'')"
      False False "''b''"]
  by (fastforce simp: RosMakeAll_def)

lemma two_packages_ordered: "well_ordered two_packages [''a'', ''b''] (\<lambda>p. if p = ''b'' then 1 else 0)"
proof -
  have "potential (depends_direct two_packages) [''a'', ''b''] p = (if p = ''b'' then [''a''] else [])"
    "potential (depends two_packages) [''a'', ''b''] p = (if p = ''b'' then [''a''] else [])" for p
    by (auto simp: potential_def two_packages_def)
  then show ?thesis by (auto simp: well_ordered_def two_packages_def intro!: r_into_trancl split: if_splits)
qed

theorem rosmake_builds_requested_witness:
  "\<exists>e. make_build_list 2 two_packages False [''b''] [''b''] False (RosMakeAll [''a'', ''b''] {}) = (Inr (), e) \<and>
     distinct (build_list e)"
  using rosmake_builds_requested [OF two_packages_ordered, of "[''b'']" "[''b'']" 2 False False "{}"] by auto

end
