(* ===== verification/Graph_Names.thy ===== *)
theory Graph_Names
  imports Names
begin

text \<open>
  Graph resource names: \<open>roslib/names.py\<close>. A name is global (\<open>/ns/name\<close>), private (\<open>~name\<close>) or
  relative to a namespace; \<open>resolve_name\<close> makes it global and canonical. The resource names of the
  same module repeat those of \<open>genmsg/names.py\<close> (theory \<open>Names\<close>). The environment, the arguments
  of the process and its host name are arguments.
\<close>

section \<open>The operations\<close>

definition GLOBALNS :: string where "GLOBALNS = ''/''"
definition PRIV_NAME :: char where "PRIV_NAME = CHR 0x7E"
definition REMAP :: string where "REMAP = '':=''"

definition is_global :: "string \<Rightarrow> bool" where
  "is_global name \<longleftrightarrow> name \<noteq> [] \<and> hd name = SEP"

definition is_private :: "string \<Rightarrow> bool" where
  "is_private name \<longleftrightarrow> name \<noteq> [] \<and> hd name = PRIV_NAME"

definition make_global_ns :: "string \<Rightarrow> string res" where
  "make_global_ns name =
     (if is_private name then Inl ValueError
      else let n = (if is_global name then name else SEP # name)
           in Inr (if last n \<noteq> SEP then n @ [SEP] else n))"

fun ns_argument :: "string list \<Rightarrow> string option" where
  "ns_argument [] = None"
| "ns_argument (a # as) = (if startswith a ''__ns:='' then Some (drop 6 a) else ns_argument as)"

definition get_ros_namespace :: "(string \<rightharpoonup> string) \<Rightarrow> string list \<Rightarrow> string res" where
  "get_ros_namespace env argv = (case ns_argument argv of
     Some a \<Rightarrow> make_global_ns a
   | None \<Rightarrow> make_global_ns (case env ''ROS_NAMESPACE'' of Some v \<Rightarrow> v | None \<Rightarrow> GLOBALNS))"

text \<open>The namespace of a name, without its last component; \<open>None\<close> is Python's \<open>None\<close>.\<close>

definition namespace :: "string option \<Rightarrow> string res" where
  "namespace name = (case name of
     None \<Rightarrow> Inl ValueError
   | Some n \<Rightarrow> if n = [] then Inr [SEP]
       else let m = (if last n = SEP then slice_to n (- 1) else n);
                r = slice_to m (py_rfind SEP m + 1)
            in Inr (if r \<noteq> [] then r else [SEP]))"

definition ns_join :: "string \<Rightarrow> string \<Rightarrow> string" where
  "ns_join ns name =
     (if is_private name \<or> is_global name then name
      else if ns = [PRIV_NAME] then PRIV_NAME # name
      else if ns = [] then name
      else if last ns = SEP then ns @ name
      else ns @ [SEP] @ name)"

definition make_caller_id :: "(string \<rightharpoonup> string) \<Rightarrow> string list \<Rightarrow> string \<Rightarrow> string res" where
  "make_caller_id env argv name = rbind (get_ros_namespace env argv) (\<lambda>ns. make_global_ns (ns_join ns name))"

definition mapping_of :: "string \<Rightarrow> (string \<times> string) option" where
  "mapping_of arg = (if contains REMAP arg then (case map strip (py_split REMAP arg) of
       [src, dst] \<Rightarrow>
         if src \<noteq> [] \<and> dst \<noteq> [] \<and> \<not> (length src > 1 \<and> src ! 0 = CHR ''_'' \<and> src ! 1 \<noteq> CHR ''_'')
         then Some (src, dst) else None
     | _ \<Rightarrow> None) else None)"

definition load_mappings :: "string list \<Rightarrow> (string \<rightharpoonup> string)" where
  "load_mappings argv = foldl (\<lambda>m arg. case mapping_of arg of Some (src, dst) \<Rightarrow> m(src \<mapsto> dst) | None \<Rightarrow> m) Map.empty argv"

definition is_safe_name :: "string \<Rightarrow> bool" where
  "is_safe_name name \<longleftrightarrow> name \<noteq> [] \<and> length name \<le> 255 \<and> is_legal_resource_name (Some name)"

definition is_legal_name :: "string option \<Rightarrow> bool" where
  "is_legal_name name \<longleftrightarrow> (case name of None \<Rightarrow> False
     | Some n \<Rightarrow> n = [] \<or> (match_first_rest (\<lambda>c. c = PRIV_NAME \<or> c = SEP \<or> is_ascii_alpha c)
                  (\<lambda>c. is_word_char c \<or> c = SEP) n \<and> \<not> contains ''//'' n))"

definition is_legal_base_name :: "string option \<Rightarrow> bool" where
  "is_legal_base_name name \<longleftrightarrow> (case name of None \<Rightarrow> False | Some n \<Rightarrow> match_first_rest is_ascii_alpha is_word_char n)"

definition canonicalize_name :: "string \<Rightarrow> string" where
  "canonicalize_name name =
     (if name = [] \<or> name = [SEP] then name
      else if hd name = SEP then SEP # py_join [SEP] (filter (\<lambda>x. x \<noteq> []) (split_on SEP name))
      else py_join [SEP] (filter (\<lambda>x. x \<noteq> []) (split_on SEP name)))"

text \<open>\<open>resolve_name\<close> of a string; an empty set of remappings is no remapping.\<close>

definition resolve_name :: "string \<Rightarrow> string \<Rightarrow> (string \<rightharpoonup> string) \<Rightarrow> string res" where
  "resolve_name name ns remappings =
     (if name = [] then namespace (Some ns)
      else let n = canonicalize_name name
        in rbind (if n = [] then Inl IndexError
                  else if hd n = SEP then Inr n
                  else if is_private n then Inr (canonicalize_name (ns @ [SEP] @ drop 1 n))
                  else rbind (namespace (Some ns)) (\<lambda>s. Inr (s @ n)))
             (\<lambda>resolved. case remappings resolved of Some r \<Rightarrow> Inr r | None \<Rightarrow> Inr resolved))"

definition anonymous_name :: "string \<Rightarrow> nat \<Rightarrow> nat \<Rightarrow> string \<Rightarrow> string" where
  "anonymous_name host pid r i =
     map (\<lambda>c. if c = CHR ''.'' \<or> c = CHR ''-'' \<or> c = CHR '':'' then CHR ''_'' else c)
       (i @ ''_'' @ host @ ''_'' @ str_of_nat pid @ ''_'' @ str_of_nat r)"

section \<open>Components of a name\<close>

definition components :: "string \<Rightarrow> string list" where
  "components s = filter (\<lambda>x. x \<noteq> []) (split_on SEP s)"

lemma components_ok: "x \<in> set (components s) \<Longrightarrow> x \<noteq> [] \<and> SEP \<notin> set x"
  by (auto simp: components_def dest: split_on_no_sep)

lemma components_join:
  assumes "\<And>x. x \<in> set xs \<Longrightarrow> x \<noteq> [] \<and> SEP \<notin> set x"
  shows "components (py_join [SEP] xs) = xs" "components (SEP # py_join [SEP] xs) = xs"
proof -
  have "components (py_join [SEP] xs) = xs"
  proof (cases "xs = []")
    case False
    then have "split_on SEP (py_join [SEP] xs) = xs" using assms by (intro split_join) auto
    then show ?thesis using assms by (simp add: components_def)
  qed (simp add: components_def)
  then show "components (py_join [SEP] xs) = xs" "components (SEP # py_join [SEP] xs) = xs"
    by (simp_all add: components_def)
qed

lemma components_append: "components (s @ SEP # t) = components s @ components t"
  by (simp add: components_def split_on_append_sep)

lemma components_eq_Nil: "components s = [] \<longleftrightarrow> set s \<subseteq> {SEP}"
proof (induction s)
  case (Cons c s)
  then show ?case by (cases "split_on SEP s") (auto simp: components_def)
qed (simp add: components_def)

lemma canonicalize_eq: "canonicalize_name s = (if is_global s then [SEP] else []) @ py_join [SEP] (components s)"
  by (cases s) (auto simp: canonicalize_name_def is_global_def components_def)

lemma hd_join_not_sep:
  assumes "\<And>x. x \<in> set xs \<Longrightarrow> x \<noteq> [] \<and> SEP \<notin> set x" "xs \<noteq> []"
  shows "py_join [SEP] xs \<noteq> [] \<and> hd (py_join [SEP] xs) \<noteq> SEP"
proof (cases xs)
  case (Cons x ys)
  then have "x \<noteq> [] \<and> SEP \<notin> set x" using assms(1) by simp
  then obtain c cs where "x = c # cs" "c \<noteq> SEP" by (cases x) auto
  then show ?thesis using Cons by (cases "ys = []") (auto simp: py_join_Cons)
qed (use assms in simp)

lemma is_global_canonicalize [simp]: "is_global (canonicalize_name s) = is_global s"
proof (cases "is_global s")
  case False
  then show ?thesis using hd_join_not_sep [of "components s"] components_ok [of _ s]
    by (cases "components s = []") (auto simp: canonicalize_eq is_global_def)
qed (simp add: canonicalize_eq is_global_def)

lemma components_canonicalize [simp]: "components (canonicalize_name s) = components s"
  using components_join [of "components s"] components_ok [of _ s] by (simp add: canonicalize_eq)

lemma canonicalize_idem [simp]: "canonicalize_name (canonicalize_name s) = canonicalize_name s"
  using canonicalize_eq [of "canonicalize_name s"] by (simp add: canonicalize_eq [of s, symmetric])

text \<open>A canonical name has no empty component after its first separator.\<close>

lemma canonical_tail: "x \<in> set (tl (split_on SEP (canonicalize_name s))) \<Longrightarrow> canonicalize_name s \<noteq> [SEP] \<Longrightarrow> x \<noteq> []"
proof -
  assume x: "x \<in> set (tl (split_on SEP (canonicalize_name s)))" and ne: "canonicalize_name s \<noteq> [SEP]"
  show "x \<noteq> []"
  proof (cases "components s = []")
    case True
    then show ?thesis using x ne by (auto simp: canonicalize_eq split: if_splits)
  next
    case False
    have sp: "split_on SEP (py_join [SEP] (components s)) = components s"
      using False components_ok [of _ s] by (intro split_join) auto
    have "x \<in> set (components s)" using x False by (auto simp: canonicalize_eq sp dest: list.set_sel(2) split: if_splits)
    then show ?thesis using components_ok by blast
  qed
qed

lemma canonical_shape:
  "\<not> contains ''//'' (canonicalize_name s)" "canonicalize_name s \<noteq> [SEP] \<Longrightarrow> \<not> endswith (canonicalize_name s) ''/''"
proof -
  show "\<not> endswith (canonicalize_name s) ''/''" if ne: "canonicalize_name s \<noteq> [SEP]"
  proof
    assume "endswith (canonicalize_name s) ''/''"
    then obtain r where r: "canonicalize_name s = r @ SEP # []" by (auto simp: endswith_iff)
    have "[] \<in> set (tl (split_on SEP (canonicalize_name s)))"
      unfolding r split_on_append_sep by (cases "split_on SEP r") auto
    then show False using canonical_tail ne by blast
  qed
  show "\<not> contains ''//'' (canonicalize_name s)"
  proof
    assume "contains ''//'' (canonicalize_name s)"
    then obtain a b where r: "canonicalize_name s = a @ SEP # SEP # b" by (auto simp: contains_iff)
    have "[] \<in> set (tl (split_on SEP (canonicalize_name s)))"
      unfolding r split_on_append_sep by (cases "split_on SEP a") auto
    moreover have "canonicalize_name s \<noteq> [SEP]" by (simp add: r Cons_eq_append_conv)
    ultimately show False using canonical_tail by blast
  qed
qed

lemma join_snoc: "py_join [c] (xs @ [x]) = concat (map (\<lambda>y. y @ [c]) xs) @ x"
proof (induction xs)
  case (Cons y ys)
  then show ?case by (simp add: py_join_Cons)
qed simp

lemma components_prefix: "components (concat (map (\<lambda>y. y @ [SEP]) xs) @ t) = concat (map components xs) @ components t"
proof (induction xs)
  case (Cons x xs)
  then show ?case using components_append [of x "concat (map (\<lambda>y. y @ [SEP]) xs) @ t"] by simp
qed simp

lemma components_single: "x \<noteq> [] \<Longrightarrow> SEP \<notin> set x \<Longrightarrow> components x = [x]"
  by (simp add: components_def)

text \<open>The namespace of a canonical global name drops its last component.\<close>

lemma namespace_global:
  assumes "is_global ns" "canonicalize_name ns = ns"
  shows "namespace (Some ns) = Inr (SEP # concat (map (\<lambda>y. y @ [SEP]) (butlast (components ns))))"
proof (cases "components ns = []")
  case True
  then have "ns = [SEP]" using assms canonicalize_eq [of ns] by simp
  then show ?thesis by (simp add: namespace_def True slice_to_def slice_idx_def py_rfind_def components_def)
next
  case False
  then obtain ys y where xs: "components ns = ys @ [y]" by (metis rev_exhaust)
  let ?p = "concat (map (\<lambda>y. y @ [SEP]) ys)"
  have y: "y \<noteq> []" "SEP \<notin> set y" using components_ok [of y ns] by (auto simp: xs)
  have ns: "ns = (SEP # ?p) @ y" using assms canonicalize_eq [of ns] by (simp add: xs join_snoc)
  obtain q where q: "SEP # ?p = q @ [SEP]"
    by (cases ys rule: rev_cases) auto
  have "last ns \<noteq> SEP" using y ns by (metis last_append last_in_set)
  moreover have "py_rfind SEP ns = int (length q)" unfolding ns q using y by simp
  moreover have "ns \<noteq> []" "take (Suc (length q)) ns = q @ [SEP]" unfolding ns q by simp_all
  ultimately have "namespace (Some ns) = Inr (q @ [SEP])"
    using slice_to_of_nat [of ns "Suc (length q)"] by (simp add: namespace_def Let_def add.commute)
  then show ?thesis using q by (simp add: xs)
qed

lemma canonical_of_components:
  assumes "is_global r" "r = SEP # py_join [SEP] xs" "\<And>x. x \<in> set xs \<Longrightarrow> x \<noteq> [] \<and> SEP \<notin> set x"
  shows "canonicalize_name r = r \<and> components r = xs"
  using assms components_join [of xs] by (simp add: canonicalize_eq)

lemma private_components:
  "components (drop 1 (canonicalize_name (PRIV_NAME # t))) = components t"
proof -
  obtain x xs where sp: "split_on SEP t = x # xs" by (cases "split_on SEP t") auto
  let ?ys = "filter (\<lambda>x. x \<noteq> []) xs"
  have ok: "SEP \<notin> set x" "\<And>y. y \<in> set ?ys \<Longrightarrow> y \<noteq> [] \<and> SEP \<notin> set y" using split_on_no_sep [of _ SEP t] by (auto simp: sp)
  have "components (PRIV_NAME # t) = (PRIV_NAME # x) # ?ys" by (simp add: components_def sp PRIV_NAME_def)
  then have "drop 1 (canonicalize_name (PRIV_NAME # t)) = py_join [SEP] (x # ?ys)"
    by (cases "?ys = []") (simp_all add: canonicalize_eq is_global_def PRIV_NAME_def py_join_Cons)
  moreover have "components (py_join [SEP] (x # ?ys)) = components t"
  proof (cases "?ys = []")
    case True
    have "components x = filter (\<lambda>x. x \<noteq> []) [x]" using ok(1) by (simp add: components_def)
    moreover have "components t = filter (\<lambda>x. x \<noteq> []) [x] @ ?ys" by (simp add: components_def [of t] sp)
    ultimately show ?thesis unfolding True by simp
  next
    case False
    have "components (py_join [SEP] (x # ?ys)) = components x @ components (py_join [SEP] ?ys)"
      using components_append [of x "py_join [SEP] ?ys"] py_join_Cons [OF False, of "[SEP]" x] by simp
    also have "components (py_join [SEP] ?ys) = ?ys" by (rule components_join(1)) (rule ok(2))
    also have "components x = filter (\<lambda>x. x \<noteq> []) [x]" using ok(1) by (simp add: components_def)
    finally show ?thesis by (simp add: components_def [of t] sp)
  qed
  ultimately show ?thesis by simp
qed

text \<open>The canonical form: \<open>canonicalize_name\<close> keeps the components of a name and whether it is global,
  leaves no double and no trailing separator, changes nothing when it is applied again, and two
  names have the same canonical form exactly if they have the same components and are both global
  or both not.\<close>

theorem canonicalize_name_canonical:
  "components (canonicalize_name s) = components s \<and> is_global (canonicalize_name s) = is_global s \<and>
   \<not> contains ''//'' (canonicalize_name s) \<and>
   (endswith (canonicalize_name s) ''/'' \<longrightarrow> canonicalize_name s = ''/'') \<and>
   canonicalize_name (canonicalize_name s) = canonicalize_name s \<and>
   (canonicalize_name s = canonicalize_name t \<longleftrightarrow> components s = components t \<and> is_global s = is_global t)"
proof -
  have "canonicalize_name s = canonicalize_name t \<longleftrightarrow> components s = components t \<and> is_global s = is_global t"
  proof
    assume e: "canonicalize_name s = canonicalize_name t"
    show "components s = components t \<and> is_global s = is_global t"
      using arg_cong [OF e, of components] arg_cong [OF e, of is_global] by simp
  next
    assume "components s = components t \<and> is_global s = is_global t"
    then show "canonicalize_name s = canonicalize_name t" by (simp add: canonicalize_eq)
  qed
  then show ?thesis using canonical_shape [of s] by auto
qed

theorem canonicalize_name_canonical_witness:
  "canonicalize_name ''/a//b/'' = ''/a/b'' \<and> canonicalize_name ''/a//b/'' = canonicalize_name ''//a/b''"
  using canonicalize_name_canonical [of "''/a//b/''" "''//a/b''"] by (simp add: components_def is_global_def canonicalize_name_def)

text \<open>What a non-empty name resolves to under a node name: its own components if it is global, those of
  the node followed by its own if it is private, and those of the namespace of the node followed
  by its own otherwise.\<close>

definition resolved_components :: "string \<Rightarrow> string \<Rightarrow> string list" where
  "resolved_components name ns =
     (if is_global name then components name
      else if is_private name then components ns @ components (tl name)
      else butlast (components ns) @ components name)"

lemma resolve_unmapped:
  assumes "name \<noteq> []" "is_global ns" "canonicalize_name ns = ns"
  shows "resolve_name name ns remappings =
    (let r = SEP # py_join [SEP] (resolved_components name ns) in Inr (case remappings r of Some x \<Rightarrow> x | None \<Rightarrow> r))"
proof -
  let ?n = "canonicalize_name name"
  have ne: "?n \<noteq> []"
    using assms(1) components_eq_Nil [of name] hd_join_not_sep [of "components name"] components_ok [of _ name]
    by (cases "components name = []"; cases name) (auto simp: canonicalize_eq is_global_def)
  have "(if ?n = [] then Inl IndexError else if hd ?n = SEP then Inr ?n
         else if is_private ?n then Inr (canonicalize_name (ns @ [SEP] @ drop 1 ?n))
         else rbind (namespace (Some ns)) (\<lambda>s. Inr (s @ ?n))) =
        Inr (SEP # py_join [SEP] (resolved_components name ns))"
  proof (cases "is_global name")
    case True
    then have "is_global ?n" by simp
    then show ?thesis using True ne by (simp add: resolved_components_def is_global_def canonicalize_eq)
  next
    case False
    then have ng: "hd ?n \<noteq> SEP" using ne is_global_canonicalize [of name] by (simp add: is_global_def)
    have nj: "?n = py_join [SEP] (components name)" using False by (simp add: canonicalize_eq)
    have hd: "hd ?n = hd name"
    proof -
      obtain c cs where name: "name = c # cs" "c \<noteq> SEP" using assms(1) False by (cases name) (auto simp: is_global_def)
      obtain x xs where "split_on SEP cs = x # xs" by (cases "split_on SEP cs") auto
      then have "components name = (c # x) # filter (\<lambda>x. x \<noteq> []) xs" using name by (simp add: components_def)
      then show ?thesis unfolding nj by (cases "filter (\<lambda>x. x \<noteq> []) xs = []") (simp_all add: py_join_Cons name)
    qed
    show ?thesis
    proof (cases "is_private name")
      case True
      then obtain t where t: "name = PRIV_NAME # t" using assms(1) by (cases name) (auto simp: is_private_def)
      have "components (ns @ [SEP] @ drop 1 ?n) = components ns @ components t"
        using components_append [of ns "drop 1 ?n"] private_components [of t] by (simp add: t)
      moreover have "is_global (ns @ [SEP] @ drop 1 ?n)" using assms(2) by (auto simp: is_global_def)
      ultimately have "canonicalize_name (ns @ [SEP] @ drop 1 ?n) = SEP # py_join [SEP] (components ns @ components t)"
        by (simp only: canonicalize_eq if_True append.simps)
      then show ?thesis using ne ng hd True False t by (simp add: is_private_def resolved_components_def)
    next
      case np: False
      let ?b = "butlast (components ns)"
      have "concat (map (\<lambda>y. y @ [SEP]) ?b) @ py_join [SEP] (components name) = py_join [SEP] (?b @ components name)"
        if "components name \<noteq> []"
      proof -
        have "concat (map (\<lambda>y. y @ [SEP]) zs) @ py_join [SEP] (components name) = py_join [SEP] (zs @ components name)" for zs
          using that by (induction zs) (simp_all add: py_join_Cons)
        then show ?thesis .
      qed
      moreover have "components name \<noteq> []" using ne nj by auto
      ultimately show ?thesis using assms(1) ne ng hd np False namespace_global [OF assms(2,3)]
        by (simp add: is_private_def resolved_components_def nj)
    qed
  qed
  then show ?thesis using assms(1) by (simp add: resolve_name_def Let_def split: option.splits)
qed

text \<open>C40: A name resolves, under a canonical global node name, to the global canonical name with the
  components that the three kinds of names prescribe, unless a remapping of that name replaces it;
  and a resolved name resolves to itself under every node name.\<close>

theorem resolve_name_global:
  assumes "name \<noteq> []" "is_global ns" "canonicalize_name ns = ns"
  shows "\<exists>r. is_global r \<and> canonicalize_name r = r \<and> components r = resolved_components name ns \<and>
    resolve_name name ns remappings = Inr (case remappings r of Some x \<Rightarrow> x | None \<Rightarrow> r) \<and>
    resolve_name r ns' Map.empty = Inr r"
proof -
  let ?r = "SEP # py_join [SEP] (resolved_components name ns)"
  have "x \<noteq> [] \<and> SEP \<notin> set x" if "x \<in> set (resolved_components name ns)" for x
    using that components_ok [of x name] components_ok [of x ns] components_ok [of x "tl name"]
    by (auto simp: resolved_components_def dest: in_set_butlastD split: if_splits)
  then have r: "is_global ?r" "canonicalize_name ?r = ?r" "components ?r = resolved_components name ns"
    using canonical_of_components [of ?r "resolved_components name ns"] by (auto simp: is_global_def)
  have "resolve_name ?r ns' Map.empty = Inr ?r" using r(2) by (simp add: resolve_name_def Let_def)
  then show ?thesis using r resolve_unmapped [OF assms, of remappings] by (auto simp: Let_def)
qed

theorem resolve_name_global_witness:
  "\<exists>r. components r = [''wg'', ''node'', ''x''] \<and>
     resolve_name (PRIV_NAME # ''//x/'') ''/wg/node'' [''/wg/node/x'' \<mapsto> ''/y''] =
       Inr (case [''/wg/node/x'' \<mapsto> ''/y''] r of Some x \<Rightarrow> x | None \<Rightarrow> r)"
proof -
  have "canonicalize_name ''/wg/node'' = ''/wg/node''" by code_simp
  moreover have "resolved_components (PRIV_NAME # ''//x/'') ''/wg/node'' = [''wg'', ''node'', ''x'']" by code_simp
  ultimately show ?thesis
    using resolve_name_global [of "PRIV_NAME # ''//x/''" "''/wg/node''" "[''/wg/node/x'' \<mapsto> ''/y'']" "[]"]
    unfolding is_global_def by (metis list.distinct(1) list.sel(1))
qed

end
