(* ===== verification/Rostime.thy ===== *)
theory Rostime
  imports Py_Float
begin

text \<open>
  Times and durations: \<open>genpy/rostime.py\<close>. An instance of \<open>TVal\<close> is its two slots;
  \<open>Time\<close> and \<open>Duration\<close> differ in their constructor and in the operands their
  operators accept, so an operand is a value of \<open>obj\<close>, which says of which class it is.
  An operator that returns \<open>NotImplemented\<close> is \<open>None\<close>. Seconds and factors are
  Python numbers, integers or floats; nanoseconds are integers.
\<close>

section \<open>Values\<close>

datatype num = PInt int | PFloat pyfloat

datatype tval = TVal (secs: int) (nsecs: int)

datatype obj = OTime tval | ODuration tval | ONum num | OOther

abbreviation billion :: int where "billion \<equiv> 1000000000"

definition canon_pair :: "int \<Rightarrow> int \<Rightarrow> int \<times> int" where
  "canon_pair s n = (let secs_over = n div billion in (s + secs_over, n - secs_over * billion))"

text \<open>The conversion of an operand of a float operation.\<close>

fun num_float :: "num \<Rightarrow> pyfloat res" where
  "num_float (PInt i) = float_of_int i"
| "num_float (PFloat x) = Inr x"

text \<open>\<open>secs = int(x)\<close> and \<open>nsecs = int((x - secs) * 1000000000)\<close> of a number.\<close>

fun split_secs :: "num \<Rightarrow> (int \<times> int) res" where
  "split_secs (PInt i) = Inr (i, 0)"
| "split_secs (PFloat x) =
     rbind (int_of_float x) (\<lambda>s.
     rbind (float_of_int s) (\<lambda>fs.
     rbind (float_of_int billion) (\<lambda>fb.
     rbind (int_of_float (float_mul (float_sub x fs) fb)) (\<lambda>n. Inr (s, n)))))"

definition TVal_init :: "num \<Rightarrow> int \<Rightarrow> tval res" where
  "TVal_init s n =
     (case s of PInt i \<Rightarrow> (case canon_pair i n of (s', n') \<Rightarrow> Inr (TVal s' n'))
      | PFloat x \<Rightarrow>
          if n \<noteq> 0 then Inl ValueError
          else rbind (split_secs (PFloat x)) (\<lambda>(s1, n1).
               case canon_pair s1 n1 of (s', n') \<Rightarrow> Inr (TVal s' n')))"

definition Time_init :: "num \<Rightarrow> int \<Rightarrow> tval res" where
  "Time_init s n = rbind (TVal_init s n) (\<lambda>t. if secs t < 0 then Inl TypeError else Inr t)"

definition Duration_init :: "num \<Rightarrow> int \<Rightarrow> tval res" where
  "Duration_init s n = TVal_init s n"

text \<open>The class method \<open>from_sec\<close>, for the constructor of the class.\<close>

definition from_sec :: "(num \<Rightarrow> int \<Rightarrow> tval res) \<Rightarrow> num \<Rightarrow> tval res" where
  "from_sec cls x = rbind (split_secs x) (\<lambda>(s, n). cls (PInt s) n)"

definition is_zero :: "tval \<Rightarrow> bool" where
  "is_zero t \<longleftrightarrow> secs t = 0 \<and> nsecs t = 0"

definition set_tval :: "tval \<Rightarrow> int \<Rightarrow> int \<Rightarrow> tval" where
  "set_tval t s n = TVal s n"

definition canon :: "tval \<Rightarrow> tval" where
  "canon t = (case canon_pair (secs t) (nsecs t) of (s, n) \<Rightarrow> TVal s n)"

definition to_sec :: "tval \<Rightarrow> pyfloat res" where
  "to_sec t = rbind (float_of_int (secs t)) (\<lambda>s. rbind (float_of_int (nsecs t)) (\<lambda>n.
     rbind (float_div n (Fin 1000000000)) (\<lambda>q. Inr (float_add s q))))"

definition to_nsec :: "tval \<Rightarrow> int" where
  "to_nsec t = secs t * billion + nsecs t"

definition tval_nonzero :: "tval \<Rightarrow> bool" where
  "tval_nonzero t \<longleftrightarrow> secs t \<noteq> 0 \<or> nsecs t \<noteq> 0"

definition tval_str :: "tval \<Rightarrow> string" where
  "tval_str t = str_of_int (to_nsec t)"

section \<open>Comparison\<close>

definition cmp_nsec :: "tval \<Rightarrow> tval \<Rightarrow> int" where
  "cmp_nsec a b = of_bool (to_nsec a > to_nsec b) - of_bool (to_nsec a < to_nsec b)"

definition TVal_eq :: "tval \<Rightarrow> obj \<Rightarrow> bool" where
  "TVal_eq a other = (case other of OTime b \<Rightarrow> to_nsec a = to_nsec b | ODuration b \<Rightarrow> to_nsec a = to_nsec b | _ \<Rightarrow> False)"

definition TVal_cmp :: "tval \<Rightarrow> obj \<Rightarrow> int res" where
  "TVal_cmp a other = (case other of OTime b \<Rightarrow> Inr (cmp_nsec a b) | ODuration b \<Rightarrow> Inr (cmp_nsec a b) | _ \<Rightarrow> Inl TypeError)"

definition Time_cmp :: "tval \<Rightarrow> obj \<Rightarrow> int res" where
  "Time_cmp a other = (case other of OTime b \<Rightarrow> Inr (cmp_nsec a b) | _ \<Rightarrow> Inl TypeError)"

definition Duration_cmp :: "tval \<Rightarrow> obj \<Rightarrow> int res" where
  "Duration_cmp a other = (case other of ODuration b \<Rightarrow> Inr (cmp_nsec a b) | _ \<Rightarrow> Inl TypeError)"

text \<open>The four order operators call the \<open>__cmp__\<close> of the class, the argument \<open>cmp\<close>;
  \<open>None\<close> stands for \<open>NotImplemented\<close>, returned on its \<open>TypeError\<close>.\<close>

definition cmp_test :: "(int \<Rightarrow> bool) \<Rightarrow> int res \<Rightarrow> bool option" where
  "cmp_test p r = (case r of Inl e \<Rightarrow> None | Inr c \<Rightarrow> Some (p c))"

definition TVal_lt :: "(tval \<Rightarrow> obj \<Rightarrow> int res) \<Rightarrow> tval \<Rightarrow> obj \<Rightarrow> bool option" where
  "TVal_lt cmp a other = cmp_test (\<lambda>c. c < 0) (cmp a other)"

definition TVal_le :: "(tval \<Rightarrow> obj \<Rightarrow> int res) \<Rightarrow> tval \<Rightarrow> obj \<Rightarrow> bool option" where
  "TVal_le cmp a other = cmp_test (\<lambda>c. c \<le> 0) (cmp a other)"

definition TVal_gt :: "(tval \<Rightarrow> obj \<Rightarrow> int res) \<Rightarrow> tval \<Rightarrow> obj \<Rightarrow> bool option" where
  "TVal_gt cmp a other = cmp_test (\<lambda>c. c > 0) (cmp a other)"

definition TVal_ge :: "(tval \<Rightarrow> obj \<Rightarrow> int res) \<Rightarrow> tval \<Rightarrow> obj \<Rightarrow> bool option" where
  "TVal_ge cmp a other = cmp_test (\<lambda>c. c \<ge> 0) (cmp a other)"

definition Time_eq :: "tval \<Rightarrow> obj \<Rightarrow> bool" where
  "Time_eq a other = (case other of OTime b \<Rightarrow> secs a = secs b \<and> nsecs a = nsecs b | _ \<Rightarrow> False)"

definition Duration_eq :: "tval \<Rightarrow> obj \<Rightarrow> bool" where
  "Duration_eq a other = (case other of ODuration b \<Rightarrow> secs a = secs b \<and> nsecs a = nsecs b | _ \<Rightarrow> False)"

section \<open>Arithmetic\<close>

definition Time_add :: "tval \<Rightarrow> obj \<Rightarrow> tval res option" where
  "Time_add a other = (case other of
     ODuration d \<Rightarrow> Some (Time_init (PInt (secs a + secs d)) (nsecs a + nsecs d)) | _ \<Rightarrow> None)"

text \<open>The class of the result depends on the operand, so it is part of the value.\<close>

definition Time_sub :: "tval \<Rightarrow> obj \<Rightarrow> obj res option" where
  "Time_sub a other = (case other of
     OTime b \<Rightarrow> Some (map_sum id ODuration (Duration_init (PInt (secs a - secs b)) (nsecs a - nsecs b)))
   | ODuration b \<Rightarrow> Some (map_sum id OTime (Time_init (PInt (secs a - secs b)) (nsecs a - nsecs b)))
   | _ \<Rightarrow> None)"

definition Duration_neg :: "tval \<Rightarrow> tval res" where
  "Duration_neg a = Duration_init (PInt (- secs a)) (- nsecs a)"

definition Duration_abs :: "tval \<Rightarrow> tval res" where
  "Duration_abs a = (if secs a \<ge> 0 then Inr a else Duration_neg a)"

definition Duration_add :: "tval \<Rightarrow> obj \<Rightarrow> tval res option" where
  "Duration_add a other = (case other of
     ODuration b \<Rightarrow> Some (Duration_init (PInt (secs a + secs b)) (nsecs a + nsecs b)) | _ \<Rightarrow> None)"

definition Duration_sub :: "tval \<Rightarrow> obj \<Rightarrow> tval res option" where
  "Duration_sub a other = (case other of
     ODuration b \<Rightarrow> Some (Duration_init (PInt (secs a - secs b)) (nsecs a - nsecs b)) | _ \<Rightarrow> None)"

definition Duration_mul :: "tval \<Rightarrow> obj \<Rightarrow> tval res option" where
  "Duration_mul a val = (case val of
     ONum (PInt v) \<Rightarrow> Some (Duration_init (PInt (secs a * v)) (nsecs a * v))
   | ONum (PFloat v) \<Rightarrow> Some (rbind (to_sec a) (\<lambda>x. from_sec Duration_init (PFloat (float_mul x v))))
   | _ \<Rightarrow> None)"

text \<open>Division by a number gives a duration, division by a duration gives a number.\<close>

datatype quotient = QDuration tval | QInt int | QFloat pyfloat

definition Duration_floordiv :: "tval \<Rightarrow> obj \<Rightarrow> quotient res option" where
  "Duration_floordiv a val = (case val of
     ONum v \<Rightarrow> Some (rbind (to_sec a) (\<lambda>x. rbind (num_float v) (\<lambda>y. rbind (float_divmod x y) (\<lambda>(q, _).
                map_sum id QDuration (from_sec Duration_init (PFloat q))))))
   | ODuration d \<Rightarrow> Some (rbind (to_sec a) (\<lambda>x. rbind (to_sec d) (\<lambda>y. rbind (float_divmod x y) (\<lambda>(q, _).
                map_sum id QInt (int_of_float q)))))
   | _ \<Rightarrow> None)"

definition Duration_div :: "tval \<Rightarrow> obj \<Rightarrow> quotient res option" where
  "Duration_div a val = (case val of
     ONum v \<Rightarrow> Some (rbind (to_sec a) (\<lambda>x. rbind (num_float v) (\<lambda>y. rbind (float_div x y) (\<lambda>q.
                map_sum id QDuration (from_sec Duration_init (PFloat q))))))
   | ODuration d \<Rightarrow> Some (rbind (to_sec a) (\<lambda>x. rbind (to_sec d) (\<lambda>y.
                map_sum id QFloat (float_div x y))))
   | _ \<Rightarrow> None)"

definition Duration_mod :: "tval \<Rightarrow> obj \<Rightarrow> tval res option" where
  "Duration_mod a val = (case val of
     ODuration d \<Rightarrow> Some (rbind (to_sec a) (\<lambda>x. rbind (to_sec d) (\<lambda>y. rbind (float_divmod x y) (\<lambda>(_, r).
                from_sec Duration_init (PFloat r)))))
   | _ \<Rightarrow> None)"

definition Duration_divmod :: "tval \<Rightarrow> obj \<Rightarrow> (int \<times> tval) res option" where
  "Duration_divmod a val = (case val of
     ODuration d \<Rightarrow> Some (rbind (to_sec a) (\<lambda>x. rbind (to_sec d) (\<lambda>y. rbind (float_divmod x y) (\<lambda>(q, r).
                rbind (int_of_float q) (\<lambda>qi. rbind (from_sec Duration_init (PFloat r)) (\<lambda>rd. Inr (qi, rd)))))))
   | _ \<Rightarrow> None)"

section \<open>Canonical values\<close>

definition canonical :: "tval \<Rightarrow> bool" where
  "canonical t \<longleftrightarrow> 0 \<le> nsecs t \<and> nsecs t < billion"

lemma canon_pair_alt: "canon_pair s n = (s + n div billion, n mod billion)"
  by (simp add: canon_pair_def Let_def minus_div_mult_eq_mod)

text \<open>The canonical value with a given number of nanoseconds.\<close>

definition of_nsec :: "int \<Rightarrow> tval" where
  "of_nsec k = TVal (k div billion) (k mod billion)"

lemma to_nsec_of_nsec [simp]: "to_nsec (of_nsec k) = k"
  by (simp add: to_nsec_def of_nsec_def)

lemma canonical_of_nsec [simp]: "canonical (of_nsec k)"
  by (simp add: canonical_def of_nsec_def)

lemma of_nsec_to_nsec: "canonical t \<Longrightarrow> of_nsec (to_nsec t) = t"
  by (cases t) (simp add: canonical_def of_nsec_def to_nsec_def)

lemma TVal_init_int: "TVal_init (PInt s) n = Inr (of_nsec (s * billion + n))"
  by (simp add: TVal_init_def canon_pair_alt of_nsec_def)

lemma Duration_init_int: "Duration_init (PInt s) n = Inr (of_nsec (s * billion + n))"
  by (simp add: Duration_init_def TVal_init_int)

lemma secs_of_nsec_neg: "secs (of_nsec k) < 0 \<longleftrightarrow> k < 0"
  by (simp add: of_nsec_def pos_imp_zdiv_neg_iff)

lemma Time_init_int:
  "Time_init (PInt s) n = (let k = s * billion + n in if k < 0 then Inl TypeError else Inr (of_nsec k))"
  by (simp add: Time_init_def TVal_init_int Let_def secs_of_nsec_neg)

lemmas init_int = Duration_init_int Time_init_int

text \<open>Canonical values are the integers: the interface the arithmetic properties rest on.\<close>

locale integer_view =
  fixes val :: "'t \<Rightarrow> int" and mk :: "int \<Rightarrow> 't" and ok :: "'t \<Rightarrow> bool"
  assumes val_mk [simp]: "val (mk k) = k"
    and mk_ok [simp]: "ok (mk k)"
    and mk_val: "ok t \<Longrightarrow> mk (val t) = t"
begin

lemma val_inj: "ok a \<Longrightarrow> ok b \<Longrightarrow> val a = val b \<longleftrightarrow> a = b"
  using mk_val by metis

lemma ok_cases: "ok t \<Longrightarrow> \<exists>k. t = mk k"
  using mk_val by metis

lemma sub_add: "ok t \<Longrightarrow> mk (val (mk (val t + k)) - k) = t"
  by (simp add: mk_val)

end

interpretation nsec: integer_view to_nsec of_nsec canonical
  by unfold_locales (simp_all add: of_nsec_to_nsec)

lemma init_nsec:
  "Duration_init (PInt (secs a + secs b)) (nsecs a + nsecs b) = Inr (of_nsec (to_nsec a + to_nsec b))"
  "Duration_init (PInt (secs a - secs b)) (nsecs a - nsecs b) = Inr (of_nsec (to_nsec a - to_nsec b))"
  "Duration_init (PInt (secs a * v)) (nsecs a * v) = Inr (of_nsec (to_nsec a * v))"
  "Duration_init (PInt (- secs a)) (- nsecs a) = Inr (of_nsec (- to_nsec a))"
  by (simp_all add: Duration_init_int to_nsec_def algebra_simps)

lemma time_init_nsec:
  "Time_init (PInt (secs a + secs b)) (nsecs a + nsecs b) =
     (if to_nsec a + to_nsec b < 0 then Inl TypeError else Inr (of_nsec (to_nsec a + to_nsec b)))"
  "Time_init (PInt (secs a - secs b)) (nsecs a - nsecs b) =
     (if to_nsec a - to_nsec b < 0 then Inl TypeError else Inr (of_nsec (to_nsec a - to_nsec b)))"
  by (simp_all add: Time_init_int Let_def to_nsec_def algebra_simps)

section \<open>The order on time values\<close>

instantiation tval :: preorder
begin

definition less_eq_tval_def: "a \<le> b \<longleftrightarrow> to_nsec a \<le> to_nsec b"

definition less_tval_def: "a < b \<longleftrightarrow> to_nsec a < to_nsec b"

instance
  by standard (auto simp: less_eq_tval_def less_tval_def)

end

lemma cmp_nsec_sign:
  "cmp_nsec a b < 0 \<longleftrightarrow> a < b" "cmp_nsec a b \<le> 0 \<longleftrightarrow> a \<le> b"
  "cmp_nsec a b > 0 \<longleftrightarrow> b < a" "cmp_nsec a b \<ge> 0 \<longleftrightarrow> b \<le> a"
  by (auto simp: cmp_nsec_def less_eq_tval_def less_tval_def)

section \<open>Seconds as floats\<close>

text \<open>A finite double, negative or not, below \<open>2 ^ 53\<close> in absolute value, as a mantissa and an exponent.\<close>

definition small_double :: "rat \<Rightarrow> bool" where
  "small_double x \<longleftrightarrow> (\<exists>m e. x = of_int m * 2 powi e \<and> \<bar>m\<bar> < 2 ^ 53 \<and> - 1074 \<le> e) \<and> \<bar>x\<bar> < 2 ^ 53"

lemma small_double_minus: "small_double (- x) \<longleftrightarrow> small_double x"
proof -
  have "small_double (- y)" if "small_double y" for y
  proof -
    from that obtain m e where m: "y = of_int m * 2 powi e" "\<bar>m\<bar> < 2 ^ 53" "- 1074 \<le> e" and y: "\<bar>y\<bar> < 2 ^ 53"
      by (auto simp: small_double_def)
    from m have "- y = of_int (- m) * 2 powi e \<and> \<bar>- m\<bar> < 2 ^ 53 \<and> - 1074 \<le> e" by simp
    then show ?thesis unfolding small_double_def using y by (metis abs_minus_cancel)
  qed
  from this [of x] this [of "- x"] show ?thesis by auto
qed

text \<open>Rounding and truncation do not depend on the sign.\<close>

lemma round_half_even_minus: "round_half_even (- x) = - round_half_even x"
proof (cases "x = of_int \<lfloor>x\<rfloor>")
  case True
  have "round_half_even (of_int i) = i" for i by (simp add: round_half_even_def)
  from this [of "\<lfloor>x\<rfloor>"] this [of "- \<lfloor>x\<rfloor>"] show ?thesis using True by simp
next
  case False
  then have fl: "of_int \<lfloor>x\<rfloor> < x" "x < of_int \<lfloor>x\<rfloor> + 1" by linarith+
  then have "\<lfloor>- x\<rfloor> = - \<lfloor>x\<rfloor> - 1" by linarith
  then show ?thesis unfolding round_half_even_def Let_def by (auto split: if_splits)
qed

lemma rnd_minus: "rnd (- x) = - rnd x"
  by (simp add: rnd_def Let_def minus_divide_left [symmetric] round_half_even_minus del: minus_divide_left)

lemma trunc_minus: "trunc (- x) = - trunc x"
  by (auto simp: trunc_def ceiling_def)

lemma flog2_less: "0 < r \<Longrightarrow> r < 2 powi k \<Longrightarrow> flog2 r < k"
  using flog2_bounds(1) [of r] power_int_increasing [of k "flog2 r" "2::rat"] by fastforce

lemma to_double_fin: "\<bar>rnd r\<bar> < 2 powi 1024 \<Longrightarrow> to_double r = Fin (rnd r)"
  using flog2_less [of "\<bar>rnd r\<bar>" 1024] by (auto simp: to_double_def Let_def)

lemma small_frac:
  assumes "small_double x" "0 \<le> x"
  shows "rnd (x - of_int \<lfloor>x\<rfloor>) = x - of_int \<lfloor>x\<rfloor>"
proof -
  obtain m e where x: "x = of_int m * 2 powi e" and m: "\<bar>m\<bar> < 2 ^ 53" and e: "- 1074 \<le> e" and pos: "0 \<le> x"
    using assms by (auto simp: small_double_def)
  show ?thesis
  proof (cases "0 \<le> e")
    case True
    then have "x = of_int (m * 2 ^ nat e)" by (simp add: x power_int_def)
    then show ?thesis by (simp only: floor_of_int diff_self rnd_zero)
  next
    case False
    then have p: "(2::rat) powi e * of_int (2 ^ nat (- e)) = 1"
      by (simp add: power_int_def flip: power_mult_distrib)
    let ?m = "m - \<lfloor>x\<rfloor> * 2 ^ nat (- e)"
    have eq: "x - of_int \<lfloor>x\<rfloor> = of_int ?m * 2 powi e"
    proof -
      have "of_int ?m * 2 powi e = x - of_int \<lfloor>x\<rfloor> * (2 powi e * of_int (2 ^ nat (- e)))"
        by (simp add: x algebra_simps)
      then show ?thesis by (simp only: p mult_1_right)
    qed
    have "0 \<le> x - of_int \<lfloor>x\<rfloor>" by simp
    then have "(0::rat) \<le> of_int ?m" 
      unfolding eq using zero_less_power_int [of "2::rat" e] by (simp only: zero_le_mult_iff) linarith
    then have "0 \<le> ?m" by (simp only: of_int_0_le_iff)
    moreover have "?m \<le> m" using pos by simp
    ultimately have "\<bar>?m\<bar> < 2 ^ 53" using m by linarith
    from rnd_exact [OF this e eq] show ?thesis .
  qed
qed

text \<open>The product with a billion is off by less than a millionth, and truncation by less than one.\<close>

lemma rnd_billion:
  assumes "0 \<le> f" "f < 1"
  shows "\<bar>rnd (f * 1000000000) - f * 1000000000\<bar> \<le> 1 / 1000000" "0 \<le> rnd (f * 1000000000)"
proof -
  let ?r = "f * 1000000000"
  have "\<bar>rnd ?r - ?r\<bar> \<le> 1 / 1000000 \<and> 0 \<le> rnd ?r"
  proof (cases "?r = 0")
    case False
    then have pos: "0 < ?r" using assms by simp
    obtain E where E: "E = max (- 1074) (flog2 \<bar>?r\<bar> - 52)" by simp
    have rnd: "rnd ?r = of_int (round_half_even (?r / 2 powi E)) * 2 powi E"
      using pos by (simp add: rnd_def E Let_def)
    have "?r < 2 powi 30" using assms by (simp add: power_int_def)
    then have "flog2 \<bar>?r\<bar> < 30" using pos flog2_less by simp
    then have "(2::rat) powi E \<le> 2 powi (- 22)" by (intro power_int_increasing) (auto simp: E)
    moreover have "(2::rat) powi (- 22) = 1 / 4194304" by (simp add: power_int_def power_one_over)
    ultimately have small: "(2::rat) powi E / 2 \<le> 1 / 1000000" by linarith
    have "rnd ?r - ?r = (of_int (round_half_even (?r / 2 powi E)) - ?r / 2 powi E) * 2 powi E"
      unfolding rnd by (simp add: left_diff_distrib)
    then have "\<bar>rnd ?r - ?r\<bar> = \<bar>of_int (round_half_even (?r / 2 powi E)) - ?r / 2 powi E\<bar> * 2 powi E"
      by (simp add: abs_mult)
    also have "\<dots> \<le> 1 / 2 * 2 powi E" by (intro mult_right_mono round_half_even_error) simp
    finally have err: "\<bar>rnd ?r - ?r\<bar> \<le> 1 / 1000000" using small by simp
    have "- (1 / 2) \<le> of_int (round_half_even (?r / 2 powi E)) - ?r / 2 powi E"
      using round_half_even_error [of "?r / 2 powi E"] by linarith
    moreover have "0 < ?r / 2 powi E" using pos by simp
    ultimately have "(- 1 :: rat) < of_int (round_half_even (?r / 2 powi E))" by linarith
    then have "0 \<le> round_half_even (?r / 2 powi E)" by linarith
    then have "0 \<le> rnd ?r" unfolding rnd by simp
    with err show ?thesis by simp
  qed simp
  then show "\<bar>rnd ?r - ?r\<bar> \<le> 1 / 1000000" "0 \<le> rnd ?r" by auto
qed

lemma big_power: "(2::rat) powi 53 \<le> 2 powi 1024"
  by (intro power_int_increasing) auto

lemma to_double_small: "\<bar>rnd r\<bar> \<le> 2 ^ 53 - 1 \<Longrightarrow> to_double r = Fin (rnd r)"
  using big_power by (intro to_double_fin) (simp add: power_int_def)

lemma float_of_int_small: "\<bar>n\<bar> < 2 ^ 53 \<Longrightarrow> float_of_int n = Inr (Fin (of_int n))"
proof -
  assume n: "\<bar>n\<bar> < 2 ^ 53"
  then have "\<bar>n\<bar> \<le> 2 ^ 53 - 1" by linarith
  then have "(of_int \<bar>n\<bar> :: rat) \<le> of_int (2 ^ 53 - 1)" by (simp only: of_int_le_iff)
  then have "to_double (of_int n) = Fin (of_int n)" using to_double_small [of "of_int n"] rnd_int [OF n] by simp
  then show ?thesis by (simp add: float_of_int_def)
qed

lemma split_secs_float:
  assumes "small_double x" "0 \<le> x"
  defines "f \<equiv> x - of_int \<lfloor>x\<rfloor>"
  shows "split_secs (PFloat (Fin x)) = Inr (\<lfloor>x\<rfloor>, \<lfloor>rnd (f * 1000000000)\<rfloor>)"
proof -
  have x: "0 \<le> x" "x < 2 ^ 53" using assms(1,2) by (auto simp: small_double_def)
  have fl: "\<bar>\<lfloor>x\<rfloor>\<bar> < 2 ^ 53" using x by (simp add: floor_less_iff)
  have f: "0 \<le> f" "f < 1" unfolding f_def by linarith+
  have "rnd f = f" unfolding f_def using assms(1,2) by (rule small_frac)
  then have "to_double f = Fin f" using f to_double_small [of f] by simp
  then have sub: "float_sub (Fin x) (Fin (of_int \<lfloor>x\<rfloor>)) = Fin f" by (simp add: float_sub_def f_def)
  have "\<bar>rnd (f * 1000000000)\<bar> \<le> 1000000001" using rnd_billion [OF f] f by linarith
  then have "\<bar>rnd (f * 1000000000)\<bar> \<le> 2 ^ 53 - 1" by simp
  then have "to_double (f * 1000000000) = Fin (rnd (f * 1000000000))" by (rule to_double_small)
  then show ?thesis
    using float_of_int_small [OF fl] float_of_int_small [of billion] sub x rnd_billion(2) [OF f]
    by (simp add: trunc_def)
qed

lemma split_secs_minus:
  assumes "split_secs (PFloat (Fin x)) = Inr (s, n)" and x: "small_double x" "0 \<le> x"
  shows "split_secs (PFloat (Fin (- x))) = Inr (- s, - n)"
proof -
  have fl: "\<bar>\<lfloor>x\<rfloor>\<bar> < 2 ^ 53" "\<bar>- \<lfloor>x\<rfloor>\<bar> < 2 ^ 53" using x by (simp_all add: small_double_def floor_less_iff)
  have tr: "trunc x = \<lfloor>x\<rfloor>" "trunc (- x) = - \<lfloor>x\<rfloor>" using x(2) by (simp_all add: trunc_minus) (simp_all add: trunc_def)
  define f where "f = x - of_int \<lfloor>x\<rfloor>"
  have f: "0 \<le> f" "f < 1" unfolding f_def by linarith+
  have rf: "rnd f = f" unfolding f_def using x by (rule small_frac)
  have rm: "rnd (- f) = - f" using rf by (simp add: rnd_minus)
  have fin: "to_double f = Fin f" "to_double (- f) = Fin (- f)"
    using f to_double_small [of f] to_double_small [of "- f"] rf rm by simp_all
  have sub: "float_sub (Fin x) (Fin (of_int \<lfloor>x\<rfloor>)) = Fin f"
    "float_sub (Fin (- x)) (Fin (of_int (- \<lfloor>x\<rfloor>))) = Fin (- f)"
    using fin by (simp_all add: float_sub_def f_def)
  let ?r = "rnd (f * 1000000000)"
  have "\<bar>?r\<bar> \<le> 1000000001" using rnd_billion [OF f] f by linarith
  then have "\<bar>?r\<bar> \<le> 2 ^ 53 - 1" by simp
  then have mul: "to_double (f * 1000000000) = Fin ?r" "to_double (- (f * 1000000000)) = Fin (- ?r)"
    using to_double_small [of "f * 1000000000"] to_double_small [of "- (f * 1000000000)"]
    by (simp_all add: rnd_minus)
  have "s = \<lfloor>x\<rfloor>" "n = trunc ?r"
    using assms(1) float_of_int_small [OF fl(1)] float_of_int_small [of billion] sub(1) mul(1) tr(1) by auto
  then show ?thesis
    using float_of_int_small [OF fl(2)] float_of_int_small [of billion] sub(2) mul(2) tr(2) by (simp add: trunc_minus)
qed

lemma split_secs_accuracy:
  assumes "small_double x"
  shows "\<exists>s n. split_secs (PFloat (Fin x)) = Inr (s, n) \<and>
    \<bar>of_int (s * billion + n) - x * 1000000000\<bar> < 1 + 1 / 1000000 \<and> (0 \<le> x \<longrightarrow> 0 \<le> s * billion + n)"
proof -
  have pos: "\<exists>s n. split_secs (PFloat (Fin y)) = Inr (s, n) \<and>
    \<bar>of_int (s * billion + n) - y * 1000000000\<bar> < 1 + 1 / 1000000 \<and> 0 \<le> s * billion + n"
    if y: "small_double y" "0 \<le> y" for y
  proof -
    define f where "f = y - of_int \<lfloor>y\<rfloor>"
    have f: "0 \<le> f" "f < 1" unfolding f_def by linarith+
    let ?n = "\<lfloor>rnd (f * 1000000000)\<rfloor>"
    have sp: "split_secs (PFloat (Fin y)) = Inr (\<lfloor>y\<rfloor>, ?n)" using split_secs_float [OF y] by (simp add: f_def)
    have "0 \<le> ?n" using rnd_billion(2) [OF f] by simp
    then have nn: "0 \<le> \<lfloor>y\<rfloor> * billion + ?n" using y(2) by simp
    have "(of_int (\<lfloor>y\<rfloor> * billion + ?n) :: rat) - y * 1000000000 = of_int ?n - f * 1000000000"
      by (simp add: f_def algebra_simps)
    moreover have "of_int ?n \<le> rnd (f * 1000000000)" "rnd (f * 1000000000) < of_int ?n + 1" by linarith+
    ultimately have "\<bar>of_int (\<lfloor>y\<rfloor> * billion + ?n) - y * 1000000000\<bar> < 1 + 1 / 1000000"
      using rnd_billion(1) [OF f] by linarith
    with sp nn show ?thesis by blast
  qed
  show ?thesis
  proof (cases "0 \<le> x")
    case True
    then show ?thesis using pos [OF assms] by blast
  next
    case False
    then have m: "small_double (- x)" "0 \<le> - x" using assms by (simp_all add: small_double_minus)
    from pos [OF m] obtain s n where sn: "split_secs (PFloat (Fin (- x))) = Inr (s, n)"
      "\<bar>of_int (s * billion + n) - (- x) * 1000000000\<bar> < 1 + 1 / 1000000" by blast
    have "split_secs (PFloat (Fin x)) = Inr (- s, - n)" using split_secs_minus [OF sn(1) m] by simp
    moreover have "\<bar>of_int (- s * billion + - n) - x * 1000000000\<bar> < 1 + 1 / 1000000"
      using sn(2) by (simp add: abs_if split: if_splits)
    ultimately show ?thesis using False by blast
  qed
qed

section \<open>Properties\<close>

text \<open>Canonical form. Constructing a duration from integers always succeeds and gives the
  only value with nanoseconds below one second and the same total; a time is constructed exactly when the
  total is not negative, and is a \<open>TypeError\<close> otherwise.\<close>

theorem tval_canonical_form:
  "(\<exists>!t. canonical t \<and> to_nsec t = s * billion + n) \<and>
   (\<exists>d. Duration_init (PInt s) n = Inr d \<and> canonical d \<and> to_nsec d = s * billion + n) \<and>
   Time_init (PInt s) n = (if s * billion + n < 0 then Inl TypeError else Duration_init (PInt s) n)"
proof -
  have "\<exists>!t. canonical t \<and> to_nsec t = s * billion + n"
    by (rule ex1I [of _ "of_nsec (s * billion + n)"]) (use of_nsec_to_nsec in force)+
  then show ?thesis by (simp add: init_int Let_def)
qed

text \<open>Times and durations. The difference of two times is the duration that leads from one
  to the other; a time plus a duration is refused exactly when the sum is before the epoch, and
  otherwise subtracting the duration leads back.\<close>

theorem time_add_sub_roundtrip:
  assumes "canonical a" "canonical b" "0 \<le> secs a" "canonical d"
  shows "(\<exists>e. Time_sub a (OTime b) = Some (Inr (ODuration e)) \<and> canonical e \<and>
      to_nsec e = to_nsec a - to_nsec b \<and> Time_add b (ODuration e) = Some (Inr a)) \<and>
    (Time_add a (ODuration d) = Some (Inl TypeError) \<longleftrightarrow> to_nsec a + to_nsec d < 0) \<and>
    (\<forall>t. Time_add a (ODuration d) = Some (Inr t) \<longrightarrow>
       canonical t \<and> 0 \<le> secs t \<and> Time_sub t (ODuration d) = Some (Inr (OTime a)))"
proof -
  have a: "of_nsec (to_nsec a) = a" "0 \<le> to_nsec a" "\<not> to_nsec a < 0"
    using assms by (simp_all add: of_nsec_to_nsec) (simp_all add: to_nsec_def canonical_def)
  have "0 \<le> secs (of_nsec k)" if "\<not> k < 0" for k using that secs_of_nsec_neg [of k] by simp
  then show ?thesis using a
    by (auto simp: Time_sub_def Time_add_def init_nsec time_init_nsec split: if_splits)
qed

theorem time_add_sub_roundtrip_witness:
  "Time_sub (TVal 10 5) (OTime (TVal 3 999999999)) = Some (Inr (ODuration (TVal 6 6))) \<and>
   Time_add (TVal 1 0) (ODuration (TVal (- 2) 0)) = Some (Inl TypeError)"
  using time_add_sub_roundtrip [of "TVal 10 5" "TVal 3 999999999" "TVal 0 0"]
    time_add_sub_roundtrip [of "TVal 1 0" "TVal 1 0" "TVal (- 2) 0"]
  by (simp add: canonical_def to_nsec_def) (simp add: Time_sub_def Duration_init_def TVal_init_def canon_pair_def)

text \<open>C26: the arithmetic of durations is integer arithmetic on nanoseconds: sum, difference,
  negation, product with an integer, and on canonical values also the absolute value.\<close>

theorem duration_arithmetic_refines_integers:
  "Duration_add a (ODuration b) = Some (Inr (of_nsec (to_nsec a + to_nsec b))) \<and>
   Duration_sub a (ODuration b) = Some (Inr (of_nsec (to_nsec a - to_nsec b))) \<and>
   Duration_neg a = Inr (of_nsec (- to_nsec a)) \<and>
   Duration_mul a (ONum (PInt v)) = Some (Inr (of_nsec (to_nsec a * v))) \<and>
   (canonical a \<longrightarrow> Duration_abs a = Inr (of_nsec \<bar>to_nsec a\<bar>))"
proof -
  have "of_nsec \<bar>to_nsec a\<bar> = (if 0 \<le> secs a then a else of_nsec (- to_nsec a))" if "canonical a"
  proof (cases "0 \<le> secs a")
    case True
    then have "0 \<le> to_nsec a" using that by (simp add: to_nsec_def canonical_def)
    then show ?thesis using True that by (simp add: of_nsec_to_nsec)
  next
    case False
    then have "to_nsec a < 0" using that by (simp add: to_nsec_def canonical_def)
    then show ?thesis using False by simp
  qed
  then show ?thesis
    by (simp add: Duration_add_def Duration_sub_def Duration_neg_def Duration_abs_def Duration_mul_def init_nsec)
qed

theorem duration_arithmetic_refines_integers_witness:
  "canonical (TVal (- 1) 500000000) \<and> Duration_abs (TVal (- 1) 500000000) = Inr (TVal 0 500000000)"
  using duration_arithmetic_refines_integers [of "TVal (- 1) 500000000"]
  by (simp add: canonical_def to_nsec_def of_nsec_def)

text \<open>The order of times. On canonical values the comparison of nanoseconds and the
  field-wise equality fit together: exactly one of \<open><\<close>, \<open>==\<close> and \<open>>\<close> holds, and \<open><=\<close> is \<open><\<close> or \<open>==\<close>.\<close>

theorem time_order_consistent:
  assumes "canonical a" "canonical b"
  shows "TVal_lt Time_cmp a (OTime b) = Some (a < b) \<and> TVal_gt Time_cmp a (OTime b) = Some (b < a) \<and>
    TVal_le Time_cmp a (OTime b) = Some (a < b \<or> Time_eq a (OTime b)) \<and>
    TVal_ge Time_cmp a (OTime b) = Some (b < a \<or> Time_eq a (OTime b)) \<and>
    (a < b \<or> Time_eq a (OTime b) \<or> b < a) \<and> \<not> (a < b \<and> b < a) \<and>
    (Time_eq a (OTime b) \<longrightarrow> \<not> a < b \<and> \<not> b < a)"
proof -
  have eq: "Time_eq a (OTime b) \<longleftrightarrow> to_nsec a = to_nsec b"
    using nsec.val_inj [OF assms] by (auto simp: Time_eq_def tval.expand)
  show ?thesis
    by (auto simp: TVal_lt_def TVal_gt_def TVal_le_def TVal_ge_def Time_cmp_def cmp_test_def cmp_nsec_sign
        eq less_eq_tval_def less_tval_def)
qed

theorem time_order_consistent_witness:
  "TVal_lt Time_cmp (TVal 1 2) (OTime (TVal 1 3)) = Some True"
  using time_order_consistent [of "TVal 1 2" "TVal 1 3"] by (simp add: canonical_def less_tval_def to_nsec_def)

text \<open>C27: \<open>from_sec\<close> of a float, positive or negative. For a double below $2^{53}$ seconds in absolute
  value the duration is constructed without an exception, is canonical and less than a nanosecond and a
  millionth away from the float. The time is the same value, except that a value below zero is a
  \<open>TypeError\<close>, which no float from zero on is.\<close>

theorem from_sec_accuracy:
  assumes "small_double x"
  shows "\<exists>t. from_sec Duration_init (PFloat (Fin x)) = Inr t \<and> canonical t \<and>
    \<bar>of_int (to_nsec t) - x * 1000000000\<bar> < 1 + 1 / 1000000 \<and>
    from_sec Time_init (PFloat (Fin x)) = (if to_nsec t < 0 then Inl TypeError else Inr t) \<and>
    (0 \<le> x \<longrightarrow> 0 \<le> to_nsec t)"
proof -
  obtain s n where sp: "split_secs (PFloat (Fin x)) = Inr (s, n)"
    and k: "\<bar>of_int (s * billion + n) - x * 1000000000\<bar> < 1 + 1 / 1000000" "0 \<le> x \<longrightarrow> 0 \<le> s * billion + n"
    using split_secs_accuracy [OF assms] by blast
  have "from_sec Duration_init (PFloat (Fin x)) = Inr (of_nsec (s * billion + n))"
    "from_sec Time_init (PFloat (Fin x)) =
       (if s * billion + n < 0 then Inl TypeError else Inr (of_nsec (s * billion + n)))"
    unfolding from_sec_def sp by (simp_all add: init_int Let_def)
  then show ?thesis using k by (intro exI [of _ "of_nsec (s * billion + n)"]) simp
qed

theorem from_sec_accuracy_witness:
  "(\<exists>t. from_sec Time_init (PFloat (Fin (5 / 2))) = Inr t \<and> canonical t \<and>
    \<bar>of_int (to_nsec t) - (5 / 2 :: rat) * 1000000000\<bar> < 1 + 1 / 1000000) \<and>
   from_sec Time_init (PFloat (Fin (- 1 / 2))) = Inl TypeError"
proof -
  have "(5 / 2 :: rat) = of_int 5 * 2 powi (- 1)" "(- 1 / 2 :: rat) = of_int (- 1) * 2 powi (- 1)"
    by (simp_all add: power_int_def)
  then have "small_double (5 / 2)" "small_double (- 1 / 2)" unfolding small_double_def by fastforce+
  from this [THEN from_sec_accuracy] show ?thesis by (fastforce split: if_splits)
qed

end
