(* ===== verification/Messages.thy ===== *)
theory Messages
  imports Msgs Rostime Struct_Patterns
begin

text \<open>
  The support library of generated messages, \<open>genpy/message.py\<close>: the dynamic type checker
  \<open>check_type\<close>, the \<open>Message\<close> base class, and the filling of a message from the values of a
  command line. A value is a \<open>pyval\<close>; a message carries its type name and its slots with their
  types, as its class does. The slots of a time may hold any value, because \<open>setattr\<close> checks nothing.
  The classes of messages are an argument: \<open>get_message_class\<close> imports them. Filling
  changes the message in place; the model returns the filled message, and what is left of a message
  after an exception is not modelled. Printing needs a YAML library and is not modelled.
\<close>

section \<open>Values\<close>

datatype pyval =
    VNone | VBool bool | VInt int | VFloat pyfloat | VStr string | VBytes string
  | VList "pyval list" | VTuple "pyval list" | VDict "(string \<times> pyval) list"
  | VTime pyval pyval | VDuration pyval pyval
  | VMsg string "(string \<times> string \<times> pyval) list"

section \<open>The type checker\<close>

definition signed_types :: "string list" where
  "signed_types = [''byte'', ''int8'', ''int16'', ''int32'', ''int64'']"

definition unsigned_types :: "string list" where
  "unsigned_types = [''char'', ''uint8'', ''uint16'', ''uint32'', ''uint64'']"

definition widths :: "string \<rightharpoonup> nat" where
  "widths = map_of [(''byte'', 8), (''char'', 8), (''int8'', 8), (''uint8'', 8), (''int16'', 16), (''uint16'', 16),
     (''int32'', 32), (''uint32'', 32), (''int64'', 64), (''uint64'', 64)]"

definition width :: "string \<Rightarrow> nat" where
  "width t = the (widths t)"

text \<open>\<open>field_val in [True, False, 0, 1]\<close>\<close>

fun is_bool_like :: "pyval \<Rightarrow> bool" where
  "is_bool_like (VBool b) \<longleftrightarrow> True"
| "is_bool_like (VInt i) \<longleftrightarrow> i = 0 \<or> i = 1"
| "is_bool_like (VFloat (Fin x)) \<longleftrightarrow> x = 0 \<or> x = 1"
| "is_bool_like v \<longleftrightarrow> False"

definition check_simple :: "string \<Rightarrow> pyval \<Rightarrow> unit res" where
  "check_simple t v =
     (if t \<in> set signed_types then
        (case v of VInt i \<Rightarrow> let maxval = 2 ^ (width t - 1) in
           if i \<ge> maxval \<or> i \<le> - maxval then Inl SerializationError else Inr ()
         | _ \<Rightarrow> Inl SerializationError)
      else if t \<in> set unsigned_types then
        (case v of VInt i \<Rightarrow>
           if i < 0 then Inl SerializationError
           else if i \<ge> 2 ^ width t then Inl SerializationError else Inr ()
         | _ \<Rightarrow> Inl SerializationError)
      else if t = ''bool'' then (if is_bool_like v then Inr () else Inl SerializationError)
      else Inr ())"

fun check_string :: "pyval \<Rightarrow> unit res" where
  "check_string (VStr s) = (if list_all (\<lambda>c. of_char c < (128 :: nat)) s then Inr () else Inl SerializationError)"
| "check_string (VBytes s) = Inr ()"
| "check_string v = Inl SerializationError"

definition header_types :: "string list" where
  "header_types = [''std_msgs/Header'', ''roslib/Header'']"

definition type_matches :: "string \<Rightarrow> string \<Rightarrow> bool" where
  "type_matches field_type msg_type \<longleftrightarrow>
     (if msg_type \<in> set header_types then field_type \<in> set (''Header'' # header_types) else msg_type = field_type)"

definition array_base :: "string \<Rightarrow> string" where
  "array_base t = slice_to t (py_find CHR ''['' t)"

text \<open>The name of the field only goes into the message of the exception.\<close>

fun check_type :: "string \<Rightarrow> pyval \<Rightarrow> unit res"
  and check_list :: "string \<Rightarrow> pyval list \<Rightarrow> unit res"
  and check_slots :: "(string \<times> string \<times> pyval) list \<Rightarrow> unit res" where
  "check_type t v =
     (if is_simple t then check_simple t v
      else if t = ''string'' then check_string v
      else if t = ''time'' then (case v of VTime s n \<Rightarrow> Inr () | _ \<Rightarrow> Inl SerializationError)
      else if t = ''duration'' then (case v of VDuration s n \<Rightarrow> Inr () | _ \<Rightarrow> Inl SerializationError)
      else if endswith t '']'' then
        (if CHR ''['' \<notin> set t then Inl ValueError
         else case v of
           VStr s \<Rightarrow> if array_base t \<in> {''char'', ''uint8''} then Inr () else Inl SerializationError
         | VList vs \<Rightarrow> check_list (array_base t) vs
         | VTuple vs \<Rightarrow> check_list (array_base t) vs
         | _ \<Rightarrow> Inl SerializationError)
      else (case v of
           VMsg ty slots \<Rightarrow> if type_matches t ty then check_slots slots else Inl SerializationError
         | _ \<Rightarrow> Inl SerializationError))"
| "check_list t [] = Inr ()"
| "check_list t (v # vs) = rbind (check_type t v) (\<lambda>_. check_list t vs)"
| "check_slots [] = Inr ()"
| "check_slots ((n, t, v) # slots) = rbind (check_type t v) (\<lambda>_. check_slots slots)"

declare check_type.simps [simp del]

section \<open>The Message class\<close>

text \<open>A class is its type name with the names and types of its slots.\<close>

type_synonym msg_class = "string \<times> (string \<times> string) list"

definition message_init :: "msg_class \<Rightarrow> pyval list \<Rightarrow> (string \<times> pyval) list \<Rightarrow> pyval res" where
  "message_init cls args kwds = (case cls of (ty, slots) \<Rightarrow>
     if args \<noteq> [] \<and> kwds \<noteq> [] then Inl TypeError
     else if args \<noteq> [] then
       (if length args \<noteq> length slots then Inl TypeError
        else Inr (VMsg ty (map2 (\<lambda>(n, t) v. (n, t, v)) slots args)))
     else if list_ex (\<lambda>(k, v). k \<notin> set (map fst slots)) kwds then Inl AttributeError
     else Inr (VMsg ty (map (\<lambda>(n, t). (n, t, case map_of kwds n of Some v \<Rightarrow> v | None \<Rightarrow> VNone)) slots)))"

definition getstate :: "(string \<times> string \<times> pyval) list \<Rightarrow> pyval list" where
  "getstate slots = map (\<lambda>(n, t, v). v) slots"

fun setstate :: "(string \<times> string \<times> pyval) list \<Rightarrow> pyval list \<Rightarrow> (string \<times> string \<times> pyval) list" where
  "setstate ((n, t, v) # slots) (x # xs) = (n, t, x) # setstate slots xs"
| "setstate slots _ = slots"

text \<open>\<open>exc\<close> is the exception that gave cause for the check, if any.\<close>

definition check_types :: "(string \<times> string \<times> pyval) list \<Rightarrow> py_error option \<Rightarrow> unit res" where
  "check_types slots exc = rbind (check_slots slots) (\<lambda>_. if exc \<noteq> None then Inl SerializationError else Inr ())"

section \<open>Filling a message\<close>

fun is_msg :: "pyval \<Rightarrow> bool" where
  "is_msg (VMsg t s) \<longleftrightarrow> True" | "is_msg v \<longleftrightarrow> False"

fun is_tval :: "pyval \<Rightarrow> bool" where
  "is_tval (VTime s n) \<longleftrightarrow> True" | "is_tval (VDuration s n) \<longleftrightarrow> True" | "is_tval v \<longleftrightarrow> False"

text \<open>The slots of a message or a time, with the types the class of a message gives them.\<close>

fun slots_of :: "pyval \<Rightarrow> (string \<times> string \<times> pyval) list" where
  "slots_of (VMsg t slots) = slots"
| "slots_of (VTime s n) = [(''secs'', [], s), (''nsecs'', [], n)]"
| "slots_of (VDuration s n) = [(''secs'', [], s), (''nsecs'', [], n)]"
| "slots_of v = []"

definition update_slots :: "string \<Rightarrow> pyval \<Rightarrow> (string \<times> string \<times> pyval) list \<Rightarrow> (string \<times> string \<times> pyval) list" where
  "update_slots f x slots = map (\<lambda>(n, t, v). (n, t, if n = f then x else v)) slots"

fun setattr :: "pyval \<Rightarrow> string \<Rightarrow> pyval \<Rightarrow> pyval" where
  "setattr (VMsg t slots) f x = VMsg t (update_slots f x slots)"
| "setattr (VTime s n) f x = (if f = ''secs'' then VTime x n else if f = ''nsecs'' then VTime s x else VTime s n)"
| "setattr (VDuration s n) f x =
     (if f = ''secs'' then VDuration x n else if f = ''nsecs'' then VDuration s x else VDuration s n)"
| "setattr v f x = v"

text \<open>A time from a number of nanoseconds: \<open>Time.from_sec(v / 1e9)\<close>.\<close>

definition seconds_of :: "int \<Rightarrow> num res" where
  "seconds_of i = rbind (float_of_int i) (\<lambda>x. rbind (float_div x (Fin 1000000000)) (\<lambda>q. Inr (PFloat q)))"

fun time_of_int :: "pyval \<Rightarrow> int \<Rightarrow> pyval res" where
  "time_of_int (VTime s n) i = rbind (seconds_of i) (\<lambda>x. rbind (from_sec Time_init x)
     (\<lambda>t. Inr (VTime (VInt (secs t)) (VInt (nsecs t)))))"
| "time_of_int (VDuration s n) i = rbind (seconds_of i) (\<lambda>x. rbind (from_sec Duration_init x)
     (\<lambda>t. Inr (VDuration (VInt (secs t)) (VInt (nsecs t)))))"
| "time_of_int v i = Inl MessageException"

definition none_to_empty :: "pyval \<Rightarrow> pyval" where
  "none_to_empty v = (if v = VNone then VStr [] else v)"

lemma size_none_to_empty [termination_simp]: "size (none_to_empty v) \<le> Suc (size v)"
  by (simp add: none_to_empty_def)

definition length_ok :: "int option \<Rightarrow> 'a list \<Rightarrow> bool" where
  "length_ok len vs \<longleftrightarrow> (case len of None \<Rightarrow> True | Some n \<Rightarrow> int (length vs) = n)"

text \<open>\<open>_fill_val\<close> and \<open>_fill_message_args\<close>, with the loops over a dictionary, over the slots and over
  the elements of a list. \<open>cls\<close> gives a new instance of the class of a type, \<open>keys\<close> the
  substitute values.\<close>

type_synonym instances = "string \<Rightarrow> pyval option res"

definition fill_primitive_list :: "pyval \<Rightarrow> string \<Rightarrow> pyval \<Rightarrow> pyval list \<Rightarrow> int option \<Rightarrow> pyval res" where
  "fill_primitive_list msg f v vs len = (if length_ok len vs then Inr (setattr msg f v) else Inl MessageException)"

fun elements :: "pyval \<Rightarrow> pyval list option" where
  "elements (VList vs) = Some vs" | "elements (VTuple vs) = Some vs" | "elements v = None"

lemma elements_size [termination_simp]: "elements v = Some vs \<Longrightarrow> size_list size vs < size v"
  by (cases v) auto

function (sequential) fill_val :: "instances \<Rightarrow> (string \<rightharpoonup> pyval) \<Rightarrow> pyval \<Rightarrow> string \<Rightarrow> pyval \<Rightarrow> pyval res"
  and fill_args :: "instances \<Rightarrow> (string \<rightharpoonup> pyval) \<Rightarrow> pyval \<Rightarrow> pyval \<Rightarrow> pyval res"
  and fill_items :: "instances \<Rightarrow> (string \<rightharpoonup> pyval) \<Rightarrow> pyval \<Rightarrow> (string \<times> pyval) list \<Rightarrow> pyval res"
  and fill_zip :: "instances \<Rightarrow> (string \<rightharpoonup> pyval) \<Rightarrow> pyval \<Rightarrow> string list \<Rightarrow> pyval list \<Rightarrow> pyval res"
  and fill_elements :: "instances \<Rightarrow> (string \<rightharpoonup> pyval) \<Rightarrow> pyval \<Rightarrow> pyval list \<Rightarrow> pyval list res"
  where
  "fill_val cls keys msg f v = (case map_of (slots_of msg) f of
     None \<Rightarrow> Inl MessageException
   | Some (t, d) \<Rightarrow>
       if is_msg d \<or> is_tval d then
         (case v of
            VStr s \<Rightarrow> (case keys s of Some k \<Rightarrow> Inr (setattr msg f k) | None \<Rightarrow> Inl MessageException)
          | VInt i \<Rightarrow> if is_tval d then rbind (time_of_int d i) (\<lambda>x. Inr (setattr msg f x))
                     else rbind (fill_args cls keys d v) (\<lambda>x. Inr (setattr msg f x))
          | _ \<Rightarrow> rbind (fill_args cls keys d v) (\<lambda>x. Inr (setattr msg f x)))
       else (case d of
            VList ds \<Rightarrow> (case elements v of
                None \<Rightarrow> Inl MessageException
              | Some vs \<Rightarrow> (case parse_type t of
                  Inl e \<Rightarrow> Inl e
                | Inr (base_type, is_array, len) \<Rightarrow>
                    if base_type \<in> set PRIMITIVE_TYPES then fill_primitive_list msg f v vs len
                    else if \<not> length_ok len vs then Inl MessageException
                    else (case cls base_type of
                        Inl e \<Rightarrow> Inl e
                      | Inr None \<Rightarrow> Inl MessageException
                      | Inr (Some inner) \<Rightarrow> rbind (fill_elements cls keys inner vs) (\<lambda>es. Inr (setattr msg f (VList es))))))
          | _ \<Rightarrow> Inr (setattr msg f v)))"
| "fill_args cls keys msg args =
     (if \<not> (is_msg msg \<or> is_tval msg) then Inl ValueError
      else case args of
        VDict items \<Rightarrow> fill_items cls keys msg items
      | VList vs \<Rightarrow> if length vs \<noteq> length (slots_of msg) then Inl MessageException
                   else fill_zip cls keys msg (map fst (slots_of msg)) vs
      | _ \<Rightarrow> Inl ValueError)"
| "fill_items cls keys msg [] = Inr msg"
| "fill_items cls keys msg ((f, v) # items) =
     rbind (fill_val cls keys msg f (none_to_empty v)) (\<lambda>msg'. fill_items cls keys msg' items)"
| "fill_zip cls keys msg (f # fs) (v # vs) =
     rbind (fill_val cls keys msg f v) (\<lambda>msg'. fill_zip cls keys msg' fs vs)"
| "fill_zip cls keys msg fs vs = Inr msg"
| "fill_elements cls keys inner [] = Inr []"
| "fill_elements cls keys inner (el # els) =
     rbind (case el of
              VInt i \<Rightarrow> if is_tval inner then time_of_int inner i else fill_args cls keys inner el
            | _ \<Rightarrow> fill_args cls keys inner el)
       (\<lambda>x. rbind (fill_elements cls keys inner els) (\<lambda>xs. Inr (x # xs)))"
  by pat_completeness auto
termination
  by (relation "measure (\<lambda>x. case x of
      Inl (Inl (cls, keys, msg, f, v)) \<Rightarrow> 2 * size v + 1
    | Inl (Inr (cls, keys, msg, args)) \<Rightarrow> 2 * size args
    | Inr (Inl (cls, keys, msg, items)) \<Rightarrow> 2 * size_list (size_prod (\<lambda>_. 0) size) items + 1
    | Inr (Inr (Inl (cls, keys, msg, fs, vs))) \<Rightarrow> 2 * size_list size vs + 1
    | Inr (Inr (Inr (cls, keys, inner, els))) \<Rightarrow> 2 * size_list size els + 1)")
   (auto simp: elements_size none_to_empty_def)

declare fill_val.simps [simp del] fill_args.simps [simp del]

text \<open>A list with one dictionary is that dictionary; no arguments are an empty list.\<close>

definition fill_message_args :: "instances \<Rightarrow> pyval \<Rightarrow> pyval list option \<Rightarrow> (string \<rightharpoonup> pyval) \<Rightarrow> pyval res" where
  "fill_message_args cls msg msg_args keys =
     (case (case msg_args of None \<Rightarrow> [] | Some args \<Rightarrow> args) of
        [VDict items] \<Rightarrow> fill_args cls keys msg (VDict items)
      | args \<Rightarrow> fill_args cls keys msg (VList args))"

section \<open>What the type checker accepts\<close>

definition accepted :: "string \<Rightarrow> int \<Rightarrow> bool" where
  "accepted t i \<longleftrightarrow> (if t \<in> set signed_types then \<bar>i\<bar> < 2 ^ (width t - 1) else 0 \<le> i \<and> i < 2 ^ width t)"

definition representable :: "string \<Rightarrow> int \<Rightarrow> bool" where
  "representable t i \<longleftrightarrow>
     (if t \<in> set signed_types then - (2 ^ (width t - 1)) \<le> i \<and> i < 2 ^ (width t - 1) else 0 \<le> i \<and> i < 2 ^ width t)"

definition plain_type :: "string \<Rightarrow> bool" where
  "plain_type t \<longleftrightarrow> is_simple t \<or> t = ''string'' \<or> t = ''time'' \<or> t = ''duration''"

text \<open>The typing of values, for a given range of the integer types. The source checks nothing for the
  floating point types and not the length of an array.\<close>

inductive well_typed :: "(string \<Rightarrow> int \<Rightarrow> bool) \<Rightarrow> string \<Rightarrow> pyval \<Rightarrow> bool" for range where
  int_value: "t \<in> set signed_types \<union> set unsigned_types \<Longrightarrow> range t i \<Longrightarrow> well_typed range t (VInt i)"
| bool_value: "is_bool_like v \<Longrightarrow> well_typed range ''bool'' v"
| float_value: "t \<in> {''float32'', ''float64''} \<Longrightarrow> well_typed range t v"
| str_value: "list_all (\<lambda>c. of_char c < (128 :: nat)) s \<Longrightarrow> well_typed range ''string'' (VStr s)"
| bytes_value: "well_typed range ''string'' (VBytes s)"
| time_value: "well_typed range ''time'' (VTime s n)"
| duration_value: "well_typed range ''duration'' (VDuration s n)"
| byte_array: "\<not> plain_type t \<Longrightarrow> endswith t '']'' \<Longrightarrow> CHR ''['' \<in> set t \<Longrightarrow> array_base t \<in> {''char'', ''uint8''} \<Longrightarrow>
    well_typed range t (VStr s)"
| array: "\<not> plain_type t \<Longrightarrow> endswith t '']'' \<Longrightarrow> CHR ''['' \<in> set t \<Longrightarrow> elements v = Some vs \<Longrightarrow>
    (\<And>x. x \<in> set vs \<Longrightarrow> well_typed range (array_base t) x) \<Longrightarrow> well_typed range t v"
| message: "\<not> plain_type t \<Longrightarrow> \<not> endswith t '']'' \<Longrightarrow> type_matches t ty \<Longrightarrow>
    (\<And>n t' x. (n, t', x) \<in> set slots \<Longrightarrow> well_typed range t' x) \<Longrightarrow> well_typed range t (VMsg ty slots)"

lemma is_simple_cases: "is_simple t \<longleftrightarrow> t \<in> set signed_types \<or> t \<in> set unsigned_types \<or> t = ''bool'' \<or> t \<in> {''float32'', ''float64''}"
proof -
  have "is_simple t \<longleftrightarrow> t \<in> set (map fst simple_types_items)"
    by (simp add: is_simple_def SIMPLE_TYPES_DICT_def map_of_eq_None_iff)
  moreover have "set (map fst simple_types_items) = set (signed_types @ unsigned_types @ [''bool'', ''float32'', ''float64''])"
    by code_simp
  ultimately show ?thesis by auto
qed

lemma type_tables:
  "t \<in> set signed_types \<Longrightarrow> t \<notin> set unsigned_types \<and> t \<noteq> ''bool'' \<and> t \<notin> {''float32'', ''float64''} \<and> \<not> endswith t '']''"
  "t \<in> set unsigned_types \<Longrightarrow> t \<noteq> ''bool'' \<and> t \<notin> {''float32'', ''float64''}"
  "\<not> is_simple ''string''" "\<not> is_simple ''time''" "\<not> is_simple ''duration''"
proof -
  have "list_all (\<lambda>t. t \<notin> set unsigned_types \<and> t \<noteq> ''bool'' \<and> t \<notin> {''float32'', ''float64''} \<and> \<not> endswith t '']'') signed_types"
    "list_all (\<lambda>t. t \<noteq> ''bool'' \<and> t \<notin> {''float32'', ''float64''}) unsigned_types" by code_simp+
  then show "t \<in> set signed_types \<Longrightarrow> t \<notin> set unsigned_types \<and> t \<noteq> ''bool'' \<and> t \<notin> {''float32'', ''float64''} \<and> \<not> endswith t '']''"
    "t \<in> set unsigned_types \<Longrightarrow> t \<noteq> ''bool'' \<and> t \<notin> {''float32'', ''float64''}"
    by (auto simp: list_all_iff)
  show "\<not> is_simple ''string''" "\<not> is_simple ''time''" "\<not> is_simple ''duration''" by code_simp+
qed

lemma check_simple_iff:
  "check_simple t v = Inr () \<longleftrightarrow>
     (if t \<in> set signed_types \<or> t \<in> set unsigned_types then (\<exists>i. v = VInt i \<and> accepted t i)
      else t = ''bool'' \<longrightarrow> is_bool_like v)"
  using type_tables(1) [of t]
  by (cases v) (auto simp: check_simple_def accepted_def Let_def)

lemma accepted_representable: "accepted t i \<Longrightarrow> representable t i"
  by (auto simp: accepted_def representable_def split: if_splits)

lemma well_typed_mono:
  "well_typed R t v \<Longrightarrow> (\<And>t i. R t i \<Longrightarrow> R' t i) \<Longrightarrow> well_typed R' t v"
  by (induction rule: well_typed.induct) (auto intro: well_typed.intros)

lemma well_typed_simple:
  assumes "is_simple t"
  shows "well_typed R t v \<longleftrightarrow> (if t \<in> set signed_types \<or> t \<in> set unsigned_types then (\<exists>i. v = VInt i \<and> R t i)
      else t = ''bool'' \<longrightarrow> is_bool_like v)"
proof
  assume "well_typed R t v"
  then show "if t \<in> set signed_types \<or> t \<in> set unsigned_types then (\<exists>i. v = VInt i \<and> R t i) else t = ''bool'' \<longrightarrow> is_bool_like v"
    using assms type_tables(1,2) [of t] type_tables(1,2) [of "''bool''"] type_tables(1,2) [of "''float32''"]
    by cases (auto simp: plain_type_def type_tables(3-5))
next
  assume h: "if t \<in> set signed_types \<or> t \<in> set unsigned_types then (\<exists>i. v = VInt i \<and> R t i) else t = ''bool'' \<longrightarrow> is_bool_like v"
  consider (int) "t \<in> set signed_types \<union> set unsigned_types" | (bool) "t = ''bool''" | (float) "t \<in> {''float32'', ''float64''}"
    using assms by (auto simp: is_simple_cases)
  then show "well_typed R t v"
  proof cases
    case int
    then show ?thesis using h well_typed.int_value [of t R] by auto
  next
    case bool
    then show ?thesis using h well_typed.bool_value [of v R] type_tables(1,2) [of t] by (auto split: if_splits)
  next
    case float
    then show ?thesis by (rule well_typed.float_value)
  qed
qed

lemma not_plain: "\<not> plain_type t \<Longrightarrow> t \<notin> set signed_types \<and> t \<notin> set unsigned_types \<and> t \<notin> {''bool'', ''float32'', ''float64''} \<and>
    t \<notin> {''string'', ''time'', ''duration''}"
  by (auto simp: plain_type_def is_simple_cases)

lemma plain_names [simp]: "plain_type ''string''" "plain_type ''time''" "plain_type ''duration''" "plain_type ''bool''"
    "plain_type ''float32''" "plain_type ''float64''"
  by (simp_all add: plain_type_def is_simple_cases)

lemma not_simple_names: "''string'' \<notin> set signed_types \<union> set unsigned_types" "''time'' \<notin> set signed_types \<union> set unsigned_types"
    "''duration'' \<notin> set signed_types \<union> set unsigned_types"
  by code_simp+

inductive_simps string_typed: "well_typed R ''string'' v"
inductive_simps time_typed: "well_typed R ''time'' v"
inductive_simps duration_typed: "well_typed R ''duration'' v"

lemma well_typed_names:
  "well_typed R ''string'' v \<longleftrightarrow> check_string v = Inr ()"
  "well_typed R ''time'' v \<longleftrightarrow> (\<exists>s n. v = VTime s n)" "well_typed R ''duration'' v \<longleftrightarrow> (\<exists>s n. v = VDuration s n)"
proof -
  show "well_typed R ''string'' v \<longleftrightarrow> check_string v = Inr ()"
    using not_simple_names(1) by (cases v) (auto simp: string_typed)
  show "well_typed R ''time'' v \<longleftrightarrow> (\<exists>s n. v = VTime s n)"
    using not_simple_names(2) by (auto simp: time_typed)
  show "well_typed R ''duration'' v \<longleftrightarrow> (\<exists>s n. v = VDuration s n)"
    using not_simple_names(3) by (auto simp: duration_typed)
qed

lemma well_typed_array:
  assumes "\<not> plain_type t" "endswith t '']''"
  shows "well_typed R t v \<longleftrightarrow> CHR ''['' \<in> set t \<and>
    ((\<exists>s. v = VStr s \<and> array_base t \<in> {''char'', ''uint8''}) \<or>
     (\<exists>vs. elements v = Some vs \<and> (\<forall>x \<in> set vs. well_typed R (array_base t) x)))"
proof
  assume "well_typed R t v"
  then show "CHR ''['' \<in> set t \<and> ((\<exists>s. v = VStr s \<and> array_base t \<in> {''char'', ''uint8''}) \<or>
     (\<exists>vs. elements v = Some vs \<and> (\<forall>x \<in> set vs. well_typed R (array_base t) x)))"
    using not_plain [OF assms(1)] assms(2) by cases auto
qed (use assms in \<open>auto intro: well_typed.array well_typed.byte_array\<close>)

lemma well_typed_message:
  assumes "\<not> plain_type t" "\<not> endswith t '']''"
  shows "well_typed R t v \<longleftrightarrow> (\<exists>ty slots. v = VMsg ty slots \<and> type_matches t ty \<and>
    (\<forall>(n, t', x) \<in> set slots. well_typed R t' x))"
proof
  assume "well_typed R t v"
  then show "\<exists>ty slots. v = VMsg ty slots \<and> type_matches t ty \<and> (\<forall>(n, t', x) \<in> set slots. well_typed R t' x)"
    using not_plain [OF assms(1)] assms(2) by cases auto
qed (use assms in \<open>fastforce intro: well_typed.message\<close>)

lemma check_type_typed:
  "check_type t v = Inr () \<longleftrightarrow> well_typed accepted t v"
  "check_list t vs = Inr () \<longleftrightarrow> (\<forall>x \<in> set vs. well_typed accepted t x)"
  "check_slots slots = Inr () \<longleftrightarrow> (\<forall>(n, t', x) \<in> set slots. well_typed accepted t' x)"
proof (induction t v and t vs and slots rule: check_type_check_list_check_slots.induct)
  case (1 t v)
  show ?case
  proof (cases "plain_type t")
    case True
    then consider "is_simple t" | "t = ''string''" | "t = ''time''" | "t = ''duration''" by (auto simp: plain_type_def)
    then show ?thesis
      by cases (auto simp: check_type.simps well_typed_simple check_simple_iff well_typed_names type_tables(3-5) split: pyval.splits)
  next
    case False
    then have np: "\<not> is_simple t" "t \<noteq> ''string''" "t \<noteq> ''time''" "t \<noteq> ''duration''" by (auto simp: plain_type_def)
    show ?thesis
    proof (cases "endswith t '']''")
      case True
      show ?thesis unfolding well_typed_array [OF False True]
        using 1 [OF np] np True by (cases v) (auto simp: check_type.simps)
    next
      case nonarray: False
      show ?thesis unfolding well_typed_message [OF False nonarray]
        using 1 [OF np] np nonarray by (cases v) (auto simp: check_type.simps)
    qed
  qed
qed (auto simp: rbind_eq_Inr)

text \<open>C39: The type checker implements the typing of messages: it accepts a value exactly if it is well
  typed with integers of magnitude below the bound of the type, so every accepted value is well
  typed with the two's complement ranges that are packed; but it refuses the smallest value of
  every signed type, which these ranges contain.\<close>

theorem check_type_typing:
  "(check_type t v = Inr () \<longleftrightarrow> well_typed accepted t v) \<and>
   (check_type t v = Inr () \<longrightarrow> well_typed representable t v) \<and>
   (s \<in> set signed_types \<longrightarrow>
      check_type s (VInt (- (2 ^ (width s - 1)))) = Inl SerializationError \<and>
      well_typed representable s (VInt (- (2 ^ (width s - 1)))))"
proof -
  have "check_type s (VInt (- (2 ^ (width s - 1)))) = Inl SerializationError" if "s \<in> set signed_types"
    using that by (simp add: check_type.simps check_simple_def is_simple_cases Let_def)
  moreover have "well_typed representable s (VInt (- (2 ^ (width s - 1))))" if "s \<in> set signed_types"
    using that by (intro well_typed.int_value) (auto simp: representable_def)
  moreover have "well_typed accepted t v \<Longrightarrow> well_typed representable t v"
    using well_typed_mono accepted_representable by blast
  ultimately show ?thesis using check_type_typed(1) by blast
qed

theorem check_type_typing_witness:
  "check_type ''pkg/P[]'' (VList [VMsg ''pkg/P'' [(''x'', ''int8'', VInt 3), (''s'', ''string'', VStr ''a'')]]) = Inr () \<and>
   well_typed representable ''pkg/P[]'' (VList [VMsg ''pkg/P'' [(''x'', ''int8'', VInt 3), (''s'', ''string'', VStr ''a'')]]) \<and>
   check_type ''int8'' (VInt (- 128)) = Inl SerializationError"
proof -
  have "check_type ''pkg/P[]'' (VList [VMsg ''pkg/P'' [(''x'', ''int8'', VInt 3), (''s'', ''string'', VStr ''a'')]]) = Inr ()"
    "''int8'' \<in> set signed_types" "- (2 ^ (width ''int8'' - 1)) = (- 128 :: int)"
    by code_simp+
  then show ?thesis
    using check_type_typing [of "''pkg/P[]''" "VList [VMsg ''pkg/P'' [(''x'', ''int8'', VInt 3), (''s'', ''string'', VStr ''a'')]]" "''int8''"]
    by simp
qed

section \<open>What filling changes\<close>

fun shape :: "pyval \<Rightarrow> string \<times> (string \<times> string) list" where
  "shape (VMsg ty slots) = (ty, map (\<lambda>(n, t, v). (n, t)) slots)"
| "shape (VTime s n) = (''time'', [])"
| "shape (VDuration s n) = (''duration'', [])"
| "shape v = ([], [])"

lemma setattr_shape [simp]: "shape (setattr msg f x) = shape msg" "is_msg (setattr msg f x) = is_msg msg"
  "is_tval (setattr msg f x) = is_tval msg" "map fst (slots_of (setattr msg f x)) = map fst (slots_of msg)"
  by (induction msg f x rule: setattr.induct) (auto simp: update_slots_def)

lemma setattr_other: "g \<noteq> f \<Longrightarrow> map_of (slots_of (setattr msg f x)) g = map_of (slots_of msg) g"
proof (cases msg)
  case (VMsg t slots)
  assume "g \<noteq> f"
  then have "map_of (update_slots f x slots) g = map_of slots g"
    by (induction slots) (auto simp: update_slots_def)
  then show ?thesis by (simp add: VMsg)
qed auto

text \<open>Filling one field only sets that field, which the message has.\<close>

lemma fill_val_sets:
  assumes "fill_val cls keys msg f v = Inr msg'"
  shows "(\<exists>x. msg' = setattr msg f x) \<and> f \<in> fst ` set (slots_of msg)"
proof -
  obtain t d where d: "map_of (slots_of msg) f = Some (t, d)"
    using assms by (cases "map_of (slots_of msg) f") (auto simp: fill_val.simps)
  then have "f \<in> fst ` set (slots_of msg)" by (metis domI dom_map_of_conv_image_fst)
  moreover have "\<exists>x. msg' = setattr msg f x"
  proof (cases "is_msg d \<or> is_tval d")
    case True
    then show ?thesis using assms d
      by (cases v) (auto simp: fill_val.simps rbind_eq_Inr split: option.splits if_splits)
  next
    case False
    then show ?thesis using assms d
      by (auto simp: fill_val.simps rbind_eq_Inr fill_primitive_list_def
          split: pyval.splits option.splits sum.splits if_splits)
  qed
  ultimately show ?thesis by blast
qed

lemma fill_items_sets:
  assumes "fill_items cls keys msg items = Inr msg'"
  shows "shape msg' = shape msg \<and> fst ` set items \<subseteq> fst ` set (slots_of msg) \<and>
    (\<forall>g. g \<notin> fst ` set items \<longrightarrow> map_of (slots_of msg') g = map_of (slots_of msg) g)"
  using assms
proof (induction items arbitrary: msg)
  case (Cons item items)
  obtain f v where item: "item = (f, v)" by fastforce
  then obtain m where m: "fill_val cls keys msg f (none_to_empty v) = Inr m" "fill_items cls keys m items = Inr msg'"
    using Cons.prems by (auto simp: rbind_eq_Inr)
  obtain x where x: "m = setattr msg f x" "f \<in> fst ` set (slots_of msg)" using fill_val_sets [OF m(1)] by blast
  have "fst ` set (slots_of m) = fst ` set (slots_of msg)"
    using setattr_shape(4) [of msg f x] unfolding x(1) by (metis set_map)
  then show ?case using Cons.IH [OF m(2)] x setattr_other [of _ f msg x] by (auto simp: item)
qed simp

lemma fill_zip_items:
  "length fs = length vs \<Longrightarrow> VNone \<notin> set vs \<Longrightarrow> fill_zip cls keys msg fs vs = fill_items cls keys msg (zip fs vs)"
proof (induction fs vs arbitrary: msg rule: list_induct2)
  case (Cons f fs v vs)
  then show ?case by (cases "fill_val cls keys msg f v") (auto simp: none_to_empty_def)
qed simp

lemma fill_zip_sets: "fill_zip cls keys msg fs vs = Inr msg' \<Longrightarrow> shape msg' = shape msg"
proof (induction fs arbitrary: msg vs)
  case (Cons f fs)
  show ?case
  proof (cases vs)
    case (Cons v vs')
    then obtain m where m: "fill_val cls keys msg f v = Inr m" "fill_zip cls keys m fs vs' = Inr msg'"
      using Cons.prems by (auto simp: rbind_eq_Inr)
    then obtain x where "m = setattr msg f x" using fill_val_sets by blast
    then show ?thesis using Cons.IH [OF m(2)] by simp
  qed (use Cons.prems in simp)
qed simp

definition single_dict :: "pyval list \<Rightarrow> bool" where
  "single_dict vs \<longleftrightarrow> (\<exists>items. vs = [VDict items])"

lemma fill_message_args_eval:
  "fill_message_args cls msg (Some [VDict items]) keys = fill_args cls keys msg (VDict items)"
  "\<not> single_dict vs \<Longrightarrow> fill_message_args cls msg (Some vs) keys = fill_args cls keys msg (VList vs)"
  "fill_message_args cls msg None keys = fill_message_args cls msg (Some []) keys"
  by (auto simp: fill_message_args_def single_dict_def split: list.splits pyval.splits)

lemma fill_args_shape: "fill_args cls keys msg args = Inr msg' \<Longrightarrow> shape msg' = shape msg"
  using fill_items_sets fill_zip_sets by (auto simp: fill_args.simps split: if_splits pyval.splits) 

text \<open>Filling a message from arguments: it keeps the type of the message and the names and types of its
  fields; a dictionary changes only the fields it names, all of which the message must have; a
  list must have one value per field, and then means the same as the dictionary from the names of
  the fields to the values.\<close>

theorem fill_message_args_fields:
  assumes "is_msg msg"
  shows "(fill_message_args cls msg args keys = Inr msg' \<longrightarrow> shape msg' = shape msg) \<and>
    (fill_message_args cls msg (Some [VDict items]) keys = Inr msg' \<longrightarrow>
       fst ` set items \<subseteq> fst ` set (slots_of msg) \<and>
       (\<forall>g. g \<notin> fst ` set items \<longrightarrow> map_of (slots_of msg') g = map_of (slots_of msg) g)) \<and>
    (\<not> single_dict vs \<and> length vs \<noteq> length (slots_of msg) \<longrightarrow>
       fill_message_args cls msg (Some vs) keys = Inl MessageException) \<and>
    (\<not> single_dict vs \<and> length vs = length (slots_of msg) \<and> VNone \<notin> set vs \<longrightarrow>
       fill_message_args cls msg (Some vs) keys =
       fill_message_args cls msg (Some [VDict (zip (map fst (slots_of msg)) vs)]) keys)"
proof -
  have "\<exists>a. fill_message_args cls msg args keys = fill_args cls keys msg a"
  proof (cases args)
    case (Some l)
    then show ?thesis using fill_message_args_eval(1,2) by (cases "single_dict l") (auto simp: single_dict_def)
  next
    case None
    then show ?thesis using fill_message_args_eval(2) [of "[]"] by (auto simp: single_dict_def fill_message_args_eval(3))
  qed
  then have "fill_message_args cls msg args keys = Inr msg' \<Longrightarrow> shape msg' = shape msg" using fill_args_shape by metis
  moreover have "fill_message_args cls msg (Some [VDict items]) keys = Inr msg' \<Longrightarrow> fill_items cls keys msg items = Inr msg'"
    using assms by (simp add: fill_message_args_eval(1) fill_args.simps)
  ultimately show ?thesis
    using assms fill_items_sets [of cls keys msg items msg']
      fill_zip_items [of "map fst (slots_of msg)" vs cls keys msg]
    by (simp add: fill_message_args_eval(1,2) fill_args.simps)
qed

definition point_class :: pyval where
  "point_class = VMsg ''pkg/P'' [(''x'', ''int8'', VInt 0), (''stamp'', ''time'', VTime (VInt 0) (VInt 0))]"

theorem fill_message_args_fields_witness:
  "fill_message_args (\<lambda>t. Inr None) point_class (Some [VInt 3, VStr ''now'']) [''now'' \<mapsto> VTime (VInt 7) (VInt 5)] =
   fill_message_args (\<lambda>t. Inr None) point_class (Some [VDict [(''x'', VInt 3), (''stamp'', VStr ''now'')]])
     [''now'' \<mapsto> VTime (VInt 7) (VInt 5)] \<and>
   fill_message_args (\<lambda>t. Inr None) point_class (Some [VInt 3]) Map.empty = Inl MessageException"
  using fill_message_args_fields [of point_class "\<lambda>t. Inr None" None "[''now'' \<mapsto> VTime (VInt 7) (VInt 5)]" VNone "[]"
      "[VInt 3, VStr ''now'']"]
    fill_message_args_fields [of point_class "\<lambda>t. Inr None" None Map.empty VNone "[]" "[VInt 3]"]
  by (simp add: point_class_def single_dict_def)

end
