(* ===== verification/Registered.thy ===== *)
theory Registered
  imports Dependencies
begin

text \<open>
  What holds of every registered specification: a property that the files on the search path have is kept by the
  operations of the loader. The interface states what the operations need; it is used with being the result of
  reading a text (\<open>Dynamic\<close>), with plain names (\<open>Lisp_Names\<close>) and with coming from a file (\<open>Siblings\<close>).
\<close>

definition all_registered :: "(msgspec \<Rightarrow> bool) \<Rightarrow> msg_context \<Rightarrow> bool" where
  "all_registered Q ctx \<longleftrightarrow> (\<forall>t s. get_registered ctx t = Inr s \<longrightarrow> Q s)"

lemma all_registered_frame [simp]:
  "all_registered Q (set_file t f x) = all_registered Q x" "all_registered Q (set_depends t ds x) = all_registered Q x"
  by (simp_all add: all_registered_def)

lemma register_all: "all_registered Q c \<Longrightarrow> Q s \<Longrightarrow> all_registered Q (snd (register t s c))"
  by (cases rule: ctx.put_cases [of t s c]) (auto simp: all_registered_def ctx.get_put split: if_splits)

lemma load_string_all:
  assumes "all_registered Q c" and "\<And>s c'. load_msg_from_string w t n c = (Inr s, c') \<Longrightarrow> Q s"
  shows "all_registered Q (snd (load_msg_from_string w t n c))"
proof -
  obtain r c' where l: "load_msg_from_string w t n c = (r, c')" by fastforce
  show ?thesis
  proof (cases r)
    case (Inl e)
    then have "c' = c" using load_msg_from_string_Inl l by blast
    then show ?thesis using assms(1) l by simp
  next
    case (Inr s)
    have reg: "register n s c = (Inr (), c')"
      by (rule load_msg_from_string_Inr [of w t n c s c']) (use l Inr in simp_all)
    then show ?thesis using register_all [OF assms(1) assms(2), of s c' n] l Inr by simp
  qed
qed

lemma load_msg_by_type_string:
  assumes "load_msg_by_type w r sp c = (Inr s, c')"
  obtains body f d where "load_msg_from_string w body (if r = HEADER then HEADER_FULL_NAME else r) c = (Inr s, d)"
    "c' = set_file (if r = HEADER then HEADER_FULL_NAME else r) f d"
  using assms by (auto simp: load_msg_by_type_def Let_def load_msg_from_file_def sbind_eq_Inr split: prod.splits)

lemma load_msg_by_type_Inl: "load_msg_by_type w r sp c = (Inl e, c') \<Longrightarrow> c' = c"
  by (auto simp: load_msg_by_type_def Let_def load_msg_from_file_def sbind_eq_Inl split: prod.splits dest: load_msg_from_string_Inl)

lemma default_all:
  assumes "create_default w = Inr c"
    and "\<And>t n d s d'. n \<in> {TIME, DURATION} \<Longrightarrow> load_msg_from_string w t n d = (Inr s, d') \<Longrightarrow> Q s"
  shows "all_registered Q c"
proof -
  have "all_registered Q MsgContext" by (auto simp: all_registered_def get_registered_alt reg_lookup_def MsgContext_def rbind_eq_Inr)
  then have "all_registered Q (snd (sbind (load_msg_from_string w TIME_MSG TIME)
      (\<lambda>_. load_msg_from_string w DURATION_MSG DURATION) MsgContext))"
    by (intro sbind_invariant [where P = "all_registered Q"] load_string_all) (use assms(2) in blast)+
  then show ?thesis using assms(1) by (auto simp: create_default_def split: prod.splits sum.splits)
qed

section \<open>The interface\<close>

text \<open>\<open>loads\<close>: a specification that is loaded under an allowed name has the property. \<open>needs\<close>: the types in a
  specification with the property have allowed names.\<close>

locale registered_specs =
  fixes w :: world and sp :: search_path and N :: "string \<Rightarrow> bool" and Q :: "msgspec \<Rightarrow> bool"
  assumes loads: "load_msg_by_type w r sp c = (Inr s, c') \<Longrightarrow> N r \<Longrightarrow> Q s"
    and needs: "Q s \<Longrightarrow> ty \<in> set (ms_types s) \<Longrightarrow> N (resolve_type (bare_msg_type ty) (ms_package s))"
begin

lemma by_type_all:
  assumes "load_msg_by_type w r sp c = (res, c')" "all_registered Q c" "N r"
  shows "all_registered Q c' \<and> (\<forall>s. res = Inr s \<longrightarrow> Q s)"
proof (cases res)
  case (Inl e)
  then show ?thesis using assms load_msg_by_type_Inl by blast
next
  case (Inr s)
  then have l: "load_msg_by_type w r sp c = (Inr s, c')" using assms(1) by simp
  then obtain body f d where b: "load_msg_from_string w body (if r = HEADER then HEADER_FULL_NAME else r) c = (Inr s, d)"
    "c' = set_file (if r = HEADER then HEADER_FULL_NAME else r) f d" by (rule load_msg_by_type_string)
  have "all_registered Q (snd (load_msg_from_string w body (if r = HEADER then HEADER_FULL_NAME else r) c))"
    by (rule load_string_all [OF assms(2)]) (use b(1) loads [OF l assms(3)] in auto)
  then show ?thesis using b loads [OF l assms(3)] Inr by simp
qed

lemma retrieve_all:
  assumes "retrieve_spec w sp r c = (res, c')" "all_registered Q c" "N r"
  shows "all_registered Q c' \<and> (\<forall>s. res = Inr s \<longrightarrow> Q s)"
proof (cases "is_registered c r")
  case (Inl e)
  then show ?thesis using assms by (auto simp: retrieve_spec_def sbind_def)
next
  case (Inr b)
  show ?thesis
  proof (cases b)
    case True
    then show ?thesis using assms Inr by (auto simp: retrieve_spec_def sbind_def all_registered_def)
  next
    case False
    obtain x c1 where l: "load_msg_by_type w r sp c = (x, c1)" by fastforce
    note i = by_type_all [OF l assms(2,3)]
    show ?thesis
    proof (cases x)
      case (Inl e)
      then show ?thesis using assms(1) Inr False l i by (auto simp: retrieve_spec_def sbind_def)
    next
      case s: (Inr s)
      obtain y c2 where reg: "register r s c1 = (y, c2)" by fastforce
      have "all_registered Q c2" using register_all [of Q c1 s r] i s reg by simp
      then show ?thesis using assms(1) Inr False l i s reg
        by (cases y) (auto simp: retrieve_spec_def sbind_def)
    qed
  qed
qed

lemma type_depend_all:
  assumes "all_registered Q x" "N (resolve_type (bare_msg_type ty) pkg)"
    and "\<And>d y. Q d \<Longrightarrow> all_registered Q y \<Longrightarrow> all_registered Q (snd (rec d y))"
  shows "all_registered Q (snd (load_type_depend w rec pkg sp acc ty x))"
proof -
  let ?r = "resolve_type (bare_msg_type ty) pkg"
  have r: "all_registered Q (snd (retrieve_spec w sp ?r x))" "\<And>s u. retrieve_spec w sp ?r x = (Inr s, u) \<Longrightarrow> Q s"
    using retrieve_all [OF _ assms(1,2)] by (metis prod.collapse, blast)
  show ?thesis unfolding load_type_depend_def Let_def
    by (auto intro!: sbind_invariant [where P = "all_registered Q"] intro: assms(3) [OF r(2)] simp: assms(1) r(1))
qed

lemma depends_all: "all_registered Q c \<Longrightarrow> Q spec \<Longrightarrow> all_registered Q (snd (load_msg_depends k w spec sp c))"
proof (induction k arbitrary: spec c)
  case (Suc k)
  have "all_registered Q (snd (sfoldl (load_type_depend w (\<lambda>d. load_msg_depends k w d sp) (ms_package spec) sp) [] (ms_types spec) c))"
    by (rule sfoldl_invariant [where P = "all_registered Q"])
       (use Suc.prems(1) needs [OF Suc.prems(2)] in \<open>auto intro!: type_depend_all Suc.IH\<close>)
  then show ?case unfolding load_msg_depends.simps
    by (rule sbind_invariant [where P = "all_registered Q"]) auto
qed simp

end

end
