(* ===== verification/Dynamic.thy ===== *)
theory Dynamic
  imports Gentools Registered "HOL-Library.AList"
begin

text \<open>
  Messages generated from their full text, \<open>genpy/dynamic.py\<close>: the text that
  \<open>genmsg.gentools.compute_full_text\<close> concatenates is cut at its separators, each part is read by
  the loader under the name in its first line. The module that is generated from the specifications
  is in theory \<open>Dynamic_Module\<close>.
\<close>

section \<open>The operations\<close>

definition generate_dynamic_spec :: "world \<Rightarrow> string \<Rightarrow> (msg_context, string \<times> msgspec) act" where
  "generate_dynamic_spec w dep_msg =
     (let line1 = py_find newline dep_msg; msg_line = slice_to dep_msg line1 in
      if \<not> startswith msg_line ''MSG: '' then sraise MsgGenerationException
      else let dep_type = strip (slice_from msg_line 5) in
        sbind (slift (package_resource_name dep_type)) (\<lambda>_.
        sbind (load_msg_from_string w (slice_from dep_msg (line1 + 1)) dep_type) (\<lambda>dep_spec.
        sret (dep_type, dep_spec))))"

definition dynamic_sep :: string where
  "dynamic_sep = [newline] @ replicate 80 CHR ''='' @ [newline]"

text \<open>The loop over the dependencies; \<open>specs\<close> is a dictionary.\<close>

definition dynamic_deps :: "world \<Rightarrow> (string \<times> msgspec) list \<Rightarrow> string list \<Rightarrow> (msg_context, (string \<times> msgspec) list) act" where
  "dynamic_deps w specs deps_msgs = sfoldl (\<lambda>specs dep_msg.
     sbind (generate_dynamic_spec w dep_msg) (\<lambda>(t, s). sret (AList.update t s specs))) specs deps_msgs"

definition dynamic_specs :: "world \<Rightarrow> string \<Rightarrow> string \<Rightarrow> (string \<times> msgspec) list res" where
  "dynamic_specs w core_type msg_cat =
     rbind (create_default w) (\<lambda>ctx.
     rbind (package_resource_name core_type) (\<lambda>_.
       let splits = py_split dynamic_sep (py_replace ''roslib/Header'' ''std_msgs/Header'' msg_cat)
       in fst (sbind (load_msg_from_string w (hd splits) core_type) (\<lambda>spec.
               dynamic_deps w [(core_type, spec)] (tl splits)) ctx)))"

definition register_all :: "(string \<times> msgspec) list \<Rightarrow> (msg_context, unit) act" where
  "register_all specs = sfoldl (\<lambda>_ (t, s). register t s) () specs"

definition dynamic_context :: "world \<Rightarrow> (string \<times> msgspec) list \<Rightarrow> msg_context res" where
  "dynamic_context w specs = rbind (create_default w) (\<lambda>ctx.
     case register_all specs ctx of (Inl e, c) \<Rightarrow> Inl e | (Inr u, c) \<Rightarrow> Inr c)"

section \<open>Cutting the full text\<close>

lemma py_split_nonempty [simp]: "py_split sep s \<noteq> []"
  by (induction sep s rule: py_split.induct) (auto split: list.splits)

lemma py_split_absent: "\<not> contains sep s \<Longrightarrow> py_split sep s = [s]"
proof (induction s)
  case (Cons c cs)
  then show ?case by simp
qed simp

lemma sep_eq: "dynamic_sep = newline # replicate 80 CHR ''='' @ [newline]" "length dynamic_sep = 82"
  by (simp_all add: dynamic_sep_def)

lemma sep_not_start:
  assumes "q \<noteq> []" "\<not> contains dynamic_sep (q @ [newline])"
  shows "\<not> startswith (q @ dynamic_sep @ rest) dynamic_sep"
proof
  assume "startswith (q @ dynamic_sep @ rest) dynamic_sep"
  then have st: "take 82 (q @ dynamic_sep @ rest) = dynamic_sep" by (simp add: startswith_def sep_eq(2))
  show False
  proof (cases "81 \<le> length q")
    case True
    have "take 82 ((q @ [newline]) @ tl dynamic_sep @ rest) = take 82 (q @ [newline])"
      using True by (subst take_append) simp
    moreover have "q @ dynamic_sep @ rest = (q @ [newline]) @ tl dynamic_sep @ rest" by (simp add: sep_eq(1))
    ultimately have "take 82 (q @ [newline]) = dynamic_sep" using st by metis
    then have "q @ [newline] = [] @ dynamic_sep @ drop 82 (q @ [newline])" by (metis append_Nil append_take_drop_id)
    then show False using assms(2) contains_append by metis
  next
    case False
    have "dynamic_sep ! length q = take 82 (q @ dynamic_sep @ rest) ! length q" using st by simp
    also have "\<dots> = newline" using False by (simp add: nth_append sep_eq(1))
    finally have "dynamic_sep ! length q = newline" .
    moreover have "dynamic_sep ! length q = CHR ''=''"
      using assms(1) False by (cases "length q") (auto simp: sep_eq(1) nth_append)
    ultimately show False by simp
  qed
qed

lemma split_at_sep:
  "\<not> contains dynamic_sep (p @ [newline]) \<Longrightarrow>
   py_split dynamic_sep (p @ dynamic_sep @ rest) = p # py_split dynamic_sep rest"
proof (induction p)
  case Nil
  obtain c cs where c: "dynamic_sep @ rest = c # cs" by (cases "dynamic_sep @ rest") (simp add: sep_eq(1))
  have "startswith (c # cs) dynamic_sep" "drop (length dynamic_sep) (c # cs) = rest" by (simp_all flip: c)
  then show ?case by (simp add: c) (simp add: sep_eq(1))
next
  case (Cons c p)
  have "\<not> startswith ((c # p) @ dynamic_sep @ rest) dynamic_sep" by (rule sep_not_start [OF _ Cons.prems]) simp
  then have "\<not> startswith (c # p @ dynamic_sep @ rest) dynamic_sep" by simp
  moreover have "py_split dynamic_sep (p @ dynamic_sep @ rest) = p # py_split dynamic_sep rest"
    using Cons by simp
  ultimately show ?case by simp
qed

lemma split_full_text:
  "(\<And>p. p \<in> set (p0 # ps) \<Longrightarrow> \<not> contains dynamic_sep (p @ [newline])) \<Longrightarrow>
   py_split dynamic_sep (py_join dynamic_sep (p0 # ps)) = p0 # ps"
proof (induction ps arbitrary: p0)
  case Nil
  then have "\<not> contains dynamic_sep (p0 @ [newline])" by simp
  then have "\<not> contains dynamic_sep p0" by (metis append.assoc contains_iff)
  then show ?case by (simp add: py_split_absent)
next
  case (Cons p ps)
  then show ?case using split_at_sep [of p0 "py_join dynamic_sep (p # ps)"] by simp
qed

text \<open>A text with no line of 80 equality signs holds no separator, and a text that is read has none:
  the line would declare a constant without a type.\<close>

definition eqs :: string where
  "eqs = replicate 80 CHR ''=''"

lemma no_sep:
  assumes "eqs \<notin> set (split_on newline t)" shows "\<not> contains dynamic_sep (t @ [newline])"
proof
  assume "contains dynamic_sep (t @ [newline])"
  then obtain a b where "t @ newline # [] = a @ newline # eqs @ newline # b"
    by (auto simp: contains_iff sep_eq(1) eqs_def)
  then have "split_on newline t @ split_on newline [] = split_on newline a @ split_on newline eqs @ split_on newline b"
    unfolding split_on_append_sep [symmetric] by simp
  moreover have "split_on newline eqs = [eqs]" by (simp add: eqs_def)
  ultimately have "eqs \<in> set (split_on newline t @ [[]])" by (metis in_set_conv_decomp split_on.simps(1) append_Cons append_Nil)
  then show False using assms by (auto simp: eqs_def)
qed

lemma load_line_eqs: "load_line w p acc eqs = Inl InvalidMsgSpec"
proof -
  have "strip_comments eqs = eqs" "eqs \<noteq> []" "CONSTCHAR \<in> set eqs" "line_words eqs = [eqs]" "\<not> is_valid_constant_type eqs"
    by code_simp+
  then show ?thesis by (cases acc) (simp add: load_line_def load_constant_line_def Let_def)
qed

lemma rfoldl_Inr_each: "rfoldl f acc xs = Inr y \<Longrightarrow> x \<in> set xs \<Longrightarrow> \<exists>a z. f a x = Inr z"
  by (induction xs arbitrary: acc) (auto simp: rbind_eq_Inr)

lemma read_no_eqs:
  assumes "load_msg_from_string w t n c = (Inr s, c')" shows "eqs \<notin> set (split_on newline t)"
proof
  assume "eqs \<in> set (split_on newline t)"
  obtain p b where "rfoldl (load_line w p) ([], [], []) (split_on newline t) =
      Inr (ms_types s, ms_names s, ms_constants s)" by (rule load_msg_from_string_Inr [OF assms])
  then show False using rfoldl_Inr_each [OF _ \<open>eqs \<in> set (split_on newline t)\<close>] load_line_eqs by fastforce
qed

section \<open>Everything registered was read\<close>

definition was_read :: "world \<Rightarrow> msgspec \<Rightarrow> bool" where
  "was_read w s \<longleftrightarrow> (\<exists>c c'. load_msg_from_string w (ms_text s) (ms_full_name s) c = (Inr s, c'))"

abbreviation all_read :: "world \<Rightarrow> msg_context \<Rightarrow> bool" where
  "all_read w \<equiv> all_registered (was_read w)"

lemma load_was_read: "load_msg_from_string w t n c = (Inr s, c') \<Longrightarrow> was_read w s"
  by (rule load_msg_from_string_Inr) (auto simp: was_read_def)

text \<open>Reading does not depend on the context.\<close>

lemma read_anywhere:
  assumes "was_read w s" shows "\<exists>c'. load_msg_from_string w (ms_text s) (ms_full_name s) c = (Inr s, c')"
proof -
  obtain d d' where l: "load_msg_from_string w (ms_text s) (ms_full_name s) d = (Inr s, d')"
    using assms by (auto simp: was_read_def)
  obtain p b where "register (ms_full_name s) s d = (Inr (), d')" by (rule load_msg_from_string_Inr [OF l])
  then obtain k where "type_key (ms_full_name s) = Inr k" using ctx.put_raises by (cases "type_key (ms_full_name s)") auto
  then obtain c' where "register (ms_full_name s) s c = (Inr (), c')" using ctx.put_returns by blast
  then show ?thesis using l
    by (auto simp: load_msg_from_string_def sbind_eq_Inr split: prod.splits)
qed

lemma load_all_read: "all_read w c \<Longrightarrow> all_read w (snd (load_msg_from_string w t n c))"
  by (erule load_string_all) (rule load_was_read)

lemma by_type_was_read: "load_msg_by_type w r sp c = (Inr s, c') \<Longrightarrow> was_read w s"
  by (erule load_msg_by_type_string) (rule load_was_read)

interpretation read: registered_specs w sp "\<lambda>_. True" "was_read w" for w sp
  by unfold_locales (auto intro: by_type_was_read)

lemma depends_all_read:
  assumes "all_read w c" "was_read w spec" shows "all_read w (snd (load_msg_depends k w spec sp c))"
  using assms by (rule read.depends_all)

lemma default_all_read: "create_default w = Inr c \<Longrightarrow> all_read w c"
  by (erule default_all) (rule load_was_read)

section \<open>From the full text back to the specifications\<close>

definition dep_part :: "(string \<Rightarrow> msgspec) \<Rightarrow> string \<Rightarrow> string" where
  "dep_part sp d = ''MSG: '' @ d @ [newline] @ ms_text (sp d)"

lemma full_text_join:
  "any_text (Msg s) @ [newline] @ concat (map (\<lambda>d. full_text_sep @ ''MSG: '' @ d @ [newline] @ ms_text (sp d) @ [newline]) ds) =
   py_join dynamic_sep (ms_text s # map (dep_part sp) ds) @ [newline]"
proof -
  have "t @ [newline] @ concat (map (\<lambda>d. full_text_sep @ ''MSG: '' @ d @ [newline] @ ms_text (sp d) @ [newline]) ds) =
      py_join dynamic_sep (t # map (dep_part sp) ds) @ [newline]" for t
  proof (induction ds arbitrary: t)
    case (Cons d ds)
    have "py_join dynamic_sep (t # map (dep_part sp) (d # ds)) @ [newline] =
        t @ dynamic_sep @ (py_join dynamic_sep (dep_part sp d # map (dep_part sp) ds) @ [newline])" by simp
    also have "\<dots> = t @ dynamic_sep @ dep_part sp d @ [newline] @
        concat (map (\<lambda>d. full_text_sep @ ''MSG: '' @ d @ [newline] @ ms_text (sp d) @ [newline]) ds)"
      unfolding Cons.IH [symmetric] ..
    also have "\<dots> = t @ [newline] @ concat (map (\<lambda>d. full_text_sep @ ''MSG: '' @ d @ [newline] @ ms_text (sp d) @ [newline]) (d # ds))"
      by (simp add: dynamic_sep_def full_text_sep_def dep_part_def)
    finally show ?case by simp
  qed simp
  from this [of "ms_text s"] show ?thesis by (simp add: any_text_def)
qed

lemma rmap_eq_map: "(\<And>x. x \<in> set xs \<Longrightarrow> f x = Inr (g x)) \<Longrightarrow> rmap f xs = Inr (map g xs)"
  by (induction xs) auto

text \<open>The names of message types have no white space.\<close>

definition no_space :: "string \<Rightarrow> bool" where
  "no_space d \<longleftrightarrow> list_all (\<lambda>c. \<not> is_space c) d"

lemma strip_no_space: "no_space d \<Longrightarrow> strip d = d"
  unfolding strip_def by (rule strip_by_id) (auto simp: no_space_def list_all_iff)

lemma newline_space: "is_space newline"
  by (simp add: is_space_def)

lemma dep_part_no_sep:
  assumes "no_space d" "was_read w (sp d)" shows "\<not> contains dynamic_sep (dep_part sp d @ [newline])"
proof (rule no_sep)
  have "newline \<notin> set d" using assms(1) newline_space by (auto simp: no_space_def list_all_iff)
  then have nl: "newline \<notin> set (''MSG: '' @ d)" by simp
  have "dep_part sp d = (''MSG: '' @ d) @ newline # ms_text (sp d)" by (simp add: dep_part_def)
  then have "split_on newline (dep_part sp d) = (''MSG: '' @ d) # split_on newline (ms_text (sp d))"
    using split_on_append [OF nl] by metis
  moreover have "eqs \<notin> set (split_on newline (ms_text (sp d)))" using assms(2) read_no_eqs by (auto simp: was_read_def)
  moreover have "eqs \<noteq> ''MSG: '' @ d"
  proof
    assume "eqs = ''MSG: '' @ d"
    then have "hd eqs = hd (''MSG: '' @ d)" by (rule arg_cong)
    then show False by (simp add: eqs_def)
  qed
  ultimately show "eqs \<notin> set (split_on newline (dep_part sp d))" by simp
qed

lemma dynamic_spec_of_part:
  assumes "no_space d" "was_read w (sp d)" "ms_full_name (sp d) = d"
  shows "\<exists>c'. generate_dynamic_spec w (dep_part sp d) c = (Inr (d, sp d), c')"
proof -
  have nl: "newline \<notin> set (''MSG: '' @ d)" using assms(1) newline_space by (auto simp: no_space_def list_all_iff)
  have part: "dep_part sp d = (''MSG: '' @ d) @ newline # ms_text (sp d)" by (simp add: dep_part_def)
  have f: "py_find newline (dep_part sp d) = int (length (''MSG: '' @ d))" unfolding part by (rule py_find_append [OF nl])
  have l: "slice_to (dep_part sp d) (int (length (''MSG: '' @ d))) = ''MSG: '' @ d" unfolding slice_to_of_nat by (simp add: dep_part_def)
  have r: "slice_from (dep_part sp d) (int (length (''MSG: '' @ d)) + 1) = ms_text (sp d)"
    unfolding part by (rule slice_from_Suc_length)
  have d: "slice_from (''MSG: '' @ d) 5 = d" by (simp add: slice_from_def slice_idx_def)
  obtain c' where ld: "load_msg_from_string w (ms_text (sp d)) d c = (Inr (sp d), c')"
    using read_anywhere [OF assms(2)] assms(3) by metis
  then obtain p b where "package_resource_name d = Inr (p, b)" by (rule load_msg_from_string_Inr)
  then have "generate_dynamic_spec w (dep_part sp d) c = (Inr (d, sp d), c')"
    unfolding generate_dynamic_spec_def Let_def f l r d strip_no_space [OF assms(1)]
    using ld by (simp add: sbind_def startswith_def)
  then show ?thesis by blast
qed

lemma dynamic_deps_of_parts:
  assumes "\<And>d. d \<in> set ds \<Longrightarrow> no_space d \<and> was_read w (sp d) \<and> ms_full_name (sp d) = d"
  shows "\<exists>specs' c'. dynamic_deps w specs (map (dep_part sp) ds) c = (Inr specs', c') \<and>
    (\<forall>x. map_of specs' x = (if x \<in> set ds then Some (sp x) else map_of specs x))"
  using assms
proof (induction ds arbitrary: specs c)
  case Nil
  then show ?case by (simp add: dynamic_deps_def)
next
  case (Cons d ds)
  obtain c1 where g: "generate_dynamic_spec w (dep_part sp d) c = (Inr (d, sp d), c1)"
    using dynamic_spec_of_part [of d w sp c] Cons.prems [of d] by auto
  obtain specs' c' where r: "dynamic_deps w (AList.update d (sp d) specs) (map (dep_part sp) ds) c1 = (Inr specs', c')"
    "\<forall>x. map_of specs' x = (if x \<in> set ds then Some (sp x) else map_of (AList.update d (sp d) specs) x)"
    using Cons.IH [of "AList.update d (sp d) specs" c1] Cons.prems by auto
  then have "dynamic_deps w specs (map (dep_part sp) (d # ds)) c = (Inr specs', c')"
    using g by (simp add: dynamic_deps_def sbind_def)
  then show ?case using r(2) by (auto simp: AList.update_conv')
qed

lemma py_replace_absent: "\<not> contains old s \<Longrightarrow> py_replace old new s = s"
  by (induction s) auto

end
