(* ===== verification/Dynamic_Module.thy ===== *)
theory Dynamic_Module
  imports Msg_Generator Dynamic
begin

text \<open>
  The second half of \<open>genpy/dynamic.py\<close>: a module is generated for every type read from a full text,
  with the names of the classes rewritten so that they do not clash with the generated packages.
  Writing the module to a temporary file and importing it is not modelled.
\<close>

definition gen_dyn_name :: "string \<Rightarrow> string \<Rightarrow> string" where
  "gen_dyn_name pkg base_type = ''_'' @ pkg @ ''__'' @ base_type"

text \<open>\<open>re.sub\<close> of a literal (the pattern has the names of a package and of a type unescaped, which
  holds no special character in a legal name) that no word character precedes or follows; \<open>prev\<close> tells whether the
  character before is one.\<close>

function sub_word :: "string \<Rightarrow> string \<Rightarrow> bool \<Rightarrow> string \<Rightarrow> string" where
  "sub_word pat new prev [] = []"
| "sub_word pat new prev (c # cs) =
     (if pat \<noteq> [] \<and> \<not> prev \<and> startswith (c # cs) pat \<and>
        (case drop (length pat) (c # cs) of [] \<Rightarrow> True | d # ds \<Rightarrow> \<not> is_word_char d)
      then new @ sub_word pat new (is_word_char (last pat)) (drop (length pat) (c # cs))
      else c # sub_word pat new (is_word_char c) cs)"
  by pat_completeness auto
termination
  by (relation "measure (\<lambda>(pat, new, prev, s). length s)") auto

definition modify_reference :: "string \<Rightarrow> string \<Rightarrow> string res" where
  "modify_reference py_text t = rbind (package_resource_name t) (\<lambda>(pkg, base_type).
     Inr (sub_word (pkg @ ''.msg.'' @ base_type) (gen_dyn_name pkg base_type) False
       (py_replace (''import '' @ pkg @ ''.msg'') [] py_text)))"

definition gen_dyn_modify_references :: "string \<Rightarrow> string \<Rightarrow> string list \<Rightarrow> string res" where
  "gen_dyn_modify_references py_text current_type types =
     rbind (rfoldl modify_reference py_text types) (\<lambda>s1.
     rbind (package_resource_name current_type) (\<lambda>(pkg, base_type).
       let gen_name = gen_dyn_name pkg base_type;
           s2 = py_replace (''class '' @ base_type @ ''('') (''class '' @ gen_name @ ''('') s1;
           s3 = py_replace (''super('' @ base_type @ '','') (''super('' @ gen_name @ '','') s2
       in Inr (py_replace ''std_msgs.msg._Header.Header'' (gen_dyn_name ''std_msgs'' ''Header'') s3)))"

text \<open>The text of the module: the generated lines of every type, rewritten.\<close>

definition dynamic_module :: "nat \<Rightarrow> py_env \<Rightarrow> (string \<Rightarrow> string) \<Rightarrow> world \<Rightarrow> (string \<times> msgspec) list \<Rightarrow> (run_state, string) act" where
  "dynamic_module k env H w specs = sfoldl (\<lambda>buff (t, spec).
     sbind (slift (package_resource_name t)) (\<lambda>_.
     sbind (msg_generator k env H w spec (\<lambda>_. None)) (\<lambda>ls.
     sbind (slift (rmap (\<lambda>l. gen_dyn_modify_references l t (map fst specs)) ls)) (\<lambda>ls'.
     sret (buff @ concat (map (\<lambda>l. l @ [newline]) ls')))))) [] specs"

text \<open>\<open>generate_dynamic\<close> up to the text of the module, with the specifications its classes are for.\<close>

definition generate_dynamic :: "nat \<Rightarrow> py_env \<Rightarrow> (string \<Rightarrow> string) \<Rightarrow> world \<Rightarrow> string \<Rightarrow> string \<Rightarrow> gen_state
    \<Rightarrow> ((string \<times> msgspec) list \<times> string) res" where
  "generate_dynamic k env H w core_type msg_cat gen =
     rbind (dynamic_specs w core_type msg_cat) (\<lambda>specs.
     rbind (dynamic_context w specs) (\<lambda>ctx.
     rbind (fst (dynamic_module k env H w specs \<lparr>rs_ctx = ctx, rs_gen = gen, rs_out = \<lambda>_. None\<rparr>)) (\<lambda>full_text.
     Inr (specs, full_text))))"

end
