(* ===== verification/Gencpp.thy ===== *)
theory Gencpp
  imports Dependencies
begin

text \<open>
  The helpers of the C++ generator, \<open>gencpp/__init__.py\<close>, that its templates call: the C++ type of a
  field, default values, initializer lists, the message definition as a string literal, and whether
  a message has a fixed length on the wire. A generator is the list of what it yields. The order in
  which Python visits a set is the argument \<open>order\<close>.
\<close>

section \<open>Types and values\<close>

definition CPP_STRING :: string where
  "CPP_STRING = ''std::basic_string<char, std::char_traits<char>, typename ContainerAllocator::template rebind<char>::other > ''"

definition MSG_TYPE_TO_CPP :: "string \<rightharpoonup> string" where
  "MSG_TYPE_TO_CPP = map_of
     [(''byte'', ''int8_t''), (''char'', ''uint8_t''), (''bool'', ''uint8_t''), (''uint8'', ''uint8_t''),
      (''int8'', ''int8_t''), (''uint16'', ''uint16_t''), (''int16'', ''int16_t''), (''uint32'', ''uint32_t''),
      (''int32'', ''int32_t''), (''uint64'', ''uint64_t''), (''int64'', ''int64_t''), (''float32'', ''float''),
      (''float64'', ''double''), (''string'', CPP_STRING), (''time'', ''xcros::Time''),
      (''duration'', ''xcros::Duration'')]"

definition cpp_base_type :: "string \<Rightarrow> string res" where
  "cpp_base_type base_type =
     (if is_builtin base_type then of_option (KeyError base_type) (MSG_TYPE_TO_CPP base_type)
      else let parts = split_on SEP base_type in
        if length parts = 1 then
          Inr (if is_header_type base_type then '' ::std_msgs::Header_<ContainerAllocator> ''
               else base_type @ ''_<ContainerAllocator> '')
        else Inr ('' ::'' @ parts ! 0 @ ''::'' @ parts ! 1 @ ''_<ContainerAllocator> ''))"

definition msg_type_to_cpp :: "string \<Rightarrow> string res" where
  "msg_type_to_cpp ty = rbind (parse_type ty) (\<lambda>(base_type, is_array, array_len).
     rbind (cpp_base_type base_type) (\<lambda>cpp_type.
       if is_array then
         (case array_len of
            None \<Rightarrow> Inr (''std::vector<'' @ cpp_type @ '', typename ContainerAllocator::template rebind<'' @ cpp_type @ ''>::other > '')
          | Some n \<Rightarrow> Inr (''boost::array<'' @ cpp_type @ '', '' @ str_of_int n @ ''> ''))
       else Inr cpp_type))"

definition escape_string :: "string \<Rightarrow> string" where
  "escape_string s = py_replace [CHR 0x22] [CHR 0x5C, CHR 0x22] (py_replace [CHR 0x5C] [CHR 0x5C, CHR 0x5C] s)"

definition escape_message_definition :: "string \<Rightarrow> string" where
  "escape_message_definition d =
     (let lines = splitlines d; lines' = (if lines = [] then [[]] else lines)
      in concat (map (\<lambda>line. escape_string line @ [CHR 0x5C, CHR ''n'', CHR 0x5C, newline]) lines'))"

definition cpp_message_declarations :: "string \<Rightarrow> string \<Rightarrow> (string \<times> string \<times> string) res" where
  "cpp_message_declarations name_prefix msg = rbind (package_resource_name msg) (\<lambda>(pkg, basetype).
     let cpp_name = (if pkg \<noteq> [] then '' ::'' @ pkg @ ''::'' @ basetype else '' ::'' @ name_prefix @ msg)
     in Inr (cpp_name @ ''_'', cpp_name @ ''_<ContainerAllocator> '', cpp_name))"

definition cpp_default_value :: "string \<Rightarrow> string" where
  "cpp_default_value t =
     (if t \<in> set [''byte'', ''int8'', ''int16'', ''int32'', ''int64'', ''char'', ''uint8'', ''uint16'', ''uint32'', ''uint64'']
      then ''0''
      else if t \<in> set [''float32'', ''float64''] then ''0.0''
      else if t = ''bool'' then ''false'' else [])"

definition takes_allocator :: "string \<Rightarrow> bool" where
  "takes_allocator t \<longleftrightarrow> t \<notin> set [''byte'', ''int8'', ''int16'', ''int32'', ''int64'', ''char'', ''uint8'', ''uint16'',
     ''uint32'', ''uint64'', ''float32'', ''float64'', ''bool'', ''time'', ''duration'']"

section \<open>Constructors\<close>

definition fixed_length_assign :: "bool \<Rightarrow> string \<Rightarrow> field \<Rightarrow> string list res" where
  "fixed_length_assign container_gets_allocator cpp_name_prefix f =
     (if \<not> f_is_array f \<or> f_array_len f = None then Inr []
      else let val = cpp_default_value (f_base_type f) in
        if container_gets_allocator \<and> takes_allocator (f_base_type f) then
          (if f_base_type f = ''string'' then
             rbind (msg_type_to_cpp ''string'') (\<lambda>string_cpp.
               Inr [''    '' @ f_name f @ ''.assign('' @ string_cpp @ ''(_alloc));'' @ [newline]])
           else rbind (cpp_message_declarations cpp_name_prefix (f_base_type f)) (\<lambda>(_, cpp_msg_with_alloc, _).
               Inr [''    '' @ f_name f @ ''.assign('' @ cpp_msg_with_alloc @ ''(_alloc));'' @ [newline]]))
        else if length val > 0 then Inr [''    '' @ f_name f @ ''.assign('' @ val @ '');'' @ [newline]]
        else Inr [])"

definition generate_fixed_length_assigns :: "msgspec \<Rightarrow> bool \<Rightarrow> string \<Rightarrow> string list res" where
  "generate_fixed_length_assigns spec container_gets_allocator cpp_name_prefix =
     rbind (rmap (fixed_length_assign container_gets_allocator cpp_name_prefix) (ms_parsed_fields spec))
       (\<lambda>ls. Inr (concat ls))"

definition initializer :: "bool \<Rightarrow> field \<Rightarrow> string" where
  "initializer container_gets_allocator f =
     (if f_is_array f then
        (if f_array_len f = None \<and> container_gets_allocator then f_name f @ ''(_alloc)'' else f_name f @ ''()'')
      else if container_gets_allocator \<and> takes_allocator (f_base_type f) then f_name f @ ''(_alloc)''
      else f_name f @ ''('' @ cpp_default_value (f_base_type f) @ '')'')"

fun initializer_loop :: "string \<Rightarrow> bool \<Rightarrow> field list \<Rightarrow> string list" where
  "initializer_loop op alloc [] = []"
| "initializer_loop op alloc (f # fs) = (''  '' @ op @ '' '' @ initializer alloc f) # initializer_loop '','' alloc fs"

definition generate_initializer_list :: "msgspec \<Rightarrow> bool \<Rightarrow> string list" where
  "generate_initializer_list spec container_gets_allocator =
     initializer_loop '':'' container_gets_allocator (ms_parsed_fields spec)"

section \<open>Fixed length\<close>

text \<open>The loop over the fields: \<open>None\<close> is \<open>return False\<close>, otherwise the types that are not builtin.\<close>

fun fixed_fields :: "field list \<Rightarrow> string list option" where
  "fixed_fields [] = Some []"
| "fixed_fields (f # fs) =
     (if f_is_array f \<and> f_array_len f = None then None
      else if f_base_type f = ''string'' then None
      else map_option (\<lambda>ts. if \<not> f_is_builtin f then f_base_type f # ts else ts) (fixed_fields fs))"

text \<open>The loop over the types; \<open>rec\<close> stands for the recursive call.\<close>

fun fixed_types :: "world \<Rightarrow> search_path \<Rightarrow> string \<Rightarrow> (msgspec \<Rightarrow> (msg_context, bool) act) \<Rightarrow> string list
    \<Rightarrow> (msg_context, bool) act" where
  "fixed_types w includepath package rec [] = sret True"
| "fixed_types w includepath package rec (t # ts) =
     sbind (load_msg_by_type w (resolve_type t package) includepath) (\<lambda>new_spec.
     sbind (rec new_spec) (\<lambda>fixed.
       if \<not> fixed then sret False else fixed_types w includepath package rec ts))"

primrec is_fixed_length :: "nat \<Rightarrow> (string set \<Rightarrow> string list) \<Rightarrow> world \<Rightarrow> search_path \<Rightarrow> msgspec
    \<Rightarrow> (msg_context, bool) act" where
  "is_fixed_length 0 order w includepath spec = sraise RecursionError"
| "is_fixed_length (Suc k) order w includepath spec =
     (case fixed_fields (ms_parsed_fields spec) of None \<Rightarrow> sret False
      | Some types \<Rightarrow> fixed_types w includepath (ms_package spec) (is_fixed_length k order w includepath)
          (order (set types)))"

section \<open>The literal of a message definition\<close>

text \<open>How a C++ compiler reads the text between the quotes of a string literal: a backslash at the end
  of a line joins it with the next one, then the escape sequences are replaced. \<open>None\<close> means that the
  literal would end before.\<close>

fun cpp_splice :: "string \<Rightarrow> string" where
  "cpp_splice (c # d # cs) = (if c = CHR 0x5C \<and> d = newline then cpp_splice cs else c # cpp_splice (d # cs))"
| "cpp_splice cs = cs"

fun cpp_literal :: "string \<Rightarrow> string option" where
  "cpp_literal [] = Some []"
| "cpp_literal [c] = (if c \<in> {CHR 0x5C, CHR 0x22, newline} then None else Some [c])"
| "cpp_literal (c # d # cs) =
     (if c = CHR 0x5C then
        (if d \<in> {CHR 0x5C, CHR 0x22} then map_option ((#) d) (cpp_literal cs)
         else if d = CHR ''n'' then map_option ((#) newline) (cpp_literal cs) else None)
      else if c \<in> {CHR 0x22, newline} then None
      else map_option ((#) c) (cpp_literal (d # cs)))"

definition escape_char :: "char \<Rightarrow> string" where
  "escape_char c = (if c \<in> {CHR 0x5C, CHR 0x22} then [CHR 0x5C, c] else [c])"

lemma escape_char_simps:
  "c \<in> {CHR 0x5C, CHR 0x22} \<Longrightarrow> escape_char c = [CHR 0x5C, c]" "c \<notin> {CHR 0x5C, CHR 0x22} \<Longrightarrow> escape_char c = [c]"
  by (simp_all add: escape_char_def)

lemma escape_string_chars: "escape_string s = concat (map escape_char s)"
  unfolding escape_string_def py_replace_char by (induction s) (auto simp: escape_char_def)

lemma cpp_splice_Cons: "cs = [] \<or> c \<noteq> CHR 0x5C \<or> hd cs \<noteq> newline \<Longrightarrow> cpp_splice (c # cs) = c # cpp_splice cs"
  by (cases cs) auto

lemma cpp_literal_Cons: "c \<notin> {CHR 0x5C, CHR 0x22, newline} \<Longrightarrow> cpp_literal (c # cs) = map_option ((#) c) (cpp_literal cs)"
  by (cases cs) auto

abbreviation line_end :: string where "line_end \<equiv> [CHR 0x5C, CHR ''n'', CHR 0x5C, newline]"

lemma hd_escaped: "newline \<notin> set l \<Longrightarrow> hd (concat (map escape_char l) @ CHR 0x5C # r) \<noteq> newline"
  by (cases l) (auto simp: escape_char_def)

lemma cpp_splice_line:
  "newline \<notin> set l \<Longrightarrow> cpp_splice (concat (map escape_char l) @ line_end @ rest) =
     concat (map escape_char l) @ [CHR 0x5C, CHR ''n''] @ cpp_splice rest"
proof (induction l)
  case Nil
  then show ?case by (simp add: cpp_splice_Cons)
next
  case (Cons c l)
  let ?r = "concat (map escape_char l) @ line_end @ rest"
  have "hd ?r \<noteq> newline" using hd_escaped [of l] Cons.prems by simp
  then have s: "cpp_splice (x # ?r) = x # cpp_splice ?r" for x by (intro cpp_splice_Cons) simp
  moreover have "cpp_splice (CHR 0x5C # c # ?r) = CHR 0x5C # c # cpp_splice ?r"
    using Cons.prems s [of c] by (subst cpp_splice_Cons) auto
  moreover have "cpp_splice ?r = concat (map escape_char l) @ [CHR 0x5C, CHR ''n''] @ cpp_splice rest"
    using Cons by simp
  ultimately show ?case by (cases "c \<in> {CHR 0x5C, CHR 0x22}") (simp_all add: escape_char_simps)
qed

lemma cpp_literal_line:
  "newline \<notin> set l \<Longrightarrow> cpp_literal (concat (map escape_char l) @ [CHR 0x5C, CHR ''n''] @ rest) =
     map_option (\<lambda>y. l @ newline # y) (cpp_literal rest)"
proof (induction l)
  case (Cons c l)
  then show ?case
    by (cases "c \<in> {CHR 0x5C, CHR 0x22}")
       (auto simp: escape_char_simps cpp_literal_Cons option.map_comp comp_def)
qed simp

lemma splitlines_loop_no_break:
  "(\<forall>c \<in> set acc. \<not> is_linebreak c) \<Longrightarrow> l \<in> set (splitlines_loop acc s) \<Longrightarrow> c \<in> set l \<Longrightarrow> \<not> is_linebreak c"
  by (induction acc s arbitrary: l rule: splitlines_loop.induct) (auto split: if_splits)

lemma linebreak_newline: "is_linebreak newline"
  by code_simp

lemma splitlines_no_newline: "l \<in> set (splitlines s) \<Longrightarrow> newline \<notin> set l"
  using splitlines_loop_no_break [of "[]" l s newline] linebreak_newline by (auto simp: splitlines_def)

lemma literal_lines:
  "\<forall>l \<in> set ls. newline \<notin> set l \<Longrightarrow>
   cpp_literal (cpp_splice (concat (map (\<lambda>line. escape_string line @ line_end) ls))) =
     Some (concat (map (\<lambda>l. l @ [newline]) ls))"
proof (induction ls)
  case (Cons l ls)
  let ?rest = "concat (map (\<lambda>line. escape_string line @ line_end) ls)"
  have "cpp_splice (escape_string l @ line_end @ ?rest) =
      concat (map escape_char l) @ [CHR 0x5C, CHR ''n''] @ cpp_splice ?rest"
    using cpp_splice_line [of l ?rest] Cons.prems by (simp add: escape_string_chars)
  then show ?case using cpp_literal_line [of l "cpp_splice ?rest"] Cons by simp
qed simp

lemma splitlines_loop_join:
  "\<forall>c \<in> set s. is_linebreak c \<longrightarrow> c = newline \<Longrightarrow>
   concat (map (\<lambda>l. l @ [newline]) (splitlines_loop acc s)) =
     rev acc @ s @ (if acc = [] \<and> s = [] \<or> s \<noteq> [] \<and> last s = newline then [] else [newline])"
proof (induction acc s rule: splitlines_loop.induct)
  case (2 acc c cs)
  have "is_linebreak (CHR 0x0D)" by code_simp
  then have c: "\<not> (c = CHR 0x0D \<and> cs \<noteq> [] \<and> hd cs = newline)" using 2(4) by auto
  show ?case
  proof (cases "is_linebreak c")
    case True
    then have "c = newline" using 2(4) by simp
    have "concat (map (\<lambda>l. l @ [newline]) (splitlines_loop [] cs)) =
        cs @ (if cs = [] \<or> last cs = newline then [] else [newline])" using 2(2) [OF c True] 2(4) by simp
    then show ?thesis using True c \<open>c = newline\<close> by simp
  next
    case False
    then have "c \<noteq> newline" using linebreak_newline by blast
    have "concat (map (\<lambda>l. l @ [newline]) (splitlines_loop (c # acc) cs)) =
        rev acc @ c # cs @ (if cs \<noteq> [] \<and> last cs = newline then [] else [newline])"
      using 2(3) [OF c False] 2(4) by simp
    then show ?thesis using False c \<open>c \<noteq> newline\<close> by auto
  qed
qed simp

text \<open>C14: The constant that holds the definition of a message in C++: read as a string literal, the
  escaped text is the lines of the definition, each with a newline; when the only line breaks are
  newlines, it is the definition itself with a newline at its end.\<close>

theorem escape_message_definition_literal:
  "cpp_literal (cpp_splice (escape_message_definition d)) =
     Some (concat (map (\<lambda>l. l @ [newline]) (if splitlines d = [] then [[]] else splitlines d))) \<and>
   ((\<forall>c \<in> set d. is_linebreak c \<longrightarrow> c = newline) \<longrightarrow>
     cpp_literal (cpp_splice (escape_message_definition d)) =
       Some (if d \<noteq> [] \<and> last d = newline then d else d @ [newline]))"
proof -
  let ?ls = "if splitlines d = [] then [[]] else splitlines d"
  have lit: "cpp_literal (cpp_splice (escape_message_definition d)) = Some (concat (map (\<lambda>l. l @ [newline]) ?ls))"
    unfolding escape_message_definition_def Let_def using splitlines_no_newline [of _ d]
    by (intro literal_lines) auto
  moreover have "concat (map (\<lambda>l. l @ [newline]) ?ls) = (if d \<noteq> [] \<and> last d = newline then d else d @ [newline])"
    if "\<forall>c \<in> set d. is_linebreak c \<longrightarrow> c = newline"
  proof (cases "d = []")
    case False
    then have "concat (map (\<lambda>l. l @ [newline]) (splitlines d)) = (if last d = newline then d else d @ [newline])"
      using splitlines_loop_join [OF that, of "[]"] by (simp add: splitlines_def)
    moreover from this False have "splitlines d \<noteq> []" by (auto split: if_splits)
    ultimately show ?thesis using False by simp
  qed (simp add: splitlines_def)
  ultimately show ?thesis by simp
qed

theorem escape_message_definition_literal_witness:
  "cpp_literal (cpp_splice (escape_message_definition (''string s='' @ [CHR 0x22, CHR 0x5C, newline] @ ''int8 n''))) =
     Some (''string s='' @ [CHR 0x22, CHR 0x5C, newline] @ ''int8 n'' @ [newline])"
proof -
  let ?d = "''string s='' @ [CHR 0x22, CHR 0x5C, newline] @ ''int8 n''"
  have "list_all (\<lambda>c. is_linebreak c \<longrightarrow> c = newline) ?d" by code_simp
  then have "\<forall>c \<in> set ?d. is_linebreak c \<longrightarrow> c = newline" unfolding list_all_iff .
  from mp [OF conjunct2 [OF escape_message_definition_literal [of ?d]] this] show ?thesis by simp
qed

section \<open>What a fixed length means\<close>

text \<open>A message has a variable length if it has an array without a length, a string, or a message
  of variable length, where a nested message is what its type loads to.\<close>

definition variable_field :: "field \<Rightarrow> bool" where
  "variable_field f \<longleftrightarrow> f_is_array f \<and> f_array_len f = None \<or> f_base_type f = ''string''"

definition nested :: "world \<Rightarrow> search_path \<Rightarrow> msgspec \<Rightarrow> msgspec \<Rightarrow> bool" where
  "nested w sp spec s \<longleftrightarrow> (\<exists>f c c'. f \<in> set (ms_parsed_fields spec) \<and> \<not> f_is_builtin f \<and>
     load_msg_by_type w (resolve_type (f_base_type f) (ms_package spec)) sp c = (Inr s, c'))"

inductive variable_length :: "world \<Rightarrow> search_path \<Rightarrow> msgspec \<Rightarrow> bool" for w sp where
  direct: "f \<in> set (ms_parsed_fields spec) \<Longrightarrow> variable_field f \<Longrightarrow> variable_length w sp spec"
| inside: "nested w sp spec s \<Longrightarrow> variable_length w sp s \<Longrightarrow> variable_length w sp spec"

inductive_simps variable_length_iff: "variable_length w sp spec"

lemma fixed_fields_None: "fixed_fields fs = None \<longleftrightarrow> (\<exists>f \<in> set fs. variable_field f)"
  by (induction fs) (auto simp: variable_field_def)

lemma fixed_fields_Some:
  "fixed_fields fs = Some ts \<Longrightarrow> set ts = f_base_type ` {f \<in> set fs. \<not> f_is_builtin f}"
  by (induction fs arbitrary: ts) (auto split: if_splits)

text \<open>What a type loads to does not depend on the context.\<close>

lemma load_msg_from_string_any:
  assumes "load_msg_from_string w t n c = (Inr s, c')" shows "\<exists>d'. load_msg_from_string w t n d = (Inr s, d')"
proof -
  obtain p b where "register n s c = (Inr (), c')" by (rule load_msg_from_string_Inr [OF assms])
  then obtain k where "type_key n = Inr k" using ctx.put_raises by (cases "type_key n") auto
  then obtain d' where "register n s d = (Inr (), d')" using ctx.put_returns by blast
  then show ?thesis using assms by (auto simp: load_msg_from_string_def sbind_eq_Inr split: prod.splits)
qed

lemma load_msg_by_type_any:
  assumes "load_msg_by_type w t sp c = (Inr s, c')" shows "\<exists>d'. load_msg_by_type w t sp d = (Inr s, d')"
proof -
  let ?t = "if t = HEADER then HEADER_FULL_NAME else t"
  obtain p b f body c1 where l: "package_resource_name ?t = Inr (p, b)" "get_msg_file w p b sp EXT_MSG = Inr f"
    "w_files w f = Some body" "load_msg_from_string w body ?t c = (Inr s, c1)"
    using assms by (auto simp: load_msg_by_type_def load_msg_from_file_def Let_def sbind_eq_Inr split: prod.splits)
  obtain d1 where "load_msg_from_string w body ?t d = (Inr s, d1)" using load_msg_from_string_any [OF l(4)] by blast
  then show ?thesis using l by (auto simp: load_msg_by_type_def load_msg_from_file_def Let_def sbind_def)
qed

lemma fixed_types_meaning:
  assumes "fixed_types w sp p rec ts c = (Inr b, c')"
    and "\<And>s d b' d'. rec s d = (Inr b', d') \<Longrightarrow> b' \<longleftrightarrow> \<not> V s"
  shows "b \<longleftrightarrow> \<not> (\<exists>t \<in> set ts. \<exists>s d d'. load_msg_by_type w (resolve_type t p) sp d = (Inr s, d') \<and> V s)"
  using assms(1)
proof (induction ts arbitrary: c)
  case (Cons t ts)
  then obtain s c1 b1 c2 where l: "load_msg_by_type w (resolve_type t p) sp c = (Inr s, c1)" "rec s c1 = (Inr b1, c2)"
    and rest: "if \<not> b1 then b = False else fixed_types w sp p rec ts c2 = (Inr b, c')"
    by (auto simp: sbind_eq_Inr split: if_splits)
  have "s' = s" if "load_msg_by_type w (resolve_type t p) sp d = (Inr s', d')" for s' d d'
    using load_msg_by_type_any [OF that, of c] l(1) by simp
  then have t: "(\<exists>s d d'. load_msg_by_type w (resolve_type t p) sp d = (Inr s, d') \<and> V s) \<longleftrightarrow> V s"
    using l(1) by blast
  show ?case
  proof (cases b1)
    case True
    then have "fixed_types w sp p rec ts c2 = (Inr b, c')" using rest by simp
    from Cons.IH [OF this] show ?thesis using assms(2) [OF l(2)] t True by simp
  next
    case False
    then show ?thesis using assms(2) [OF l(2)] t rest by simp
  qed
qed simp

lemma is_fixed_length_meaning:
  assumes order: "\<And>S. finite S \<Longrightarrow> set (order S) = S"
  shows "is_fixed_length k order w sp spec c = (Inr b, c') \<Longrightarrow> b \<longleftrightarrow> \<not> variable_length w sp spec"
proof (induction k arbitrary: spec c b c')
  case (Suc k)
  show ?case
  proof (cases "fixed_fields (ms_parsed_fields spec)")
    case None
    then have "\<not> b" using Suc.prems by simp
    then show ?thesis using None unfolding fixed_fields_None by (blast intro: variable_length.direct)
  next
    case (Some ts)
    have "b \<longleftrightarrow> \<not> (\<exists>t \<in> set ts. \<exists>s d d'. load_msg_by_type w (resolve_type t (ms_package spec)) sp d = (Inr s, d') \<and>
        variable_length w sp s)"
      using fixed_types_meaning [of w sp "ms_package spec" "is_fixed_length k order w sp" "order (set ts)" c b c'
          "variable_length w sp"] Some Suc.prems Suc.IH order [of "set ts"] by simp
    moreover have "\<not> (\<exists>f \<in> set (ms_parsed_fields spec). variable_field f)"
      using Some fixed_fields_None [of "ms_parsed_fields spec"] by simp
    moreover have "(\<exists>t \<in> set ts. \<exists>s d d'. load_msg_by_type w (resolve_type t (ms_package spec)) sp d = (Inr s, d') \<and>
        variable_length w sp s) \<longleftrightarrow> (\<exists>s. nested w sp spec s \<and> variable_length w sp s)"
      unfolding fixed_fields_Some [OF Some] nested_def by blast
    ultimately show ?thesis unfolding variable_length_iff [of w sp spec] by blast
  qed
qed simp

text \<open>The recursion ends when what is nested in a message ranks below it.\<close>

lemma fixed_types_ends:
  assumes "\<And>t s d d'. t \<in> set ts \<Longrightarrow> load_msg_by_type w (resolve_type t p) sp d = (Inr s, d') \<Longrightarrow>
      fst (rec s d') \<noteq> Inl RecursionError"
  shows "fst (fixed_types w sp p rec ts c) \<noteq> Inl RecursionError"
  using assms
proof (induction ts arbitrary: c)
  case (Cons t ts)
  have l: "fst (load_msg_by_type w (resolve_type t p) sp c) \<noteq> Inl RecursionError"
    by (rule load_msg_by_type_no_recursion_error)
  have "fst (rec s d') \<noteq> Inl RecursionError" if "load_msg_by_type w (resolve_type t p) sp c = (Inr s, d')" for s d'
    using Cons.prems [OF _ that] by simp
  moreover have "fst (fixed_types w sp p rec ts d) \<noteq> Inl RecursionError" for d
    by (rule Cons.IH) (use Cons.prems in \<open>meson list.set_intros(2)\<close>)
  ultimately show ?case using l
    by (auto simp: sbind_def split: prod.splits sum.splits)
qed simp

lemma is_fixed_length_ends:
  assumes order: "\<And>S. finite S \<Longrightarrow> set (order S) = S" and rank: "\<And>s s'. nested w sp s s' \<Longrightarrow> rank s' < (rank s :: nat)"
  shows "rank spec < k \<Longrightarrow> fst (is_fixed_length k order w sp spec c) \<noteq> Inl RecursionError"
proof (induction k arbitrary: spec c)
  case (Suc k)
  show ?case
  proof (cases "fixed_fields (ms_parsed_fields spec)")
    case (Some ts)
    have "fst (fixed_types w sp (ms_package spec) (is_fixed_length k order w sp) (order (set ts)) c) \<noteq> Inl RecursionError"
    proof (rule fixed_types_ends)
      fix t s d d' assume "t \<in> set (order (set ts))"
        and l: "load_msg_by_type w (resolve_type t (ms_package spec)) sp d = (Inr s, d')"
      then have "nested w sp spec s"
        using order [of "set ts"] fixed_fields_Some [OF Some] by (auto simp: nested_def)
      then have "rank s < k" using rank Suc.prems by fastforce
      then show "fst (is_fixed_length k order w sp s d') \<noteq> Inl RecursionError" by (rule Suc.IH)
    qed
    then show ?thesis using Some by simp
  qed simp
qed simp

end
