(* ===== verification/Indented_Writer.thy ===== *)
theory Indented_Writer
  imports Loader
begin

text \<open>
  The writer with indentation that the generators for Lisp, EusLisp and Node.js share
  (\<open>IndentedWriter\<close> and \<open>Indent\<close> in \<open>genlisp/generate.py\<close>), and a calculus for what a writer adds to its
  text: a Lisp reader is a scan over the text, and the effect of a sequence of writes on the scan is
  computed from the strings that are written, whatever the indentation is.
\<close>

section \<open>The writer\<close>

record writer =
  w_text :: string
  indentation :: int
  block_indent :: bool

type_synonym writing = "(writer, unit) act"

definition IndentedWriter :: writer where
  "IndentedWriter = \<lparr>w_text = [], indentation = 0, block_indent = False\<rparr>"

definition w_write :: "string \<Rightarrow> bool \<Rightarrow> bool \<Rightarrow> writing" where
  "w_write s indent new_line = smodify (\<lambda>w.
     if block_indent w then w\<lparr>block_indent := False, w_text := w_text w @ s\<rparr>
     else w\<lparr>w_text := w_text w @ (if indent \<and> new_line then [newline] else []) @
       (if indent then replicate (nat (indentation w)) CHR '' '' else []) @ s\<rparr>)"

definition w_newline :: writing where
  "w_newline = smodify (\<lambda>w. w\<lparr>w_text := w_text w @ [newline]\<rparr>)"

definition inc_indent :: "int \<Rightarrow> writing" where
  "inc_indent n = smodify (\<lambda>w. w\<lparr>indentation := indentation w + n\<rparr>)"

definition dec_indent :: "int \<Rightarrow> writing" where
  "dec_indent n = smodify (\<lambda>w. w\<lparr>indentation := indentation w - n\<rparr>)"

definition reset_indent :: writing where
  "reset_indent = smodify (\<lambda>w. w\<lparr>indentation := 0\<rparr>)"

definition block_next_indent :: writing where
  "block_next_indent = smodify (\<lambda>w. w\<lparr>block_indent := True\<rparr>)"

text \<open>\<open>s.write(x)\<close>, \<open>s.write(x, False)\<close> and \<open>s.write(x, newline=False)\<close>.\<close>

abbreviation put :: "string \<Rightarrow> writing" where "put s \<equiv> w_write s True True"
abbreviation put_inline :: "string \<Rightarrow> writing" where "put_inline s \<equiv> w_write s False True"
abbreviation put_same_line :: "string \<Rightarrow> writing" where "put_same_line s \<equiv> w_write s True False"

text \<open>Statements one after the other, and a loop.\<close>

fun wseq :: "writing list \<Rightarrow> writing" where
  "wseq [] = sret ()"
| "wseq (m # ms) = sbind m (\<lambda>_. wseq ms)"

definition wfor :: "'a list \<Rightarrow> ('a \<Rightarrow> writing) \<Rightarrow> writing" where
  "wfor xs f = wseq (map f xs)"

definition wwhen :: "bool \<Rightarrow> writing \<Rightarrow> writing" where
  "wwhen b m = (if b then m else sret ())"

text \<open>The context manager \<open>with Indent(s, inc, indent_first)\<close>; it restores the indentation after an exception
  too.\<close>

definition with_indent :: "int \<Rightarrow> bool \<Rightarrow> writing list \<Rightarrow> writing" where
  "with_indent n indent_first ms w =
     (case sbind (inc_indent n) (\<lambda>_. sbind (wwhen (\<not> indent_first) block_next_indent) (\<lambda>_. wseq ms)) w of
        (r, w') \<Rightarrow> (r, snd (dec_indent n w')))"

abbreviation indented :: "writing list \<Rightarrow> writing" where "indented ms \<equiv> with_indent 2 True ms"

text \<open>The text that a sequence of writes gives.\<close>

definition written :: "writing \<Rightarrow> string res" where
  "written m = (case m IndentedWriter of (Inl e, w) \<Rightarrow> Inl e | (Inr u, w) \<Rightarrow> Inr (w_text w))"

section \<open>Reading Lisp\<close>

text \<open>The state of a Lisp reader: in code, a string, an escaped character of a string or a comment, with
  the number of open parentheses. A parenthesis that closes nothing is an error.\<close>

datatype reader = Code nat | Str nat | Esc nat | Comment nat

fun read_char :: "char \<Rightarrow> reader \<Rightarrow> reader option" where
  "read_char c (Code d) =
     (if c = CHR ''('' then Some (Code (Suc d))
      else if c = CHR '')'' then (case d of 0 \<Rightarrow> None | Suc e \<Rightarrow> Some (Code e))
      else if c = CHR 0x22 then Some (Str d)
      else if c = CHR '';'' then Some (Comment d)
      else Some (Code d))"
| "read_char c (Str d) =
     Some (if c = CHR 0x22 then Code d else if c = CHR 0x5C then Esc d else Str d)"
| "read_char c (Esc d) = Some (Str d)"
| "read_char c (Comment d) = Some (if c = newline then Code d else Comment d)"

fun lisp_scan :: "string \<Rightarrow> reader \<Rightarrow> reader option" where
  "lisp_scan [] s = Some s"
| "lisp_scan (c # cs) s = Option.bind (read_char c s) (lisp_scan cs)"

text \<open>All forms of a text are closed.\<close>

definition balanced :: "string \<Rightarrow> bool" where
  "balanced t \<longleftrightarrow> lisp_scan t (Code 0) = Some (Code 0)"

definition plain :: "string \<Rightarrow> bool" where
  "plain s \<longleftrightarrow> (\<forall>c \<in> set s. c \<notin> {CHR ''('', CHR '')'', CHR '';'', CHR 0x22, CHR 0x5C, newline})"

lemma scan_append: "lisp_scan (s @ t) r = Option.bind (lisp_scan s r) (lisp_scan t)"
  by (induction s r rule: lisp_scan.induct) (auto split: bind_splits)

lemma scan_plain: "plain s \<Longrightarrow> lisp_scan s (Code d) = Some (Code d)" "plain s \<Longrightarrow> lisp_scan s (Str d) = Some (Str d)"
  "plain s \<Longrightarrow> lisp_scan s (Comment d) = Some (Comment d)"
  by (induction s) (auto simp: plain_def)

lemma plain_append [simp]: "plain (s @ t) \<longleftrightarrow> plain s \<and> plain t"
  by (auto simp: plain_def)

lemma plain_Nil [simp]: "plain []"
  by (simp add: plain_def)

lemma scan_spaces: "r = Code d \<or> r = Str d \<Longrightarrow> lisp_scan (replicate n CHR '' '') r = Some r"
  by (induction n) auto

section \<open>What a writer adds\<close>

definition in_text :: "reader \<Rightarrow> bool" where
  "in_text r \<longleftrightarrow> (case r of Code d \<Rightarrow> True | Str d \<Rightarrow> True | _ \<Rightarrow> False)"

lemma in_text_simps [simp]:
  "in_text (Code d)" "in_text (Str d)" "\<not> in_text (Esc d)" "\<not> in_text (Comment d)"
  by (simp_all add: in_text_def)

text \<open>What is known of a writer: the state of the reader of its text, and whether the next line surely starts
  with a line break. An effect maps this knowledge before a piece of the program to the one after it.\<close>

type_synonym known = "reader \<times> bool"
type_synonym effect = "known \<Rightarrow> known option"

definition knows :: "writer \<Rightarrow> known \<Rightarrow> bool" where
  "knows w s \<longleftrightarrow> lisp_scan (w_text w) (Code 0) = Some (fst s) \<and> (snd s \<longrightarrow> \<not> block_indent w)"

text \<open>A writer that returns has the effect \<open>f\<close>, and leaves the indentation as it was.\<close>

definition adds :: "writing \<Rightarrow> effect \<Rightarrow> bool" where
  "adds m f \<longleftrightarrow> (\<forall>w w' s s'. m w = (Inr (), w') \<longrightarrow> knows w s \<longrightarrow> f s = Some s' \<longrightarrow>
     knows w' s' \<and> indentation w' = indentation w)"

text \<open>A line break and spaces do not matter between texts, and a line break ends a comment.\<close>

definition writes :: "string \<Rightarrow> bool \<Rightarrow> bool \<Rightarrow> effect" where
  "writes t indent new_line s =
     (if in_text (fst s) then map_option (\<lambda>r. (r, True)) (lisp_scan t (fst s))
      else if snd s then (case fst s of
          Comment d \<Rightarrow> map_option (\<lambda>r. (r, True)) (lisp_scan t (if indent \<and> new_line then Code d else Comment d))
        | _ \<Rightarrow> None)
      else None)"

definition andthen :: "effect \<Rightarrow> effect \<Rightarrow> effect" where
  "andthen f g s = Option.bind (f s) g"

definition forgets :: effect where
  "forgets s = Some (fst s, False)"

text \<open>From \<open>n\<close> open parentheses to \<open>k\<close>, with any number of others around.\<close>

definition moves :: "nat \<Rightarrow> nat \<Rightarrow> effect" where
  "moves n k s = (case fst s of Code d \<Rightarrow> if n \<le> d then Some (Code (d - n + k), False) else None | _ \<Rightarrow> None)"

abbreviation parens :: "nat \<Rightarrow> nat \<Rightarrow> writing \<Rightarrow> bool" where
  "parens n k m \<equiv> adds m (moves n k)"

lemma addsI:
  "(\<And>w w' s s'. m w = (Inr (), w') \<Longrightarrow> knows w s \<Longrightarrow> f s = Some s' \<Longrightarrow>
     knows w' s' \<and> indentation w' = indentation w) \<Longrightarrow> adds m f"
  by (auto simp: adds_def)

lemma scan_layout:
  "in_text r \<or> (\<exists>d. r = Comment d \<and> \<not> b) \<Longrightarrow> lisp_scan ((if b then [newline] else []) @ (if c then replicate n CHR '' '' else [])) r = Some r"
  "lisp_scan ([newline] @ replicate n CHR '' '') (Comment d) = Some (Code d)"
proof -
  have "lisp_scan (replicate n CHR '' '') (Comment d) = Some (Comment d)" for d by (induction n) auto
  then show "in_text r \<or> (\<exists>d. r = Comment d \<and> \<not> b) \<Longrightarrow>
      lisp_scan ((if b then [newline] else []) @ (if c then replicate n CHR '' '' else [])) r = Some r"
    by (cases r) (auto simp: scan_append scan_spaces)
qed (simp add: scan_spaces)

lemma adds_write: "adds (w_write t b c) (writes t b c)"
proof (rule addsI)
  fix w w' s s' assume w: "w_write t b c w = (Inr (), w')" and s: "knows w s" "writes t b c s = Some s'"
  let ?l = "if block_indent w then [] else (if b \<and> c then [newline] else []) @ (if b then replicate (nat (indentation w)) CHR '' '' else [])"
  have t: "w_text w' = (w_text w @ ?l) @ t" "\<not> block_indent w'" "indentation w' = indentation w"
    using w by (cases "block_indent w"; auto simp: w_write_def)+
  obtain r nb where p: "s = (r, nb)" by (cases s)
  have r: "lisp_scan (w_text w) (Code 0) = Some r" "nb \<longrightarrow> \<not> block_indent w" using s(1) by (auto simp: knows_def p)
  have "\<exists>r1. lisp_scan ?l r = Some r1 \<and> map_option (\<lambda>r. (r, True)) (lisp_scan t r1) = Some s'"
  proof (cases "in_text r")
    case True
    then have "lisp_scan ?l r = Some r" using scan_layout(1) by auto
    then show ?thesis using s(2) True by (simp add: writes_def p)
  next
    case False
    then obtain d where d: "r = Comment d" "nb"
      "map_option (\<lambda>r. (r, True)) (lisp_scan t (if b \<and> c then Code d else Comment d)) = Some s'"
      using s(2) by (auto simp: writes_def p split: if_splits reader.splits)
    have "lisp_scan ?l r = Some (if b \<and> c then Code d else Comment d)"
    proof (cases "b \<and> c")
      case True
      then show ?thesis using r(2) d(1,2) scan_layout(2) by simp
    next
      case False
      then show ?thesis using r(2) d(1,2) scan_layout(1) [of r "b \<and> c" b "nat (indentation w)"] by simp
    qed
    then show ?thesis using d(3) by blast
  qed
  then obtain r1 r2 where "lisp_scan ?l r = Some r1" "lisp_scan t r1 = Some r2" "s' = (r2, True)" by auto
  then have "lisp_scan (w_text w') (Code 0) = Some r2" unfolding t(1) scan_append [of "w_text w @ ?l"] scan_append [of "w_text w"]
    using r(1) by simp
  then show "knows w' s' \<and> indentation w' = indentation w" using t \<open>s' = (r2, True)\<close> by (simp add: knows_def)
qed

lemma adds_newline: "adds w_newline (\<lambda>s. map_option (\<lambda>r. (r, snd s)) (lisp_scan [newline] (fst s)))"
  by (rule addsI) (auto simp: w_newline_def knows_def scan_append simp del: lisp_scan.simps)

lemma adds_seq:
  "adds (wseq []) Some"
  "adds m f \<Longrightarrow> adds (wseq ms) g \<Longrightarrow> adds (wseq (m # ms)) (andthen f g)"
proof -
  show "adds (wseq []) Some" by (rule addsI) auto
  assume m: "adds m f" and ms: "adds (wseq ms) g"
  show "adds (wseq (m # ms)) (andthen f g)"
  proof (rule addsI)
    fix w w' s s' assume w: "wseq (m # ms) w = (Inr (), w')" and s: "knows w s" "andthen f g s = Some s'"
    obtain w1 where w1: "m w = (Inr (), w1)" "wseq ms w1 = (Inr (), w')" using w by (auto simp: sbind_eq_Inr)
    obtain s1 where s1: "f s = Some s1" "g s1 = Some s'" using s(2) by (auto simp: andthen_def split: bind_splits)
    show "knows w' s' \<and> indentation w' = indentation w"
      using m ms w1 s(1) s1 unfolding adds_def by metis
  qed
qed

lemma adds_block: "adds block_next_indent forgets"
  by (rule addsI) (auto simp: block_next_indent_def forgets_def knows_def)

lemma adds_indent:
  "adds (wseq ms) f \<Longrightarrow> adds (with_indent n True ms) f"
  "adds (wseq ms) f \<Longrightarrow> adds (with_indent n False ms) (andthen forgets f)"
proof -
  assume f: "adds (wseq ms) f"
  have step: "knows (snd (dec_indent n u)) s' \<and> indentation (snd (dec_indent n u)) = indentation w"
    if "wseq ms v = (Inr (), u)" "knows v s" "f s = Some s'" "indentation v = indentation w + n" for u v w s s'
  proof -
    have "knows u s' \<and> indentation u = indentation v" using f that(1-3) unfolding adds_def by blast
    then show ?thesis using that(4) by (simp add: dec_indent_def knows_def)
  qed
  show "adds (with_indent n True ms) f"
  proof (rule addsI)
    fix w w' s s' assume w: "with_indent n True ms w = (Inr (), w')" and s: "knows w s" "f s = Some s'"
    let ?v = "w\<lparr>indentation := indentation w + n\<rparr>"
    obtain u where u: "wseq ms ?v = (Inr (), u)" "w' = snd (dec_indent n u)"
      using w by (auto simp: with_indent_def inc_indent_def wwhen_def sbind_def split: prod.splits sum.splits)
    have "knows ?v s" using s(1) by (simp add: knows_def)
    from step [OF u(1) this s(2), of w] show "knows w' s' \<and> indentation w' = indentation w" using u(2) by simp
  qed
  show "adds (with_indent n False ms) (andthen forgets f)"
  proof (rule addsI)
    fix w w' s s' assume w: "with_indent n False ms w = (Inr (), w')" and s: "knows w s" "andthen forgets f s = Some s'"
    let ?v = "w\<lparr>indentation := indentation w + n, block_indent := True\<rparr>"
    obtain u where u: "wseq ms ?v = (Inr (), u)" "w' = snd (dec_indent n u)"
      using w by (auto simp: with_indent_def inc_indent_def block_next_indent_def wwhen_def sbind_def split: prod.splits sum.splits)
    have "knows ?v (fst s, False)" using s(1) by (simp add: knows_def)
    moreover have "f (fst s, False) = Some s'" using s(2) by (simp add: andthen_def forgets_def)
    ultimately show "knows w' s' \<and> indentation w' = indentation w" using step [OF u(1), of _ s' w] u(2) by simp
  qed
qed

lemma adds_weaken:
  "adds m f \<Longrightarrow> (\<And>s s'. g s = Some s' \<Longrightarrow> \<exists>nb. f (fst s, False) = Some (fst s', nb) \<and> (snd s' \<longrightarrow> nb)) \<Longrightarrow> adds m g"
proof (rule addsI)
  fix w w' s s' assume f: "adds m f" "\<And>s s'. g s = Some s' \<Longrightarrow> \<exists>nb. f (fst s, False) = Some (fst s', nb) \<and> (snd s' \<longrightarrow> nb)"
    and w: "m w = (Inr (), w')" "knows w s" "g s = Some s'"
  obtain nb where nb: "f (fst s, False) = Some (fst s', nb)" "snd s' \<longrightarrow> nb" using f(2) [OF w(3)] by blast
  have "knows w (fst s, False)" using w(2) by (simp add: knows_def)
  then have "knows w' (fst s', nb) \<and> indentation w' = indentation w" using f(1) w(1) nb(1) unfolding adds_def by blast
  then show "knows w' s' \<and> indentation w' = indentation w" using nb(2) by (auto simp: knows_def)
qed

text \<open>The effect in parentheses, from an effect on code with enough of them open.\<close>

lemma parensI: "adds m f \<Longrightarrow> (\<And>d. map_option fst (f (Code (n + d), False)) = Some (Code (k + d))) \<Longrightarrow> parens n k m"
proof (erule adds_weaken)
  fix s s' assume f: "\<And>d. map_option fst (f (Code (n + d), False)) = Some (Code (k + d))" and "moves n k s = Some s'"
  then obtain d where d: "fst s = Code d" "n \<le> d" "s' = (Code (d - n + k), False)"
    by (auto simp: moves_def split: reader.splits if_splits)
  then show "\<exists>nb. f (fst s, False) = Some (fst s', nb) \<and> (snd s' \<longrightarrow> nb)"
    using f [of "d - n"] by (auto simp: add.commute)
qed

lemma moves_Code [simp]: "moves n k (Code (n + d), b) = Some (Code (k + d), False)"
  by (simp add: moves_def)

text \<open>Branches, loops that give back what they get, and results of computations that may fail.\<close>

lemma adds_when: "adds m f \<Longrightarrow> adds (wwhen b m) (if b then f else Some)"
  by (auto simp: wwhen_def adds_def)

lemma adds_if: "(b \<Longrightarrow> adds m f) \<Longrightarrow> (\<not> b \<Longrightarrow> adds m' g) \<Longrightarrow> adds (if b then m else m') (if b then f else g)"
  by auto

lemma adds_raise: "adds (sraise e) Some"
  by (rule addsI) auto

definition each :: "'a list \<Rightarrow> ('a \<Rightarrow> effect) \<Rightarrow> effect" where
  "each xs g s = (if \<forall>x\<in>set xs. map_option fst (g x (fst s, False)) = Some (fst s) then Some (fst s, False) else None)"

lemma each_same [simp]: "(\<And>x. x \<in> set xs \<Longrightarrow> map_option fst (g x (r, False)) = Some r) \<Longrightarrow> each xs g (r, b) = Some (r, False)"
  by (simp add: each_def)

lemma each_two [simp]:
  "map_option fst (g x (r, False)) = Some r \<Longrightarrow> map_option fst (g y (r, False)) = Some r \<Longrightarrow> each [x, y] g (r, b) = Some (r, False)"
  by (simp add: each_def)

lemma adds_each:
  assumes "\<And>x. x \<in> set xs \<Longrightarrow> adds (h x) (g x)" shows "adds (wfor xs h) (each xs g)"
  using assms
proof (induction xs)
  case Nil
  show ?case unfolding wfor_def list.map by (rule adds_weaken [OF adds_seq(1)]) (auto simp: each_def)
next
  case (Cons x xs)
  have "adds (wseq (map h xs)) (each xs g)" "adds (h x) (g x)" using Cons by (simp_all add: wfor_def)
  then have "adds (wseq (h x # map h xs)) (each (x # xs) g)"
    by (intro adds_weaken [OF adds_seq(2) [of _ "g x" _ "each xs g"]])
       (auto simp: andthen_def each_def split: if_splits)
  then show ?case by (simp add: wfor_def)
qed

lemma parens_read: "(\<And>x. v = Inr x \<Longrightarrow> adds (h x) (g x)) \<Longrightarrow>
    (\<And>x d. v = Inr x \<Longrightarrow> map_option fst (g x (Code (n + d), False)) = Some (Code (k + d))) \<Longrightarrow>
    parens n k (sbind (slift v) h)"
proof (cases v)
  case (Inr x)
  assume "\<And>x. v = Inr x \<Longrightarrow> adds (h x) (g x)"
    "\<And>x d. v = Inr x \<Longrightarrow> map_option fst (g x (Code (n + d), False)) = Some (Code (k + d))"
  then have "parens n k (h x)" using Inr by (intro parensI) auto
  then show ?thesis using Inr by (simp add: adds_def)
qed (simp add: adds_def)

lemma parens_lift: "(\<And>x. v = Inr x \<Longrightarrow> parens n k (h x)) \<Longrightarrow> parens n k (sbind (slift v) h)"
  by (rule parens_read) auto

lemma balanced_written:
  assumes "parens 0 0 m" "written m = Inr t" shows "balanced t"
proof -
  obtain w where w: "m IndentedWriter = (Inr (), w)" "t = w_text w"
    using assms(2) by (auto simp: written_def split: prod.splits sum.splits)
  have "knows IndentedWriter (Code 0, False)" "moves 0 0 (Code 0, False) = Some (Code 0, False)"
    by (simp_all add: knows_def IndentedWriter_def moves_def)
  then have "knows w (Code 0, False)" using assms(1) w(1) unfolding adds_def by blast
  then show ?thesis using w(2) by (simp add: knows_def balanced_def)
qed

lemmas adds_intros = adds_seq adds_indent adds_write adds_newline adds_block adds_when adds_if adds_raise adds_each

section \<open>Writers that return\<close>

definition returns :: "writing \<Rightarrow> bool" where
  "returns m \<longleftrightarrow> (\<forall>w. \<exists>w'. m w = (Inr (), w'))"

lemma returns_write: "returns (w_write s b c)" "returns w_newline" "returns block_next_indent"
  by (simp_all add: returns_def w_write_def w_newline_def block_next_indent_def)

lemma returns_bind: "returns m \<Longrightarrow> returns m' \<Longrightarrow> returns (sbind m (\<lambda>_. m'))"
  unfolding returns_def
proof (rule allI)
  fix w assume m: "\<forall>w. \<exists>w'. m w = (Inr (), w')" "\<forall>w. \<exists>w'. m' w = (Inr (), w')"
  then obtain w1 w2 where "m w = (Inr (), w1)" "m' w1 = (Inr (), w2)" by metis
  then show "\<exists>w'. sbind m (\<lambda>_. m') w = (Inr (), w')" by (simp add: sbind_def)
qed

lemma returns_seq: "returns (wseq [])" "returns m \<Longrightarrow> returns (wseq ms) \<Longrightarrow> returns (wseq (m # ms))"
  unfolding wseq.simps by (simp add: returns_def) (rule returns_bind)

lemma returns_for: "(\<And>x. x \<in> set xs \<Longrightarrow> returns (h x)) \<Longrightarrow> returns (wfor xs h)"
  unfolding wfor_def by (induction xs) (simp_all only: list.map returns_seq list.set_intros)

lemma returns_when: "(b \<Longrightarrow> returns m) \<Longrightarrow> returns (wwhen b m)"
  by (simp add: wwhen_def returns_def)

lemma returns_if: "(b \<Longrightarrow> returns m) \<Longrightarrow> (\<not> b \<Longrightarrow> returns m') \<Longrightarrow> returns (if b then m else m')"
  by simp

lemma returns_read: "v = Inr x \<Longrightarrow> returns (h x) \<Longrightarrow> returns (sbind (slift v) h)"
  by (simp add: returns_def)

lemma returns_indent: "returns (wseq ms) \<Longrightarrow> returns (with_indent n first ms)"
proof -
  let ?m = "sbind (inc_indent n) (\<lambda>_. sbind (wwhen (\<not> first) block_next_indent) (\<lambda>_. wseq ms))"
  assume "returns (wseq ms)"
  then have "returns ?m"
    by (intro returns_bind returns_when returns_write) (simp_all add: returns_def inc_indent_def)
  then show ?thesis
    unfolding returns_def with_indent_def by (metis (no_types, lifting) old.prod.case)
qed

lemma returns_written: "returns m \<Longrightarrow> \<exists>t. written m = Inr t"
  unfolding returns_def written_def by (metis (no_types, lifting) old.prod.case sum.case(2))

lemmas returns_intros = returns_write returns_seq returns_for returns_when returns_if returns_indent

end
