(* ===== verification/Genlisp.thy ===== *)
theory Genlisp
  imports Gentools Indented_Writer "HOL-Library.List_Lexorder" "HOL-Library.Char_ord"
begin

text \<open>
  The generator for Common Lisp, \<open>genlisp/generate.py\<close>. Each \<open>write_\<close> function is a writer. The attributes
  \<open>actual_name\<close> and \<open>component_type\<close> that the code adds to a specification are fields of \<open>named_spec\<close>.
  How a float is printed, what \<open>os.listdir\<close> and \<open>os.path.abspath\<close> return and the hash are arguments; the
  files that are written are a field of the state. \<open>str.upper\<close> is that of ASCII letters.
\<close>

section \<open>Types\<close>

definition is_fixnum :: "string \<Rightarrow> bool" where
  "is_fixnum t \<longleftrightarrow> t \<in> set [''int8'', ''uint8'', ''int16'', ''uint16'']"

definition is_integer :: "string \<Rightarrow> bool" where
  "is_integer t \<longleftrightarrow> is_fixnum t \<or> t \<in> set [''byte'', ''char'', ''int32'', ''uint32'', ''int64'', ''uint64'']"

definition is_signed_int :: "string \<Rightarrow> bool" where
  "is_signed_int t \<longleftrightarrow> t \<in> set [''int8'', ''int16'', ''int32'', ''int64'']"

definition is_unsigned_int :: "string \<Rightarrow> bool" where
  "is_unsigned_int t \<longleftrightarrow> t \<in> set [''uint8'', ''uint16'', ''uint32'', ''uint64'']"

definition is_bool :: "string \<Rightarrow> bool" where "is_bool t \<longleftrightarrow> t = ''bool''"
definition is_string :: "string \<Rightarrow> bool" where "is_string t \<longleftrightarrow> t = ''string''"

definition is_float :: "string \<Rightarrow> bool" where
  "is_float t \<longleftrightarrow> t \<in> set [''float16'', ''float32'', ''float64'']"

definition is_time :: "string \<Rightarrow> bool" where
  "is_time t \<longleftrightarrow> t \<in> set [''time'', ''duration'']"

definition parse_msg_type :: "field \<Rightarrow> (string \<times> string) res" where
  "parse_msg_type f =
     (if f_base_type f = ''Header'' then Inr (''std_msgs'', ''Header'')
      else case split_on SEP (f_base_type f) of [pkg, msg] \<Rightarrow> Inr (pkg, msg) | _ \<Rightarrow> Inl ValueError)"

definition msg_type :: "field \<Rightarrow> string res" where
  "msg_type f = rbind (parse_msg_type f) (\<lambda>(pkg, msg). Inr (pkg @ ''-msg:'' @ msg))"

definition lisp_type :: "string \<Rightarrow> string res" where
  "lisp_type t =
     (if is_fixnum t then Inr ''cl:fixnum''
      else if is_integer t then Inr ''cl:integer''
      else if is_bool t then Inr ''cl:boolean''
      else if is_float t then Inr ''cl:float''
      else if is_time t then Inr ''cl:real''
      else if is_string t then Inr ''cl:string''
      else Inl ValueError)"

definition lisp_field_type :: "field \<Rightarrow> string res" where
  "lisp_field_type f = rbind (if f_is_builtin f then lisp_type (f_base_type f) else msg_type f) (\<lambda>elt_type.
     Inr (if f_is_array f then (''(cl:vector '' @ elt_type @ '')'') else elt_type))"

definition lisp_initform :: "string \<Rightarrow> string res" where
  "lisp_initform t =
     (if is_integer t then Inr ''0''
      else if is_bool t then Inr ''cl:nil''
      else if is_float t then Inr ''0.0''
      else if is_time t then Inr ''0''
      else if is_string t then Inr [dquote, dquote]
      else Inl ValueError)"

definition field_initform :: "field \<Rightarrow> string res" where
  "field_initform f =
     rbind (if f_is_builtin f then
              rbind (lisp_initform (f_base_type f)) (\<lambda>i. rbind (lisp_type (f_base_type f)) (\<lambda>t. Inr (i, t)))
            else rbind (msg_type f) (\<lambda>t. Inr ((''(cl:make-instance '' @ [squote] @ t @ '')''), t)))
       (\<lambda>(initform, elt_type).
         if f_is_array f then
           let len = (case f_array_len f of None \<Rightarrow> 0 | Some n \<Rightarrow> n)
           in Inr (''(cl:make-array '' @ str_of_int len @ '' :element-type '' @ [squote] @ elt_type @ '' :initial-element '' @ initform @ '')'')
         else Inr initform)"

definition NUM_BYTES :: "string \<Rightarrow> nat" where
  "NUM_BYTES t = the (map_of [(''int8'', 1), (''int16'', 2), (''int32'', 4), (''int64'', 8),
     (''uint8'', 1), (''uint16'', 2), (''uint32'', 4), (''uint64'', 8)] t)"

text \<open>\<open>not f.array_len\<close>: no length, or the length zero.\<close>

definition no_len :: "field \<Rightarrow> bool" where
  "no_len f \<longleftrightarrow> f_array_len f = None \<or> f_array_len f = Some 0"

definition len_str :: "field \<Rightarrow> string" where
  "len_str f = str_of_int (the (f_array_len f))"

definition upper_char :: "char \<Rightarrow> char" where
  "upper_char c = (if 97 \<le> (of_char c :: nat) \<and> (of_char c :: nat) \<le> 122 then char_of ((of_char c :: nat) - 32) else c)"

definition py_upper :: "string \<Rightarrow> string" where
  "py_upper s = map upper_char s"

section \<open>Classes\<close>

record named_spec =
  ns_spec :: msgspec
  actual_name :: string
  component_type :: string

abbreviation ns_fields :: "named_spec \<Rightarrow> field list" where
  "ns_fields s \<equiv> ms_parsed_fields (ns_spec s)"

definition message_class :: "named_spec \<Rightarrow> string" where
  "message_class s = ''<'' @ actual_name s @ ''>''"

definition new_message_class :: "named_spec \<Rightarrow> string" where
  "new_message_class s = actual_name s"

definition suffix_of :: "named_spec \<Rightarrow> string" where
  "suffix_of s = (if component_type s = ''service'' then ''srv'' else ''msg'')"

definition write_begin :: "string \<Rightarrow> bool \<Rightarrow> writing" where
  "write_begin package is_service = wseq
     [put_same_line (''; Auto-generated. Do not edit!'' @ [newline, newline, newline]),
      put_same_line (''(cl:in-package '' @ package @ ''-'' @ (if is_service then ''srv'' else ''msg'') @ '')'' @ [newline, newline, newline])]"

definition write_html_include :: "named_spec \<Rightarrow> writing" where
  "write_html_include s = put_same_line ('';//! '' @ [backslash] @ ''htmlinclude '' @ actual_name s @ ''.msg.html'' @ [newline])"

definition write_slot_definition :: "field \<Rightarrow> writing" where
  "write_slot_definition f = wseq
     [put (''('' @ f_name f),
      with_indent 1 True
        [put ('':reader '' @ f_name f),
         put ('':initarg :'' @ f_name f),
         sbind (slift (lisp_field_type f)) (\<lambda>t. put ('':type '' @ t))],
      with_indent (if f_is_array f then 0 else 1) True
        [sbind (slift (field_initform f)) (\<lambda>i. put ('':initform '' @ i @ '')''))]]"

definition write_deprecated_readers :: "named_spec \<Rightarrow> writing" where
  "write_deprecated_readers s = wfor (ns_fields s) (\<lambda>f. wseq
     [w_newline,
      put (''(cl:ensure-generic-function '' @ [squote] @ f_name f @ ''-val :lambda-list '' @ [squote] @ ''(m))''),
      put (''(cl:defmethod '' @ f_name f @ ''-val ((m '' @ message_class s @ ''))''),
      indented
        [put (''(roslisp-msg-protocol:msg-deprecation-warning '' @ [dquote] @ ''Using old-style slot reader '' @ ms_package (ns_spec s) @ ''-'' @ suffix_of s @ '':'' @ f_name f @ ''-val is deprecated.  Use '' @ ms_package (ns_spec s) @ ''-'' @ suffix_of s @ '':'' @ f_name f @ '' instead.'' @ [dquote] @ '')''),
         put (''('' @ f_name f @ '' m))'')]])"

definition write_defclass :: "named_spec \<Rightarrow> writing" where
  "write_defclass s = (let cl = message_class s; new_cl = new_message_class s in wseq
     [put (''(cl:defclass '' @ cl @ '' (roslisp-msg-protocol:ros-message)''),
      indented
        [put ''('',
         with_indent 1 False [wfor (ns_fields s) write_slot_definition],
         put_inline '')''],
      put '')'',
      w_newline,
      put (''(cl:defclass '' @ new_cl @ '' ('' @ cl @ '')''),
      indented [put ''())''],
      w_newline,
      put (''(cl:defmethod cl:initialize-instance :after ((m '' @ cl @ '') cl:&rest args)''),
      indented
        [put ''(cl:declare (cl:ignorable args))'',
         put (''(cl:unless (cl:typep m '' @ [squote] @ new_cl @ '')''),
         indented [put (''(roslisp-msg-protocol:msg-deprecation-warning '' @ [dquote] @ ''using old message class name '' @ ms_package (ns_spec s) @ ''-'' @ suffix_of s @ '':'' @ cl @ '' is deprecated: use '' @ ms_package (ns_spec s) @ ''-'' @ suffix_of s @ '':'' @ new_cl @ '' instead.'' @ [dquote] @ '')))'')]]])"

section \<open>Serialization\<close>

definition byte_offsets :: "nat \<Rightarrow> nat list" where
  "byte_offsets num_bytes = map (\<lambda>i. 8 * i) [0..<num_bytes]"

definition length_var :: "bool \<Rightarrow> string" where
  "length_var is_array = (if is_array then ''__ros_arr_len'' else ''__ros_str_len'')"

definition write_serialize_bits :: "string \<Rightarrow> nat \<Rightarrow> writing" where
  "write_serialize_bits v num_bytes = wfor (byte_offsets num_bytes) (\<lambda>x.
     put (''(cl:write-byte (cl:ldb (cl:byte 8 '' @ str_of_nat x @ '') '' @ v @ '') ostream)''))"

definition write_serialize_length :: "string \<Rightarrow> bool \<Rightarrow> writing" where
  "write_serialize_length v is_array = wseq
     [put (''(cl:let (('' @ length_var is_array @ '' (cl:length '' @ v @ '')))''),
      indented [wfor (byte_offsets 4) (\<lambda>x.
        put (''(cl:write-byte (cl:ldb (cl:byte 8 '' @ str_of_nat x @ '') '' @ length_var is_array @ '') ostream)''))],
      put_inline '')'']"

definition write_serialize_bits_signed :: "string \<Rightarrow> nat \<Rightarrow> writing" where
  "write_serialize_bits_signed v num_bytes = wseq
     [put (''(cl:let* ((signed '' @ v @ '') (unsigned (cl:if (cl:< signed 0) (cl:+ signed '' @ str_of_nat (2 ^ (num_bytes * 8)) @ '') signed)))''),
      indented [write_serialize_bits ''unsigned'' num_bytes, put '')'']]"

definition write_serialize_builtin :: "field \<Rightarrow> string \<Rightarrow> bool \<Rightarrow> writing" where
  "write_serialize_builtin f var lookup_slot =
     (let v = (if lookup_slot then (''(cl:slot-value '' @ var @ '' '' @ [squote] @ f_name f @ '')'') else var); t = f_base_type f in
      if t = ''string'' then wseq
        [write_serialize_length v False,
         put (''(cl:map cl:nil #'' @ [squote] @ ''(cl:lambda (c) (cl:write-byte (cl:char-code c) ostream)) '' @ v @ '')'')]
      else if t = ''float32'' then wseq
        [put (''(cl:let ((bits (roslisp-utils:encode-single-float-bits '' @ v @ '')))''),
         indented [write_serialize_bits ''bits'' 4],
         put_inline '')'']
      else if t = ''float64'' then wseq
        [put (''(cl:let ((bits (roslisp-utils:encode-double-float-bits '' @ v @ '')))''),
         indented [write_serialize_bits ''bits'' 8],
         put_inline '')'']
      else if t = ''bool'' then put (''(cl:write-byte (cl:ldb (cl:byte 8 0) (cl:if '' @ v @ '' 1 0)) ostream)'')
      else if t \<in> set [''byte'', ''char''] then put (''(cl:write-byte (cl:ldb (cl:byte 8 0) '' @ v @ '') ostream)'')
      else if t \<in> set [''duration'', ''time''] then wseq
        [put (''(cl:let ((__sec (cl:floor '' @ v @ ''))''),
         put (''      (__nsec (cl:round (cl:* 1e9 (cl:- '' @ v @ '' (cl:floor '' @ v @ ''))))))''),
         indented
           [write_serialize_bits ''__sec'' 4,
            write_serialize_bits ''__nsec'' 4,
            put_inline '')'']]
      else if is_signed_int t then write_serialize_bits_signed v (NUM_BYTES t)
      else if is_unsigned_int t then write_serialize_bits v (NUM_BYTES t)
      else sraise ValueError)"

definition slot_value :: "field \<Rightarrow> string" where
  "slot_value f = (''(cl:slot-value msg '' @ [squote] @ f_name f @ '')'')"

definition write_serialize_field :: "field \<Rightarrow> writing" where
  "write_serialize_field f =
     (let slot = slot_value f; var = (if f_is_array f then ''ele'' else ''msg''); lookup_slot = (\<not> f_is_array f) in wseq
     [wwhen (f_is_array f) (wseq
        [wwhen (no_len f) (write_serialize_length slot True),
         put (''(cl:map cl:nil #'' @ [squote] @ ''(cl:lambda (ele) ''),
         block_next_indent]),
      if f_is_builtin f then write_serialize_builtin f var lookup_slot
      else put (''(roslisp-msg-protocol:serialize '' @ (if lookup_slot then slot else var) @ '' ostream)''),
      wwhen (f_is_array f) (wseq [put_inline '')'', put ('' '' @ slot @ '')'')])])"

definition write_serialize :: "named_spec \<Rightarrow> writing" where
  "write_serialize s = wseq
     [put (''(cl:defmethod roslisp-msg-protocol:serialize ((msg '' @ message_class s @ '') ostream)''),
      indented
        [put ([dquote] @ ''Serializes a message object of type '' @ [squote] @ message_class s @ [dquote]),
         wfor (ns_fields s) write_serialize_field],
      put '')'']"

definition write_deserialize_length :: "bool \<Rightarrow> writing" where
  "write_deserialize_length is_array = wseq
     [put (''(cl:let (('' @ length_var is_array @ '' 0))''),
      indented [wfor (byte_offsets 4) (\<lambda>x.
        put (''(cl:setf (cl:ldb (cl:byte 8 '' @ str_of_nat x @ '') '' @ length_var is_array @ '') (cl:read-byte istream))''))]]"

definition write_deserialize_bits :: "string \<Rightarrow> nat \<Rightarrow> writing" where
  "write_deserialize_bits v num_bytes = wfor (byte_offsets num_bytes) (\<lambda>x.
     put (''(cl:setf (cl:ldb (cl:byte 8 '' @ str_of_nat x @ '') '' @ v @ '') (cl:read-byte istream))''))"

definition write_deserialize_bits_signed :: "string \<Rightarrow> nat \<Rightarrow> writing" where
  "write_deserialize_bits_signed v num_bytes = wseq
     [put ''(cl:let ((unsigned 0))'',
      indented
        [write_deserialize_bits ''unsigned'' num_bytes,
         put (''(cl:setf '' @ v @ '' (cl:if (cl:< unsigned '' @ str_of_nat (2 ^ (8 * num_bytes - 1)) @ '') unsigned (cl:- unsigned '' @ str_of_nat (2 ^ (8 * num_bytes)) @ ''))))'')]]"

definition write_deserialize_builtin :: "field \<Rightarrow> string \<Rightarrow> writing" where
  "write_deserialize_builtin f v = (let t = f_base_type f in
      if t = ''string'' then wseq
        [write_deserialize_length False,
         indented
           [put (''(cl:setf '' @ v @ '' (cl:make-string __ros_str_len))''),
            put ''(cl:dotimes (__ros_str_idx __ros_str_len msg)'',
            indented [put (''(cl:setf (cl:char '' @ v @ '' __ros_str_idx) (cl:code-char (cl:read-byte istream)))))'')]]]
      else if t = ''float32'' then wseq
        [put ''(cl:let ((bits 0))'',
         indented [write_deserialize_bits ''bits'' 4],
         put (''(cl:setf '' @ v @ '' (roslisp-utils:decode-single-float-bits bits)))'')]
      else if t = ''float64'' then wseq
        [put ''(cl:let ((bits 0))'',
         indented [write_deserialize_bits ''bits'' 8],
         put (''(cl:setf '' @ v @ '' (roslisp-utils:decode-double-float-bits bits)))'')]
      else if t = ''bool'' then put (''(cl:setf '' @ v @ '' (cl:not (cl:zerop (cl:read-byte istream))))'')
      else if t \<in> set [''byte'', ''char''] then put (''(cl:setf (cl:ldb (cl:byte 8 0) '' @ v @ '') (cl:read-byte istream))'')
      else if t \<in> set [''duration'', ''time''] then wseq
        [put ''(cl:let ((__sec 0) (__nsec 0))'',
         indented
           [write_deserialize_bits ''__sec'' 4,
            write_deserialize_bits ''__nsec'' 4,
            put (''(cl:setf '' @ v @ '' (cl:+ (cl:coerce __sec '' @ [squote] @ ''cl:double-float) (cl:/ __nsec 1e9))))'')]]
      else if is_signed_int t then write_deserialize_bits_signed v (NUM_BYTES t)
      else if is_unsigned_int t then write_deserialize_bits v (NUM_BYTES t)
      else sraise ValueError)"

definition write_deserialize_field :: "field \<Rightarrow> writing" where
  "write_deserialize_field f =
     (let slot = slot_value f; var = (if f_is_array f then ''(cl:aref vals i)'' else slot);
          len = (if no_len f then ''__ros_arr_len'' else len_str f) in wseq
     [wwhen (f_is_array f) (wseq
        [wwhen (no_len f) (write_deserialize_length True),
         put (''(cl:setf '' @ slot @ '' (cl:make-array '' @ len @ ''))''),
         put (''(cl:let ((vals '' @ slot @ ''))''),
         indented [put (''(cl:dotimes (i '' @ len @ '')'')]]),
      if f_is_builtin f then indented [write_deserialize_builtin f var]
      else wseq
        [wwhen (f_is_array f) (indented [sbind (slift (msg_type f)) (\<lambda>t.
           put (''(cl:setf '' @ var @ '' (cl:make-instance '' @ [squote] @ t @ ''))''))]),
         put (''(roslisp-msg-protocol:deserialize '' @ var @ '' istream)'')],
      wwhen (f_is_array f) (wseq [put_inline ''))'', wwhen (no_len f) (put_inline '')'')])])"

definition write_deserialize :: "named_spec \<Rightarrow> writing" where
  "write_deserialize s = wseq
     [put (''(cl:defmethod roslisp-msg-protocol:deserialize ((msg '' @ message_class s @ '') istream)''),
      indented
        [put ([dquote] @ ''Deserializes a message object of type '' @ [squote] @ message_class s @ [dquote]),
         wfor (ns_fields s) write_deserialize_field,
         put ''msg''],
      put '')'']"

section \<open>Packages\<close>

definition write_class_exports :: "string list \<Rightarrow> string \<Rightarrow> writing" where
  "write_class_exports msgs pkg = wseq
     [put_inline (''(cl:defpackage '' @ pkg @ ''-msg''),
      indented
        [put ''(:use )'',
         put ''(:export'',
         with_indent 1 True [wfor msgs (\<lambda>m. wseq
           [put ([dquote] @ ''<'' @ py_upper m @ ''>'' @ [dquote]), put ([dquote] @ py_upper m @ [dquote])])],
         put (''))'' @ [newline, newline])]]"

definition write_srv_exports :: "string list \<Rightarrow> string \<Rightarrow> writing" where
  "write_srv_exports srvs pkg = wseq
     [put_inline (''(cl:defpackage '' @ pkg @ ''-srv''),
      indented
        [put ''(:use )'',
         put ''(:export'',
         with_indent 1 True [wfor srvs (\<lambda>srv. wseq
           [put ([dquote] @ py_upper srv @ [dquote]), put ([dquote] @ ''<'' @ py_upper srv @ ''-REQUEST>'' @ [dquote]), put ([dquote] @ py_upper srv @ ''-REQUEST'' @ [dquote]),
            put ([dquote] @ ''<'' @ py_upper srv @ ''-RESPONSE>'' @ [dquote]), put ([dquote] @ py_upper srv @ ''-RESPONSE'' @ [dquote])])],
         put (''))'' @ [newline, newline])]]"

definition write_asd_deps :: "string set \<Rightarrow> string list \<Rightarrow> writing" where
  "write_asd_deps deps msgs = wseq
     [indented
        [put '':depends-on (:roslisp-msg-protocol :roslisp-utils '',
         with_indent 13 False [wfor (sorted_list_of_set deps) (\<lambda>d. put ('':'' @ d @ ''-msg''))]],
      put '')'',
      indented
        [put ('':components ((:file '' @ [dquote] @ ''_package'' @ [dquote] @ '')''),
         indented [wfor msgs (\<lambda>name. wseq
           [put (''(:file '' @ [dquote] @ name @ [dquote] @ '' :depends-on ('' @ [dquote] @ ''_package_'' @ name @ [dquote] @ ''))''),
            put (''(:file '' @ [dquote] @ ''_package_'' @ name @ [dquote] @ '' :depends-on ('' @ [dquote] @ ''_package'' @ [dquote] @ ''))'')])],
         put ''))'']]"

text \<open>The packages of the fields of registered types.\<close>

definition field_packages :: "field list \<Rightarrow> string set res" where
  "field_packages fs = rbind (rmap parse_msg_type (filter (\<lambda>f. \<not> f_is_builtin f) fs)) (\<lambda>ps. Inr (fst ` set ps))"

definition type_packages :: "msg_context \<Rightarrow> string \<Rightarrow> string set res" where
  "type_packages ctx t = rbind (get_registered ctx t) (\<lambda>spec. field_packages (ms_parsed_fields spec))"

definition write_srv_asd :: "msg_context \<Rightarrow> string \<Rightarrow> string list \<Rightarrow> writing" where
  "write_srv_asd ctx pkg srvs = wseq
     [put ''(cl:in-package :asdf)'',
      w_newline,
      put (''(defsystem '' @ [dquote] @ pkg @ ''-srv'' @ [dquote]),
      sbind (slift (rmap (\<lambda>srv.
          rbind (get_registered ctx (pkg @ ''/'' @ srv @ ''Request'')) (\<lambda>req_spec.
          rbind (get_registered ctx (pkg @ ''/'' @ srv @ ''Response'')) (\<lambda>resp_spec.
          rbind (field_packages (ms_parsed_fields req_spec)) (\<lambda>ps.
          rbind (field_packages (ms_parsed_fields resp_spec)) (\<lambda>qs. Inr (ps \<union> qs)))))) srvs))
        (\<lambda>deps. write_asd_deps (\<Union> (set deps)) srvs)]"

definition write_asd :: "msg_context \<Rightarrow> string \<Rightarrow> string list \<Rightarrow> writing" where
  "write_asd ctx pkg msgs = wseq
     [put ''(cl:in-package :asdf)'',
      w_newline,
      put (''(defsystem '' @ [dquote] @ pkg @ ''-msg'' @ [dquote]),
      sbind (slift (rmap (\<lambda>m. type_packages ctx (pkg @ ''/'' @ m)) msgs))
        (\<lambda>deps. write_asd_deps (\<Union> (set deps) - {pkg}) msgs)]"

definition write_accessor_exports :: "string \<Rightarrow> bool \<Rightarrow> field list \<Rightarrow> writing" where
  "write_accessor_exports package is_srv fds = wseq
     [put_inline (''(cl:in-package '' @ package @ ''-'' @ (if is_srv then ''srv'' else ''msg'') @ '')''),
      put (''(cl:export '' @ [squote] @ ''(''),
      with_indent 10 False [wfor fds (\<lambda>f. wseq
        [put (py_upper (f_name f @ ''-val'')), put (py_upper (f_name f))])],
      put ''))'']"

section \<open>Methods\<close>

abbreviation both_classes :: "named_spec \<Rightarrow> string list" where
  "both_classes s \<equiv> [message_class s, new_message_class s]"

definition write_ros_datatype :: "named_spec \<Rightarrow> writing" where
  "write_ros_datatype s = wfor (both_classes s) (\<lambda>c. wseq
     [put (''(cl:defmethod roslisp-msg-protocol:ros-datatype ((msg (cl:eql '' @ [squote] @ c @ '')))''),
      indented
        [put ([dquote] @ ''Returns string type for a '' @ component_type s @ '' object of type '' @ [squote] @ c @ [dquote]),
         put ([dquote] @ ms_full_name (ns_spec s) @ [dquote] @ '')'')]])"

definition write_md5sum :: "nat \<Rightarrow> (string \<Rightarrow> string) \<Rightarrow> msg_context \<Rightarrow> named_spec \<Rightarrow> any_spec \<Rightarrow> writing" where
  "write_md5sum k H ctx s hashed = sbind (slift (compute_md5 k H ctx hashed)) (\<lambda>md5sum.
     wfor (both_classes s) (\<lambda>c. wseq
       [put (''(cl:defmethod roslisp-msg-protocol:md5sum ((type (cl:eql '' @ [squote] @ c @ '')))''),
        indented
          [put ([dquote] @ ''Returns md5sum for a message object of type '' @ [squote] @ c @ [dquote]),
           put ([dquote] @ md5sum @ [dquote] @ '')'')]]))"

definition definition_line :: "string \<Rightarrow> string" where
  "definition_line line =
     py_replace ''~'' ''~~'' (py_replace [dquote] [backslash, dquote] (py_replace [backslash] [backslash, backslash] line))"

definition write_message_definition :: "nat \<Rightarrow> msg_context \<Rightarrow> named_spec \<Rightarrow> writing" where
  "write_message_definition k ctx s = wfor (both_classes s) (\<lambda>c. wseq
     [put (''(cl:defmethod roslisp-msg-protocol:message-definition ((type (cl:eql '' @ [squote] @ c @ '')))''),
      indented
        [put ([dquote] @ ''Returns full string definition for message of type '' @ [squote] @ c @ [dquote]),
         put (''(cl:format cl:nil '' @ [dquote]),
         sbind (slift (compute_full_text k ctx (Msg (ns_spec s)))) (\<lambda>d.
           wfor (split_on newline d) (\<lambda>line. put_inline (definition_line line @ ''~%''))),
         put_inline ''~%'',
         put_inline ([dquote] @ ''))'')]])"

definition write_builtin_length :: "field \<Rightarrow> string \<Rightarrow> writing" where
  "write_builtin_length f var = (let t = f_base_type f in
     if t \<in> set [''int8'', ''uint8''] then put ''1''
     else if t \<in> set [''int16'', ''uint16''] then put ''2''
     else if t \<in> set [''int32'', ''uint32'', ''float32''] then put ''4''
     else if t \<in> set [''int64'', ''uint64'', ''float64'', ''duration'', ''time''] then put ''8''
     else if t = ''string'' then put (''4 (cl:length '' @ var @ '')'')
     else if t \<in> set [''bool'', ''byte'', ''char''] then put ''1''
     else sraise ValueError)"

definition write_length_field :: "field \<Rightarrow> writing" where
  "write_length_field f = (let slot = slot_value f; var = (if f_is_array f then ''ele'' else slot) in wseq
     [wwhen (f_is_array f) (wseq
        [put ((if no_len f then ''4'' else ''0'') @ '' (cl:reduce #'' @ [squote] @ ''cl:+ '' @ slot @ '' :key #'' @ [squote] @ ''(cl:lambda (ele) (cl:declare (cl:ignorable ele)) (cl:+ ''),
         block_next_indent]),
      if f_is_builtin f then write_builtin_length f var
      else put (''(roslisp-msg-protocol:serialization-length '' @ var @ '')''),
      wwhen (f_is_array f) (put_inline '')))'')])"

definition write_serialization_length :: "named_spec \<Rightarrow> writing" where
  "write_serialization_length s = wseq
     [put (''(cl:defmethod roslisp-msg-protocol:serialization-length ((msg '' @ message_class s @ ''))''),
      indented
        [put ''(cl:+ 0'',
         with_indent 3 True [wfor (ns_fields s) write_length_field]],
      put ''))'']"

definition write_list_converter :: "named_spec \<Rightarrow> writing" where
  "write_list_converter s = wseq
     [put (''(cl:defmethod roslisp-msg-protocol:ros-message-to-list ((msg '' @ message_class s @ ''))''),
      indented
        [put ([dquote] @ ''Converts a ROS message object to a list'' @ [dquote]),
         put (''(cl:list '' @ [squote] @ new_message_class s),
         indented [wfor (ns_fields s) (\<lambda>f. put (''(cl:cons '' @ [squote] @ '':'' @ f_name f @ '' ('' @ f_name f @ '' msg))''))]],
      put ''))'']"

fun constant_str :: "(pyfloat \<Rightarrow> string) \<Rightarrow> const_val \<Rightarrow> string" where
  "constant_str fl (IntVal i) = str_of_int i"
| "constant_str fl (FloatVal x) = fl x"
| "constant_str fl (StrVal t) = t"
| "constant_str fl (BoolVal b) = (if b then ''True'' else ''False'')"

definition write_constants :: "(pyfloat \<Rightarrow> string) \<Rightarrow> named_spec \<Rightarrow> writing" where
  "write_constants fl s = wwhen (ms_constants (ns_spec s) \<noteq> []) (wfor (both_classes s) (\<lambda>cls. wseq
     [put (''(cl:defmethod roslisp-msg-protocol:symbol-codes ((msg-type (cl:eql '' @ [squote] @ cls @ '')))''),
      indented
        [put (''  '' @ [dquote] @ ''Constants for message type '' @ [squote] @ cls @ [dquote]),
         put ([squote] @ ''(''),
         with_indent 2 False [wfor (ms_constants (ns_spec s)) (\<lambda>c.
           put (''(:'' @ py_upper (c_name c) @ '' . '' @ constant_str fl (c_val c) @ '')''))]],
      put_inline '')'',
      put '')'']))"

section \<open>Files\<close>

record lisp_env =
  le_float :: "pyfloat \<Rightarrow> string"
  le_abspath :: "string \<Rightarrow> string"
  le_listdir :: "string \<Rightarrow> string list option"
  le_hash :: "string \<Rightarrow> string"

record lisp_state =
  ls_ctx :: msg_context
  ls_files :: "(string \<times> string) list"

definition on_msgs :: "(msg_context, 'a) act \<Rightarrow> (lisp_state, 'a) act" where
  "on_msgs m s = (case m (ls_ctx s) of (r, c) \<Rightarrow> (r, s\<lparr>ls_ctx := c\<rparr>))"

definition put_file :: "string \<Rightarrow> string \<Rightarrow> (lisp_state, unit) act" where
  "put_file path content = smodify (\<lambda>s. s\<lparr>ls_files := ls_files s @ [(path, content)]\<rparr>)"

text \<open>The writers that make up the file of a message.\<close>

definition message_file :: "nat \<Rightarrow> lisp_env \<Rightarrow> msg_context \<Rightarrow> named_spec \<Rightarrow> writing" where
  "message_file k env ctx s = wseq
     [write_begin (ms_package (ns_spec s)) False,
      write_html_include s,
      write_defclass s,
      write_deprecated_readers s,
      write_constants (le_float env) s,
      write_serialize s,
      write_deserialize s,
      write_ros_datatype s,
      write_md5sum k (le_hash env) ctx s (Msg (ns_spec s)),
      write_message_definition k ctx s,
      write_serialization_length s,
      write_list_converter s]"

definition write_srv_component :: "nat \<Rightarrow> lisp_env \<Rightarrow> msg_context \<Rightarrow> named_spec \<Rightarrow> srvspec \<Rightarrow> writing" where
  "write_srv_component k env ctx s0 parent = (let s = s0\<lparr>component_type := ''service''\<rparr> in wseq
     [write_html_include s,
      write_defclass s,
      write_deprecated_readers s,
      write_constants (le_float env) s,
      write_serialize s,
      write_deserialize s,
      write_ros_datatype s,
      write_md5sum k (le_hash env) ctx s (Srv parent),
      write_message_definition k ctx s,
      write_serialization_length s,
      write_list_converter s])"

definition write_service_specific_methods :: "srvspec \<Rightarrow> named_spec \<Rightarrow> named_spec \<Rightarrow> writing" where
  "write_service_specific_methods spec request response = (let name = ss_short_name spec in wseq
     [put (''(cl:defmethod roslisp-msg-protocol:service-request-type ((msg (cl:eql '' @ [squote] @ name @ '')))''),
      indented [put ([squote] @ new_message_class request @ '')'')],
      put (''(cl:defmethod roslisp-msg-protocol:service-response-type ((msg (cl:eql '' @ [squote] @ name @ '')))''),
      indented [put ([squote] @ new_message_class response @ '')'')],
      put (''(cl:defmethod roslisp-msg-protocol:ros-datatype ((msg (cl:eql '' @ [squote] @ name @ '')))''),
      indented
        [put ([dquote] @ ''Returns string type for a service object of type '' @ [squote] @ ''<'' @ name @ ''>'' @ [dquote]),
         put ([dquote] @ ss_full_name spec @ [dquote] @ '')'')]])"

definition service_file :: "nat \<Rightarrow> lisp_env \<Rightarrow> msg_context \<Rightarrow> srvspec \<Rightarrow> writing" where
  "service_file k env ctx spec =
     (let name = ss_short_name spec;
          request = \<lparr>ns_spec = ss_request spec, actual_name = name @ ''-request'', component_type = ''service''\<rparr>;
          response = \<lparr>ns_spec = ss_response spec, actual_name = name @ ''-response'', component_type = ''service''\<rparr>
      in wseq
     [write_begin (ss_package spec) True,
      write_srv_component k env ctx request spec,
      w_newline,
      write_srv_component k env ctx response spec,
      write_service_specific_methods spec request response])"

definition msg_list :: "lisp_env \<Rightarrow> string \<Rightarrow> search_path \<Rightarrow> string \<Rightarrow> string list res" where
  "msg_list env pkg search_path ext =
     rbind (of_option (KeyError pkg) (search_path pkg)) (\<lambda>dir_list.
     rbind (rmap (\<lambda>d. rbind (of_option (IOError d) (le_listdir env d)) (\<lambda>fs. Inr (filter (\<lambda>f. endswith f ext) fs))) dir_list)
       (\<lambda>files. Inr (sort (map (\<lambda>f. slice_to f (- int (length ext))) (concat files)))))"

definition generate_msg_from_spec :: "nat \<Rightarrow> lisp_env \<Rightarrow> world \<Rightarrow> msgspec \<Rightarrow> search_path \<Rightarrow> string \<Rightarrow> string
    \<Rightarrow> (lisp_state, unit) act" where
  "generate_msg_from_spec k env w spec search_path output_dir package =
     (let s = \<lparr>ns_spec = spec, actual_name = ms_short_name spec, component_type = ''message''\<rparr>; name = ms_short_name spec in
      sbind (on_msgs (load_depends k w (Msg spec) search_path)) (\<lambda>_.
      sbind (slift (msg_list env package search_path EXT_MSG)) (\<lambda>msgs.
      sbind (sfoldl (\<lambda>_ m. sbind (on_msgs (load_msg_by_type w (package @ ''/'' @ m) search_path)) (\<lambda>_. sret ())) () msgs) (\<lambda>_.
      sbind (sgets ls_ctx) (\<lambda>ctx.
      sbind (slift (written (message_file k env ctx s))) (\<lambda>t.
      sbind (put_file (output_dir @ ''/'' @ name @ ''.lisp'') (t @ [newline])) (\<lambda>_.
      sbind (slift (written (write_accessor_exports (ms_package spec) False (ms_parsed_fields spec)))) (\<lambda>t.
      sbind (put_file (output_dir @ ''/_package_'' @ name @ ''.lisp'') t) (\<lambda>_.
      sbind (slift (written (write_class_exports msgs package))) (\<lambda>t.
      sbind (put_file (output_dir @ ''/_package.lisp'') t) (\<lambda>_.
      sbind (slift (written (write_asd ctx package msgs))) (\<lambda>t.
      put_file (output_dir @ ''/'' @ package @ ''-msg.asd'') t))))))))))))"

definition generate_srv_from_spec :: "nat \<Rightarrow> lisp_env \<Rightarrow> world \<Rightarrow> srvspec \<Rightarrow> search_path \<Rightarrow> string \<Rightarrow> string \<Rightarrow> string
    \<Rightarrow> (lisp_state, unit) act" where
  "generate_srv_from_spec k env w spec search_path output_dir package path =
     (let srv_path = path_dirname path; name = ss_short_name spec in
      sbind (on_msgs (load_depends k w (Srv spec) search_path)) (\<lambda>_.
      sbind (slift (msg_list env package [package \<mapsto> [srv_path]] EXT_SRV)) (\<lambda>srvs.
      sbind (sfoldl (\<lambda>_ srv. sbind (on_msgs (load_srv_from_file w (srv_path @ ''/'' @ srv @ EXT_SRV) (package @ ''/'' @ srv))) (\<lambda>_. sret ())) () srvs) (\<lambda>_.
      sbind (sgets ls_ctx) (\<lambda>ctx.
      sbind (slift (written (service_file k env ctx spec))) (\<lambda>t.
      sbind (put_file (output_dir @ ''/'' @ name @ ''.lisp'') t) (\<lambda>_.
      sbind (slift (written (write_accessor_exports (ss_package spec) True
               (ms_parsed_fields (ss_request spec) @ ms_parsed_fields (ss_response spec))))) (\<lambda>t.
      sbind (put_file (output_dir @ ''/_package_'' @ name @ ''.lisp'') t) (\<lambda>_.
      sbind (slift (written (write_srv_exports srvs package))) (\<lambda>t.
      sbind (put_file (output_dir @ ''/_package.lisp'') t) (\<lambda>_.
      sbind (slift (written (write_srv_asd ctx package srvs))) (\<lambda>t.
      put_file (output_dir @ ''/'' @ package @ ''-srv.asd'') t))))))))))))"

definition generate_msg :: "nat \<Rightarrow> lisp_env \<Rightarrow> world \<Rightarrow> string \<Rightarrow> string list \<Rightarrow> string \<Rightarrow> search_path \<Rightarrow> (lisp_state, unit) act" where
  "generate_msg k env w pkg fs out_dir search_path =
     sbind (sbind (slift (create_default w)) (\<lambda>ctx. smodify (\<lambda>s. s\<lparr>ls_ctx := ctx\<rparr>))) (\<lambda>_.
     sfoldl (\<lambda>_ f0. let f = le_abspath env f0 in
       sbind (slift (compute_full_type_name pkg (path_basename f))) (\<lambda>full_type.
       sbind (on_msgs (load_msg_from_file w f full_type)) (\<lambda>spec.
       generate_msg_from_spec k env w spec search_path out_dir pkg))) () fs)"

definition generate_srv :: "nat \<Rightarrow> lisp_env \<Rightarrow> world \<Rightarrow> string \<Rightarrow> string list \<Rightarrow> string \<Rightarrow> search_path \<Rightarrow> (lisp_state, unit) act" where
  "generate_srv k env w pkg fs out_dir search_path =
     sbind (sbind (slift (create_default w)) (\<lambda>ctx. smodify (\<lambda>s. s\<lparr>ls_ctx := ctx\<rparr>))) (\<lambda>_.
     sfoldl (\<lambda>_ f0. let f = le_abspath env f0 in
       sbind (slift (compute_full_type_name pkg (path_basename f))) (\<lambda>full_type.
       sbind (on_msgs (load_srv_from_file w f full_type)) (\<lambda>spec.
       generate_srv_from_spec k env w spec search_path out_dir pkg f))) () fs)"

text \<open>The exit code of \<open>genlisp_main.py\<close> from the outcome of the generator; \<open>sys.exit(retcode or 0)\<close>.\<close>

definition lisp_exit_code :: "unit res \<Rightarrow> nat" where
  "lisp_exit_code r = (case r of Inr u \<Rightarrow> 0
     | Inl e \<Rightarrow> if e = InvalidMsgSpec then 1 else if e = MsgGenerationException then 2 else 3)"

end
