(* ===== verification/Geneus.thy ===== *)
theory Geneus
  imports Genlisp
begin

text \<open>
  The generator for EusLisp, \<open>geneus/generate.py\<close>, and the manifest of \<open>geneus_main.py\<close>. The classes
  \<open>IndentedWriter\<close> and \<open>Indent\<close> are those of the generator for Lisp, and so are the environment and the
  state. Definitions that also exist there have the prefix \<open>eus_\<close>.
\<close>

section \<open>Types\<close>

definition eus_is_integer :: "string \<Rightarrow> bool" where
  "eus_is_integer t \<longleftrightarrow> t \<in> set [''byte'', ''char'', ''int8'', ''uint8'', ''int16'', ''uint16'', ''int32'', ''uint32'', ''int64'', ''uint64'']"

definition eus_is_signed_int :: "string \<Rightarrow> bool" where
  "eus_is_signed_int t \<longleftrightarrow> t \<in> set [''byte'', ''int8'', ''int16'', ''int32'', ''int64'']"

definition eus_is_unsigned_int :: "string \<Rightarrow> bool" where
  "eus_is_unsigned_int t \<longleftrightarrow> t \<in> set [''char'', ''uint8'', ''uint16'', ''uint32'', ''uint64'']"

definition eus_is_bool :: "string \<Rightarrow> bool" where "eus_is_bool t \<longleftrightarrow> t = ''bool''"
definition eus_is_string :: "string \<Rightarrow> bool" where "eus_is_string t \<longleftrightarrow> t = ''string''"

definition eus_is_float :: "string \<Rightarrow> bool" where
  "eus_is_float t \<longleftrightarrow> t \<in> set [''float16'', ''float32'', ''float64'']"

definition eus_is_time :: "string \<Rightarrow> bool" where
  "eus_is_time t \<longleftrightarrow> t \<in> set [''time'', ''duration'']"

definition eus_parse_msg_type :: "field \<Rightarrow> string list" where
  "eus_parse_msg_type f = (if f_base_type f = ''Header'' then [''std_msgs'', ''Header''] else split_on SEP (f_base_type f))"

definition eus_msg_type :: "field \<Rightarrow> string res" where
  "eus_msg_type f = (case eus_parse_msg_type f of [pkg, msg] \<Rightarrow> Inr (pkg @ ''::'' @ msg) | _ \<Rightarrow> Inl ValueError)"

definition eus_lisp_type :: "string \<Rightarrow> bool \<Rightarrow> string res" where
  "eus_lisp_type t array =
     (if t = ''uint8'' \<and> array then Inr ''char''
      else if eus_is_integer t then Inr ''integer''
      else if eus_is_bool t then Inr ''object''
      else if eus_is_float t then Inr ''float''
      else if eus_is_time t then Inr ''xcros::time''
      else if eus_is_string t then Inr ''string''
      else Inl ValueError)"

definition eus_field_type :: "field \<Rightarrow> string res" where
  "eus_field_type f = (if f_is_builtin f then eus_lisp_type (f_base_type f) (f_is_array f) else eus_msg_type f)"

definition eus_field_initform :: "field \<Rightarrow> string" where
  "eus_field_initform f = (let var = (''__'' @ f_name f) in
     if f_is_builtin f \<and> \<not> f_is_array f then
       (if eus_is_integer (f_base_type f) then (''(round '' @ var @ '')'')
        else if eus_is_float (f_base_type f) then (''(float '' @ var @ '')'')
        else if eus_is_string (f_base_type f) then (''(string '' @ var @ '')'')
        else var)
     else var)"

definition lisp_initvalue :: "string \<Rightarrow> string res" where
  "lisp_initvalue t =
     (if eus_is_integer t then Inr ''0''
      else if eus_is_bool t then Inr ''nil''
      else if eus_is_float t then Inr ''0.0''
      else if eus_is_time t then Inr ''(instance xcros::time :init)''
      else if eus_is_string t then Inr [dquote, dquote]
      else Inl ValueError)"

definition array_len_or_0 :: "field \<Rightarrow> string" where
  "array_len_or_0 f = str_of_int (case f_array_len f of None \<Rightarrow> 0 | Some n \<Rightarrow> n)"

definition field_initvalue :: "field \<Rightarrow> string res" where
  "field_initvalue f = (let t = f_base_type f in
     rbind (lisp_initvalue t) (\<lambda>initvalue.
     rbind (eus_lisp_type t (f_is_array f)) (\<lambda>ty.
       let elt_type = (if eus_is_time t then ty else CHR '':'' # ty) in
       Inr (if f_is_array f then
              (if f_is_builtin f \<and> \<not> eus_is_string t \<and> \<not> eus_is_bool t \<and> \<not> eus_is_time t then
                 (''(make-array '' @ array_len_or_0 f @ '' :initial-element '' @ initvalue @ '' :element-type '' @ elt_type @ '')'')
               else (''(let (r) (dotimes (i '' @ array_len_or_0 f @ '') (push '' @ initvalue @ '' r)) r)''))
            else initvalue))))"

definition eus_lisp_initform :: "string \<Rightarrow> string res" where
  "eus_lisp_initform t =
     (if eus_is_integer t then Inr ''round''
      else if eus_is_bool t then Inr ''nil''
      else if eus_is_float t then Inr ''float''
      else if eus_is_time t then Inr ''xcros::time''
      else if eus_is_string t then Inr ''string''
      else Inl ValueError)"

definition eus_NUM_BYTES :: "string \<Rightarrow> nat" where
  "eus_NUM_BYTES t = the (map_of [(''byte'', 1), (''int8'', 1), (''int16'', 2), (''int32'', 4), (''int64'', 8),
     (''char'', 1), (''uint8'', 1), (''uint16'', 2), (''uint32'', 4), (''uint64'', 8)] t)"

section \<open>The beginning of a file\<close>

definition unless_package :: "string \<Rightarrow> writing list" where
  "unless_package name =
     [put (''(unless (find-package '' @ [dquote] @ name @ [dquote] @ '')''),
      put (''  (make-package '' @ [dquote] @ name @ [dquote] @ ''))'')]"

definition eus_write_begin :: "string \<Rightarrow> string \<Rightarrow> bool \<Rightarrow> writing" where
  "eus_write_begin package name is_service = (let P = py_upper package; N = py_upper name in wseq
     [put_same_line ('';; Auto-generated. Do not edit!'' @ [newline, newline]),
      put (''(when (boundp '' @ [squote] @ package @ ''::'' @ name @ '')''),
      put (''  (if (not (find-package '' @ [dquote] @ P @ [dquote] @ ''))''),
      put (''    (make-package '' @ [dquote] @ P @ [dquote] @ ''))''),
      put (''  (shadow '' @ [squote] @ name @ '' (find-package '' @ [dquote] @ P @ [dquote] @ '')))''),
      wseq (unless_package (P @ ''::'' @ N)),
      wwhen is_service (wseq (unless_package (P @ ''::'' @ N @ ''REQUEST''))),
      wwhen is_service (wseq (unless_package (P @ ''::'' @ N @ ''RESPONSE''))),
      put [],
      put (''(in-package '' @ [dquote] @ ''ROS'' @ [dquote] @ '')''),
      w_newline])"

definition included_packages :: "msgspec \<Rightarrow> string list" where
  "included_packages spec = sorted_list_of_set (set (filter (\<lambda>p. p \<noteq> ms_package spec)
     (map (\<lambda>f. hd (eus_parse_msg_type f)) (filter (\<lambda>f. \<not> f_is_builtin f) (ms_parsed_fields spec)))))"

definition write_include :: "msgspec \<Rightarrow> string \<Rightarrow> bool \<Rightarrow> writing" where
  "write_include spec name is_srv = wseq
     [wwhen (\<not> is_srv) (put_same_line ('';;//! '' @ [backslash] @ ''htmlinclude '' @ name @ ''.msg.html'')),
      wfor (included_packages spec) (\<lambda>p. wseq
        [put (''(if (not (find-package '' @ [dquote] @ py_upper p @ [dquote] @ ''))''),
         put (''  (ros::roseus-add-msgs '' @ [dquote] @ p @ [dquote] @ ''))'')]),
      w_newline,
      w_newline]"

section \<open>Classes\<close>

abbreviation eus_class :: "named_spec \<Rightarrow> string" where
  "eus_class s \<equiv> ms_package (ns_spec s) @ ''::'' @ actual_name s"

definition eus_write_slot_definition :: "field \<Rightarrow> writing" where
  "eus_write_slot_definition f = w_write (''_'' @ f_name f @ '' '') False False"

definition write_slot_argument :: "field \<Rightarrow> writing" where
  "write_slot_argument f = (let var = f_name f in
     if f_is_builtin f then
       sbind (slift (field_initvalue f)) (\<lambda>v. put (''((:'' @ var @ '' __'' @ var @ '') '' @ v @ '')''))
     else sbind (slift (eus_field_type f)) (\<lambda>t.
       if f_is_array f then
         put (''((:'' @ var @ '' __'' @ var @ '') (let (r) (dotimes (i '' @ array_len_or_0 f @ '') (push (instance '' @ t @ '' :init) r)) r))'')
       else put (''((:'' @ var @ '' __'' @ var @ '') (instance '' @ t @ '' :init))'')))"

definition write_slot_initialize :: "field \<Rightarrow> writing" where
  "write_slot_initialize f = put (''(setq _'' @ f_name f @ '' '' @ eus_field_initform f @ '')'')"

definition eus_write_defclass :: "named_spec \<Rightarrow> writing" where
  "eus_write_defclass s = wseq
     [put (''(defclass '' @ eus_class s),
      indented
        [put '':super ros::object'',
         put '':slots ('',
         with_indent 1 False [wfor (ns_fields s) eus_write_slot_definition],
         put_inline ''))''],
      w_newline]"

definition write_defmethod :: "named_spec \<Rightarrow> writing" where
  "write_defmethod s = wseq
     [put (''(defmethod '' @ eus_class s),
      indented
        [put ''(:init'',
         with_indent 1 True
           [put ''(&key'',
            with_indent 1 True
              [wfor (ns_fields s) write_slot_argument,
               put '')''],
            put ''(send-super :init)'',
            wfor (ns_fields s) write_slot_initialize,
            put ''self)'']]]"

definition write_accessor :: "field \<Rightarrow> writing" where
  "write_accessor f = (let var = (''_'' @ f_name f) in wseq
     [put (''(:'' @ f_name f),
      with_indent 1 True
        [if f_is_builtin f then wseq
           [put (''(&optional _'' @ var @ '')''),
            put (''(if _'' @ var @ '' (setq '' @ var @ '' _'' @ var @ '')) '' @ var @ '')'')]
         else wseq
           [put (''(&rest _'' @ var @ '')''),
            put (''(if (keywordp (car _'' @ var @ ''))''),
            put (''    (send* '' @ var @ '' _'' @ var @ '')''),
            indented
              [put ''(progn'',
               put (''  (if _'' @ var @ '' (setq '' @ var @ '' (car _'' @ var @ '')))''),
               put (''  '' @ var @ '')))'')]]]])"

definition write_accessors :: "named_spec \<Rightarrow> writing" where
  "write_accessors s = indented [wfor (ns_fields s) write_accessor]"

section \<open>Serialization\<close>

definition eus_write_serialize_length :: "string \<Rightarrow> bool \<Rightarrow> writing" where
  "eus_write_serialize_length v is_array =
     (if is_array then put (''(write-long (length '' @ v @ '') s)'')
      else put (''(write-long (length '' @ v @ '') s) (princ '' @ v @ '' s)''))"

definition eus_write_serialize_bits :: "string \<Rightarrow> nat \<Rightarrow> writing" where
  "eus_write_serialize_bits v num_bytes =
     (if num_bytes = 1 then put (''(write-byte '' @ v @ '' s)'')
      else if num_bytes = 2 then put (''(write-word '' @ v @ '' s)'')
      else if num_bytes = 4 then put (''(write-long '' @ v @ '' s)'')
      else wseq
        [put_inline [newline],
         put_inline ''#+(or :alpha :irix6 :x86_64)'',
         put (''(progn (sys::poke '' @ v @ '' (send s :buffer) (send s :count) :long) (incf (stream-count s) 8))''),
         put_inline [newline],
         put_inline ''#-(or :alpha :irix6 :x86_64)'',
         put (''(cond ((and (class '' @ v @ '') (= (length ('' @ v @ '' . bv)) 2)) ;; bignum''),
         put (''       (write-long (ash (elt ('' @ v @ '' . bv) 0) 0) s)''),
         put (''       (write-long (ash (elt ('' @ v @ '' . bv) 1) -1) s))''),
         put (''      ((and (class '' @ v @ '') (= (length ('' @ v @ '' . bv)) 1)) ;; big1''),
         put (''       (write-long (elt ('' @ v @ '' . bv) 0) s)''),
         put (''       (write-long (if (>= '' @ v @ '' 0) 0 #xffffffff) s))''),
         put ''      (t                                         ;; integer'',
         put (''       (write-long '' @ v @ '' s)(write-long (if (>= '' @ v @ '' 0) 0 #xffffffff) s)))'')])"

definition eus_write_serialize_bits_signed :: "string \<Rightarrow> nat \<Rightarrow> writing" where
  "eus_write_serialize_bits_signed v num_bytes = eus_write_serialize_bits v num_bytes"

definition eus_write_serialize_builtin :: "field \<Rightarrow> string \<Rightarrow> writing" where
  "eus_write_serialize_builtin f v = (let t = f_base_type f in
     if t = ''string'' then eus_write_serialize_length v False
     else if t = ''float32'' then put (''(sys::poke '' @ v @ '' (send s :buffer) (send s :count) :float) (incf (stream-count s) 4)'')
     else if t = ''float64'' then put (''(sys::poke '' @ v @ '' (send s :buffer) (send s :count) :double) (incf (stream-count s) 8)'')
     else if t = ''bool'' then put (''(if '' @ v @ '' (write-byte -1 s) (write-byte 0 s))'')
     else if t \<in> set [''byte'', ''char''] then put (''(write-byte '' @ v @ '' s)'')
     else if t \<in> set [''duration'', ''time''] then put (''(write-long (send '' @ v @ '' :sec) s) (write-long (send '' @ v @ '' :nsec) s)'')
     else if eus_is_signed_int t then eus_write_serialize_bits_signed v (eus_NUM_BYTES t)
     else if eus_is_unsigned_int t then eus_write_serialize_bits v (eus_NUM_BYTES t)
     else sraise ValueError)"

definition eus_write_serialize_field :: "field \<Rightarrow> writing" where
  "eus_write_serialize_field f =
     (let name = (''_'' @ f_name f); bytes = (f_is_array f \<and> f_base_type f = ''uint8'');
          strings = (f_is_array f \<and> eus_is_string (f_base_type f));
          slot = (if f_is_array f \<and> \<not> bytes \<and> \<not> strings then ''elem'' else name);
          var = (if \<not> f_is_array f \<or> bytes then name else if strings then ''elem'' else (''(elt '' @ name @ '' i)'')) in wseq
     [put ('';; '' @ f_type f @ '' _'' @ f_name f),
      if bytes then wseq
        [wwhen (no_len f) (put (''(write-long (length '' @ name @ '') s)'')),
         put (''(princ '' @ name @ '' s)'')]
      else if strings then wseq
        [put (''(write-long (length '' @ name @ '') s)''),
         put (''(dolist (elem '' @ name @ '')'')]
      else wwhen (f_is_array f) (wseq
        [wwhen (no_len f) (eus_write_serialize_length name True),
         if f_is_builtin f \<and> \<not> no_len f then put (''(dotimes (i '' @ len_str f @ '')'')
         else if f_is_builtin f \<and> no_len f then put (''(dotimes (i (length '' @ name @ ''))'')
         else put (''(dolist (elem '' @ name @ '')''),
         block_next_indent,
         put []]),
      if bytes then wseq []
      else if f_is_builtin f then indented [eus_write_serialize_builtin f var]
      else indented [put (''(send '' @ slot @ '' :serialize s)'')],
      wwhen (f_is_array f \<and> \<not> bytes) (put ''  )'')])"

definition eus_write_serialize :: "named_spec \<Rightarrow> writing" where
  "eus_write_serialize s = indented
     [put ''(:serialize'',
      with_indent 1 True
        [put ''(&optional strm)'',
         put ''(let ((s (if strm strm'',
         put ''           (make-string-output-stream (send self :serialization-length)))))'',
         indented
           [wfor (ns_fields s) eus_write_serialize_field,
            put '';;'',
            put ''(if (null strm) (get-output-stream-string s))))'']]]"

section \<open>Deserialization\<close>

definition setter :: "string \<Rightarrow> string" where
  "setter v = (if hd v = CHR ''('' then ''setf'' else ''setq'')"

definition eus_write_deserialize_length :: "field \<Rightarrow> string \<Rightarrow> bool \<Rightarrow> writing" where
  "eus_write_deserialize_length f v is_array =
     (if is_array then wseq
        [put ''(let (n)'',
         indented
           [put ''(setq n (sys::peek buf ptr- :integer)) (incf ptr- 4)'',
            sbind (slift (eus_field_type f)) (\<lambda>t.
              put (''(setq '' @ v @ '' (let (r) (dotimes (i n) (push (instance '' @ t @ '' :init) r)) r))''))]]
      else put (''(let (n) (setq n (sys::peek buf ptr- :integer)) (incf ptr- 4) ('' @ setter v @ '' '' @ v @ '' (subseq buf ptr- (+ ptr- n))) (incf ptr- n))''))"

definition write_deserialize_long :: "string \<Rightarrow> writing" where
  "write_deserialize_long v = wseq
     [put_inline [newline],
      put_inline ''#+(or :alpha :irix6 :x86_64)'',
      put ('' (setf '' @ v @ '' (prog1 (sys::peek buf ptr- :long) (incf ptr- 8)))'' @ [newline]),
      put_inline ''#-(or :alpha :irix6 :x86_64)'',
      put ('' (setf '' @ v @ '' (let ((b0 (prog1 (sys::peek buf ptr- :integer) (incf ptr- 4)))''),
      put ''             (b1 (prog1 (sys::peek buf ptr- :integer) (incf ptr- 4))))'',
      put ''         (cond ((= b1 -1) b0)'',
      put ''                ((and (= b1  0)'',
      put ''                      (<= lisp::most-negative-fixnum b0 lisp::most-positive-fixnum))'',
      put ''                 b0)'',
      put ''               ((= b1  0) (make-instance bignum :size 1 :bv (integer-vector b0)))'',
      put ''               (t (make-instance bignum :size 2 :bv (integer-vector b0 (ash b1 1)))))))'']"

definition write_peek :: "string \<Rightarrow> string \<Rightarrow> nat \<Rightarrow> writing" where
  "write_peek v ty num_bytes = put (''('' @ setter v @ '' '' @ v @ '' (sys::peek buf ptr- '' @ ty @ '')) (incf ptr- '' @ str_of_nat num_bytes @ '')'')"

definition eus_write_deserialize_bits :: "string \<Rightarrow> nat \<Rightarrow> writing" where
  "eus_write_deserialize_bits v num_bytes =
     (if num_bytes = 1 then write_peek v '':char'' num_bytes
      else if num_bytes = 2 then write_peek v '':short'' num_bytes
      else if num_bytes = 4 then write_peek v '':integer'' num_bytes
      else if num_bytes = 8 then wseq [put [], write_deserialize_long v]
      else sraise ValueError)"

definition eus_write_deserialize_bits_signed :: "string \<Rightarrow> nat \<Rightarrow> writing" where
  "eus_write_deserialize_bits_signed v num_bytes =
     (if num_bytes \<in> set [1, 2, 4] then eus_write_deserialize_bits v num_bytes else write_deserialize_long v)"

definition eus_write_deserialize_builtin :: "field \<Rightarrow> string \<Rightarrow> writing" where
  "eus_write_deserialize_builtin f v = (let t = f_base_type f in
     if t = ''string'' then eus_write_deserialize_length f v False
     else if t = ''float32'' then put (''('' @ setter v @ '' '' @ v @ '' (sys::peek buf ptr- :float)) (incf ptr- 4)'')
     else if t = ''float64'' then put (''('' @ setter v @ '' '' @ v @ '' (sys::peek buf ptr- :double)) (incf ptr- 8)'')
     else if t = ''bool'' then put (''('' @ setter v @ '' '' @ v @ '' (not (= 0 (sys::peek buf ptr- :char)))) (incf ptr- 1)'')
     else if t \<in> set [''duration'', ''time''] then
       put (''(send '' @ v @ '' :sec (sys::peek buf ptr- :integer)) (incf ptr- 4)  (send '' @ v @ '' :nsec (sys::peek buf ptr- :integer)) (incf ptr- 4)'')
     else if eus_is_signed_int t then wseq
       [eus_write_deserialize_bits_signed v (eus_NUM_BYTES t),
        wwhen (eus_NUM_BYTES t = 1) (put (''(if (> '' @ v @ '' 127) ('' @ setter v @ '' '' @ v @ '' (- '' @ v @ '' 256)))''))]
     else if eus_is_unsigned_int t then eus_write_deserialize_bits v (eus_NUM_BYTES t)
     else sraise ValueError)"

definition counted_array :: "string \<Rightarrow> bool" where
  "counted_array t \<longleftrightarrow> eus_is_float t \<or> eus_is_integer t \<or> eus_is_string t \<or> eus_is_bool t"

text \<open>The loop over the elements of an array, with its variable.\<close>

definition write_deserialize_loop :: "field \<Rightarrow> string \<Rightarrow> writing" where
  "write_deserialize_loop f name = (let t = f_base_type f in
     if f_is_builtin f then
       if t = ''uint8'' then
         (if \<not> no_len f then wseq
            [put (''(setq '' @ name @ '' (make-array '' @ len_str f @ '' :element-type :char))''),
             put (''(replace '' @ name @ '' buf :start2 ptr-) (incf ptr- '' @ len_str f @ '')'')]
          else wseq
            [put ''(let ((n (sys::peek buf ptr- :integer))) (incf ptr- 4)'',
             put (''  (setq '' @ name @ '' (make-array n :element-type :char))''),
             put (''  (replace '' @ name @ '' buf :start2 ptr-) (incf ptr- n))'')])
       else if \<not> no_len f then put (''(dotimes (i (length '' @ name @ ''))'')
       else if counted_array t then wseq
         [put ''(let (n)'',
          indented
            [put ''(setq n (sys::peek buf ptr- :integer)) (incf ptr- 4)'',
             if eus_is_string t \<or> eus_is_bool t then put (''(setq '' @ name @ '' (make-list n))'')
             else sbind (slift (eus_lisp_type t (f_is_array f))) (\<lambda>ty. put (''(setq '' @ name @ '' (instantiate '' @ ty @ ''-vector n))'')),
             put ''(dotimes (i n)'']]
       else wseq
         [eus_write_deserialize_length f name True,
          indented [put (''(dolist (elem- '' @ name @ '')'')]]
     else if \<not> no_len f then put (''(dotimes (i '' @ len_str f @ '')'')
     else wseq
       [eus_write_deserialize_length f name True,
        indented [put (''(dolist (elem- '' @ name @ '')'')]])"

definition eus_write_deserialize_field :: "field \<Rightarrow> writing" where
  "eus_write_deserialize_field f =
     (let name = (''_'' @ f_name f); t = f_base_type f; bytes = (f_is_array f \<and> t = ''uint8'');
          indexed = (\<not> no_len f \<or> (f_is_builtin f \<and> counted_array t));
          var = (if \<not> f_is_array f \<or> (f_is_builtin f \<and> bytes) then name
                 else if indexed then (''(elt '' @ name @ '' i)'') else ''elem-'') in wseq
     [put ('';; '' @ f_type f @ '' '' @ name),
      wwhen (f_is_array f) (write_deserialize_loop f name),
      if bytes then wseq []
      else if f_is_builtin f then indented [eus_write_deserialize_builtin f var]
      else indented [put (''(send '' @ var @ '' :deserialize buf ptr-) (incf ptr- (send '' @ var @ '' :serialization-length))'')],
      wwhen (f_is_array f \<and> \<not> bytes) (indented [put (if no_len f then ''))'' else '')'')])])"

definition eus_write_deserialize :: "named_spec \<Rightarrow> writing" where
  "eus_write_deserialize s = indented
     [put ''(:deserialize'',
      with_indent 1 True
        [put ''(buf &optional (ptr- 0))'',
         wfor (ns_fields s) eus_write_deserialize_field,
         put '';;'',
         put ''self)''],
      put '')'',
      w_newline]"

section \<open>Properties of the class\<close>

definition eus_write_md5sum :: "nat \<Rightarrow> (string \<Rightarrow> string) \<Rightarrow> msg_context \<Rightarrow> string \<Rightarrow> string \<Rightarrow> any_spec \<Rightarrow> writing" where
  "eus_write_md5sum k H ctx package name hashed = sbind (slift (compute_md5 k H ctx hashed)) (\<lambda>md5sum.
     put (''(setf (get '' @ package @ ''::'' @ name @ '' :md5sum-) '' @ [dquote] @ md5sum @ [dquote] @ '')''))"

definition eus_write_ros_datatype :: "string \<Rightarrow> string \<Rightarrow> writing" where
  "eus_write_ros_datatype package name = put (''(setf (get '' @ package @ ''::'' @ name @ '' :datatype-) '' @ [dquote] @ package @ ''/'' @ name @ [dquote] @ '')'')"

definition eus_definition_line :: "string \<Rightarrow> string" where
  "eus_definition_line line = py_replace [dquote] [backslash, dquote] (py_replace [backslash] [backslash, backslash] line)"

definition eus_write_message_definition :: "nat \<Rightarrow> msg_context \<Rightarrow> named_spec \<Rightarrow> writing" where
  "eus_write_message_definition k ctx s = wseq
     [put (''(setf (get '' @ eus_class s @ '' :definition-)''),
      with_indent 6 True
        [put [dquote],
         sbind (slift (compute_full_text k ctx (Msg (ns_spec s)))) (\<lambda>d.
           wfor (split_on newline d) (\<lambda>line. w_write (eus_definition_line line @ [newline]) False False))],
      put_same_line ([dquote] @ '')''),
      put [newline, newline]]"

text \<open>\<open>lines[:-1]\<close> leaves the last line of each definition out.\<close>

definition write_service_definition :: "nat \<Rightarrow> msg_context \<Rightarrow> srvspec \<Rightarrow> string \<Rightarrow> string \<Rightarrow> writing" where
  "write_service_definition k ctx spec package name = wseq
     [put (''(setf (get '' @ package @ ''::'' @ name @ '' :definition-)''),
      with_indent 6 True
        [put [dquote],
         wfor [ss_request spec, ss_response spec] (\<lambda>spec_service. wseq
           [sbind (slift (compute_full_text k ctx (Msg spec_service))) (\<lambda>d.
              wfor (butlast (split_on newline d)) (\<lambda>line. w_write (eus_definition_line line @ [newline]) False False)),
            wwhen (msgspec_eq spec_service (ss_request spec)) (w_write (''---'' @ [newline]) False False)])],
      put_same_line ([dquote] @ '')'')]"

definition eus_write_builtin_length :: "field \<Rightarrow> writing" where
  "eus_write_builtin_length f = (let t = f_base_type f in
     if t \<in> set [''int8'', ''uint8''] then put ''1''
     else if t \<in> set [''int16'', ''uint16''] then put ''2''
     else if t \<in> set [''int32'', ''uint32'', ''float32''] then put ''4''
     else if t \<in> set [''int64'', ''uint64'', ''float64'', ''duration'', ''time''] then put ''8''
     else if t = ''string'' then put (''4 (length _'' @ f_name f @ '')'')
     else if t \<in> set [''bool'', ''byte'', ''char''] then put ''1''
     else sraise ValueError)"

definition eus_write_length_field :: "field \<Rightarrow> writing" where
  "eus_write_length_field f = wseq
     [put ('';; '' @ f_type f @ '' _'' @ f_name f),
      if f_is_array f then wseq
        [put (if f_is_builtin f \<and> \<not> eus_is_string (f_base_type f) then ''(* '' else (''(apply #'' @ [squote] @ ''+ '')),
         block_next_indent,
         if f_is_builtin f then
           if no_len f then
             (if eus_is_string (f_base_type f) then put (''(mapcar #'' @ [squote] @ ''(lambda (x) (+ 4 (length x))) _'' @ f_name f @ '')) 4'')
              else wseq
                [eus_write_builtin_length f,
                 put_same_line (''(length _'' @ f_name f @ '')) 4'')])
           else wseq
             [eus_write_builtin_length f,
              put_same_line (len_str f @ '')'')]
         else if \<not> no_len f then put (''(send-all _'' @ f_name f @ '' :serialization-length))'')
         else put (''(send-all _'' @ f_name f @ '' :serialization-length)) 4'')]
      else if f_is_builtin f then eus_write_builtin_length f
      else put (''(send _'' @ f_name f @ '' :serialization-length)'')]"

definition eus_write_serialization_length :: "named_spec \<Rightarrow> writing" where
  "eus_write_serialization_length s = indented
     [put ''(:serialization-length'',
      with_indent 1 True
        [put ''()'',
         put ''(+'',
         with_indent 1 True
           [wwhen (ns_fields s = []) (put ''0''),
            wfor (ns_fields s) eus_write_length_field,
            put ''))'']]]"

definition write_provide :: "nat \<Rightarrow> (string \<Rightarrow> string) \<Rightarrow> msg_context \<Rightarrow> string \<Rightarrow> string \<Rightarrow> any_spec \<Rightarrow> writing" where
  "write_provide k H ctx package name hashed = sbind (slift (compute_md5 k H ctx hashed)) (\<lambda>md5sum. wseq
     [put (''(provide :'' @ package @ ''/'' @ name @ '' '' @ [dquote] @ md5sum @ [dquote] @ '')''),
      put [newline]])"

text \<open>\<open>c.val == "True"\<close>: a value of type bool is never equal to a string.\<close>

definition eus_constant :: "(pyfloat \<Rightarrow> string) \<Rightarrow> const_decl \<Rightarrow> string res" where
  "eus_constant fl c =
     (if c_type c = ''string'' then (case c_val c of
        StrVal t \<Rightarrow> Inr ([dquote] @ py_replace [dquote] [backslash, dquote] t @ [dquote]) | _ \<Rightarrow> Inl AttributeError)
      else if c_type c = ''bool'' then Inr (if c_val c = StrVal ''True'' then ''t'' else ''nil'')
      else Inr (constant_str fl (c_val c)))"

definition eus_write_constants :: "(pyfloat \<Rightarrow> string) \<Rightarrow> named_spec \<Rightarrow> writing" where
  "eus_write_constants fl s = wwhen (ms_constants (ns_spec s) \<noteq> []) (wfor (ms_constants (ns_spec s)) (\<lambda>c. wseq
     [put (''(intern '' @ [dquote] @ ''*'' @ py_upper (c_name c) @ ''*'' @ [dquote] @ '' (find-package '' @ [dquote] @ py_upper (ms_package (ns_spec s)) @ ''::'' @ py_upper (actual_name s) @ [dquote] @ ''))''),
      put (''(shadow '' @ [squote] @ ''*'' @ py_upper (c_name c) @ ''* (find-package '' @ [dquote] @ py_upper (ms_package (ns_spec s)) @ ''::'' @ py_upper (actual_name s) @ [dquote] @ ''))''),
      sbind (slift (eus_constant fl c)) (\<lambda>v.
        put (''(defconstant '' @ eus_class s @ ''::*'' @ py_upper (c_name c) @ ''* '' @ v @ '')''))]))"

section \<open>Files\<close>

definition eus_write_srv_component :: "(pyfloat \<Rightarrow> string) \<Rightarrow> named_spec \<Rightarrow> writing" where
  "eus_write_srv_component fl s0 = (let s = s0\<lparr>component_type := ''service''\<rparr> in wseq
     [eus_write_constants fl s,
      eus_write_defclass s,
      write_defmethod s,
      write_accessors s,
      eus_write_serialization_length s,
      eus_write_serialize s,
      eus_write_deserialize s])"

definition eus_write_service_specific_methods :: "nat \<Rightarrow> lisp_env \<Rightarrow> msg_context \<Rightarrow> srvspec \<Rightarrow> named_spec \<Rightarrow> named_spec \<Rightarrow> writing" where
  "eus_write_service_specific_methods k env ctx spec request response =
     (let package = ss_package spec; name = ss_short_name spec; H = le_hash env in wseq
     [put (''(defclass '' @ package @ ''::'' @ name),
      indented
        [put '':super ros::object'',
         put '':slots ())''],
      w_newline,
      eus_write_md5sum k H ctx package name (Srv spec),
      eus_write_ros_datatype package name,
      put (''(setf (get '' @ package @ ''::'' @ name @ '' :request) '' @ eus_class request @ '')''),
      put (''(setf (get '' @ package @ ''::'' @ name @ '' :response) '' @ eus_class response @ '')''),
      w_newline,
      put (''(defmethod '' @ eus_class request),
      put (''  (:response () (instance '' @ eus_class response @ '' :init)))''),
      w_newline,
      wfor [request, response] (\<lambda>s. wseq
        [eus_write_md5sum k H ctx (ms_package (ns_spec s)) (actual_name s) (Srv spec),
         eus_write_ros_datatype (ms_package (ns_spec s)) (actual_name s),
         write_service_definition k ctx spec (ms_package (ns_spec s)) (actual_name s),
         w_newline]),
      put [newline],
      write_provide k H ctx package name (Srv spec),
      put_same_line [newline]])"

definition eus_message_file :: "nat \<Rightarrow> lisp_env \<Rightarrow> msg_context \<Rightarrow> named_spec \<Rightarrow> writing" where
  "eus_message_file k env ctx s = (let package = ms_package (ns_spec s); name = actual_name s in wseq
     [eus_write_begin package name False,
      write_include (ns_spec s) name False,
      eus_write_constants (le_float env) s,
      eus_write_defclass s,
      write_defmethod s,
      write_accessors s,
      eus_write_serialization_length s,
      eus_write_serialize s,
      eus_write_deserialize s,
      eus_write_md5sum k (le_hash env) ctx package name (Msg (ns_spec s)),
      eus_write_ros_datatype package name,
      eus_write_message_definition k ctx s,
      write_provide k (le_hash env) ctx package name (Msg (ns_spec s))])"

definition eus_service_file :: "nat \<Rightarrow> lisp_env \<Rightarrow> msg_context \<Rightarrow> srvspec \<Rightarrow> writing" where
  "eus_service_file k env ctx spec =
     (let name = ss_short_name spec;
          request = \<lparr>ns_spec = ss_request spec, actual_name = name @ ''Request'', component_type = ''service''\<rparr>;
          response = \<lparr>ns_spec = ss_response spec, actual_name = name @ ''Response'', component_type = ''service''\<rparr>
      in wseq
     [eus_write_begin (ss_package spec) name True,
      write_include (ss_request spec) [] True,
      write_include (ss_response spec) [] True,
      eus_write_srv_component (le_float env) request,
      eus_write_srv_component (le_float env) response,
      eus_write_service_specific_methods k env ctx spec request response])"

definition listed :: "lisp_env \<Rightarrow> string \<Rightarrow> string \<Rightarrow> string list res" where
  "listed env ext d = rbind (of_option (IOError d) (le_listdir env d)) (\<lambda>fs.
     Inr (map (\<lambda>f. slice_to f (- int (length ext))) (filter (\<lambda>f. endswith f ext) fs)))"

definition eus_msg_list :: "lisp_env \<Rightarrow> string \<Rightarrow> search_path \<Rightarrow> string \<Rightarrow> string list res" where
  "eus_msg_list env pkg search_path ext =
     rbind (of_option (KeyError pkg) (search_path pkg)) (\<lambda>dir_list.
     rbind (rmap (listed env ext) dir_list) (\<lambda>fs. Inr (concat fs)))"

definition eus_generate_msg_from_spec :: "nat \<Rightarrow> lisp_env \<Rightarrow> world \<Rightarrow> msgspec \<Rightarrow> search_path \<Rightarrow> string \<Rightarrow> string
    \<Rightarrow> (lisp_state, unit) act" where
  "eus_generate_msg_from_spec k env w spec search_path output_dir package =
     (let s = \<lparr>ns_spec = spec, actual_name = ms_short_name spec, component_type = ''message''\<rparr> in
      sbind (on_msgs (load_depends k w (Msg spec) search_path)) (\<lambda>_.
      sbind (slift (eus_msg_list env package search_path EXT_MSG)) (\<lambda>msgs.
      sbind (sfoldl (\<lambda>_ m. sbind (on_msgs (load_msg_by_type w (package @ ''/'' @ m) search_path)) (\<lambda>_. sret ())) () msgs) (\<lambda>_.
      sbind (sgets ls_ctx) (\<lambda>ctx.
      sbind (slift (written (eus_message_file k env ctx s))) (\<lambda>t.
      put_file (output_dir @ ''/'' @ ms_short_name spec @ ''.l'') (t @ [newline])))))))"

text \<open>The loop reads the same file under the name of every service.\<close>

definition eus_generate_srv_from_spec :: "nat \<Rightarrow> lisp_env \<Rightarrow> world \<Rightarrow> srvspec \<Rightarrow> search_path \<Rightarrow> string \<Rightarrow> string \<Rightarrow> string
    \<Rightarrow> (lisp_state, unit) act" where
  "eus_generate_srv_from_spec k env w spec search_path output_dir package path =
     (sbind (on_msgs (load_depends k w (Srv spec) search_path)) (\<lambda>_.
      sbind (slift (listed env EXT_SRV (path_dirname path))) (\<lambda>srvs.
      sbind (sfoldl (\<lambda>_ srv. sbind (on_msgs (load_srv_from_file w path (package @ ''/'' @ srv))) (\<lambda>_. sret ())) () srvs) (\<lambda>_.
      sbind (sgets ls_ctx) (\<lambda>ctx.
      sbind (slift (written (eus_service_file k env ctx spec))) (\<lambda>t.
      put_file (output_dir @ ''/'' @ ss_short_name spec @ ''.l'') t))))))"

definition eus_generate_msg :: "nat \<Rightarrow> lisp_env \<Rightarrow> world \<Rightarrow> string \<Rightarrow> string list \<Rightarrow> string \<Rightarrow> search_path \<Rightarrow> (lisp_state, unit) act" where
  "eus_generate_msg k env w pkg fs out_dir search_path =
     sbind (sbind (slift (create_default w)) (\<lambda>ctx. smodify (\<lambda>s. s\<lparr>ls_ctx := ctx\<rparr>))) (\<lambda>_.
     sfoldl (\<lambda>_ f0. let f = le_abspath env f0 in
       sbind (slift (compute_full_type_name pkg (path_basename f))) (\<lambda>full_type.
       sbind (on_msgs (load_msg_from_file w f full_type)) (\<lambda>spec.
       eus_generate_msg_from_spec k env w spec search_path out_dir pkg))) () fs)"

definition eus_generate_srv :: "nat \<Rightarrow> lisp_env \<Rightarrow> world \<Rightarrow> string \<Rightarrow> string list \<Rightarrow> string \<Rightarrow> search_path \<Rightarrow> (lisp_state, unit) act" where
  "eus_generate_srv k env w pkg fs out_dir search_path =
     sbind (sbind (slift (create_default w)) (\<lambda>ctx. smodify (\<lambda>s. s\<lparr>ls_ctx := ctx\<rparr>))) (\<lambda>_.
     sfoldl (\<lambda>_ f0. let f = le_abspath env f0 in
       sbind (slift (compute_full_type_name pkg (path_basename f))) (\<lambda>full_type.
       sbind (on_msgs (load_srv_from_file w f full_type)) (\<lambda>spec.
       eus_generate_srv_from_spec k env w spec search_path out_dir pkg f))) () fs)"

end
