(* ===== verification/Lisp_Names.thy ===== *)
theory Lisp_Names
  imports Indented_Writer Dynamic
begin

text \<open>
  Names that Lisp reads as symbols. The reader of descriptions accepts no other names and types of fields,
  so every message that was read under such a name has such fields, and the loader keeps a context
  whose messages have such names.
\<close>

definition plain_field :: "field \<Rightarrow> bool" where
  "plain_field f \<longleftrightarrow> plain (f_name f) \<and> plain (f_base_type f)"

lemma split_subset: "p \<in> set (split_on c s) \<Longrightarrow> set p \<subseteq> set s"
proof (induction s arbitrary: p)
  case (Cons x xs)
  then show ?case by (cases "x = c"; cases "split_on c xs") fastforce+
qed simp

lemma plain_split: "plain s \<Longrightarrow> p \<in> set (split_on c s) \<Longrightarrow> plain p"
  using split_subset [of p c s] unfolding plain_def by blast

lemma rmap_set: "rmap f xs = Inr ys \<Longrightarrow> y \<in> set ys \<Longrightarrow> \<exists>x \<in> set xs. f x = Inr y"
  by (induction xs arbitrary: ys) (auto simp: rbind_eq_Inr)

section \<open>Fields of messages that were read\<close>

text \<open>The reader of descriptions accepts only names and types that Lisp reads as symbols.\<close>

lemma plain_word: "is_word_char c \<Longrightarrow> c \<notin> {CHR ''('', CHR '')'', CHR '';'', CHR 0x22, CHR 0x5C, newline}"
  by (auto simp: is_word_char_def is_ascii_alpha_def is_digit_def)

lemma plain_chars:
  assumes "\<And>c. c \<in> set s \<Longrightarrow> is_word_char c \<or> c = SEP" shows "plain s"
  unfolding plain_def
proof
  fix c assume "c \<in> set s"
  from assms [OF this] show "c \<notin> {CHR ''('', CHR '')'', CHR '';'', CHR 0x22, CHR 0x5C, newline}"
    by (rule disjE) (rule plain_word, assumption, simp)
qed

lemma plain_base_name:
  assumes "is_valid_msg_field_name n" shows "plain n"
proof (rule plain_chars)
  fix c assume c: "c \<in> set n"
  have "match_first_rest is_ascii_alpha is_word_char n"
    using assms by (simp add: is_valid_msg_field_name_def is_legal_resource_base_name_def)
  from match_first_rest_chars [OF this c] show "is_word_char c \<or> c = SEP" unfolding is_word_char_def by blast
qed

lemma plain_bare_type:
  assumes "is_valid_msg_type t" shows "plain (bare_msg_type t)"
proof (rule plain_chars)
  fix c assume c: "c \<in> set (bare_msg_type t)"
  have "match_first_rest is_ascii_alpha (\<lambda>c. is_word_char c \<or> c = SEP) (bare_msg_type t)"
    using assms by (auto simp: is_valid_msg_type_def is_legal_resource_name_def Let_def split: if_splits)
  from match_first_rest_chars [OF this c] show "is_word_char c \<or> c = SEP" unfolding is_word_char_def by blast
qed

lemma plain_bare_append:
  assumes "plain p" "plain (bare_msg_type t)" shows "plain (bare_msg_type (p @ [SEP] @ t))"
proof (cases "CHR ''['' \<in> set p")
  case True
  then have "set (bare_msg_type (p @ [SEP] @ t)) \<subseteq> set p"
    by (auto simp: bare_msg_type_takeWhile takeWhile_append1 dest: set_takeWhileD)
  then show ?thesis using assms(1) unfolding plain_def by blast
next
  case False
  then have "bare_msg_type (p @ [SEP] @ t) = p @ [SEP] @ bare_msg_type t"
    unfolding bare_msg_type_takeWhile by (subst takeWhile_append2) auto
  moreover have "plain [SEP]" by (simp add: plain_def)
  ultimately show ?thesis using assms by (simp only: plain_append)
qed

lemma plain_field_line:
  assumes "load_field_line l pkg = Inr (t, n)" "plain pkg" shows "plain (bare_msg_type t) \<and> plain n"
proof -
  obtain ty where ty: "is_valid_msg_type ty" "is_valid_msg_field_name n"
    "t = ty \<or> t = HEADER_FULL_NAME \<or> t = pkg @ [SEP] @ ty"
    using assms(1) by (auto simp: load_field_line_def split: list.splits if_splits)
  have "plain (bare_msg_type HEADER_FULL_NAME)" by (simp add: plain_def bare_msg_type_takeWhile HEADER_FULL_NAME_def)
  then show ?thesis using ty plain_base_name plain_bare_type plain_bare_append [OF assms(2)] by auto
qed

lemma plain_lines:
  assumes "rfoldl (load_line w pkg) (ts, ns, cs) ls = Inr (ts', ns', cs')" "plain pkg" "\<forall>n \<in> set ns. plain n"
  shows "\<forall>n \<in> set ns'. plain n"
  using assms
proof (induction ls arbitrary: ts ns cs)
  case (Cons l ls)
  from Cons.prems(1) obtain ts1 ns1 cs1 where
    one: "load_line w pkg (ts, ns, cs) l = Inr (ts1, ns1, cs1)" and
    rest: "rfoldl (load_line w pkg) (ts1, ns1, cs1) ls = Inr (ts', ns', cs')"
    by (auto simp: rbind_eq_Inr)
  have "\<forall>n \<in> set ns1. plain n"
    using one Cons.prems(3) plain_field_line [OF _ Cons.prems(2)]
    by (auto simp: load_line_def Let_def rbind_eq_Inr split: if_splits)
  then show ?case using Cons.IH [OF rest Cons.prems(2)] by blast
qed simp

lemma plain_resource: "package_resource_name n = Inr (p, b) \<Longrightarrow> plain n \<Longrightarrow> plain p \<and> plain b"
  using plain_split [of n _ SEP] by (auto simp: package_resource_name_def split: if_splits list.splits)

definition plain_read :: "world \<Rightarrow> msgspec \<Rightarrow> bool" where
  "plain_read w s \<longleftrightarrow> was_read w s \<and> plain (ms_full_name s)"

lemma read_plain_types:
  assumes "plain_read w s"
  shows "plain (ms_package s)" "plain (ms_short_name s)" "\<forall>t \<in> set (ms_types s). plain (bare_msg_type t)" "\<forall>n \<in> set (ms_names s). plain n" "msgspec_ok s"
proof -
  have name: "plain (ms_full_name s)" using assms by (simp add: plain_read_def)
  obtain c c' where run: "load_msg_from_string w (ms_text s) (ms_full_name s) c = (Inr s, c')"
    using assms by (auto simp: plain_read_def was_read_def)
  then obtain p b where l: "package_resource_name (ms_full_name s) = Inr (p, b)" "msgspec_ok s" "ms_package s = p"
    "rfoldl (load_line w p) ([], [], []) (split_on newline (ms_text s)) = Inr (ms_types s, ms_names s, ms_constants s)"
    by (rule load_msg_from_string_Inr)
  note r = plain_resource [OF l(1) name] and p = conjunct1 [OF plain_resource [OF l(1) name]]
  show "plain (ms_package s)" "msgspec_ok s" using l(2,3) p by simp_all
  have "ms_short_name s = b"
    using run l(1) by (auto simp: load_msg_from_string_def sbind_eq_Inr dest!: MsgSpec_Inr(7))
  then show "plain (ms_short_name s)" using r by simp
  show "\<forall>t \<in> set (ms_types s). plain (bare_msg_type t)"
    using load_line_types [OF l(4), of "\<lambda>t. plain (bare_msg_type t)"] plain_field_line [OF _ p] by auto
  show "\<forall>n \<in> set (ms_names s). plain n" using plain_lines [OF l(4) p] by simp
qed

lemma read_plain_fields:
  assumes "plain_read w s" "f \<in> set (ms_parsed_fields s)"
  shows "plain_field f"
proof -
  note t = read_plain_types [OF assms(1)]
  obtain n ty where "Field n ty = Inr f" "(n, ty) \<in> set (zip (ms_names s) (ms_types s))"
    using rmap_set [OF _ assms(2)] t(5) unfolding msgspec_ok_def by fastforce
  moreover from this have "f_name f = n" "f_base_type f = bare_msg_type ty"
    using parse_type_base by (auto simp: Field_def rbind_eq_Inr)
  ultimately show ?thesis using t by (auto simp: plain_field_def dest: set_zip_leftD set_zip_rightD)
qed

section \<open>Contexts with plain names\<close>

abbreviation plain_context :: "world \<Rightarrow> msg_context \<Rightarrow> bool" where
  "plain_context w \<equiv> all_registered (plain_read w)"

lemma load_plain_read: "load_msg_from_string w t n c = (Inr s, c') \<Longrightarrow> plain n \<Longrightarrow> plain_read w s"
  using load_was_read [of w t n c s c'] by (auto simp: plain_read_def elim!: load_msg_from_string_Inr)

lemma load_plain: "plain_context w c \<Longrightarrow> plain n \<Longrightarrow> plain_context w (snd (load_msg_from_string w t n c))"
  by (erule load_string_all) (rule load_plain_read)

lemma plain_header: "plain HEADER_FULL_NAME"
  by (simp add: plain_def HEADER_FULL_NAME_def)

lemma by_type_plain_read: "load_msg_by_type w r sp c = (Inr s, c') \<Longrightarrow> plain r \<Longrightarrow> plain_read w s"
  by (erule load_msg_by_type_string) (auto intro: load_plain_read simp: plain_header split: if_splits)

lemma resolve_plain:
  assumes "plain pkg" "plain (bare_msg_type ty)" shows "plain (resolve_type (bare_msg_type ty) pkg)"
proof -
  have "plain [SEP]" by (simp add: plain_def)
  then have "plain (pkg @ [SEP] @ bare_msg_type ty)" using assms by (simp only: plain_append)
  then show ?thesis using assms(2) plain_header by (simp add: resolve_type_def Let_def)
qed

interpretation plain: registered_specs w sp plain "plain_read w" for w sp
proof
  show "plain_read w s" if "load_msg_by_type w r sp c = (Inr s, c')" "plain r" for r c s c'
    using that by (rule by_type_plain_read)
  show "plain (resolve_type (bare_msg_type ty) (ms_package s))" if "plain_read w s" "ty \<in> set (ms_types s)" for s ty
    using read_plain_types(1,3) [OF that(1)] that(2) by (intro resolve_plain) simp_all
qed

lemmas by_type_plain = plain.by_type_all and depends_plain = plain.depends_all

lemma default_plain:
  assumes "create_default w = Inr c" shows "plain_context w c"
proof -
  have n: "plain n" if "n \<in> {TIME, DURATION}" for n using that by (auto simp: plain_def TIME_def DURATION_def)
  show ?thesis by (rule default_all [OF assms]) (rule load_plain_read, assumption, rule n)
qed

end
