(* ===== verification/Genlisp_Forms.thy ===== *)
theory Genlisp_Forms
  imports Genlisp Lisp_Names
begin

text \<open>
  The forms that the Lisp generator writes are closed: every writer of \<open>Genlisp\<close> leaves as many
  parentheses open as it says, and the files of a message are sequences of complete forms. The
  definition that a message carries as a format string prints as the definition.
\<close>

section \<open>Strings that open nothing\<close>

definition closed :: "string \<Rightarrow> bool" where
  "closed s \<longleftrightarrow> (\<forall>d. lisp_scan s (Code d) = Some (Code d))"

lemma closed_plain: "plain s \<Longrightarrow> closed s"
  by (simp add: closed_def scan_plain)

lemma scan_closed: "closed s \<Longrightarrow> lisp_scan s (Code d) = Some (Code d)"
  by (simp add: closed_def)

lemma plain_nat: "plain (str_of_nat n)"
proof -
  have "c \<notin> {CHR ''('', CHR '')'', CHR '';'', CHR 0x22, CHR 0x5C, newline}" if "is_digit c" for c
    using that by (auto simp: is_digit_def)
  then show ?thesis using str_of_nat_digits [of n] by (auto simp: plain_def)
qed

lemma plain_int: "plain (str_of_int i)"
  using plain_nat by (simp add: str_of_int_def plain_def)

lemma plain_upper: "plain s \<Longrightarrow> plain (py_upper s)"
proof -
  have "upper_char c \<notin> {CHR ''('', CHR '')'', CHR '';'', CHR 0x22, CHR 0x5C, newline}"
    if "c \<notin> {CHR ''('', CHR '')'', CHR '';'', CHR 0x22, CHR 0x5C, newline}" for c
  proof (cases "97 \<le> (of_char c :: nat) \<and> (of_char c :: nat) \<le> 122")
    case True
    define n where "n = (of_char c :: nat) - 32"
    have n: "65 \<le> n" "n \<le> 90" using True by (auto simp: n_def)
    then have "(of_char (char_of n :: char) :: nat) = n" by (simp add: of_char_of)
    then have "char_of n \<noteq> (x :: char)" if "(of_char x :: nat) < 65 \<or> 90 < (of_char x :: nat)" for x
      using that n by (metis not_le)
    then show ?thesis using True by (auto simp: upper_char_def n_def [symmetric])
  next
    case False
    then have "upper_char c = c" by (auto simp: upper_char_def)
    then show ?thesis using that by simp
  qed
  then show "plain s \<Longrightarrow> plain (py_upper s)" by (auto simp: plain_def py_upper_def)
qed

lemmas scans = scan_append scan_plain scan_closed plain_nat plain_int

section \<open>The effect of the strings\<close>

lemmas calculus = andthen_def moves_def writes_def forgets_def Let_def ex_bool_eq scans

section \<open>Types and fields\<close>

lemma plain_parse:
  assumes "plain (f_base_type f)" "parse_msg_type f = Inr (p, m)" shows "plain p \<and> plain m"
proof (cases "f_base_type f = ''Header''")
  case True
  then have "p = ''std_msgs''" "m = ''Header''" using assms(2) by (auto simp: parse_msg_type_def)
  then show ?thesis by (simp add: plain_def)
next
  case False
  then have "split_on SEP (f_base_type f) = [p, m]"
    using assms(2) by (auto simp: parse_msg_type_def split: list.splits)
  then show ?thesis using plain_split [OF assms(1), of _ SEP] by simp
qed

lemma plain_msg_type: "plain_field f \<Longrightarrow> msg_type f = Inr t \<Longrightarrow> plain t"
  using plain_parse [of f] by (auto simp: msg_type_def plain_field_def rbind_eq_Inr plain_def)

lemma plain_lisp_type: "lisp_type t = Inr s \<Longrightarrow> plain s"
  by (auto simp: lisp_type_def plain_def split: if_splits)

lemma closed_field_type: "plain_field f \<Longrightarrow> lisp_field_type f = Inr t \<Longrightarrow> closed t"
  using plain_msg_type [of f] plain_lisp_type [of "f_base_type f"]
  by (auto simp: lisp_field_type_def rbind_eq_Inr closed_def scans split: if_splits)

lemma closed_initform: "lisp_initform t = Inr s \<Longrightarrow> closed s"
  by (auto simp: lisp_initform_def closed_def split: if_splits)

lemma closed_field_initform: "plain_field f \<Longrightarrow> field_initform f = Inr t \<Longrightarrow> closed t"
  using plain_msg_type [of f] plain_lisp_type [of "f_base_type f"] closed_initform [of "f_base_type f"]
  by (auto simp: field_initform_def rbind_eq_Inr closed_def scans Let_def split: if_splits)

lemma closed_slot: "plain_field f \<Longrightarrow> closed (slot_value f)"
  by (simp add: slot_value_def closed_def scans plain_field_def)

section \<open>Serialization\<close>

lemma parens_serialize_bits: "closed v \<Longrightarrow> parens 0 0 (write_serialize_bits v n)"
  unfolding write_serialize_bits_def
  by (rule parensI [OF adds_each], rule adds_write) (simp add: calculus)

lemma plain_length_var: "plain (length_var b)"
  by (simp add: length_var_def plain_def)

lemma parens_byte_loops:
  "closed v \<Longrightarrow> parens 0 0 (wfor xs (\<lambda>x. put (''(cl:write-byte (cl:ldb (cl:byte 8 '' @ str_of_nat x @ '') '' @ v @ '') ostream)'')))"
  "closed v \<Longrightarrow> parens 0 0 (wfor xs (\<lambda>x. put (''(cl:setf (cl:ldb (cl:byte 8 '' @ str_of_nat x @ '') '' @ v @ '') (cl:read-byte istream))'')))"
  by (rule parensI [OF adds_each], rule adds_write, simp add: calculus)+

lemma parens_serialize_length: "closed v \<Longrightarrow> parens 0 0 (write_serialize_length v b)"
  unfolding write_serialize_length_def
  by (rule parensI, (rule adds_intros parens_byte_loops closed_plain plain_length_var)+)
     (simp add: calculus plain_length_var)

lemma parens_serialize_bits_signed: "closed v \<Longrightarrow> parens 0 0 (write_serialize_bits_signed v n)"
proof -
  have u: "closed ''unsigned''" by (simp add: closed_def)
  show "closed v \<Longrightarrow> parens 0 0 (write_serialize_bits_signed v n)"
    unfolding write_serialize_bits_signed_def
    by (rule parensI, (rule adds_intros parens_serialize_bits u)+) (simp add: calculus)
qed

lemma closed_words: "closed ''unsigned''" "closed ''bits''" "closed ''__sec''" "closed ''__nsec''" "closed ''ele''"
  "closed ''msg''" "closed ''(cl:aref vals i)''" "closed ''__ros_arr_len''"
  by (simp_all add: closed_def)

lemma parens_serialize_builtin:
  assumes "closed var" "plain_field f" shows "parens 0 0 (write_serialize_builtin f var b)"
proof -
  define v where "v = (if b then ''(cl:slot-value '' @ var @ '' '' @ [squote] @ f_name f @ '')'' else var)"
  have v: "closed v" using assms by (simp add: v_def closed_def scans plain_field_def)
  note parts = parens_serialize_bits parens_serialize_bits_signed parens_serialize_length closed_words v
  show ?thesis
    unfolding write_serialize_builtin_def Let_def v_def [symmetric]
    by (rule parensI, (rule adds_intros parts)+) (simp add: calculus v)
qed

lemma closed_if: "closed a \<Longrightarrow> closed b \<Longrightarrow> closed (if c then a else b)"
  by simp

lemma parens_serialize_field:
  assumes f: "plain_field f" shows "parens 0 0 (write_serialize_field f)"
proof -
  note parts = parens_serialize_builtin [OF _ f] parens_serialize_length closed_if closed_words closed_slot [OF f]
  show ?thesis
    unfolding write_serialize_field_def Let_def
    by (rule parensI, (rule adds_intros parts)+) (simp add: calculus closed_slot [OF f])
qed

lemma parens_write_serialize:
  assumes "plain (actual_name s)" "\<And>f. f \<in> set (ns_fields s) \<Longrightarrow> plain_field f"
  shows "parens 0 0 (write_serialize s)"
proof -
  note parts = parens_serialize_field assms(2)
  show ?thesis
    unfolding write_serialize_def message_class_def
    by (rule parensI, (rule adds_intros parts | assumption)+) (simp add: calculus assms(1))
qed

section \<open>Deserialization\<close>

text \<open>The form that binds a length is left open.\<close>

lemma parens_deserialize_length: "parens 0 1 (write_deserialize_length b)"
  unfolding write_deserialize_length_def
  by (rule parensI, (rule adds_intros parens_byte_loops closed_plain plain_length_var)+)
     (simp add: calculus plain_length_var)

lemma parens_deserialize_bits: "closed v \<Longrightarrow> parens 0 0 (write_deserialize_bits v n)"
  unfolding write_deserialize_bits_def by (rule parens_byte_loops)

lemma parens_deserialize_bits_signed: "closed v \<Longrightarrow> parens 0 0 (write_deserialize_bits_signed v n)"
  unfolding write_deserialize_bits_signed_def
  by (rule parensI, (rule adds_intros parens_deserialize_bits closed_words)+) (simp add: calculus)

lemma parens_deserialize_builtin:
  assumes v: "closed v" shows "parens 0 0 (write_deserialize_builtin f v)"
proof -
  note parts = parens_deserialize_bits parens_deserialize_bits_signed parens_deserialize_length closed_words v
  show ?thesis
    unfolding write_deserialize_builtin_def Let_def
    by (rule parensI, (rule adds_intros parts)+) (simp add: calculus v)
qed

lemma parens_make_instance:
  "plain_field f \<Longrightarrow> closed v \<Longrightarrow>
   parens 0 0 (sbind (slift (msg_type f)) (\<lambda>t. put (''(cl:setf '' @ v @ '' (cl:make-instance '' @ [squote] @ t @ ''))'')))"
  by (rule parens_read, rule adds_write) (simp add: calculus plain_msg_type)

lemma plain_len: "plain (len_str f)"
  by (simp add: len_str_def plain_int)

lemma parens_deserialize_field:
  assumes f: "plain_field f" shows "parens 0 0 (write_deserialize_field f)"
proof -
  note parts = parens_deserialize_builtin parens_deserialize_length parens_make_instance [OF f] closed_if closed_words
    closed_slot [OF f]
  show ?thesis
    unfolding write_deserialize_field_def Let_def
    by (rule parensI, (rule adds_intros parts)+) (simp add: calculus closed_slot [OF f] plain_len)
qed

lemma parens_write_deserialize:
  assumes "plain (actual_name s)" "\<And>f. f \<in> set (ns_fields s) \<Longrightarrow> plain_field f"
  shows "parens 0 0 (write_deserialize s)"
proof -
  note parts = parens_deserialize_field assms(2)
  show ?thesis
    unfolding write_deserialize_def message_class_def
    by (rule parensI, (rule adds_intros parts | assumption)+) (simp add: calculus assms(1))
qed

section \<open>Lengths and lists\<close>

lemma parens_builtin_length:
  assumes v: "closed v" shows "parens 0 0 (write_builtin_length f v)"
  unfolding write_builtin_length_def Let_def
  by (rule parensI, (rule adds_intros)+) (simp add: calculus v)

lemma parens_length_field:
  assumes f: "plain_field f" shows "parens 0 0 (write_length_field f)"
proof -
  note parts = parens_builtin_length closed_if closed_words closed_slot [OF f]
  show ?thesis
    unfolding write_length_field_def Let_def
    by (rule parensI, (rule adds_intros parts)+) (simp add: calculus closed_slot [OF f])
qed

lemma parens_serialization_length:
  assumes "plain (actual_name s)" "\<And>f. f \<in> set (ns_fields s) \<Longrightarrow> plain_field f"
  shows "parens 0 0 (write_serialization_length s)"
proof -
  note parts = parens_length_field assms(2)
  show ?thesis
    unfolding write_serialization_length_def message_class_def
    by (rule parensI, (rule adds_intros parts | assumption)+) (simp add: calculus assms(1))
qed

lemma parens_list_field:
  "plain_field f \<Longrightarrow> parens 0 0 (put (''(cl:cons '' @ [squote] @ '':'' @ f_name f @ '' ('' @ f_name f @ '' msg))''))"
  by (rule parensI [OF adds_write]) (simp add: calculus plain_field_def)

lemma parens_list_converter:
  assumes "plain (actual_name s)" "\<And>f. f \<in> set (ns_fields s) \<Longrightarrow> plain_field f"
  shows "parens 0 0 (write_list_converter s)"
proof -
  note parts = parens_list_field assms(2)
  show ?thesis
    unfolding write_list_converter_def message_class_def new_message_class_def
    by (rule parensI, (rule adds_intros parts | assumption)+) (simp add: calculus assms(1))
qed

section \<open>Classes\<close>

definition plain_const :: "(pyfloat \<Rightarrow> string) \<Rightarrow> const_decl \<Rightarrow> bool" where
  "plain_const fl c \<longleftrightarrow> plain (c_name c) \<and> plain (constant_str fl (c_val c))"

definition plain_msg :: "(pyfloat \<Rightarrow> string) \<Rightarrow> msgspec \<Rightarrow> bool" where
  "plain_msg fl m \<longleftrightarrow> plain (ms_package m) \<and> plain (ms_short_name m) \<and> plain (ms_full_name m) \<and>
     list_all plain_field (ms_parsed_fields m) \<and> list_all (plain_const fl) (ms_constants m)"

definition plain_spec :: "(pyfloat \<Rightarrow> string) \<Rightarrow> named_spec \<Rightarrow> bool" where
  "plain_spec fl s \<longleftrightarrow> plain_msg fl (ns_spec s) \<and> plain (actual_name s) \<and> plain (component_type s)"

lemma plain_specD:
  assumes "plain_spec fl s"
  shows "plain (actual_name s)" "plain (component_type s)" "plain (ms_package (ns_spec s))" "plain (ms_full_name (ns_spec s))"
    "\<And>f. f \<in> set (ns_fields s) \<Longrightarrow> plain_field f" "\<And>c. c \<in> set (ms_constants (ns_spec s)) \<Longrightarrow> plain_const fl c"
  using assms by (auto simp: plain_spec_def plain_msg_def list_all_iff)

lemma plain_suffix: "plain (suffix_of s)"
  by (simp add: suffix_of_def plain_def)

lemma plain_class: "plain (actual_name s) \<Longrightarrow> plain (message_class s)" "plain (actual_name s) \<Longrightarrow> plain (new_message_class s)"
  by (simp_all add: message_class_def new_message_class_def) (simp add: plain_def)

lemma parens_begin: "plain p \<Longrightarrow> parens 0 0 (write_begin p b)"
  unfolding write_begin_def by (rule parensI, (rule adds_intros)+) (simp add: calculus)

lemma parens_html_include: "plain (actual_name s) \<Longrightarrow> parens 0 0 (write_html_include s)"
  unfolding write_html_include_def by (rule parensI, (rule adds_intros)+) (simp add: calculus)

lemma parens_slot_type:
  "plain_field f \<Longrightarrow> parens 0 0 (sbind (slift (lisp_field_type f)) (\<lambda>t. put ('':type '' @ t)))"
  by (rule parens_read, rule adds_write) (simp add: calculus closed_field_type)

lemma parens_slot_initform:
  "plain_field f \<Longrightarrow> parens 1 0 (sbind (slift (field_initform f)) (\<lambda>i. put ('':initform '' @ i @ '')'')))"
  by (rule parens_read, rule adds_write) (simp add: calculus closed_field_initform)

lemma parens_slot_definition:
  assumes f: "plain_field f" shows "parens 0 0 (write_slot_definition f)"
proof -
  note parts = parens_slot_type [OF f] parens_slot_initform [OF f]
  show ?thesis using f
    unfolding write_slot_definition_def plain_field_def
    by - (rule parensI, (rule adds_intros parts)+, simp add: calculus)
qed

lemma parens_deprecated_readers:
  assumes "plain_spec fl s" shows "parens 0 0 (write_deprecated_readers s)"
proof -
  note plains = plain_specD [OF assms] plain_suffix plain_class
  show ?thesis
    unfolding write_deprecated_readers_def
    by (rule parensI, (rule adds_intros)+) (use plains in \<open>simp add: calculus plain_field_def\<close>)
qed

lemma parens_defclass:
  assumes "plain_spec fl s" shows "parens 0 0 (write_defclass s)"
proof -
  note plains = plain_specD [OF assms] plain_suffix plain_class
  show ?thesis
    unfolding write_defclass_def Let_def
    by (rule parensI, (rule adds_intros parens_slot_definition plains | assumption)+) (use plains in \<open>simp add: calculus\<close>)
qed

section \<open>Methods\<close>

lemma parens_ros_datatype:
  assumes "plain_spec fl s" shows "parens 0 0 (write_ros_datatype s)"
proof -
  note plains = plain_specD [OF assms] plain_class
  show ?thesis
    unfolding write_ros_datatype_def
    by (rule parensI, (rule adds_intros)+) (use plains in \<open>simp add: calculus\<close>)
qed

lemma plain_md5: "(\<And>x. plain (H x)) \<Longrightarrow> compute_md5 k H ctx hashed = Inr m \<Longrightarrow> plain m"
  by (cases hashed) (auto simp: compute_md5_def rbind_eq_Inr)

lemma parens_md5sum:
  assumes "plain_spec fl s" and H: "\<And>x. plain (H x)" shows "parens 0 0 (write_md5sum k H ctx s hashed)"
proof -
  note plains = plain_class [OF plain_specD(1) [OF assms(1)]] plain_md5 [OF H]
  show ?thesis
    unfolding write_md5sum_def
    by (rule parens_read, (rule adds_intros)+) (use plains in \<open>simp add: calculus\<close>)
qed

text \<open>The text of a definition stays in its string: quotes and backslashes are escaped.\<close>

definition escaped :: "char \<Rightarrow> string" where
  "escaped c = (if c = backslash then [backslash, backslash] else if c = dquote then [backslash, dquote]
     else if c = CHR ''~'' then ''~~'' else [c])"

lemma definition_line_escaped: "definition_line l = concat (map escaped l)"
proof (induction l)
  case (Cons c l)
  have "definition_line (c # l) = definition_line [c] @ definition_line l"
    unfolding definition_line_def py_replace_char by simp
  moreover have "definition_line [c] = escaped c"
    unfolding definition_line_def py_replace_char by (simp add: escaped_def)
  ultimately show ?case using Cons by simp
qed (simp add: definition_line_def py_replace_char)

lemma scan_escaped: "lisp_scan (escaped c) (Str d) = Some (Str d)"
  by (simp add: escaped_def)

lemma scan_definition_line: "lisp_scan (definition_line l) (Str d) = Some (Str d)"
  unfolding definition_line_escaped by (induction l) (simp_all add: scan_append scan_escaped)

definition in_string :: effect where
  "in_string s = (case fst s of Str d \<Rightarrow> Some (Str d, False) | _ \<Rightarrow> None)"

lemma adds_definition:
  "adds (sbind (slift v) (\<lambda>d. wfor (split_on newline d) (\<lambda>line. put_inline (definition_line line @ ''~%'')))) in_string"
proof (cases v)
  case (Inl e)
  then show ?thesis by (simp add: adds_def)
next
  case (Inr d)
  let ?g = "\<lambda>line. writes (definition_line line @ ''~%'') False True"
  have "each (split_on newline d) ?g (Str e, False) = Some (Str e, False)" for e
    by (rule each_same) (simp add: writes_def scan_append scan_definition_line)
  then have e: "\<exists>nb. each (split_on newline d) ?g (fst s, False) = Some (fst s', nb) \<and> (snd s' \<longrightarrow> nb)" if "in_string s = Some s'" for s s'
    using that by (auto simp: in_string_def split: reader.splits)
  have "adds (wfor (split_on newline d) (\<lambda>line. put_inline (definition_line line @ ''~%''))) in_string"
    by (rule adds_weaken [OF adds_each [OF adds_write]], rule e)
  then show ?thesis using Inr by (simp add: adds_def)
qed

lemma parens_message_definition:
  assumes "plain_spec fl s" shows "parens 0 0 (write_message_definition k ctx s)"
proof -
  note plains = plain_class [OF plain_specD(1) [OF assms]]
  show ?thesis
    unfolding write_message_definition_def
    by (rule parensI, (rule adds_intros adds_definition)+) (use plains in \<open>simp add: calculus in_string_def\<close>)
qed

lemma parens_constants:
  assumes "plain_spec fl s" shows "parens 0 0 (write_constants fl s)"
proof -
  note plains = plain_class [OF plain_specD(1) [OF assms]] plain_specD(6) [OF assms] plain_upper
  show ?thesis
    unfolding write_constants_def
    by (rule parensI, (rule adds_intros)+) (use plains in \<open>simp add: calculus plain_const_def\<close>)
qed

section \<open>Packages\<close>

lemma parens_class_exports:
  assumes "plain pkg" "\<And>m. m \<in> set msgs \<Longrightarrow> plain m" shows "parens 0 0 (write_class_exports msgs pkg)"
  unfolding write_class_exports_def
  by (rule parensI, (rule adds_intros)+) (use assms plain_upper in \<open>simp add: calculus\<close>)

lemma parens_srv_exports:
  assumes "plain pkg" "\<And>m. m \<in> set srvs \<Longrightarrow> plain m" shows "parens 0 0 (write_srv_exports srvs pkg)"
  unfolding write_srv_exports_def
  by (rule parensI, (rule adds_intros)+) (use assms plain_upper in \<open>simp add: calculus\<close>)

lemma plain_upper_append: "plain s \<Longrightarrow> plain t \<Longrightarrow> plain (py_upper (s @ t))"
  by (rule plain_upper) simp

lemma parens_accessor_exports:
  assumes "plain p" "\<And>f. f \<in> set fds \<Longrightarrow> plain_field f" shows "parens 0 0 (write_accessor_exports p b fds)"
proof -
  have "plain ''-val''" by (simp add: plain_def)
  then show ?thesis
    unfolding write_accessor_exports_def
    by - (rule parensI, (rule adds_intros)+, use assms plain_upper in \<open>simp add: calculus plain_field_def\<close>)
qed

lemma parens_asd_deps:
  assumes "finite deps" "\<And>d. d \<in> deps \<Longrightarrow> plain d" "\<And>m. m \<in> set msgs \<Longrightarrow> plain m" shows "parens 1 0 (write_asd_deps deps msgs)"
proof -
  have d: "each (sorted_list_of_set deps) (\<lambda>d. writes ('':'' @ d @ ''-msg'') True True) (Code n, b) = Some (Code n, False)" for n b
    by (rule each_same) (use assms in \<open>simp add: writes_def scans\<close>)
  show ?thesis
    unfolding write_asd_deps_def
    by (rule parensI, (rule adds_intros)+) (use assms d in \<open>simp add: calculus\<close>)
qed

end
