(* ===== verification/Geneus_Forms.thy ===== *)
theory Geneus_Forms
  imports Geneus Genlisp_Forms
begin

text \<open>
  The forms that the EusLisp generator writes are closed. Its comments end with the line they stand in,
  so the calculus keeps track of whether the next line starts with a line break.
\<close>

section \<open>Fields\<close>

definition eus_field :: "field \<Rightarrow> bool" where
  "eus_field f \<longleftrightarrow> plain_field f \<and> newline \<notin> set (f_type f) \<and> (f_base_type f = ''uint8'' \<longrightarrow> f_is_builtin f)"

lemma scan_comment: "newline \<notin> set s \<Longrightarrow> lisp_scan s (Comment d) = Some (Comment d)"
  by (induction s) auto

lemma eus_fieldD: "eus_field f \<Longrightarrow> plain (f_name f)" "eus_field f \<Longrightarrow> newline \<notin> set (f_type f)" "eus_field f \<Longrightarrow> newline \<notin> set (f_name f)"
  by (auto simp: eus_field_def plain_field_def plain_def)

lemma plain_eus_parse: "plain_field f \<Longrightarrow> p \<in> set (eus_parse_msg_type f) \<Longrightarrow> plain p"
proof -
  assume f: "plain_field f" "p \<in> set (eus_parse_msg_type f)"
  have "plain ''std_msgs''" "plain ''Header''" by (simp_all add: plain_def)
  then show ?thesis using f plain_split [of "f_base_type f" p SEP]
    by (auto simp: eus_parse_msg_type_def plain_field_def split: if_splits)
qed

lemma plain_eus_msg_type:
  assumes "plain_field f" "eus_msg_type f = Inr t" shows "plain t"
proof -
  obtain p m where m: "eus_parse_msg_type f = [p, m]" "t = p @ ''::'' @ m"
    using assms(2) by (auto simp: eus_msg_type_def split: list.splits)
  have "plain p" "plain m" using plain_eus_parse [OF assms(1)] m(1) by auto
  moreover have "plain ''::''" by (simp add: plain_def)
  ultimately show ?thesis using m(2) by (simp only: plain_append)
qed

lemma plain_eus_lisp_type: "eus_lisp_type t a = Inr s \<Longrightarrow> plain s"
  by (auto simp: eus_lisp_type_def plain_def split: if_splits)

lemma plain_eus_field_type: "plain_field f \<Longrightarrow> eus_field_type f = Inr t \<Longrightarrow> plain t"
  using plain_eus_msg_type plain_eus_lisp_type by (auto simp: eus_field_type_def split: if_splits)

lemma plain_array_len: "plain (array_len_or_0 f)"
  by (simp add: array_len_or_0_def plain_int)

lemma closed_initvalue: "lisp_initvalue t = Inr s \<Longrightarrow> closed s"
  by (auto simp: lisp_initvalue_def closed_def split: if_splits)

lemma closed_field_initvalue: "field_initvalue f = Inr v \<Longrightarrow> closed v"
  using closed_initvalue [of "f_base_type f"] plain_eus_lisp_type [of "f_base_type f" "f_is_array f"]
  by (auto simp: field_initvalue_def Let_def rbind_eq_Inr closed_def scans plain_array_len split: if_splits)

lemma closed_eus_initform: "plain (f_name f) \<Longrightarrow> closed (eus_field_initform f)"
  by (auto simp: eus_field_initform_def Let_def closed_def scans)


text \<open>A writer that starts a line may follow a comment.\<close>

definition line_moves :: "nat \<Rightarrow> nat \<Rightarrow> effect" where
  "line_moves n k s = (case fst s of Code d \<Rightarrow> moves n k s | Comment d \<Rightarrow> if snd s then moves n k (Code d, False) else None | _ \<Rightarrow> None)"

abbreviation line_parens :: "nat \<Rightarrow> nat \<Rightarrow> writing \<Rightarrow> bool" where
  "line_parens n k m \<equiv> adds m (line_moves n k)"

lemma line_parensI:
  assumes m: "adds m f" and "\<And>d. map_option fst (f (Code (n + d), False)) = Some (Code (k + d))"
    and c: "\<And>d. map_option fst (f (Comment (n + d), True)) = Some (Code (k + d))"
  shows "line_parens n k m"
proof (rule addsI)
  fix w w' s s' assume w: "m w = (Inr (), w')" "knows w s" "line_moves n k s = Some s'"
  show "knows w' s' \<and> indentation w' = indentation w"
  proof (cases "\<exists>d. fst s = Comment d")
    case False
    then have "moves n k s = Some s'" using w(3) by (auto simp: line_moves_def split: reader.splits)
    then show ?thesis using parensI [OF m assms(2)] w(1,2) unfolding adds_def by blast
  next
    case True
    then obtain d where d: "s = (Comment (n + d), True)" "s' = (Code (k + d), False)"
      using w(3) by (cases s) (auto simp: line_moves_def moves_def add.commute split: if_splits dest!: le_Suc_ex)
    obtain nb where "f s = Some (Code (k + d), nb)" using c [of d] d(1) by auto
    then have "knows w' (Code (k + d), nb) \<and> indentation w' = indentation w" using m w(1,2) unfolding adds_def by blast
    then show ?thesis by (simp add: knows_def d(2))
  qed
qed

lemma line_parens_read: "(\<And>x. v = Inr x \<Longrightarrow> line_parens n k (h x)) \<Longrightarrow> line_parens n k (sbind (slift v) h)"
  by (cases v) (auto simp: adds_def)

lemmas eus_calculus = calculus line_moves_def scan_comment eus_fieldD

section \<open>Classes\<close>

lemma parens_slot_argument:
  assumes "eus_field f" shows "parens 0 0 (write_slot_argument f)"
proof -
  have p: "plain_field f" and n: "plain (f_name f)" using assms by (auto simp: eus_field_def eus_fieldD)
  have "parens 0 0 (sbind (slift (field_initvalue f)) (\<lambda>v. put (''((:'' @ f_name f @ '' __'' @ f_name f @ '') '' @ v @ '')'')))"
    by (rule parens_read, rule adds_write) (simp add: calculus n closed_field_initvalue)
  moreover have "parens 0 0 (sbind (slift (eus_field_type f)) (\<lambda>t.
       if f_is_array f then
         put (''((:'' @ f_name f @ '' __'' @ f_name f @ '') (let (r) (dotimes (i '' @ array_len_or_0 f @ '') (push (instance '' @ t @ '' :init) r)) r))'')
       else put (''((:'' @ f_name f @ '' __'' @ f_name f @ '') (instance '' @ t @ '' :init))'')))"
    by (rule parens_read, (rule adds_if adds_write)+) (simp add: calculus n plain_eus_field_type [OF p] plain_array_len)
  ultimately show ?thesis unfolding write_slot_argument_def Let_def by simp
qed

lemma parens_slot_initialize: "eus_field f \<Longrightarrow> parens 0 0 (write_slot_initialize f)"
  unfolding write_slot_initialize_def
  by (rule parensI, rule adds_write) (simp add: eus_calculus closed_eus_initform)

lemma parens_accessor: "eus_field f \<Longrightarrow> parens 0 0 (write_accessor f)"
  unfolding write_accessor_def Let_def
  by (rule parensI, (rule adds_intros)+) (simp add: eus_calculus)

lemma parens_slot: "eus_field f \<Longrightarrow> parens 0 0 (eus_write_slot_definition f)"
  unfolding eus_write_slot_definition_def
  by (rule parensI, rule adds_write) (simp add: eus_calculus)

definition eus_spec :: "named_spec \<Rightarrow> bool" where
  "eus_spec s \<longleftrightarrow> plain (actual_name s) \<and> plain (ms_package (ns_spec s)) \<and> list_all eus_field (ns_fields s)"

lemma eus_specD:
  assumes "eus_spec s"
  shows "plain (actual_name s)" "plain (ms_package (ns_spec s))" "\<And>f. f \<in> set (ns_fields s) \<Longrightarrow> eus_field f"
  using assms by (auto simp: eus_spec_def list_all_iff)

lemma parens_eus_classes:
  assumes "eus_spec s"
  shows "parens 0 0 (eus_write_defclass s)" "parens 0 1 (write_defmethod s)" "parens 0 0 (write_accessors s)"
proof -
  note s = eus_specD [OF assms]
  note fs = parens_slot parens_slot_argument parens_slot_initialize parens_accessor
  show "parens 0 0 (eus_write_defclass s)" unfolding eus_write_defclass_def
    by (rule parensI, (rule adds_intros fs s | assumption)+) (simp add: calculus s)
  show "parens 0 1 (write_defmethod s)" unfolding write_defmethod_def
    by (rule parensI, (rule adds_intros fs s | assumption)+) (simp add: calculus s)
  show "parens 0 0 (write_accessors s)" unfolding write_accessors_def
    by (rule parensI, (rule adds_intros fs s | assumption)+) (simp add: calculus s)
qed

section \<open>Serialization\<close>

lemma line_eus_serialize_bits: "closed v \<Longrightarrow> line_parens 0 0 (eus_write_serialize_bits v n)"
  unfolding eus_write_serialize_bits_def
  by (rule line_parensI, (rule adds_intros)+) (simp_all add: calculus)

lemma line_raise: "line_parens 0 0 (sraise e)"
  by (rule addsI) auto

lemma line_eus_serialize_builtin: "closed v \<Longrightarrow> line_parens 0 0 (eus_write_serialize_builtin f v)"
  unfolding eus_write_serialize_builtin_def eus_write_serialize_length_def eus_write_serialize_bits_signed_def Let_def
  by (rule line_parensI, (rule line_raise adds_intros line_eus_serialize_bits | assumption)+) (simp_all add: eus_calculus)

lemma closed_var: "plain (f_name f) \<Longrightarrow> closed (''_'' @ f_name f)" "plain (f_name f) \<Longrightarrow> closed (''(elt '' @ (''_'' @ f_name f) @ '' i)'')"
  "closed ''elem''" "closed ''elem-''"
  by (simp_all add: closed_def scans)

lemma parens_eus_serialize_field:
  assumes f: "eus_field f" shows "parens 0 0 (eus_write_serialize_field f)"
proof -
  note v = closed_var(1,2) [OF eus_fieldD(1) [OF f]] closed_var(3,4) closed_if
  show ?thesis
    unfolding eus_write_serialize_field_def Let_def eus_write_serialize_length_def
    by (rule parensI, (rule adds_intros line_eus_serialize_builtin v)+) (simp add: eus_calculus f plain_len)
qed

lemma parens_eus_serialize:
  assumes "eus_spec s" shows "parens 0 0 (eus_write_serialize s)"
  unfolding eus_write_serialize_def
  by (rule parensI, (rule adds_intros parens_eus_serialize_field eus_specD [OF assms] | assumption)+) (simp add: calculus)

section \<open>Deserialization\<close>

lemma plain_setter: "plain (setter v)"
  by (simp add: setter_def plain_def)

lemma line_deserialize_long: "closed v \<Longrightarrow> line_parens 0 0 (write_deserialize_long v)"
  unfolding write_deserialize_long_def
  by (rule line_parensI, (rule adds_intros)+) (simp_all add: eus_calculus)

lemma line_peek: "closed v \<Longrightarrow> plain ty \<Longrightarrow> line_parens 0 0 (write_peek v ty n)"
  unfolding write_peek_def
  by (rule line_parensI, rule adds_write) (simp_all add: eus_calculus plain_setter)

lemma plain_peeks: "plain '':char''" "plain '':short''" "plain '':integer''"
  by (simp_all add: plain_def)

lemma line_eus_deserialize_bits: "closed v \<Longrightarrow> line_parens 0 0 (eus_write_deserialize_bits v n)"
  unfolding eus_write_deserialize_bits_def
  by (rule line_parensI, (rule line_raise adds_intros line_peek line_deserialize_long plain_peeks | assumption)+)
     (simp_all add: eus_calculus)

lemma line_eus_deserialize_bits_signed: "closed v \<Longrightarrow> line_parens 0 0 (eus_write_deserialize_bits_signed v n)"
  unfolding eus_write_deserialize_bits_signed_def
  by (rule line_parensI, (rule line_raise adds_intros line_eus_deserialize_bits line_deserialize_long | assumption)+)
     (simp_all add: eus_calculus)

lemma line_eus_deserialize_length:
  assumes f: "eus_field f" and v: "closed v"
  shows "line_parens 0 0 (eus_write_deserialize_length f v False)" "line_parens 0 1 (eus_write_deserialize_length f v True)"
proof -
  have p: "plain_field f" using f by (simp add: eus_field_def)
  have r: "parens 0 0 (sbind (slift (eus_field_type f)) (\<lambda>t.
      put (''(setq '' @ v @ '' (let (r) (dotimes (i n) (push (instance '' @ t @ '' :init) r)) r))'')))"
    by (rule parens_read, rule adds_write) (simp add: calculus v plain_eus_field_type [OF p])
  show "line_parens 0 0 (eus_write_deserialize_length f v False)" unfolding eus_write_deserialize_length_def
    by (simp only: if_False, rule line_parensI, rule adds_write) (simp_all add: eus_calculus v plain_setter)
  show "line_parens 0 1 (eus_write_deserialize_length f v True)" unfolding eus_write_deserialize_length_def
    by (simp only: if_True, rule line_parensI, (rule adds_intros r)+) (simp_all add: eus_calculus)
qed

lemma line_eus_deserialize_builtin:
  assumes f: "eus_field f" and v: "closed v" shows "line_parens 0 0 (eus_write_deserialize_builtin f v)"
  unfolding eus_write_deserialize_builtin_def Let_def
  by (rule line_parensI, (rule line_raise adds_intros line_eus_deserialize_length line_eus_deserialize_bits
        line_eus_deserialize_bits_signed f v)+)
     (simp_all add: eus_calculus v plain_setter)

text \<open>The number of forms that the loop over the elements of an array leaves open.\<close>

definition loops :: "field \<Rightarrow> nat" where
  "loops f = (if f_is_builtin f \<and> f_base_type f = ''uint8'' then 0 else if no_len f then 2 else 1)"

lemma line_deserialize_loop:
  assumes f: "eus_field f" and v: "closed v" shows "line_parens 0 (loops f) (write_deserialize_loop f v)"
proof -
  have ty: "parens 0 0 (sbind (slift (eus_lisp_type t a)) (\<lambda>ty. put (''(setq '' @ v @ '' (instantiate '' @ ty @ ''-vector n))'')))" for t a
    by (rule parens_read, rule adds_write) (simp add: calculus v plain_eus_lisp_type)
  show ?thesis
    unfolding write_deserialize_loop_def Let_def
    by (rule line_parensI, (rule adds_intros line_eus_deserialize_length ty f v)+)
       (simp_all add: eus_calculus v plain_len loops_def numeral_2_eq_2)
qed

lemma parens_eus_deserialize_field:
  assumes f: "eus_field f" shows "parens 0 0 (eus_write_deserialize_field f)"
proof -
  have b: "f_base_type f = ''uint8'' \<longrightarrow> f_is_builtin f" using f by (simp add: eus_field_def)
  note v = closed_var(1,2) [OF eus_fieldD(1) [OF f]] closed_var(3,4) closed_if
  show ?thesis
    unfolding eus_write_deserialize_field_def Let_def
    by (rule parensI, (rule adds_intros line_eus_deserialize_builtin line_deserialize_loop f v)+)
       (use b in \<open>simp add: eus_calculus f loops_def numeral_2_eq_2\<close>)
qed

section \<open>Lengths\<close>

lemma line_eus_builtin_length: "eus_field f \<Longrightarrow> line_parens 0 0 (eus_write_builtin_length f)"
  unfolding eus_write_builtin_length_def Let_def
  by (rule line_parensI, (rule line_raise adds_intros)+) (simp_all add: eus_calculus)

lemma parens_eus_length_field:
  assumes f: "eus_field f" shows "parens 0 0 (eus_write_length_field f)"
  unfolding eus_write_length_field_def
  by (rule parensI, (rule adds_intros line_eus_builtin_length f)+) (simp add: eus_calculus f plain_len)

lemma parens_eus_serialization_length:
  assumes "eus_spec s" shows "parens 0 0 (eus_write_serialization_length s)"
  unfolding eus_write_serialization_length_def
  by (rule parensI, (rule adds_intros parens_eus_length_field eus_specD [OF assms] | assumption)+) (simp add: calculus)

lemma parens_eus_deserialize:
  assumes "eus_spec s" shows "parens 1 0 (eus_write_deserialize s)"
  unfolding eus_write_deserialize_def
  by (rule parensI, (rule adds_intros parens_eus_deserialize_field eus_specD [OF assms] | assumption)+) (simp add: calculus)

section \<open>Properties of the class\<close>

lemma parens_eus_md5sum:
  assumes "plain p" "plain n" and H: "\<And>x. plain (H x)" shows "parens 0 0 (eus_write_md5sum k H ctx p n hashed)"
  unfolding eus_write_md5sum_def
  by (rule parens_read, rule adds_write) (use plain_md5 [OF H] assms in \<open>simp add: calculus\<close>)

lemma parens_eus_provide:
  assumes "plain p" "plain n" and H: "\<And>x. plain (H x)" shows "parens 0 0 (write_provide k H ctx p n hashed)"
  unfolding write_provide_def
  by (rule parens_read, (rule adds_intros)+) (use plain_md5 [OF H] assms in \<open>simp add: calculus\<close>)

lemma parens_eus_ros_datatype: "plain p \<Longrightarrow> plain n \<Longrightarrow> parens 0 0 (eus_write_ros_datatype p n)"
  unfolding eus_write_ros_datatype_def by (rule parensI, rule adds_write) (simp add: calculus)

definition quoted :: "char \<Rightarrow> string" where
  "quoted c = (if c = backslash then [backslash, backslash] else if c = dquote then [backslash, dquote] else [c])"

lemma eus_definition_line_quoted: "eus_definition_line l = concat (map quoted l)"
proof (induction l)
  case (Cons c l)
  have "eus_definition_line (c # l) = eus_definition_line [c] @ eus_definition_line l"
    unfolding eus_definition_line_def py_replace_char by simp
  moreover have "eus_definition_line [c] = quoted c"
    unfolding eus_definition_line_def py_replace_char by (simp add: quoted_def)
  ultimately show ?case using Cons by simp
qed (simp add: eus_definition_line_def py_replace_char)

lemma scan_eus_definition_line: "lisp_scan (eus_definition_line l) (Str d) = Some (Str d)"
  unfolding eus_definition_line_quoted by (induction l) (simp_all add: scan_append quoted_def)

lemma adds_eus_lines: "adds (wfor ls (\<lambda>line. w_write (eus_definition_line line @ [newline]) False False)) in_string"
proof -
  let ?g = "\<lambda>line. writes (eus_definition_line line @ [newline]) False False"
  have "each ls ?g (Str e, False) = Some (Str e, False)" for e
    by (rule each_same) (simp add: writes_def scan_append scan_eus_definition_line)
  then have e: "\<exists>nb. each ls ?g (fst s, False) = Some (fst s', nb) \<and> (snd s' \<longrightarrow> nb)" if "in_string s = Some s'" for s s'
    using that by (auto simp: in_string_def split: reader.splits)
  show ?thesis by (rule adds_weaken [OF adds_each [OF adds_write]], rule e)
qed

lemma adds_eus_definition:
  "adds (sbind (slift v) (\<lambda>d. wfor (f d) (\<lambda>line. w_write (eus_definition_line line @ [newline]) False False))) in_string"
  using adds_eus_lines by (cases v) (auto simp: adds_def)

lemma parens_eus_message_definition:
  assumes "eus_spec s" shows "parens 0 0 (eus_write_message_definition k ctx s)"
  unfolding eus_write_message_definition_def
  by (rule parensI, (rule adds_intros adds_eus_definition)+) (simp add: calculus in_string_def eus_specD [OF assms])

lemma parens_service_definition:
  assumes "plain p" "plain n" shows "parens 0 0 (write_service_definition k ctx spec p n)"
  unfolding write_service_definition_def
  by (rule parensI, (rule adds_intros adds_eus_definition)+) (simp add: calculus in_string_def assms)

text \<open>A value of a string constant is not escaped but for its quotes.\<close>

definition eus_const :: "(pyfloat \<Rightarrow> string) \<Rightarrow> const_decl \<Rightarrow> bool" where
  "eus_const fl c \<longleftrightarrow> plain (c_name c) \<and>
     (if c_type c = ''string'' then backslash \<notin> set (constant_str fl (c_val c)) else plain (constant_str fl (c_val c)))"

lemma scan_requoted: "backslash \<notin> set t \<Longrightarrow> lisp_scan (py_replace [dquote] [backslash, dquote] t) (Str d) = Some (Str d)"
  unfolding py_replace_char by (induction t) auto

lemma closed_eus_constant: "eus_const fl c \<Longrightarrow> eus_constant fl c = Inr v \<Longrightarrow> closed v"
proof -
  have "plain ''t''" "plain ''nil''" by (simp_all add: plain_def)
  then show "eus_const fl c \<Longrightarrow> eus_constant fl c = Inr v \<Longrightarrow> closed v"
    by (auto simp: eus_const_def eus_constant_def closed_def scans scan_requoted split: if_splits const_val.splits)
qed

lemma parens_eus_constants:
  assumes s: "eus_spec s" and c: "\<And>c. c \<in> set (ms_constants (ns_spec s)) \<Longrightarrow> eus_const fl c"
  shows "parens 0 0 (eus_write_constants fl s)"
proof -
  note s = eus_specD [OF s]
  have n: "plain (c_name c)" if "c \<in> set (ms_constants (ns_spec s))" for c
    using assms(2) [OF that] by (simp add: eus_const_def)
  have r: "parens 0 0 (sbind (slift (eus_constant fl c)) (\<lambda>v.
        put (''(defconstant '' @ (eus_class s) @ ''::*'' @ py_upper (c_name c) @ ''* '' @ v @ '')'')))"
    if "c \<in> set (ms_constants (ns_spec s))" for c
    by (rule parens_read, rule adds_write) (simp add: calculus s plain_upper n [OF that] closed_eus_constant [OF assms(2) [OF that]])
  show ?thesis
    unfolding eus_write_constants_def
    by (rule parensI, (rule adds_intros r | assumption)+) (simp add: calculus s plain_upper n)
qed

section \<open>The beginning\<close>

lemma parens_eus_begin: "plain p \<Longrightarrow> plain n \<Longrightarrow> parens 0 0 (eus_write_begin p n b)"
  unfolding eus_write_begin_def unless_package_def Let_def
  by (rule parensI, (rule adds_intros)+) (simp add: calculus plain_upper)

lemma plain_included:
  assumes "\<And>f. f \<in> set (ms_parsed_fields spec) \<Longrightarrow> plain_field f" "p \<in> set (included_packages spec)" shows "plain p"
proof -
  obtain f where f: "f \<in> set (ms_parsed_fields spec)" "p = hd (eus_parse_msg_type f)"
    using assms(2) by (auto simp: included_packages_def)
  have "split_on SEP t \<noteq> []" for t by (induction t) (auto split: list.splits)
  then have "eus_parse_msg_type f \<noteq> []" by (simp add: eus_parse_msg_type_def)
  then show ?thesis using plain_eus_parse [OF assms(1) [OF f(1)]] f(2) by simp
qed

lemma parens_include:
  assumes f: "\<And>f. f \<in> set (ms_parsed_fields spec) \<Longrightarrow> plain_field f" and n: "plain name" shows "parens 0 0 (write_include spec name b)"
proof -
  note p = plain_included [OF f]
  show ?thesis
  proof (cases "included_packages spec")
    case Nil
    show ?thesis unfolding write_include_def Nil wfor_def list.map
      by (rule parensI, (rule adds_intros)+) (simp add: calculus scan_comment n)
  next
    case (Cons x xs)
    have x: "plain x" "\<And>y. y \<in> set xs \<Longrightarrow> plain y" using p Cons by auto
    show ?thesis unfolding write_include_def Cons wfor_def list.map
      by (rule parensI, (rule adds_intros adds_each [unfolded wfor_def])+) (use x in \<open>simp add: calculus scan_comment n plain_upper\<close>)
  qed
qed

section \<open>Files\<close>

lemma parens_eus_message_file:
  assumes s: "eus_spec s" and c: "\<And>c. c \<in> set (ms_constants (ns_spec s)) \<Longrightarrow> eus_const (le_float env) c"
    and H: "\<And>x. plain (le_hash env x)"
  shows "parens 0 0 (eus_message_file k env ctx s)"
proof -
  have f: "plain_field f" if "f \<in> set (ns_fields s)" for f using eus_specD(3) [OF s that] by (simp add: eus_field_def)
  note parts = parens_eus_begin parens_include parens_eus_constants parens_eus_classes parens_eus_serialization_length
    parens_eus_serialize parens_eus_deserialize parens_eus_md5sum parens_eus_ros_datatype parens_eus_message_definition parens_eus_provide
  show ?thesis
    unfolding eus_message_file_def Let_def
    by (rule parensI, (rule adds_intros parts s eus_specD(1,2) [OF s] f c H | assumption)+) (simp add: calculus)
qed

lemma parens_eus_srv_component:
  assumes s: "eus_spec s" and c: "\<And>c. c \<in> set (ms_constants (ns_spec s)) \<Longrightarrow> eus_const fl c"
  shows "parens 0 0 (eus_write_srv_component fl s)"
proof -
  let ?s = "s\<lparr>component_type := ''service''\<rparr>"
  have p: "eus_spec ?s" "\<And>c. c \<in> set (ms_constants (ns_spec ?s)) \<Longrightarrow> eus_const fl c" using s c by (simp_all add: eus_spec_def)
  note parts = parens_eus_constants parens_eus_classes parens_eus_serialization_length parens_eus_serialize parens_eus_deserialize
  show ?thesis
    unfolding eus_write_srv_component_def Let_def
    by (rule parensI, (rule adds_intros parts p | assumption)+) (simp add: calculus)
qed

lemma parens_eus_service_specific_methods:
  assumes "plain (ss_package spec)" "plain (ss_short_name spec)" "eus_spec a" "eus_spec b" and H: "\<And>x. plain (le_hash env x)"
  shows "parens 0 0 (eus_write_service_specific_methods k env ctx spec a b)"
proof -
  note n = assms(1,2) eus_specD(1,2) [OF assms(3)] eus_specD(1,2) [OF assms(4)]
  note parts = parens_eus_md5sum [OF _ _ H] parens_eus_ros_datatype parens_service_definition parens_eus_provide [OF _ _ H]
  have e: "parens 0 0 (wseq
        [eus_write_md5sum k (le_hash env) ctx (ms_package (ns_spec s)) (actual_name s) (Srv spec),
         eus_write_ros_datatype (ms_package (ns_spec s)) (actual_name s),
         write_service_definition k ctx spec (ms_package (ns_spec s)) (actual_name s),
         w_newline])" if "s \<in> set [a, b]" for s
  proof -
    have "plain (ms_package (ns_spec s))" "plain (actual_name s)" using that n by auto
    then show ?thesis by - (rule parensI, (rule adds_intros parts | assumption)+, simp add: calculus)
  qed
  show ?thesis
    unfolding eus_write_service_specific_methods_def Let_def
    by (rule parensI, (rule e adds_intros parts n | assumption)+) (simp add: calculus n)
qed

lemma parens_eus_service_file:
  assumes n: "plain (ss_package spec)" "plain (ss_short_name spec)" and p: "plain (ms_package (ss_request spec))" "plain (ms_package (ss_response spec))"
    and f: "\<And>f. f \<in> set (ms_parsed_fields (ss_request spec) @ ms_parsed_fields (ss_response spec)) \<Longrightarrow> eus_field f"
    and c: "\<And>c. c \<in> set (ms_constants (ss_request spec) @ ms_constants (ss_response spec)) \<Longrightarrow> eus_const (le_float env) c"
    and H: "\<And>x. plain (le_hash env x)"
  shows "parens 0 0 (eus_service_file k env ctx spec)"
proof -
  let ?a = "\<lparr>ns_spec = ss_request spec, actual_name = ss_short_name spec @ ''Request'', component_type = ''service''\<rparr>"
  let ?b = "\<lparr>ns_spec = ss_response spec, actual_name = ss_short_name spec @ ''Response'', component_type = ''service''\<rparr>"
  have "plain ''Request''" "plain ''Response''" by (simp_all add: plain_def)
  then have s: "eus_spec ?a" "eus_spec ?b" using n p f by (simp_all add: eus_spec_def list_all_iff)
  have q: "\<And>f. f \<in> set (ms_parsed_fields (ss_request spec)) \<Longrightarrow> plain_field f" "\<And>f. f \<in> set (ms_parsed_fields (ss_response spec)) \<Longrightarrow> plain_field f"
    "\<And>c. c \<in> set (ms_constants (ns_spec ?a)) \<Longrightarrow> eus_const (le_float env) c" "\<And>c. c \<in> set (ms_constants (ns_spec ?b)) \<Longrightarrow> eus_const (le_float env) c"
    using f c by (auto simp: eus_field_def)
  note parts = parens_eus_begin parens_include parens_eus_srv_component parens_eus_service_specific_methods
  show ?thesis
    unfolding eus_service_file_def Let_def
    by (rule parensI, (rule adds_intros parts s n q plain_Nil H | assumption)+) (simp add: calculus)
qed

section \<open>Fields that were read\<close>

lemma sublist_strip: "set (strip s) \<subseteq> set s"
  by (auto simp: strip_def strip_by_def dest!: set_dropWhileD)

lemma word_of_line: "x \<in> set (line_words (strip_comments l)) \<Longrightarrow> set x \<subseteq> set l"
proof -
  assume "x \<in> set (line_words (strip_comments l))"
  then obtain p where p: "p \<in> set (split_on CHR '' '' (strip_comments l))" "x = strip p" by (auto simp: line_words_def)
  have "split_on COMMENTCHAR l \<noteq> []" by (induction l) (auto split: list.splits)
  then have "set (hd (split_on COMMENTCHAR l)) \<subseteq> set l" using split_subset [OF list.set_sel(1)] by blast
  then have "set (strip_comments l) \<subseteq> set l" using sublist_strip by (fastforce simp: strip_comments_def)
  then show ?thesis using p split_subset [OF p(1)] sublist_strip by fastforce
qed

lemma one_line_type:
  assumes "load_field_line l pkg = Inr (t, n)" "newline \<notin> set l" "newline \<notin> set pkg" shows "newline \<notin> set t"
proof -
  obtain ty where ty: "line_words (strip_comments l) = [ty, n]" "t = ty \<or> t = HEADER_FULL_NAME \<or> t = pkg @ [SEP] @ ty"
    using assms(1) by (auto simp: load_field_line_def split: list.splits if_splits)
  have "newline \<notin> set ty" using word_of_line [of ty l] ty(1) assms(2) by auto
  moreover have "newline \<notin> set HEADER_FULL_NAME" by (simp add: HEADER_FULL_NAME_def)
  ultimately show ?thesis using ty(2) assms(3) by auto
qed

lemma one_line_types:
  assumes "rfoldl (load_line w pkg) (ts, ns, cs) ls = Inr (ts', ns', cs')" "\<forall>l \<in> set ls. newline \<notin> set l" "newline \<notin> set pkg"
    and "\<forall>t \<in> set ts. newline \<notin> set t"
  shows "\<forall>t \<in> set ts'. newline \<notin> set t"
  using assms
proof (induction ls arbitrary: ts ns cs)
  case (Cons l ls)
  from Cons.prems(1) obtain ts1 ns1 cs1 where
    one: "load_line w pkg (ts, ns, cs) l = Inr (ts1, ns1, cs1)" and
    rest: "rfoldl (load_line w pkg) (ts1, ns1, cs1) ls = Inr (ts', ns', cs')"
    by (auto simp: rbind_eq_Inr)
  have "newline \<notin> set t" if "load_field_line l pkg = Inr (t, n)" for t n
    using one_line_type [OF that] Cons.prems(2,3) by simp
  then have "\<forall>t \<in> set ts1. newline \<notin> set t"
    using one Cons.prems(4) by (auto simp: load_line_def Let_def rbind_eq_Inr split: if_splits)
  then show ?case using Cons.IH [OF rest] Cons.prems(2,3) by simp
qed simp

lemma split_no_sep: "l \<in> set (split_on c s) \<Longrightarrow> c \<notin> set l"
proof (induction s arbitrary: l)
  case (Cons x s)
  then show ?case by (cases "split_on c s") (auto split: if_splits)
qed simp

lemma read_eus_fields:
  assumes "plain_read w s" "f \<in> set (ms_parsed_fields s)" shows "eus_field f"
proof -
  have name: "plain (ms_full_name s)" using assms(1) by (simp add: plain_read_def)
  obtain c c' where run: "load_msg_from_string w (ms_text s) (ms_full_name s) c = (Inr s, c')"
    using assms(1) by (auto simp: plain_read_def was_read_def)
  then obtain p b where l: "package_resource_name (ms_full_name s) = Inr (p, b)"
    "rfoldl (load_line w p) ([], [], []) (split_on newline (ms_text s)) = Inr (ms_types s, ms_names s, ms_constants s)"
    by (rule load_msg_from_string_Inr)
  have "newline \<notin> set p" using plain_resource [OF l(1) name] by (auto simp: plain_def)
  then have types: "\<forall>t \<in> set (ms_types s). newline \<notin> set t"
    using one_line_types [OF l(2)] split_no_sep by fastforce
  obtain n ty where "Field n ty = Inr f" "(n, ty) \<in> set (zip (ms_names s) (ms_types s))"
    using rmap_set [OF _ assms(2)] read_plain_types(5) [OF assms(1)] unfolding msgspec_ok_def by fastforce
  moreover from this have "f_type f = ty" "f_is_builtin f = is_builtin (f_base_type f)"
    by (auto simp: Field_def rbind_eq_Inr)
  moreover have "is_builtin ''uint8''" by (simp add: is_builtin_def BUILTIN_TYPES_def PRIMITIVE_TYPES_def)
  ultimately show ?thesis using types read_plain_fields [OF assms] by (auto simp: eus_field_def dest: set_zip_rightD)
qed

end
