(* ===== verification/Genlisp_Text.thy ===== *)
theory Genlisp_Text
  imports Genlisp_Forms
begin

text \<open>
  What a Lisp reader makes of the definition of a message: the strings of the code, and the output of
  \<open>cl:format\<close> for the one that is the format string.
\<close>

section \<open>Strings and formats\<close>

text \<open>The strings of a text, without their escapes.\<close>

fun literals :: "string \<Rightarrow> reader \<Rightarrow> string \<Rightarrow> string list" where
  "literals [] r acc = []"
| "literals (c # cs) r acc = (case read_char c r of None \<Rightarrow> []
     | Some r' \<Rightarrow> (case r of
         Str d \<Rightarrow> (case r' of Code e \<Rightarrow> rev acc # literals cs r' [] | Esc e \<Rightarrow> literals cs r' acc | _ \<Rightarrow> literals cs r' (c # acc))
       | Esc d \<Rightarrow> literals cs r' (c # acc)
       | _ \<Rightarrow> literals cs r' []))"

text \<open>The output of a format string without arguments: \<open>~%\<close> is a newline and \<open>~~\<close> a tilde.\<close>

fun lisp_format :: "string \<Rightarrow> string option" where
  "lisp_format [] = Some []"
| "lisp_format [c] = (if c = CHR ''~'' then None else Some [c])"
| "lisp_format (c # d # cs) =
     (if c \<noteq> CHR ''~'' then map_option (Cons c) (lisp_format (d # cs))
      else if d = CHR ''%'' then map_option (Cons newline) (lisp_format cs)
      else if d = CHR ''~'' then map_option (Cons d) (lisp_format cs)
      else None)"

definition tilde :: "char \<Rightarrow> string" where
  "tilde c = (if c = CHR ''~'' then ''~~'' else [c])"

lemma lisp_format_tilde: "lisp_format (tilde c @ cs) = map_option (Cons c) (lisp_format cs)"
  by (cases cs) (simp_all add: tilde_def)

lemma lisp_format_line: "lisp_format (concat (map tilde l) @ cs) = map_option (append l) (lisp_format cs)"
  by (induction l) (simp_all add: lisp_format_tilde option.map_comp comp_def option.map_ident)

lemma lisp_format_lines:
  "lisp_format (concat (map (\<lambda>l. concat (map tilde l) @ ''~%'') ls) @ cs) =
   map_option (append (concat (map (\<lambda>l. l @ [newline]) ls))) (lisp_format cs)"
  by (induction ls) (simp_all add: lisp_format_line option.map_comp comp_def option.map_ident)

lemma concat_split_lines: "concat (map (\<lambda>l. l @ [c]) (split_on c d)) = d @ [c]"
proof (induction d)
  case (Cons x d)
  then show ?case by (cases "split_on c d") auto
qed simp

section \<open>The strings of the written text\<close>

lemma literals_plain:
  "plain s \<Longrightarrow> literals (s @ t) (Code d) [] = literals t (Code d) []"
  "plain s \<Longrightarrow> literals (s @ t) (Str d) acc = literals t (Str d) (rev s @ acc)"
  by (induction s arbitrary: acc) (auto simp: plain_def)

lemma literals_escaped: "literals (escaped c @ t) (Str d) acc = literals t (Str d) (rev (tilde c) @ acc)"
  by (simp add: escaped_def tilde_def)

lemma literals_line: "literals (definition_line l @ t) (Str d) acc = literals t (Str d) (rev (concat (map tilde l)) @ acc)"
  unfolding definition_line_escaped by (induction l arbitrary: acc) (simp_all add: literals_escaped)

lemma literals_lines:
  "literals (concat (map (\<lambda>l. definition_line l @ ''~%'') ls) @ t) (Str d) acc =
   literals t (Str d) (rev (concat (map (\<lambda>l. concat (map tilde l) @ ''~%'') ls)) @ acc)"
  by (induction ls arbitrary: acc) (simp_all add: literals_line)

lemma literals_spaces: "literals (replicate n CHR '' '' @ t) (Code d) [] = literals t (Code d) []"
  by (induction n) auto

section \<open>The written text\<close>

lemma w_write_apply:
  "\<not> block_indent w \<Longrightarrow> w_write s b c w = (Inr (), w\<lparr>w_text := w_text w @ (if b \<and> c then [newline] else []) @
     (if b then replicate (nat (indentation w)) CHR '' '' else []) @ s\<rparr>)"
  by (simp add: w_write_def)

lemma wfor_inline: "\<not> block_indent w \<Longrightarrow> wfor xs (\<lambda>x. put_inline (g x)) w = (Inr (), w\<lparr>w_text := w_text w @ concat (map g xs)\<rparr>)"
proof (induction xs arbitrary: w)
  case (Cons x xs)
  then show ?case by (simp add: wfor_def w_write_def sbind_def)
qed (simp add: wfor_def)

definition definition_method :: "string \<Rightarrow> string \<Rightarrow> string" where
  "definition_method c d = newline # ''(cl:defmethod roslisp-msg-protocol:message-definition ((type (cl:eql '' @ [squote] @ c @ '')))'' @
     newline # ''  '' @ [dquote] @ ''Returns full string definition for message of type '' @ [squote] @ c @ [dquote] @
     newline # ''  (cl:format cl:nil '' @ [dquote] @ concat (map (\<lambda>l. definition_line l @ ''~%'') (split_on newline d)) @ ''~%'' @ [dquote] @ ''))''"

lemma write_definition_method:
  assumes "compute_full_text k ctx (Msg (ns_spec s)) = Inr d"
  shows "write_message_definition k ctx s \<lparr>w_text = p, indentation = 0, block_indent = False\<rparr> =
    (Inr (), \<lparr>w_text = p @ definition_method (message_class s) d @ definition_method (new_message_class s) d, indentation = 0, block_indent = False\<rparr>)"
  using assms
  by (simp add: write_message_definition_def wfor_def [of "both_classes s"] with_indent_def wwhen_def inc_indent_def dec_indent_def
      w_write_apply sbind_def wfor_inline definition_method_def numeral_2_eq_2)

lemma literals_method:
  assumes "plain c"
  shows "literals (definition_method c d @ t) (Code 0) [] =
    [''Returns full string definition for message of type '' @ [squote] @ c,
     concat (map (\<lambda>l. concat (map tilde l) @ ''~%'') (split_on newline d)) @ ''~%''] @ literals t (Code 0) []"
  unfolding definition_method_def by (simp add: literals_plain assms literals_lines)

text \<open>C21: the method that gives the definition of a message returns its full text: the strings of the written
  form are, for each of the two classes, the documentation and a format string, and what \<open>cl:format\<close>
  prints for it is the full text and two line ends. The escapes for the string and those for the
  format do not interfere.\<close>

theorem lisp_definition_prints_full_text:
  assumes "compute_full_text k ctx (Msg (ns_spec s)) = Inr d" and "plain (actual_name s)"
  shows "\<exists>t doc1 doc2 fmt. written (write_message_definition k ctx s) = Inr t \<and>
    literals t (Code 0) [] = [doc1, fmt, doc2, fmt] \<and> lisp_format fmt = Some (d @ [newline, newline])"
proof -
  let ?fmt = "concat (map (\<lambda>l. concat (map tilde l) @ ''~%'') (split_on newline d)) @ ''~%''"
  have "written (write_message_definition k ctx s) = Inr (definition_method (message_class s) d @ definition_method (new_message_class s) d @ [])"
    unfolding written_def IndentedWriter_def write_definition_method [OF assms(1)] by simp
  moreover have "lisp_format ?fmt = Some (d @ [newline, newline])"
    using lisp_format_lines [of "split_on newline d" "''~%''"] by (simp add: concat_split_lines)
  moreover note literals_method [OF plain_class(1) [OF assms(2)], of d] literals_method [OF plain_class(2) [OF assms(2)], of d "[]"]
  ultimately show ?thesis by fastforce
qed

theorem lisp_definition_prints_full_text_witness:
  "\<exists>spec t doc1 doc2 fmt. ms_text spec = ''int8 x # ~'' @ [dquote, backslash, newline] @ ''int8 y'' \<and>
     written (write_message_definition 1 (MsgContext\<lparr>dependencies := [''m/A'' \<mapsto> []]\<rparr>)
       \<lparr>ns_spec = spec, actual_name = ''A'', component_type = ''message''\<rparr>) = Inr t \<and>
     literals t (Code 0) [] = [doc1, fmt, doc2, fmt] \<and> lisp_format fmt = Some (ms_text spec @ [newline, newline])"
proof -
  let ?spec = "\<lparr>ms_types = [''int8'', ''int8''], ms_names = [''x'', ''y''], ms_constants = [], ms_header_present = False,
    ms_text = ''int8 x # ~'' @ [dquote, backslash, newline] @ ''int8 y'', ms_full_name = ''m/A'', ms_short_name = ''A'',
    ms_package = ''m'', ms_parsed_fields = []\<rparr>"
  let ?s = "\<lparr>ns_spec = ?spec, actual_name = ''A'', component_type = ''message''\<rparr>"
  have "compute_full_text 1 (MsgContext\<lparr>dependencies := [''m/A'' \<mapsto> []]\<rparr>) (Msg (ns_spec ?s)) = Inr (ms_text ?spec)"
    by code_simp
  moreover have "plain (actual_name ?s)" by (simp add: plain_def)
  ultimately obtain t doc1 doc2 fmt where "written (write_message_definition 1 (MsgContext\<lparr>dependencies := [''m/A'' \<mapsto> []]\<rparr>) ?s) = Inr t"
    "literals t (Code 0) [] = [doc1, fmt, doc2, fmt]" "lisp_format fmt = Some (ms_text ?spec @ [newline, newline])"
    using lisp_definition_prints_full_text by blast
  then show ?thesis by (intro exI [of _ ?spec]) auto
qed

end
