(* ===== verification/Genlisp_Returns.thy ===== *)
theory Genlisp_Returns
  imports Genlisp Dependencies
begin

text \<open>
  The Lisp generator writes every message whose fields have types it knows: a builtin type, or the
  name of a message in a package.
\<close>

definition known_field :: "field \<Rightarrow> bool" where
  "known_field f \<longleftrightarrow> (if f_is_builtin f then f_base_type f \<in> set BUILTIN_TYPES else \<exists>pm. parse_msg_type f = Inr pm)"

lemma lisp_type_returns: "t \<in> set BUILTIN_TYPES \<Longrightarrow> \<exists>s. lisp_type t = Inr s" "t \<in> set BUILTIN_TYPES \<Longrightarrow> \<exists>s. lisp_initform t = Inr s"
  by (auto simp: BUILTIN_TYPES_def PRIMITIVE_TYPES_def TIME_def DURATION_def lisp_type_def lisp_initform_def is_fixnum_def is_integer_def
      is_bool_def is_float_def is_time_def is_string_def)

lemma msg_type_returns: "parse_msg_type f = Inr pm \<Longrightarrow> \<exists>t. msg_type f = Inr t"
  by (cases pm) (simp add: msg_type_def)

lemma field_type_returns: "known_field f \<Longrightarrow> \<exists>t. lisp_field_type f = Inr t" "known_field f \<Longrightarrow> \<exists>t. field_initform f = Inr t"
  using lisp_type_returns [of "f_base_type f"] msg_type_returns [of f]
  by (auto simp: known_field_def lisp_field_type_def field_initform_def Let_def split: if_splits)

lemma returns_serialize_builtin: "t \<in> set BUILTIN_TYPES \<Longrightarrow> f_base_type f = t \<Longrightarrow> returns (write_serialize_builtin f v b)"
  unfolding write_serialize_builtin_def Let_def write_serialize_length_def write_serialize_bits_signed_def write_serialize_bits_def
  by (intro returns_intros) (auto simp: BUILTIN_TYPES_def PRIMITIVE_TYPES_def TIME_def DURATION_def is_signed_int_def is_unsigned_int_def)

lemma returns_deserialize_builtin: "t \<in> set BUILTIN_TYPES \<Longrightarrow> f_base_type f = t \<Longrightarrow> returns (write_deserialize_builtin f v)"
  unfolding write_deserialize_builtin_def Let_def write_deserialize_length_def write_deserialize_bits_signed_def write_deserialize_bits_def
  by (intro returns_intros) (auto simp: BUILTIN_TYPES_def PRIMITIVE_TYPES_def TIME_def DURATION_def is_signed_int_def is_unsigned_int_def)

lemma returns_builtin_length: "t \<in> set BUILTIN_TYPES \<Longrightarrow> f_base_type f = t \<Longrightarrow> returns (write_builtin_length f v)"
  unfolding write_builtin_length_def Let_def
  by (intro returns_intros) (auto simp: BUILTIN_TYPES_def PRIMITIVE_TYPES_def TIME_def DURATION_def)

lemma returns_reads: "\<exists>x. v = Inr x \<Longrightarrow> (\<And>x. returns (h x)) \<Longrightarrow> returns (sbind (slift v) h)"
  by (elim exE) (rule returns_read)

lemma known_msg_type: "known_field f \<Longrightarrow> \<not> f_is_builtin f \<Longrightarrow> \<exists>t. msg_type f = Inr t"
  using msg_type_returns unfolding known_field_def by presburger

lemmas returns_known_read = returns_reads [OF field_type_returns(1)] returns_reads [OF field_type_returns(2)] returns_reads [OF known_msg_type]

lemma returns_builtins:
  assumes "known_field f" "f_is_builtin f"
  shows "returns (write_serialize_builtin f v b)" "returns (write_deserialize_builtin f v)" "returns (write_builtin_length f v)"
  using assms returns_serialize_builtin returns_deserialize_builtin returns_builtin_length by (auto simp: known_field_def)

lemma returns_fields:
  assumes "known_field f"
  shows "returns (write_slot_definition f)" "returns (write_serialize_field f)" "returns (write_deserialize_field f)"
    "returns (write_length_field f)"
  unfolding write_slot_definition_def write_serialize_field_def write_serialize_length_def write_deserialize_field_def
    write_deserialize_length_def write_length_field_def Let_def
  by (intro returns_intros returns_known_read returns_builtins assms; assumption)+

lemma returns_message_file:
  assumes "\<And>f. f \<in> set (ns_fields s) \<Longrightarrow> known_field f"
    and "compute_md5 k (le_hash env) ctx (Msg (ns_spec s)) = Inr m" "compute_full_text k ctx (Msg (ns_spec s)) = Inr d"
  shows "returns (message_file k env ctx s)"
  unfolding message_file_def write_begin_def write_html_include_def write_defclass_def write_deprecated_readers_def write_constants_def
    write_serialize_def write_deserialize_def write_ros_datatype_def write_md5sum_def write_message_definition_def
    write_serialization_length_def write_list_converter_def Let_def
  by (intro returns_intros returns_read [OF assms(2)] returns_read [OF assms(3)] returns_fields assms(1); assumption)

lemma returns_exports: "returns (write_accessor_exports p b fds)" "returns (write_class_exports msgs pkg)" "returns (write_srv_exports msgs pkg)"
  unfolding write_accessor_exports_def write_class_exports_def write_srv_exports_def by (intro returns_intros)+

lemma returns_asd: "rmap (\<lambda>m. type_packages ctx (pkg @ ''/'' @ m)) msgs = Inr ps \<Longrightarrow> returns (write_asd ctx pkg msgs)"
  unfolding write_asd_def write_asd_deps_def by (intro returns_intros returns_read)

end
