(* ===== verification/Genlisp_Files.thy ===== *)
theory Genlisp_Files
  imports Genlisp_Text Genlisp_Returns
begin

text \<open>
  The files of the Lisp generator: all of them are sequences of complete forms, and the definition that
  a message carries as a format string prints as the definition.
\<close>

section \<open>Systems\<close>

text \<open>The types of the registered fields name packages without special characters.\<close>

definition plain_types :: "msg_context \<Rightarrow> bool" where
  "plain_types ctx \<longleftrightarrow> (\<forall>t spec. get_registered ctx t = Inr spec \<longrightarrow> (\<forall>f \<in> set (ms_parsed_fields spec). plain (f_base_type f)))"

lemma plain_field_packages:
  assumes "field_packages fs = Inr ps" "\<And>f. f \<in> set fs \<Longrightarrow> plain (f_base_type f)"
  shows "finite ps" "\<And>p. p \<in> ps \<Longrightarrow> plain p"
proof -
  obtain qs where q: "rmap parse_msg_type (filter (\<lambda>f. \<not> f_is_builtin f) fs) = Inr qs" "ps = fst ` set qs"
    using assms(1) by (auto simp: field_packages_def rbind_eq_Inr)
  show "finite ps" by (simp add: q(2))
  fix p assume "p \<in> ps"
  then obtain m where "(p, m) \<in> set qs" using q(2) by auto
  then obtain f where f: "f \<in> set fs" "parse_msg_type f = Inr (p, m)" using rmap_set [OF q(1)] by fastforce
  show "plain p" using plain_parse [OF assms(2) [OF f(1)] f(2)] by simp
qed

lemma parens_asd:
  assumes "plain pkg" "plain_types ctx" "\<And>m. m \<in> set msgs \<Longrightarrow> plain m" shows "parens 0 0 (write_asd ctx pkg msgs)"
proof -
  let ?v = "rmap (\<lambda>m. type_packages ctx (pkg @ ''/'' @ m)) msgs"
  have d: "finite (\<Union> (set deps) - {pkg}) \<and> (\<forall>d \<in> \<Union> (set deps) - {pkg}. plain d)" if "?v = Inr deps" for deps
  proof -
    have "finite ps \<and> (\<forall>d \<in> ps. plain d)" if mem: "ps \<in> set deps" for ps
    proof -
      obtain m spec where m: "get_registered ctx (pkg @ ''/'' @ m) = Inr spec" "field_packages (ms_parsed_fields spec) = Inr ps"
        using rmap_set [OF \<open>?v = Inr deps\<close> mem] by (auto simp: type_packages_def rbind_eq_Inr)
      have "plain (f_base_type f)" if "f \<in> set (ms_parsed_fields spec)" for f
        using assms(2) m(1) that unfolding plain_types_def by blast
      from plain_field_packages [OF m(2) this] show ?thesis by blast
    qed
    then show ?thesis by auto
  qed
  have deps: "parens 1 0 (write_asd_deps (\<Union> (set deps) - {pkg}) msgs)" if "?v = Inr deps" for deps
    by (rule parens_asd_deps) (use d [OF that] assms(3) in blast)+
  show ?thesis
    unfolding write_asd_def
    by (rule parensI, (rule adds_intros parens_lift deps | assumption)+) (simp add: calculus assms(1))
qed

lemma parens_srv_asd:
  assumes "plain pkg" "plain_types ctx" "\<And>m. m \<in> set srvs \<Longrightarrow> plain m" shows "parens 0 0 (write_srv_asd ctx pkg srvs)"
proof -
  let ?g = "\<lambda>srv. rbind (get_registered ctx (pkg @ ''/'' @ srv @ ''Request'')) (\<lambda>req_spec.
          rbind (get_registered ctx (pkg @ ''/'' @ srv @ ''Response'')) (\<lambda>resp_spec.
          rbind (field_packages (ms_parsed_fields req_spec)) (\<lambda>ps.
          rbind (field_packages (ms_parsed_fields resp_spec)) (\<lambda>qs. Inr (ps \<union> qs)))))"
  have d: "finite (\<Union> (set deps)) \<and> (\<forall>d \<in> \<Union> (set deps). plain d)" if "rmap ?g srvs = Inr deps" for deps
  proof -
    have "finite ps \<and> (\<forall>d \<in> ps. plain d)" if mem: "ps \<in> set deps" for ps
    proof -
      obtain srv where "?g srv = Inr ps" using rmap_set [OF \<open>rmap ?g srvs = Inr deps\<close> mem] by blast
      then obtain a b p q where g: "get_registered ctx (pkg @ ''/'' @ srv @ ''Request'') = Inr a"
        "get_registered ctx (pkg @ ''/'' @ srv @ ''Response'') = Inr b"
        "field_packages (ms_parsed_fields a) = Inr p" "field_packages (ms_parsed_fields b) = Inr q" "ps = p \<union> q"
        by (auto simp: rbind_eq_Inr)
      have "plain (f_base_type f)" if "f \<in> set (ms_parsed_fields a) \<or> f \<in> set (ms_parsed_fields b)" for f
        using assms(2) g(1,2) that unfolding plain_types_def by blast
      then show ?thesis using plain_field_packages [OF g(3)] plain_field_packages [OF g(4)] unfolding g(5) by blast
    qed
    then show ?thesis by auto
  qed
  have deps: "parens 1 0 (write_asd_deps (\<Union> (set deps)) srvs)" if "rmap ?g srvs = Inr deps" for deps
    by (rule parens_asd_deps) (use d [OF that] assms(3) in blast)+
  show ?thesis
    unfolding write_srv_asd_def
    by (rule parensI, (rule adds_intros parens_lift deps | assumption)+) (simp add: calculus assms(1))
qed

section \<open>Files\<close>

lemmas parens_component = parens_html_include parens_defclass parens_deprecated_readers parens_constants
  parens_write_serialize parens_write_deserialize parens_ros_datatype parens_md5sum parens_message_definition
  parens_serialization_length parens_list_converter

lemma parens_message_file:
  assumes p: "plain_spec (le_float env) s" and H: "\<And>x. plain (le_hash env x)" shows "parens 0 0 (message_file k env ctx s)"
  unfolding message_file_def
  by (rule parensI, (rule adds_intros parens_begin parens_component plain_specD [OF p] p H | assumption)+) (simp add: calculus)

lemma parens_srv_component:
  assumes "plain_spec (le_float env) s" and H: "\<And>x. plain (le_hash env x)" shows "parens 0 0 (write_srv_component k env ctx s parent)"
proof -
  let ?s = "s\<lparr>component_type := ''service''\<rparr>"
  have "plain ''service''" by (simp add: plain_def)
  then have p: "plain_spec (le_float env) ?s" using assms(1) by (simp add: plain_spec_def)
  show ?thesis
    unfolding write_srv_component_def Let_def
    by (rule parensI, (rule adds_intros parens_component plain_specD [OF p] p H | assumption)+) (simp add: calculus)
qed

definition plain_srv :: "(pyfloat \<Rightarrow> string) \<Rightarrow> srvspec \<Rightarrow> bool" where
  "plain_srv fl s \<longleftrightarrow> plain (ss_package s) \<and> plain (ss_short_name s) \<and> plain (ss_full_name s) \<and>
     plain_msg fl (ss_request s) \<and> plain_msg fl (ss_response s)"

lemma parens_service_specific_methods:
  "plain (ss_short_name spec) \<Longrightarrow> plain (ss_full_name spec) \<Longrightarrow> plain (actual_name a) \<Longrightarrow> plain (actual_name b) \<Longrightarrow>
   parens 0 0 (write_service_specific_methods spec a b)"
  unfolding write_service_specific_methods_def Let_def
  by (rule parensI, (rule adds_intros)+) (simp add: calculus plain_class)

lemma parens_service_file:
  assumes p: "plain_srv (le_float env) spec" and H: "\<And>x. plain (le_hash env x)" shows "parens 0 0 (service_file k env ctx spec)"
proof -
  have "plain ''service''" "plain ''-request''" "plain ''-response''" by (simp_all add: plain_def)
  then have c: "plain_spec (le_float env) \<lparr>ns_spec = ss_request spec, actual_name = ss_short_name spec @ ''-request'', component_type = ''service''\<rparr>"
    "plain_spec (le_float env) \<lparr>ns_spec = ss_response spec, actual_name = ss_short_name spec @ ''-response'', component_type = ''service''\<rparr>"
    using p by (simp_all add: plain_spec_def plain_srv_def)
  have n: "plain (ss_package spec)" "plain (ss_short_name spec)" "plain (ss_full_name spec)"
    using p by (simp_all add: plain_srv_def)
  note a = plain_specD(1) [OF c(1)] plain_specD(1) [OF c(2)]
  show ?thesis
    unfolding service_file_def Let_def
    by (rule parensI, (rule adds_intros parens_begin parens_srv_component parens_service_specific_methods c n a H)+) (simp add: calculus)
qed

section \<open>Generated files\<close>

lemma sbindE:
  assumes "sbind m f s = (Inr y, s')" obtains x s1 where "m s = (Inr x, s1)" "f x s1 = (Inr y, s')"
  using assms by (auto simp: sbind_eq_Inr)

lemma files_on_msgs: "on_msgs m s = (r, s') \<Longrightarrow> ls_files s' = ls_files s"
  by (auto simp: on_msgs_def split: prod.splits)

lemma files_loop: "sfoldl (\<lambda>_ m. sbind (on_msgs (f m)) (\<lambda>_. sret ())) () ms s = (Inr (), s') \<Longrightarrow> ls_files s' = ls_files s"
  by (induction ms arbitrary: s) (auto simp: sbind_eq_Inr dest: files_on_msgs)

lemma read_on_msgs: "on_msgs m s = (r, s') \<Longrightarrow> plain_context w (snd (m (ls_ctx s))) \<Longrightarrow> plain_context w (ls_ctx s')"
  by (auto simp: on_msgs_def split: prod.splits)

lemma read_loop:
  "sfoldl (\<lambda>_ m. sbind (on_msgs (load_msg_by_type w (t m) sp)) (\<lambda>_. sret ())) () ms s = (Inr (), s') \<Longrightarrow>
   (\<And>m. m \<in> set ms \<Longrightarrow> plain (t m)) \<Longrightarrow> plain_context w (ls_ctx s) \<Longrightarrow> plain_context w (ls_ctx s')"
proof (induction ms arbitrary: s)
  case (Cons m ms)
  obtain x s1 where one: "sbind (on_msgs (load_msg_by_type w (t m) sp)) (\<lambda>_. sret ()) s = (Inr x, s1)"
    and rest: "sfoldl (\<lambda>_ m. sbind (on_msgs (load_msg_by_type w (t m) sp)) (\<lambda>_. sret ())) x ms s1 = (Inr (), s')"
    using Cons.prems(1) [unfolded sfoldl.simps] by (rule sbindE)
  then obtain u where 1: "on_msgs (load_msg_by_type w (t m) sp) s = (Inr u, s1)"
    using one by (auto simp: sbind_eq_Inr)
  have "plain_context w (ls_ctx s1)"
    using read_on_msgs [OF 1] by_type_plain [of w "t m" sp "ls_ctx s" "fst (load_msg_by_type w (t m) sp (ls_ctx s))" "snd (load_msg_by_type w (t m) sp (ls_ctx s))"] Cons.prems(2,3) by simp
  moreover have "sfoldl (\<lambda>_ m. sbind (on_msgs (load_msg_by_type w (t m) sp)) (\<lambda>_. sret ())) () ms s1 = (Inr (), s')"
    using rest by (cases x) (simp only:)
  ultimately show ?case using Cons.prems(2) by (intro Cons.IH) (assumption | auto)+
qed simp

lemma put_file_eq: "put_file p t s = (Inr (), s') \<longleftrightarrow> s' = s\<lparr>ls_files := ls_files s @ [(p, t)]\<rparr>"
  by (auto simp: put_file_def smodify_def)

lemma plain_slice: "plain s \<Longrightarrow> plain (slice_to s n)"
  by (auto simp: plain_def slice_to_def dest: in_set_takeD)

lemma plain_msg_list:
  assumes "msg_list env pkg sp ext = Inr ms" "\<And>d fs x. le_listdir env d = Some fs \<Longrightarrow> x \<in> set fs \<Longrightarrow> plain x" "m \<in> set ms"
  shows "plain m"
proof -
  obtain ds fss where f: "rmap (\<lambda>d. rbind (of_option (IOError d) (le_listdir env d)) (\<lambda>fs. Inr (filter (\<lambda>f. endswith f ext) fs))) ds = Inr fss"
    "set ms = (\<lambda>f. slice_to f (- int (length ext))) ` set (concat fss)"
    using assms(1) by (auto simp: msg_list_def rbind_eq_Inr)
  then obtain fs x where x: "fs \<in> set fss" "x \<in> set fs" "m = slice_to x (- int (length ext))" using assms(3) by auto
  obtain d ys where "le_listdir env d = Some ys" "x \<in> set ys"
    using rmap_set [OF f(1) x(1)] x(2) by (auto simp: rbind_eq_Inr of_option_def split: option.splits)
  then show ?thesis unfolding x(3) by (intro plain_slice assms(2))
qed

lemma balanced_line: "balanced t \<Longrightarrow> balanced (t @ [newline])"
  by (simp add: balanced_def scan_append)

lemma generate_msg_files:
  assumes "generate_msg_from_spec k env w spec sp out pkg s = (Inr (), s')"
  obtains ms t1 t2 t3 t4 where "msg_list env pkg sp EXT_MSG = Inr ms"
    "written (message_file k env (ls_ctx s') \<lparr>ns_spec = spec, actual_name = ms_short_name spec, component_type = ''message''\<rparr>) = Inr t1"
    "written (write_accessor_exports (ms_package spec) False (ms_parsed_fields spec)) = Inr t2"
    "written (write_class_exports ms pkg) = Inr t3"
    "written (write_asd (ls_ctx s') pkg ms) = Inr t4"
    "ls_files s' = ls_files s @ [(out @ ''/'' @ ms_short_name spec @ ''.lisp'', t1 @ [newline]),
       (out @ ''/_package_'' @ ms_short_name spec @ ''.lisp'', t2), (out @ ''/_package.lisp'', t3), (out @ ''/'' @ pkg @ ''-msg.asd'', t4)]"
    "(\<forall>m \<in> set ms. plain (pkg @ ''/'' @ m)) \<longrightarrow> plain_read w spec \<longrightarrow> plain_context w (ls_ctx s) \<longrightarrow> plain_context w (ls_ctx s')"
proof -
  let ?s = "\<lparr>ns_spec = spec, actual_name = ms_short_name spec, component_type = ''message''\<rparr>"
  note run = assms [unfolded generate_msg_from_spec_def Let_def]
  from run obtain s1 u where 1: "on_msgs (load_depends k w (Msg spec) sp) s = (Inr u, s1)"
    and run: "sbind (slift (msg_list env pkg sp EXT_MSG)) (\<lambda>msgs.
      sbind (sfoldl (\<lambda>_ m. sbind (on_msgs (load_msg_by_type w (pkg @ ''/'' @ m) sp)) (\<lambda>_. sret ())) () msgs) (\<lambda>_.
      sbind (sgets ls_ctx) (\<lambda>ctx.
      sbind (slift (written (message_file k env ctx ?s))) (\<lambda>t.
      sbind (put_file (out @ ''/'' @ ms_short_name spec @ ''.lisp'') (t @ [newline])) (\<lambda>_.
      sbind (slift (written (write_accessor_exports (ms_package spec) False (ms_parsed_fields spec)))) (\<lambda>t.
      sbind (put_file (out @ ''/_package_'' @ ms_short_name spec @ ''.lisp'') t) (\<lambda>_.
      sbind (slift (written (write_class_exports msgs pkg))) (\<lambda>t.
      sbind (put_file (out @ ''/_package.lisp'') t) (\<lambda>_.
      sbind (slift (written (write_asd ctx pkg msgs))) (\<lambda>t.
      put_file (out @ ''/'' @ pkg @ ''-msg.asd'') t)))))))))) s1 = (Inr (), s')"
    by (rule sbindE)
  from run obtain ms s2 where 2: "msg_list env pkg sp EXT_MSG = Inr ms"
    "sfoldl (\<lambda>_ m. sbind (on_msgs (load_msg_by_type w (pkg @ ''/'' @ m) sp)) (\<lambda>_. sret ())) () ms s1 = (Inr (), s2)"
    and run: "sbind (slift (written (message_file k env (ls_ctx s2) ?s))) (\<lambda>t.
      sbind (put_file (out @ ''/'' @ ms_short_name spec @ ''.lisp'') (t @ [newline])) (\<lambda>_.
      sbind (slift (written (write_accessor_exports (ms_package spec) False (ms_parsed_fields spec)))) (\<lambda>t.
      sbind (put_file (out @ ''/_package_'' @ ms_short_name spec @ ''.lisp'') t) (\<lambda>_.
      sbind (slift (written (write_class_exports ms pkg))) (\<lambda>t.
      sbind (put_file (out @ ''/_package.lisp'') t) (\<lambda>_.
      sbind (slift (written (write_asd (ls_ctx s2) pkg ms))) (\<lambda>t.
      put_file (out @ ''/'' @ pkg @ ''-msg.asd'') t))))))) s2 = (Inr (), s')"
    by (auto simp: sbind_eq_Inr)
  from run obtain t1 t2 t3 t4 where 3: "written (message_file k env (ls_ctx s2) ?s) = Inr t1"
    "written (write_accessor_exports (ms_package spec) False (ms_parsed_fields spec)) = Inr t2"
    "written (write_class_exports ms pkg) = Inr t3" "written (write_asd (ls_ctx s2) pkg ms) = Inr t4"
    and s': "s' = s2\<lparr>ls_files := ls_files s2 @ [(out @ ''/'' @ ms_short_name spec @ ''.lisp'', t1 @ [newline]),
       (out @ ''/_package_'' @ ms_short_name spec @ ''.lisp'', t2), (out @ ''/_package.lisp'', t3), (out @ ''/'' @ pkg @ ''-msg.asd'', t4)]\<rparr>"
    by (auto simp: sbind_eq_Inr put_file_eq)
  have "ls_files s2 = ls_files s" using files_on_msgs [OF 1] files_loop [OF 2(2)] by simp
  moreover have "plain_context w (ls_ctx s2)" if "\<forall>m \<in> set ms. plain (pkg @ ''/'' @ m)" "plain_read w spec" "plain_context w (ls_ctx s)"
    using read_loop [OF 2(2) _ read_on_msgs [OF 1]] depends_plain [OF that(3,2)] that(1) by simp
  ultimately show thesis using that 2(1) 3 s' by simp
qed

lemma field_base:
  assumes "spec_ok spec" "msgspec_ok spec" "f \<in> set (ms_parsed_fields spec)"
  shows "f_is_builtin f \<Longrightarrow> f_base_type f \<in> set BUILTIN_TYPES"
    "\<not> f_is_builtin f \<Longrightarrow> f_base_type f \<in> set (spec_deps spec) \<and> in_package (f_base_type f)"
proof -
  obtain n ty where f: "Field n ty = Inr f" "(n, ty) \<in> set (zip (ms_names spec) (ms_types spec))"
    using rmap_set [OF _ assms(3)] assms(2) unfolding msgspec_ok_def by fastforce
  then have b: "f_base_type f = bare_msg_type ty" "f_is_builtin f = is_builtin (bare_msg_type ty)"
    using parse_type_base by (auto simp: Field_def rbind_eq_Inr)
  show "f_base_type f \<in> set BUILTIN_TYPES" if "f_is_builtin f" using that b by (simp add: is_builtin_def)
  have "ty \<in> set (ms_types spec)" using f(2) by (rule set_zip_rightD)
  then show "f_base_type f \<in> set (spec_deps spec) \<and> in_package (f_base_type f)" if "\<not> f_is_builtin f"
    using that b assms(1) by (force simp: spec_ok_def spec_deps_def)
qed

lemma registered_split:
  assumes "in_package t" "get_registered ctx t = Inr s" shows "\<exists>p b. split_on SEP t = [p, b]"
proof -
  obtain k where "type_key t = Inr k" using ctx.get_Inr_key [OF assms(2)] by blast
  then show ?thesis using assms(1)
    by (auto simp: type_key_def package_resource_name_def in_package_def split: if_splits list.splits)
qed

lemma known_after_load:
  assumes "dinv ctx" "get_depends ctx name = Some (spec_deps spec)" "spec_ok spec" "msgspec_ok spec" "f \<in> set (ms_parsed_fields spec)"
  shows "known_field f"
proof (cases "f_is_builtin f")
  case False
  then have dep: "f_base_type f \<in> set (spec_deps spec)" "in_package (f_base_type f)" using field_base [OF assms(3-5)] by simp_all
  then have "(name, f_base_type f) \<in> (dep_rel ctx)\<^sup>+" using assms(2) by (auto simp: dep_rel_def)
  then obtain s where "get_registered ctx (f_base_type f) = Inr s" using dep_reachable [OF assms(1)] by blast
  then obtain p b where "split_on SEP (f_base_type f) = [p, b]" using registered_split [OF dep(2)] by blast
  then have "\<exists>pm. parse_msg_type f = Inr pm" by (simp add: parse_msg_type_def)
  then show ?thesis using False by (simp add: known_field_def)
qed (use field_base(1) [OF assms(3-5)] in \<open>simp add: known_field_def\<close>)

section \<open>An example\<close>

definition demo_lisp_world :: world where
  "demo_lisp_world = \<lparr>w_files = [''/m/B.msg'' \<mapsto> ''int32 x''], w_literal = \<lambda>_. None\<rparr>"

definition demo_lisp_env :: lisp_env where
  "demo_lisp_env = \<lparr>le_float = \<lambda>_. [], le_abspath = id, le_listdir = [''/m'' \<mapsto> [''B.msg'']], le_hash = \<lambda>_. ''0''\<rparr>"

definition demo_lisp_run :: "(msg_context \<times> msgspec \<times> msg_context \<times> msg_context \<times> msg_context) res" where
  "demo_lisp_run = rbind (create_default demo_lisp_world) (\<lambda>ctx0.
     case load_msg_from_string demo_lisp_world (''int8 X=1'' @ [newline] @ ''B[] b'') ''m/A'' ctx0 of (Inl e, _) \<Rightarrow> Inl e
     | (Inr spec, ctx1) \<Rightarrow> (case load_depends 3 demo_lisp_world (Msg spec) [''m'' \<mapsto> [''/m'']] ctx1 of (Inl e, _) \<Rightarrow> Inl e
     | (Inr ds, ctx2) \<Rightarrow> (case load_msg_by_type demo_lisp_world ''m/B'' [''m'' \<mapsto> [''/m'']] ctx2 of (Inl e, _) \<Rightarrow> Inl e
     | (Inr b, ctx3) \<Rightarrow> Inr (ctx0, spec, ctx1, ctx2, ctx3))))"

lemma run_ok:
  "case v of Inl e \<Rightarrow> False | Inr (a, b, c, d, e) \<Rightarrow> P a b c d e \<Longrightarrow> \<exists>a b c d e. v = Inr (a, b, c, d, e) \<and> P a b c d e"
  by (cases v) auto

lemma case_run: "(case m of (Inl e, _) \<Rightarrow> Inl e | (Inr x, c) \<Rightarrow> h x c) = Inr y \<longleftrightarrow> (\<exists>x c. m = (Inr x, c) \<and> h x c = Inr y)"
  by (auto split: prod.splits sum.splits)

lemma demo_lisp_ok:
  obtains ctx0 spec ctx1 ctx2 ds b ctx3 where "create_default demo_lisp_world = Inr ctx0"
    "load_msg_from_string demo_lisp_world (''int8 X=1'' @ [newline] @ ''B[] b'') ''m/A'' ctx0 = (Inr spec, ctx1)"
    "load_depends 3 demo_lisp_world (Msg spec) [''m'' \<mapsto> [''/m'']] ctx1 = (Inr ds, ctx2)"
    "load_msg_by_type demo_lisp_world ''m/B'' [''m'' \<mapsto> [''/m'']] ctx2 = (Inr b, ctx3)"
    "list_all (plain_const (\<lambda>_. [])) (ms_constants spec)" "type_packages ctx3 ''m/B'' = Inr {}"
    "list_all known_field (ms_parsed_fields spec)" "\<exists>m. compute_md5 3 (\<lambda>_. ''0'') ctx3 (Msg spec) = Inr m"
    "\<exists>d. compute_full_text 3 ctx3 (Msg spec) = Inr d"
proof -
  have "case demo_lisp_run of Inl e \<Rightarrow> False | Inr (ctx0, spec, ctx1, ctx2, ctx3) \<Rightarrow>
     list_all (plain_const (\<lambda>_. [])) (ms_constants spec) \<and> type_packages ctx3 ''m/B'' = Inr {} \<and>
     list_all (\<lambda>f. f_is_builtin f = False \<and> parse_msg_type f = Inr (''m'', ''B'')) (ms_parsed_fields spec) \<and>
     \<not> isl (compute_md5 3 (\<lambda>_. ''0'') ctx3 (Msg spec)) \<and> \<not> isl (compute_full_text 3 ctx3 (Msg spec))"
    unfolding list_all_iff by code_simp
  from run_ok [OF this] obtain ctx0 spec ctx1 ctx2 ctx3 where run: "demo_lisp_run = Inr (ctx0, spec, ctx1, ctx2, ctx3)"
    and ok: "list_all (plain_const (\<lambda>_. [])) (ms_constants spec)" "type_packages ctx3 ''m/B'' = Inr {}"
     "list_all (\<lambda>f. f_is_builtin f = False \<and> parse_msg_type f = Inr (''m'', ''B'')) (ms_parsed_fields spec)"
     "\<not> isl (compute_md5 3 (\<lambda>_. ''0'') ctx3 (Msg spec))" "\<not> isl (compute_full_text 3 ctx3 (Msg spec))"
    by (elim exE conjE) (rule that)
  from run obtain ds b where "create_default demo_lisp_world = Inr ctx0"
    "load_msg_from_string demo_lisp_world (''int8 X=1'' @ [newline] @ ''B[] b'') ''m/A'' ctx0 = (Inr spec, ctx1)"
    "load_depends 3 demo_lisp_world (Msg spec) [''m'' \<mapsto> [''/m'']] ctx1 = (Inr ds, ctx2)"
    "load_msg_by_type demo_lisp_world ''m/B'' [''m'' \<mapsto> [''/m'']] ctx2 = (Inr b, ctx3)"
    unfolding demo_lisp_run_def rbind_eq_Inr case_run sum.inject prod.inject by (elim exE conjE) (simp only:)
  moreover have "list_all known_field (ms_parsed_fields spec)" using ok(3) by (auto simp: list_all_iff known_field_def)
  moreover have "\<exists>m. compute_md5 3 (\<lambda>_. ''0'') ctx3 (Msg spec) = Inr m" "\<exists>d. compute_full_text 3 ctx3 (Msg spec) = Inr d"
    using ok(4,5) by (metis isl_def old.sum.exhaust)+
  ultimately show thesis using that ok(1,2) by blast
qed

text \<open>\<open>generate_msg_from_spec\<close> of the Lisp generator writes the four files of a message, and all of them are
  sequences of complete forms. The names and types of the fields need no assumption, since the reader
  of descriptions checks them; the names of messages and of files, the values of constants and the
  hash must not have a character that Lisp reads in a special way.\<close>

theorem lisp_message_files_balanced:
  assumes "generate_msg_from_spec k env w spec sp out pkg s = (Inr (), s')"
    and "plain_read w spec" "plain_context w (ls_ctx s)" "plain pkg" "list_all (plain_const (le_float env)) (ms_constants spec)"
    and "\<forall>x. plain (le_hash env x)" "\<forall>d fs x. le_listdir env d = Some fs \<longrightarrow> x \<in> set fs \<longrightarrow> plain x"
  shows "\<exists>ts. ls_files s' = ls_files s @ zip [out @ ''/'' @ ms_short_name spec @ ''.lisp'',
      out @ ''/_package_'' @ ms_short_name spec @ ''.lisp'', out @ ''/_package.lisp'', out @ ''/'' @ pkg @ ''-msg.asd''] ts \<and>
    length ts = 4 \<and> list_all balanced ts"
proof -
  from generate_msg_files [OF assms(1)] obtain ms t1 t2 t3 t4 where g: "msg_list env pkg sp EXT_MSG = Inr ms"
    "written (message_file k env (ls_ctx s') \<lparr>ns_spec = spec, actual_name = ms_short_name spec, component_type = ''message''\<rparr>) = Inr t1"
    "written (write_accessor_exports (ms_package spec) False (ms_parsed_fields spec)) = Inr t2"
    "written (write_class_exports ms pkg) = Inr t3" "written (write_asd (ls_ctx s') pkg ms) = Inr t4"
    and files: "ls_files s' = ls_files s @ [(out @ ''/'' @ ms_short_name spec @ ''.lisp'', t1 @ [newline]),
       (out @ ''/_package_'' @ ms_short_name spec @ ''.lisp'', t2), (out @ ''/_package.lisp'', t3), (out @ ''/'' @ pkg @ ''-msg.asd'', t4)]"
    and r: "(\<forall>m \<in> set ms. plain (pkg @ ''/'' @ m)) \<longrightarrow> plain_read w spec \<longrightarrow> plain_context w (ls_ctx s) \<longrightarrow> plain_context w (ls_ctx s')" .
  have m: "plain m" if "m \<in> set ms" for m using plain_msg_list [OF g(1)] assms(7) that by blast
  note f = read_plain_fields [OF assms(2)] and p = read_plain_types(1,2) [OF assms(2)]
  have "plain ''message''" "plain ''/''" by (simp_all add: plain_def)
  then have s: "plain_spec (le_float env) \<lparr>ns_spec = spec, actual_name = ms_short_name spec, component_type = ''message''\<rparr>"
    using assms(2,5) f p by (simp add: plain_spec_def plain_msg_def plain_read_def list_all_iff)
  have n: "\<forall>m \<in> set ms. plain (pkg @ ''/'' @ m)"
    using assms(4) m \<open>plain ''/''\<close> by (simp only: plain_append) blast
  have types: "plain_types (ls_ctx s')"
    using r n assms(2,3) read_plain_fields unfolding plain_types_def all_registered_def plain_field_def by blast
  have "balanced (t1 @ [newline])"
    using parens_message_file [OF s] assms(6) g(2) by (blast intro: balanced_line balanced_written)
  moreover have "balanced t2" using balanced_written [OF parens_accessor_exports [OF p(1) f] g(3)] .
  moreover have "balanced t3" using balanced_written [OF parens_class_exports [OF assms(4) m] g(4)] .
  moreover have "balanced t4" using balanced_written [OF parens_asd [OF assms(4) types m] g(5)] .
  ultimately show ?thesis unfolding files by (intro exI [of _ "[t1 @ [newline], t2, t3, t4]"]) simp
qed


theorem lisp_message_files_balanced_witness:
  "\<exists>s ts. length ts = 4 \<and> list_all balanced ts \<and> (\<exists>spec. fst (generate_msg_from_spec 3 demo_lisp_env demo_lisp_world spec
      [''m'' \<mapsto> [''/m'']] ''/o'' ''m'' s) = Inr () \<and> ms_full_name spec = ''m/A'' \<and>
    map snd (ls_files (snd (generate_msg_from_spec 3 demo_lisp_env demo_lisp_world spec [''m'' \<mapsto> [''/m'']] ''/o'' ''m'' s))) = ts)"
proof -
  obtain ctx0 spec ctx1 ctx2 ds b ctx3 where d: "create_default demo_lisp_world = Inr ctx0"
    "load_msg_from_string demo_lisp_world (''int8 X=1'' @ [newline] @ ''B[] b'') ''m/A'' ctx0 = (Inr spec, ctx1)"
    "load_depends 3 demo_lisp_world (Msg spec) [''m'' \<mapsto> [''/m'']] ctx1 = (Inr ds, ctx2)"
    "load_msg_by_type demo_lisp_world ''m/B'' [''m'' \<mapsto> [''/m'']] ctx2 = (Inr b, ctx3)"
    "list_all (plain_const (\<lambda>_. [])) (ms_constants spec)" "type_packages ctx3 ''m/B'' = Inr {}"
    "list_all known_field (ms_parsed_fields spec)" "\<exists>m. compute_md5 3 (\<lambda>_. ''0'') ctx3 (Msg spec) = Inr m"
    "\<exists>d. compute_full_text 3 ctx3 (Msg spec) = Inr d"
    by (rule demo_lisp_ok)
  have n: "plain ''m/A''" "plain ''m''" "plain ''0''" "plain ''B.msg''" by (simp_all add: plain_def)
  have r: "plain_read demo_lisp_world spec" by (rule load_plain_read [OF d(2) n(1)])
  have c: "plain_context demo_lisp_world ctx1"
    using load_plain [OF default_plain [OF d(1)] n(1)] d(2) by (metis snd_conv)
  let ?s = "\<lparr>ls_ctx = ctx1, ls_files = []\<rparr>"
  have ms: "msg_list demo_lisp_env ''m'' [''m'' \<mapsto> [''/m'']] EXT_MSG = Inr [''B'']" by code_simp
  obtain m d where md: "compute_md5 3 (\<lambda>_. ''0'') ctx3 (Msg spec) = Inr m" "compute_full_text 3 ctx3 (Msg spec) = Inr d"
    using d(8,9) by blast
  have env: "le_hash demo_lisp_env = (\<lambda>_. ''0'')" "le_float demo_lisp_env = (\<lambda>_. [])" by (simp_all add: demo_lisp_env_def)
  obtain t1 where t1: "written (message_file 3 demo_lisp_env ctx3
      \<lparr>ns_spec = spec, actual_name = ms_short_name spec, component_type = ''message''\<rparr>) = Inr t1"
    using returns_written [OF returns_message_file] md d(7) env by (force simp: list_all_iff)
  have packages: "rmap (\<lambda>m. type_packages ctx3 (''m'' @ ''/'' @ m)) [''B''] = Inr [{}]" using d(6) by simp
  obtain t2 t3 t4 where t: "written (write_accessor_exports (ms_package spec) False (ms_parsed_fields spec)) = Inr t2"
    "written (write_class_exports [''B''] ''m'') = Inr t3" "written (write_asd ctx3 ''m'' [''B'']) = Inr t4"
    using returns_written [OF returns_exports(1)] returns_written [OF returns_exports(2)] returns_written [OF returns_asd [OF packages]] by blast
  have run: "generate_msg_from_spec 3 demo_lisp_env demo_lisp_world spec [''m'' \<mapsto> [''/m'']] ''/o'' ''m'' ?s = (Inr (),
      \<lparr>ls_ctx = ctx3, ls_files = [(''/o/'' @ ms_short_name spec @ ''.lisp'', t1 @ [newline]),
       (''/o/_package_'' @ ms_short_name spec @ ''.lisp'', t2), (''/o/_package.lisp'', t3), (''/o/m-msg.asd'', t4)]\<rparr>)"
    using d(3,4) by (simp add: generate_msg_from_spec_def Let_def on_msgs_def ms t1 t put_file_def sbind_def del: load_depends.simps)
  have h: "\<forall>d fs x. le_listdir demo_lisp_env d = Some fs \<longrightarrow> x \<in> set fs \<longrightarrow> plain x"
    using n(4) by (auto simp: demo_lisp_env_def)
  have e: "plain_context demo_lisp_world (ls_ctx ?s)" "list_all (plain_const (le_float demo_lisp_env)) (ms_constants spec)"
    "\<forall>x. plain (le_hash demo_lisp_env x)" using c d(5) n(3) env by simp_all
  from lisp_message_files_balanced [OF run r e(1) n(2) e(2,3) h] obtain ts where
    ts: "[t1 @ [newline], t2, t3, t4] = ts" "length ts = 4" "list_all balanced ts"
    by (auto simp: length_Suc_conv numeral_eq_Suc)
  have "ms_full_name spec = ''m/A''" by (rule load_msg_from_string_Inr [OF d(2)])
  then show ?thesis
    by (intro exI [of _ ?s] exI [of _ ts] exI [of _ spec] conjI ts(2,3)) (simp_all add: run ts(1) [symmetric])
qed

text \<open>The file of a message is always written once its dependencies are loaded, and it is a sequence of
  complete forms.\<close>

theorem lisp_message_file_written:
  assumes "create_default w = Inr ctx0" and "load_msg_from_string w txt name ctx0 = (Inr spec, ctx1)"
    and "in_package name" and "load_depends k w (Msg spec) sp ctx1 = (Inr ds, ctx2)"
    and "card (dom (dependencies ctx2)) < n" and "plain name" "list_all (plain_const (le_float env)) (ms_constants spec)"
    and "\<forall>x. plain (le_hash env x)"
  shows "\<exists>t. written (message_file n env ctx2 \<lparr>ns_spec = spec, actual_name = ms_short_name spec, component_type = ''message''\<rparr>) = Inr t \<and>
    balanced t"
proof -
  let ?s = "\<lparr>ns_spec = spec, actual_name = ms_short_name spec, component_type = ''message''\<rparr>"
  note l = load_first_msg [OF assms(1-3)]
  have st: "dinv ctx2" "get_depends ctx2 name = Some (spec_deps spec)"
    using load_msg_depends_step [of k w spec sp ctx1 "Inr ds" ctx2] assms(4) l by (auto simp: ctx_ext_def)
  obtain m d where md: "compute_md5 n (le_hash env) ctx2 (Msg spec) = Inr m" "compute_full_text n ctx2 (Msg spec) = Inr d"
    using texts_after_load [OF assms(1-5)] by blast
  have "msgspec_ok spec" using assms(2) by (rule load_msg_from_string_Inr)
  then have "returns (message_file n env ctx2 ?s)"
    using known_after_load [OF st l(2)] md by (intro returns_message_file) simp_all
  then obtain t where t: "written (message_file n env ctx2 ?s) = Inr t" using returns_written by blast
  note r = load_plain_read [OF assms(2,6)]
  have "plain ''message''" by (simp add: plain_def)
  then have s: "plain_spec (le_float env) ?s"
    using assms(7) read_plain_types(1,2) [OF r] read_plain_fields [OF r] r
    by (simp add: plain_spec_def plain_msg_def plain_read_def list_all_iff)
  have "balanced t" using balanced_written [OF parens_message_file [OF s] t] assms(8) by blast
  then show ?thesis using t by blast
qed

theorem lisp_message_file_written_witness:
  "\<exists>spec ctx t. ms_full_name spec = ''m/A'' \<and>
    written (message_file (Suc (card (dom (dependencies ctx)))) demo_lisp_env ctx
      \<lparr>ns_spec = spec, actual_name = ms_short_name spec, component_type = ''message''\<rparr>) = Inr t \<and> balanced t"
proof -
  obtain ctx0 spec ctx1 ctx2 ds b ctx3 where d: "create_default demo_lisp_world = Inr ctx0"
    "load_msg_from_string demo_lisp_world (''int8 X=1'' @ [newline] @ ''B[] b'') ''m/A'' ctx0 = (Inr spec, ctx1)"
    "load_depends 3 demo_lisp_world (Msg spec) [''m'' \<mapsto> [''/m'']] ctx1 = (Inr ds, ctx2)"
    "load_msg_by_type demo_lisp_world ''m/B'' [''m'' \<mapsto> [''/m'']] ctx2 = (Inr b, ctx3)"
    "list_all (plain_const (\<lambda>_. [])) (ms_constants spec)" "type_packages ctx3 ''m/B'' = Inr {}"
    "list_all known_field (ms_parsed_fields spec)" "\<exists>m. compute_md5 3 (\<lambda>_. ''0'') ctx3 (Msg spec) = Inr m"
    "\<exists>d. compute_full_text 3 ctx3 (Msg spec) = Inr d"
    by (rule demo_lisp_ok)
  have p: "in_package ''m/A''" "plain ''m/A''" by (simp_all add: in_package_def plain_def)
  have e: "list_all (plain_const (le_float demo_lisp_env)) (ms_constants spec)" "\<forall>x. plain (le_hash demo_lisp_env x)"
    using d(5) by (simp_all add: demo_lisp_env_def plain_def)
  have "ms_full_name spec = ''m/A''" by (rule load_msg_from_string_Inr [OF d(2)])
  with lisp_message_file_written [OF d(1,2) p(1) d(3) lessI p(2) e] show ?thesis by blast
qed

end
