(* ===== verification/Siblings.thy ===== *)
theory Siblings
  imports Registered Gencpp Genlisp_Files
begin

text \<open>
  The generators for EusLisp and Node.js load, between the dependencies of a message and its file, all
  messages of its package. What was loaded before came from the same files, so it is registered as before:
  the md5 sum and the full text are the same after these loads.
\<close>

section \<open>What the loader has registered can be loaded\<close>

definition from_disk :: "world \<Rightarrow> search_path \<Rightarrow> msgspec \<Rightarrow> bool" where
  "from_disk w sp s \<longleftrightarrow> (\<exists>r c c'. load_msg_by_type w r sp c = (Inr s, c'))"

interpretation disk: registered_specs w sp "\<lambda>_. True" "\<lambda>s. s \<in> S \<or> from_disk w sp s" for w sp S
  by unfold_locales (auto simp: from_disk_def)

lemma from_disk_loads:
  assumes "from_disk w sp s" "in_package (ms_full_name s)"
  shows "\<exists>c'. load_msg_by_type w (ms_full_name s) sp c = (Inr s, c')"
proof -
  obtain r d d' where l: "load_msg_by_type w r sp d = (Inr s, d')" using assms(1) by (auto simp: from_disk_def)
  obtain body f e where "load_msg_from_string w body (if r = HEADER then HEADER_FULL_NAME else r) d = (Inr s, e)"
    by (rule load_msg_by_type_string [OF l])
  then have "ms_full_name s = (if r = HEADER then HEADER_FULL_NAME else r)" by (rule load_msg_from_string_Inr)
  then have "load_msg_by_type w (ms_full_name s) sp d = (Inr s, d')"
    using l qualified_not_header [OF assms(2)] by (simp add: load_msg_by_type_def Let_def split: if_splits)
  then show ?thesis by (rule load_msg_by_type_any)
qed

text \<open>The types that a loaded message depends on come from files.\<close>

lemma dependency_from_disk:
  assumes "create_default w = Inr ctx0" and "load_msg_from_string w txt name ctx0 = (Inr spec, ctx1)"
    and "in_package name" and "load_depends k w (Msg spec) sp ctx1 = (Inr ds, ctx2)"
    and "(name, d) \<in> (dep_rel ctx2)\<^sup>+"
  shows "\<exists>s. (\<exists>c'. load_msg_by_type w d sp c = (Inr s, c')) \<and> get_registered ctx2 d = Inr s \<and>
    get_depends ctx2 d = Some (spec_deps s) \<and> spec_ok s \<and> in_package d"
proof -
  note l = load_first_msg [OF assms(1-3)]
  have st: "dinv ctx2" using load_msg_depends_step [of k w spec sp ctx1 "Inr ds" ctx2] assms(4) l by auto
  then have inv: "ctx_ok ctx2" "acyclic (dep_rel ctx2)" by (auto simp: dinv_def deps_acyclic_def)
  obtain s where s: "get_registered ctx2 d = Inr s" "ms_full_name s = d" "get_depends ctx2 d = Some (spec_deps s)"
    using dep_reachable [OF st assms(5)] by blast
  have "d \<noteq> name" using inv(2) assms(5) by (auto simp: acyclic_def)
  obtain u where u: "(u, d) \<in> dep_rel ctx2" using tranclD2 [OF assms(5)] by blast
  then obtain us where "get_depends ctx2 u = Some us" "d \<in> set us" by (auto simp: dep_rel_def)
  then obtain x where "get_registered ctx2 u = Inr x" "d \<in> set (spec_deps x)"
    using st unfolding dinv_def deps_closed_def by blast
  then have ip: "in_package d" using inv(1) by (auto simp: ctx_ok_def spec_ok_def)
  define S where "S = {x. \<exists>t. get_registered ctx1 t = Inr x}"
  have "all_registered (\<lambda>s. s \<in> S \<or> from_disk w sp s) ctx1" "spec \<in> S"
    using l(4) by (auto simp: all_registered_def S_def)
  then have "all_registered (\<lambda>s. s \<in> S \<or> from_disk w sp s) ctx2"
    using disk.depends_all [of S w sp ctx1 spec k] assms(4) by simp
  moreover have "s \<notin> S"
  proof
    assume "s \<in> S"
    then obtain t where t: "get_registered ctx1 t = Inr s" by (auto simp: S_def)
    then have "type_key (ms_full_name s) = type_key t" using l(1) by (auto simp: dinv_def ctx_ok_def)
    then have "\<exists>y. get_registered ctx1 d = Inr y" using t s(2) by (auto simp: get_registered_alt rbind_eq_Inr of_option_def split: option.splits)
    then show False using l(5) ip \<open>d \<noteq> name\<close> by blast
  qed
  ultimately have "from_disk w sp s" using s(1) by (auto simp: all_registered_def)
  moreover have "spec_ok s" using inv(1) s(1) by (auto simp: ctx_ok_def)
  ultimately show ?thesis using from_disk_loads [of w sp s c] s ip by auto
qed

section \<open>Loading the messages of the package\<close>

lemma by_type_registers:
  assumes "load_msg_by_type w r sp c = (Inr s, c')" "in_package r"
  shows "dependencies c' = dependencies c" "get_registered c' u = (if type_key u = type_key r then Inr s else get_registered c u)"
proof -
  obtain body f d where l: "load_msg_from_string w body r c = (Inr s, d)" "c' = set_file r f d"
    using load_msg_by_type_string [OF assms(1)] qualified_not_header [OF assms(2)] by metis
  have reg: "register r s c = (Inr (), d)" by (rule load_msg_from_string_Inr [OF l(1)])
  show "dependencies c' = dependencies c" using register_frame [OF reg] l(2) by (simp add: set_file_def)
  show "get_registered c' u = (if type_key u = type_key r then Inr s else get_registered c u)"
    using ctx.get_put [OF reg] l(2) by simp
qed

text \<open>A type that comes from a file is registered as before.\<close>

definition same_loaded :: "world \<Rightarrow> search_path \<Rightarrow> msg_context \<Rightarrow> msg_context \<Rightarrow> bool" where
  "same_loaded w sp c c' \<longleftrightarrow> dependencies c' = dependencies c \<and>
     (\<forall>d s e e'. in_package d \<longrightarrow> load_msg_by_type w d sp e = (Inr s, e') \<longrightarrow> get_registered c d = Inr s \<longrightarrow>
        get_registered c' d = Inr s)"

lemma same_loaded_refl [simp]: "same_loaded w sp c c"
  by (simp add: same_loaded_def)

lemma same_loaded_trans: "same_loaded w sp a b \<Longrightarrow> same_loaded w sp b c \<Longrightarrow> same_loaded w sp a c"
  unfolding same_loaded_def by metis

lemma sibling_same:
  assumes "load_msg_by_type w r sp c = (Inr s, c')" "in_package r"
  shows "same_loaded w sp c c'"
  unfolding same_loaded_def
proof (intro conjI allI impI)
  show "dependencies c' = dependencies c" by (rule by_type_registers(1) [OF assms])
  fix d x e e' assume d: "in_package d" "load_msg_by_type w d sp e = (Inr x, e')" "get_registered c d = Inr x"
  have "x = s" if k: "type_key d = type_key r"
  proof -
    obtain key where "type_key d = Inr key" using ctx.get_Inr_key [OF d(3)] by auto
    then have "d = r" using type_key_in_package_inj [OF assms(2) d(1) k] k by simp
    then show ?thesis using load_msg_by_type_any [OF d(2), of c] assms(1) by auto
  qed
  then show "get_registered c' d = Inr x" using by_type_registers(2) [OF assms, of d] d(3) by auto
qed

text \<open>The messages of a package that can be loaded, under names of types.\<close>

definition siblings_load :: "world \<Rightarrow> search_path \<Rightarrow> string \<Rightarrow> string list \<Rightarrow> msg_context \<Rightarrow> bool" where
  "siblings_load w sp pkg ms c \<longleftrightarrow>
     (\<forall>m \<in> set ms. in_package (pkg @ ''/'' @ m) \<and> (\<exists>s c'. load_msg_by_type w (pkg @ ''/'' @ m) sp c = (Inr s, c')))"

lemma siblings_loop:
  assumes "siblings_load w sp pkg ms c0"
  shows "\<exists>s'. sfoldl (\<lambda>_ m. sbind (on_msgs (load_msg_by_type w (pkg @ ''/'' @ m) sp)) (\<lambda>_. sret ())) () ms s = (Inr (), s') \<and>
    ls_files s' = ls_files s \<and> same_loaded w sp (ls_ctx s) (ls_ctx s')"
  using assms
proof (induction ms arbitrary: s)
  case (Cons m ms)
  let ?r = "pkg @ ''/'' @ m"
  have ip: "in_package ?r" "\<exists>x c'. load_msg_by_type w ?r sp c0 = (Inr x, c')" using Cons.prems by (auto simp: siblings_load_def)
  then obtain x c' where l: "load_msg_by_type w ?r sp (ls_ctx s) = (Inr x, c')" using load_msg_by_type_any by blast
  let ?s = "s\<lparr>ls_ctx := c'\<rparr>"
  have one: "on_msgs (load_msg_by_type w ?r sp) s = (Inr x, ?s)" using l by (simp add: on_msgs_def)
  have "siblings_load w sp pkg ms c0" using Cons.prems by (simp add: siblings_load_def)
  from Cons.IH [OF this, of ?s] obtain s' where
    s': "sfoldl (\<lambda>_ m. sbind (on_msgs (load_msg_by_type w (pkg @ ''/'' @ m) sp)) (\<lambda>_. sret ())) () ms ?s = (Inr (), s')"
    "ls_files s' = ls_files ?s" "same_loaded w sp (ls_ctx ?s) (ls_ctx s')" by blast
  have "same_loaded w sp (ls_ctx s) (ls_ctx s')"
    using same_loaded_trans [OF sibling_same [OF l ip(1)]] s'(3) by simp
  moreover have "sbind (on_msgs (load_msg_by_type w ?r sp)) (\<lambda>_. sret ()) s = (Inr (), ?s)"
    using one by (simp add: sbind_def)
  ultimately show ?case using s'(1,2)
    by (intro exI [of _ s']) (simp only: sfoldl.simps sbind_eval(2), simp)
qed simp

section \<open>The texts after the loads\<close>

lemma get_depends_cong: "dependencies c' = dependencies c \<Longrightarrow> get_depends c' = get_depends c"
  by (simp add: get_depends_def fun_eq_iff)

lemma get_all_depends_cong:
  assumes "dependencies c' = dependencies c" shows "get_all_depends k c' t = get_all_depends k c t"
  by (induction k arbitrary: t) (simp_all add: get_depends_cong [OF assms] split: option.split)

text \<open>The md5 text reads the types that are reached from the specification.\<close>

lemma md5_text_agrees:
  assumes "dinv c" "spec_ok s" "get_depends c t = Some (spec_deps s)"
    and "\<And>d. (t, d) \<in> (dep_rel c)\<^sup>+ \<Longrightarrow> get_registered c' d = get_registered c d"
  shows "compute_md5_text k H c' s = compute_md5_text k H c s"
  using assms(2-)
proof (induction k arbitrary: t s)
  case (Suc k)
  let ?f = "\<lambda>c. md5_field_line c (\<lambda>sub. map_sum id H (compute_md5_text k H c sub))"
  have "?f c' x = ?f c x" if "x \<in> set (ms_fields s)" for x
  proof -
    obtain ty n where x: "x = (ty, n)" by (cases x)
    then have ty: "ty \<in> set (ms_types s)" using that by (auto simp: ms_fields_def dest: set_zip_leftD)
    let ?d = "bare_msg_type ty"
    show ?thesis
    proof (cases "is_builtin ?d")
      case False
      then have "?d \<in> set (spec_deps s)" using Suc.prems(1) ty by (force simp: spec_ok_def spec_deps_def)
      then have d: "(t, ?d) \<in> dep_rel c" using Suc.prems(2) by (auto simp: dep_rel_def)
      then have reg: "get_registered c' ?d = get_registered c ?d" using Suc.prems(3) by blast
      obtain s' where s': "get_registered c ?d = Inr s'" "get_depends c ?d = Some (spec_deps s')"
        using dep_reachable [OF assms(1) r_into_trancl [OF d]] by blast
      have "spec_ok s'" using assms(1) s'(1) by (auto simp: dinv_def ctx_ok_def)
      then have "compute_md5_text k H c' s' = compute_md5_text k H c s'"
        using Suc.IH [OF _ s'(2)] Suc.prems(3) d by (meson trancl_into_trancl2)
      then show ?thesis by (simp add: x md5_field_line_def Let_def reg s'(1))
    qed (simp add: x md5_field_line_def)
  qed
  then have "rmap (?f c') (ms_fields s) = rmap (?f c) (ms_fields s)" by (rule rmap_cong)
  then show ?case by simp
qed simp

text \<open>After the dependencies and the messages of the package were loaded, the texts of the message are those
  from before the latter.\<close>

lemma texts_after_siblings:
  assumes "create_default w = Inr ctx0" and "load_msg_from_string w txt name ctx0 = (Inr spec, ctx1)"
    and "in_package name" and "load_depends k w (Msg spec) sp ctx1 = (Inr ds, ctx2)"
    and "same_loaded w sp ctx2 ctx3"
  shows "compute_md5 n H ctx3 (Msg spec) = compute_md5 n H ctx2 (Msg spec)"
    "compute_full_text n ctx3 (Msg spec) = compute_full_text n ctx2 (Msg spec)"
proof -
  note l = load_first_msg [OF assms(1-3)]
  have st: "dinv ctx2" "get_depends ctx2 name = Some (spec_deps spec)"
    using load_msg_depends_step [of k w spec sp ctx1 "Inr ds" ctx2] assms(4) l by auto
  have same: "get_registered ctx3 d = get_registered ctx2 d" if d: "(name, d) \<in> (dep_rel ctx2)\<^sup>+" for d
  proof -
    obtain s e' where "load_msg_by_type w d sp ctx0 = (Inr s, e')" "get_registered ctx2 d = Inr s" "in_package d"
      using dependency_from_disk [OF assms(1-4) d, of ctx0] by blast
    then show ?thesis using assms(5) unfolding same_loaded_def by metis
  qed
  show "compute_md5 n H ctx3 (Msg spec) = compute_md5 n H ctx2 (Msg spec)"
    using md5_text_agrees [OF st(1) l(2) st(2) same] by (simp add: compute_md5_def)
  have deps: "get_all_depends n ctx3 t = get_all_depends n ctx2 t" for t
    using assms(5) by (intro get_all_depends_cong) (simp add: same_loaded_def)
  have "deps_closed ctx2" using st(1) by (simp add: dinv_def)
  have "rmap (\<lambda>d. rbind (get_registered ctx3 d) (\<lambda>s. Inr (full_text_sep @ ''MSG: '' @ d @ [newline] @ ms_text s @ [newline]))) (unique_deps ls) =
      rmap (\<lambda>d. rbind (get_registered ctx2 d) (\<lambda>s. Inr (full_text_sep @ ''MSG: '' @ d @ [newline] @ ms_text s @ [newline]))) (unique_deps ls)"
    if "get_all_depends n ctx2 name = Inr ls" for ls
    using get_all_depends_sound [of ctx2 n name ls] that same \<open>deps_closed ctx2\<close> by (intro rmap_cong) simp
  then show "compute_full_text n ctx3 (Msg spec) = compute_full_text n ctx2 (Msg spec)"
    unfolding compute_full_text_def deps any_full_name_def
    by (cases "get_all_depends n ctx2 name") (simp_all add: l(3))
qed

section \<open>A run on one description\<close>

text \<open>What a generator needs to be run on one file: the file is read in the default context under its
  name, which has a package, its dependencies are loaded, all messages of its package can be loaded, and more nested
  calls are allowed than there are recorded types.\<close>

definition readable_message ::
    "nat \<Rightarrow> world \<Rightarrow> search_path \<Rightarrow> string \<Rightarrow> string list \<Rightarrow> string \<Rightarrow> string \<Rightarrow> msgspec \<Rightarrow> msg_context \<Rightarrow> bool" where
  "readable_message n w sp pkg ms f name spec ctx2 \<longleftrightarrow> in_package name \<and> card (dom (dependencies ctx2)) < n \<and>
     compute_full_type_name pkg (path_basename f) = Inr name \<and> siblings_load w sp pkg ms ctx2 \<and>
     (\<exists>ctx0 ctx1 ds. create_default w = Inr ctx0 \<and> load_msg_from_file w f name ctx0 = (Inr spec, ctx1) \<and>
        load_depends n w (Msg spec) sp ctx1 = (Inr ds, ctx2))"

text \<open>The steps before the file is written, and the texts in the context that they leave.\<close>

lemma readable_message_run:
  assumes "readable_message n w sp pkg ms f name spec ctx2"
  obtains ctx0 body ctx1 ds s' where "create_default w = Inr ctx0" "load_msg_from_string w body name ctx0 = (Inr spec, ctx1)"
    "load_msg_from_file w f name ctx0 = (Inr spec, ctx1)" "load_depends n w (Msg spec) sp ctx1 = (Inr ds, ctx2)"
    "sfoldl (\<lambda>_ m. sbind (on_msgs (load_msg_by_type w (pkg @ ''/'' @ m) sp)) (\<lambda>_. sret ())) () ms (s\<lparr>ls_ctx := ctx2\<rparr>) = (Inr (), s')"
    "ls_files s' = ls_files s" "\<exists>m. compute_md5 n H (ls_ctx s') (Msg spec) = Inr m"
    "\<exists>d. compute_full_text n (ls_ctx s') (Msg spec) = Inr d"
proof -
  obtain ctx0 ctx1 ds where l: "create_default w = Inr ctx0" "load_msg_from_file w f name ctx0 = (Inr spec, ctx1)"
    "load_depends n w (Msg spec) sp ctx1 = (Inr ds, ctx2)"
    using assms by (auto simp: readable_message_def)
  have a: "in_package name" "card (dom (dependencies ctx2)) < n" "siblings_load w sp pkg ms ctx2"
    using assms by (auto simp: readable_message_def)
  obtain body where t: "load_msg_from_string w body name ctx0 = (Inr spec, ctx1)"
    using l(2) by (auto simp: load_msg_from_file_def sbind_eq_Inr)
  obtain s' where s': "sfoldl (\<lambda>_ m. sbind (on_msgs (load_msg_by_type w (pkg @ ''/'' @ m) sp)) (\<lambda>_. sret ())) () ms (s\<lparr>ls_ctx := ctx2\<rparr>) = (Inr (), s')"
    "ls_files s' = ls_files (s\<lparr>ls_ctx := ctx2\<rparr>)" "same_loaded w sp (ls_ctx (s\<lparr>ls_ctx := ctx2\<rparr>)) (ls_ctx s')"
    using siblings_loop [OF a(3), of "s\<lparr>ls_ctx := ctx2\<rparr>"] by blast
  have same: "same_loaded w sp ctx2 (ls_ctx s')" using s'(3) by simp
  show thesis
    using that [OF l(1) t l(2,3) s'(1)] s'(2) texts_after_load [OF l(1) t a(1) l(3) a(2), of H]
      texts_after_siblings [OF l(1) t a(1) l(3) same, of n] by simp
qed

section \<open>More nested calls\<close>

text \<open>A run that did not exceed the nested calls is the same with more of them.\<close>

definition extends_rec :: "('a \<Rightarrow> ('c, 'b) act) \<Rightarrow> ('a \<Rightarrow> ('c, 'b) act) \<Rightarrow> bool" where
  "extends_rec rec rec' \<longleftrightarrow> (\<forall>s c. fst (rec s c) \<noteq> Inl RecursionError \<longrightarrow> rec' s c = rec s c)"

lemma type_depend_more:
  assumes "extends_rec rec rec'" "fst (load_type_depend w rec p sp acc t c) \<noteq> Inl RecursionError"
  shows "load_type_depend w rec' p sp acc t c = load_type_depend w rec p sp acc t c"
proof (cases "is_builtin (resolve_type (bare_msg_type t) p)")
  case False
  let ?r = "resolve_type (bare_msg_type t) p"
  obtain x c1 where x: "retrieve_spec w sp ?r c = (x, c1)" by fastforce
  show ?thesis
  proof (cases x)
    case (Inr s)
    have "fst (rec s c1) \<noteq> Inl RecursionError" if "get_depends c1 ?r = None"
      using assms(2) that False x Inr by (auto simp: load_type_depend_def Let_def sbind_def split: prod.splits sum.splits)
    then show ?thesis using assms(1) False x Inr by (auto simp: load_type_depend_def Let_def sbind_def extends_rec_def)
  qed (use False x in \<open>simp add: load_type_depend_def Let_def sbind_def\<close>)
qed (simp add: load_type_depend_def Let_def)

lemma types_loop_more:
  assumes "extends_rec rec rec'" "fst (sfoldl (load_type_depend w rec p sp) acc ts c) \<noteq> Inl RecursionError"
  shows "sfoldl (load_type_depend w rec' p sp) acc ts c = sfoldl (load_type_depend w rec p sp) acc ts c"
  using assms(2)
proof (induction ts arbitrary: acc c)
  case (Cons t ts)
  have "fst (load_type_depend w rec p sp acc t c) \<noteq> Inl RecursionError"
    using Cons.prems by (auto simp: sbind_def split: prod.splits sum.splits)
  note one = type_depend_more [OF assms(1) this]
  show ?case using Cons by (auto simp: sbind_def one split: prod.splits sum.splits)
qed simp

lemma load_msg_depends_more:
  "fst (load_msg_depends k w spec sp c) \<noteq> Inl RecursionError \<Longrightarrow> k \<le> k' \<Longrightarrow>
   load_msg_depends k' w spec sp c = load_msg_depends k w spec sp c"
proof (induction k arbitrary: k' spec c)
  case (Suc k)
  then obtain j where j: "k' = Suc j" "k \<le> j" by (cases k') auto
  have rec: "extends_rec (\<lambda>d. load_msg_depends k w d sp) (\<lambda>d. load_msg_depends j w d sp)"
    unfolding extends_rec_def using Suc.IH [OF _ j(2)] by blast
  have "fst (sfoldl (load_type_depend w (\<lambda>d. load_msg_depends k w d sp) (ms_package spec) sp) [] (ms_types spec) c) \<noteq> Inl RecursionError"
    using Suc.prems(1) by (auto simp: sbind_def split: prod.splits sum.splits)
  then show ?case unfolding j(1) load_msg_depends.simps sbind_def by (simp add: types_loop_more [OF rec])
qed simp

section \<open>An example\<close>

definition siblings_world :: world where
  "siblings_world = \<lparr>w_files = [''/m/A.msg'' \<mapsto> ''int8 X=1'' @ [newline] @ ''B[] b'', ''/m/B.msg'' \<mapsto> ''int32 x''], w_literal = \<lambda>_. None\<rparr>"

definition siblings_path :: search_path where
  "siblings_path = [''m'' \<mapsto> [''/m'']]"

definition siblings_env :: lisp_env where
  "siblings_env = \<lparr>le_float = \<lambda>_. [], le_abspath = id, le_listdir = [''/m'' \<mapsto> [''A.msg'', ''B.msg'']], le_hash = \<lambda>_. ''0''\<rparr>"

lemma siblings_readable:
  obtains n spec ctx2 where "readable_message n siblings_world siblings_path ''m'' [''A'', ''B''] ''/m/A.msg'' ''m/A'' spec ctx2"
    "Suc (card (dom (dependencies ctx2))) < n" "ms_short_name spec = ''A''" "list_all (\<lambda>c. c_type c = ''int8'' \<and> plain_const (\<lambda>_. []) c) (ms_constants spec)"
proof -
  let ?run = "\<lambda>ctx0. load_msg_from_file siblings_world ''/m/A.msg'' ''m/A'' ctx0"
  let ?ok = "\<lambda>r. \<not> isl (fst r)"
  have "case create_default siblings_world of Inl e \<Rightarrow> False | Inr ctx0 \<Rightarrow>
      (case ?run ctx0 of (Inl e, _) \<Rightarrow> False
       | (Inr spec, ctx1) \<Rightarrow> ms_short_name spec = ''A'' \<and> list_all (\<lambda>c. c_type c = ''int8'' \<and> plain_const (\<lambda>_. []) c) (ms_constants spec) \<and>
         (case load_msg_depends 4 siblings_world spec siblings_path ctx1 of (Inl e, _) \<Rightarrow> False | (Inr ds, ctx2) \<Rightarrow>
            ?ok (load_msg_by_type siblings_world ''m/A'' siblings_path ctx2) \<and>
            ?ok (load_msg_by_type siblings_world ''m/B'' siblings_path ctx2)))"
    unfolding list_all_iff by code_simp
  then obtain ctx0 spec ctx1 ds ctx2 where l: "create_default siblings_world = Inr ctx0" "?run ctx0 = (Inr spec, ctx1)"
    "ms_short_name spec = ''A''" "list_all (\<lambda>c. c_type c = ''int8'' \<and> plain_const (\<lambda>_. []) c) (ms_constants spec)"
    "load_msg_depends 4 siblings_world spec siblings_path ctx1 = (Inr ds, ctx2)"
    and sib: "?ok (load_msg_by_type siblings_world ''m/A'' siblings_path ctx2)"
      "?ok (load_msg_by_type siblings_world ''m/B'' siblings_path ctx2)"
    unfolding run_returns_iff list_all_iff by blast
  let ?n = "4 + Suc (Suc (card (dom (dependencies ctx2))))"
  have "load_msg_depends ?n siblings_world spec siblings_path ctx1 = (Inr ds, ctx2)"
    using load_msg_depends_more [of 4 siblings_world spec siblings_path ctx1 ?n] l(5) by simp
  moreover have "siblings_load siblings_world siblings_path ''m'' [''A'', ''B''] ctx2"
    using sib by (auto simp: siblings_load_def in_package_def) (metis isl_def prod.collapse sum.exhaust_sel sum.disc_eq_case(2) isl_def sum.collapse(2))+
  moreover have "compute_full_type_name ''m'' (path_basename ''/m/A.msg'') = Inr ''m/A''" by code_simp
  ultimately have "readable_message ?n siblings_world siblings_path ''m'' [''A'', ''B''] ''/m/A.msg'' ''m/A'' spec ctx2"
    using l(1,2) by (simp add: readable_message_def in_package_def)
  then show thesis using l(3,4) by (intro that [of ?n spec ctx2]) simp_all
qed

end
