(* ===== verification/Geneus_Files.thy ===== *)
theory Geneus_Files
  imports Geneus_Forms Genlisp_Files Siblings
begin

text \<open>
  The EusLisp file of a message: it is always written once the dependencies are loaded, and it consists of
  closed forms. The definition of a service, which loses lines.
\<close>

section \<open>Writers that return\<close>








section \<open>The file of a message\<close>




section \<open>The definition of a service\<close>

definition lines_text :: "string list \<Rightarrow> string" where
  "lines_text ls = concat (map (\<lambda>l. l @ [newline]) ls)"

lemma wfor_lines:
  "\<not> block_indent w \<Longrightarrow> wfor ls (\<lambda>line. w_write (g line) False False) w = (Inr (), w\<lparr>w_text := w_text w @ concat (map g ls)\<rparr>)"
  by (induction ls arbitrary: w) (simp_all add: wfor_def w_write_apply sbind_def)

lemma literals_quoted: "literals (eus_definition_line l @ t) (Str d) acc = literals t (Str d) (rev l @ acc)"
  unfolding eus_definition_line_quoted by (induction l arbitrary: acc) (simp_all add: quoted_def)

lemma literals_text:
  "literals (concat (map (\<lambda>l. eus_definition_line l @ [newline]) ls) @ t) (Str d) acc = literals t (Str d) (rev (lines_text ls) @ acc)"
  by (induction ls arbitrary: acc) (simp_all add: literals_quoted lines_text_def)

text \<open>C16: the definition that the EusLisp generator stores for a service is that of its request, a line with
  dashes and that of its response, each without its last line. The last line is empty for a type without
  dependencies; otherwise it is the last line of the last dependency, which is lost if its file does not end with
  a newline.\<close>

theorem eus_service_definition_text:
  assumes "compute_full_text k ctx (Msg (ss_request spec)) = Inr d1" "compute_full_text k ctx (Msg (ss_response spec)) = Inr d2"
    and "plain package" "plain name" "msgspec_eq (ss_request spec) (ss_request spec)" "\<not> msgspec_eq (ss_response spec) (ss_request spec)"
  shows "\<exists>t. written (write_service_definition k ctx spec package name) = Inr t \<and>
    literals t (Code 0) [] = [lines_text (butlast (split_on newline d1)) @ ''---'' @ [newline] @ lines_text (butlast (split_on newline d2))]"
proof -
  let ?q = "\<lambda>d. concat (map (\<lambda>l. eus_definition_line l @ [newline]) (butlast (split_on newline d)))"
  let ?t = "newline # ''(setf (get '' @ package @ ''::'' @ name @ '' :definition-)'' @ newline # ''      '' @ [dquote] @ ?q d1 @ ''---'' @ [newline] @ ?q d2 @
    [dquote] @ '')''"
  have "write_service_definition k ctx spec package name \<lparr>w_text = [], indentation = 0, block_indent = False\<rparr> =
      (Inr (), \<lparr>w_text = ?t, indentation = 0, block_indent = False\<rparr>)"
    using assms(1,2,5,6)
    by (simp add: write_service_definition_def wfor_def [of "[ss_request spec, ss_response spec]"] with_indent_def wwhen_def inc_indent_def
        dec_indent_def w_write_apply sbind_def wfor_lines eval_nat_numeral)
  then have "written (write_service_definition k ctx spec package name) = Inr ?t"
    by (simp add: written_def IndentedWriter_def)
  moreover have "literals ?t (Code 0) [] =
      [lines_text (butlast (split_on newline d1)) @ ''---'' @ [newline] @ lines_text (butlast (split_on newline d2))]"
    using literals_text [of "butlast (split_on newline d2)" "[dquote] @ '')''"] by (simp add: literals_plain assms(3,4) literals_text)
  ultimately show ?thesis by blast
qed

definition demo_part :: "string \<Rightarrow> string \<Rightarrow> string list \<Rightarrow> msgspec" where
  "demo_part name txt types = \<lparr>ms_types = types, ms_names = types, ms_constants = [], ms_header_present = False,
    ms_text = txt, ms_full_name = ''m/'' @ name, ms_short_name = name, ms_package = ''m'', ms_parsed_fields = []\<rparr>"

definition demo_eus_srv :: srvspec where
  "demo_eus_srv = \<lparr>ss_request = demo_part ''SRequest'' (''B b'' @ [newline]) [''m/B''], ss_response = demo_part ''SResponse'' [] [],
    ss_text = [], ss_full_name = ''m/S'', ss_short_name = ''S'', ss_package = ''m''\<rparr>"

definition demo_eus_ctx :: msg_context where
  "demo_eus_ctx = \<lparr>registered_packages = [''m'' \<mapsto> [''B'' \<mapsto> demo_part ''B'' ''int32 x'' [''int32'']]], files = Map.empty,
    dependencies = [''m/SRequest'' \<mapsto> [''m/B''], ''m/SResponse'' \<mapsto> [], ''m/B'' \<mapsto> []]\<rparr>"

theorem eus_service_definition_text_witness:
  "\<exists>t s. written (write_service_definition 2 demo_eus_ctx demo_eus_srv ''m'' ''SRequest'') = Inr t \<and> literals t (Code 0) [] = [s] \<and>
     contains ''MSG: m/B'' s \<and> \<not> contains ''int32 x'' s \<and> ms_text (demo_part ''B'' ''int32 x'' [''int32'']) = ''int32 x''"
proof -
  let ?d1 = "''B b'' @ [newline, newline] @ full_text_sep @ ''MSG: m/B'' @ [newline] @ ''int32 x''"
  have d1: "compute_full_text 2 demo_eus_ctx (Msg (ss_request demo_eus_srv)) = Inr ?d1"
    and d2: "compute_full_text 2 demo_eus_ctx (Msg (ss_response demo_eus_srv)) = Inr []"
    by code_simp+
  have p: "plain ''m''" "plain ''SRequest''" by (simp_all add: plain_def)
  have e: "msgspec_eq (ss_request demo_eus_srv) (ss_request demo_eus_srv)" "\<not> msgspec_eq (ss_response demo_eus_srv) (ss_request demo_eus_srv)"
    by code_simp+
  let ?s = "lines_text (butlast (split_on newline ?d1)) @ ''---'' @ [newline] @ lines_text (butlast (split_on newline []))"
  have "contains ''MSG: m/B'' ?s" "\<not> contains ''int32 x'' ?s" by code_simp+
  then show ?thesis using eus_service_definition_text [OF d1 d2 p e] by (auto simp: demo_part_def simp del: contains.simps)
qed

end
