(* ===== verification/Geneus_Main.thy ===== *)
theory Geneus_Main
  imports Geneus
begin

text \<open>
  The packages and the manifest of \<open>geneus/geneus_main.py\<close>. \<open>catkin_pkg\<close>, which finds, parses and sorts packages, and
  the order of a Python set are fields of \<open>workspace\<close>. It is shown which packages the manifest loads.
\<close>

section \<open>Packages\<close>

record ws_package =
  wp_filename :: string
  wp_version :: string

record workspace =
  ws_spaces :: "(string \<times> ws_package) list list"
  ws_exec_depends :: "string \<Rightarrow> string list option"
  ws_list_of_set :: "string set \<Rightarrow> string list"
  ws_exists :: "string \<Rightarrow> bool"
  ws_topological :: "(string \<times> ws_package) list \<Rightarrow> string list res"

definition add_pkg :: "(string \<rightharpoonup> ws_package) \<Rightarrow> string \<times> ws_package \<Rightarrow> (string \<rightharpoonup> ws_package)" where
  "add_pkg m p = (if m (fst p) = None then m(fst p \<mapsto> snd p) else m)"

definition get_pkg_map :: "workspace \<Rightarrow> (string \<rightharpoonup> ws_package)" where
  "get_pkg_map ws = foldl (foldl add_pkg) Map.empty (ws_spaces ws)"

definition pkg_get_depends :: "workspace \<Rightarrow> (string \<rightharpoonup> ws_package) \<Rightarrow> string \<Rightarrow> string list res" where
  "pkg_get_depends ws pkg_map pkg =
     rbind (of_option (KeyError pkg) (pkg_map pkg)) (\<lambda>pkg_obj.
     rbind (of_option PyException (ws_exec_depends ws (wp_filename pkg_obj))) (\<lambda>depends.
     Inr (ws_list_of_set ws (set depends))))"

text \<open>\<open>depends.extend(tmp_depends)\<close> takes every item from the filter, which looks up each one in the growing list. A
  filter of Python 3 is an iterator: nothing is left of it for the loop that follows.\<close>

fun extend_new :: "string list \<Rightarrow> string list \<Rightarrow> string list \<times> string list" where
  "extend_new depends [] = (depends, [])"
| "extend_new depends (x # xs) = extend_new (if x \<in> set depends then depends else depends @ [x]) xs"

primrec package_depends_impl :: "nat \<Rightarrow> workspace \<Rightarrow> (string \<rightharpoonup> ws_package) \<Rightarrow> string \<Rightarrow> string list \<Rightarrow> string list res" where
  "package_depends_impl 0 ws pkg_map pkg depends = Inl RecursionError"
| "package_depends_impl (Suc k) ws pkg_map pkg depends =
     (if pkg_map pkg = None then Inr depends
      else rbind (pkg_get_depends ws pkg_map pkg) (\<lambda>ds.
        let (depends', tmp_depends) = extend_new depends (filter (\<lambda>x. pkg_map x \<noteq> None) ds) in
        rfoldl (\<lambda>acc p. package_depends_impl k ws pkg_map p acc) depends' tmp_depends))"

definition has_messages :: "workspace \<Rightarrow> ws_package \<Rightarrow> bool" where
  "has_messages ws p = (let p_path = path_dirname (wp_filename p) in
     ws_exists ws (path_join p_path ''msg'') \<or> ws_exists ws (path_join p_path ''srv''))"

definition package_depends :: "nat \<Rightarrow> workspace \<Rightarrow> (string \<rightharpoonup> ws_package) \<Rightarrow> string \<Rightarrow> string list res" where
  "package_depends k ws pkg_map pkg =
     rbind (package_depends_impl k ws pkg_map pkg []) (\<lambda>depends_impl.
     ws_topological ws (concat (map (\<lambda>d. case pkg_map d of
        None \<Rightarrow> [] | Some pkg_obj \<Rightarrow> if has_messages ws pkg_obj then [(d, pkg_obj)] else []) depends_impl)))"

section \<open>The manifest\<close>

definition load_package :: "string \<Rightarrow> string" where
  "load_package p = (''(ros::load-ros-package '' @ [dquote] @ p @ [dquote] @ '')'' @ [newline])"

definition generated_from :: "(string \<rightharpoonup> ws_package) \<Rightarrow> string \<Rightarrow> string \<Rightarrow> string" where
  "generated_from pkg_map self pkg =
     (let (pkg_filename, pkg_version) = (case pkg_map ''geneus'' of
            None \<Rightarrow> (''unknown'', ''unknown'') | Some p \<Rightarrow> (wp_filename p, wp_version p)) in
      case pkg_map pkg of None \<Rightarrow> []
      | Some p \<Rightarrow> ('';;  FROM '' @ wp_filename p @ '' ('' @ wp_version p @ '')'' @ [newline]) @
          ('';; USING '' @ self @ '' '' @ pkg_filename @ '' ('' @ pkg_version @ '')'' @ [newline]))"

definition eus_manifest :: "nat \<Rightarrow> workspace \<Rightarrow> string \<Rightarrow> string list \<Rightarrow> string res" where
  "eus_manifest k ws self args =
     (let pkg_map = get_pkg_map ws; pkg = args ! 1 in
      rbind (package_depends k ws pkg_map pkg) (\<lambda>depends.
      let pkg_dependences = sorted_list_of_set (set (depends @ drop 2 args)) in
      Inr (('';;'' @ [newline]) @ ('';; DO NOT EDIT THIS FILE'' @ [newline]) @ ('';;'' @ [newline]) @ ('';; THIS FILE IS AUTOMATICALLY GENERATED'' @ [newline]) @
        generated_from pkg_map self pkg @ ('';;'' @ [newline]) @
        concat (map load_package pkg_dependences) @ load_package pkg)))"

text \<open>The result of \<open>genmain\<close> with the option for the manifest, which is the text of its file, and its exit code.\<close>

definition eus_manifest_main :: "nat \<Rightarrow> workspace \<Rightarrow> string \<Rightarrow> string list \<Rightarrow> string res" where
  "eus_manifest_main k ws self args =
     (if length args < 2 then Inl (SystemExit 2) else eus_manifest k ws self args)"

definition eus_exit_code :: "'a res \<Rightarrow> int" where
  "eus_exit_code r = (case r of Inr u \<Rightarrow> 0
     | Inl (SystemExit n) \<Rightarrow> n
     | Inl e \<Rightarrow> if e = InvalidMsgSpec then 1 else if e = MsgGenerationException then 2 else 3)"

section \<open>Which packages are loaded\<close>

lemma extend_new_result: "extend_new depends xs = (depends', rest) \<Longrightarrow> rest = [] \<and> set depends' = set depends \<union> set xs"
  by (induction depends xs rule: extend_new.induct) auto

lemma package_depends_impl_direct:
  assumes "pkg_map pkg = Some p" "ws_exec_depends ws (wp_filename p) = Some deps"
    and "\<And>S. finite S \<Longrightarrow> set (ws_list_of_set ws S) = S" and "0 < k"
  shows "\<exists>ds. package_depends_impl k ws pkg_map pkg [] = Inr ds \<and> set ds = {d \<in> set deps. pkg_map d \<noteq> None}"
proof -
  obtain j where k: "k = Suc j" using assms(4) gr0_conv_Suc by blast
  obtain ds rest where e: "extend_new [] (filter (\<lambda>x. pkg_map x \<noteq> None) (ws_list_of_set ws (set deps))) = (ds, rest)"
    by (rule prod.exhaust)
  have "package_depends_impl k ws pkg_map pkg [] = Inr ds"
    using extend_new_result [OF e] e assms(1,2) by (simp add: k pkg_get_depends_def of_option_def rbind_def)
  moreover have "set ds = {d \<in> set deps. pkg_map d \<noteq> None}" using extend_new_result [OF e] assms(3) by auto
  ultimately show ?thesis by blast
qed

text \<open>The packages a manifest should load, from the direct dependencies.\<close>

definition direct_packages :: "workspace \<Rightarrow> string list \<Rightarrow> string set" where
  "direct_packages ws deps = {d \<in> set deps. \<exists>q. get_pkg_map ws d = Some q \<and> has_messages ws q}"

lemma package_depends_direct:
  assumes "get_pkg_map ws pkg = Some p" "ws_exec_depends ws (wp_filename p) = Some deps"
    and "\<And>S. finite S \<Longrightarrow> set (ws_list_of_set ws S) = S" and "0 < k"
    and "\<And>ps. fst ` set ps = direct_packages ws deps \<Longrightarrow> \<exists>ns. ws_topological ws ps = Inr ns \<and> set ns = fst ` set ps"
  shows "\<exists>ds. package_depends k ws (get_pkg_map ws) pkg = Inr ds \<and> set ds = direct_packages ws deps"
proof -
  obtain ds where ds: "package_depends_impl k ws (get_pkg_map ws) pkg [] = Inr ds"
    "set ds = {d \<in> set deps. get_pkg_map ws d \<noteq> None}"
    using package_depends_impl_direct [where pkg_map = "get_pkg_map ws", OF assms(1-4)] by blast
  let ?ps = "concat (map (\<lambda>d. case get_pkg_map ws d of
        None \<Rightarrow> [] | Some pkg_obj \<Rightarrow> if has_messages ws pkg_obj then [(d, pkg_obj)] else []) ds)"
  have "fst ` set ?ps = direct_packages ws deps"
    using ds(2) by (force simp: direct_packages_def split: option.splits if_splits)
  then show ?thesis using assms(5) [of ?ps] ds(1) by (auto simp: package_depends_def rbind_def)
qed

text \<open>C17: the manifest of a package loads its direct dependencies with messages or services, the packages of the
  command line, each once and in order, and then the package itself. What its dependencies depend on
  is not loaded, although \<open>package_depends_impl\<close> is written as a recursion over them; and the recursion needs no
  more than one call.\<close>

theorem eus_manifest_direct:
  assumes "get_pkg_map ws pkg = Some p" and "ws_exec_depends ws (wp_filename p) = Some deps"
    and "\<And>S. finite S \<Longrightarrow> set (ws_list_of_set ws S) = S" and "0 < k"
    and "\<And>ps. fst ` set ps = direct_packages ws deps \<Longrightarrow> \<exists>ns. ws_topological ws ps = Inr ns \<and> set ns = fst ` set ps"
  shows "\<exists>header. eus_manifest_main k ws self (prog # pkg # args) = Inr (header @
    concat (map load_package (sorted_list_of_set (direct_packages ws deps \<union> set args) @ [pkg])))"
proof -
  obtain ds where "package_depends k ws (get_pkg_map ws) pkg = Inr ds" "set ds = direct_packages ws deps"
    using package_depends_direct [OF assms] by blast
  then have "eus_manifest_main k ws self (prog # pkg # args) =
      Inr ((('';;'' @ [newline]) @ ('';; DO NOT EDIT THIS FILE'' @ [newline]) @ ('';;'' @ [newline]) @ ('';; THIS FILE IS AUTOMATICALLY GENERATED'' @ [newline]) @
        generated_from (get_pkg_map ws) self pkg @ ('';;'' @ [newline])) @
        concat (map load_package (sorted_list_of_set (direct_packages ws deps \<union> set args) @ [pkg])))"
    by (simp add: eus_manifest_main_def eus_manifest_def rbind_def)
  then show ?thesis by blast
qed

text \<open>A package that depends on \<open>b\<close>, which depends on \<open>c\<close>: only \<open>b\<close> is loaded.\<close>

definition demo_workspace :: workspace where
  "demo_workspace = \<lparr>ws_spaces = [map (\<lambda>n. (n, \<lparr>wp_filename = ''/'' @ n @ ''/package.xml'', wp_version = ''1''\<rparr>)) [''a'', ''b'', ''c'']],
     ws_exec_depends = [''/a/package.xml'' \<mapsto> [''b''], ''/b/package.xml'' \<mapsto> [''c''], ''/c/package.xml'' \<mapsto> []],
     ws_list_of_set = sorted_list_of_set, ws_exists = (\<lambda>_. True), ws_topological = (\<lambda>ps. Inr (map fst ps))\<rparr>"

theorem eus_manifest_direct_witness:
  "\<exists>header. eus_manifest_main 1 demo_workspace ''main.py'' [''main'', ''a''] = Inr (header @
     concat (map load_package [''b'', ''a'']))"
proof -
  have m: "get_pkg_map demo_workspace ''a'' = Some \<lparr>wp_filename = ''/a/package.xml'', wp_version = ''1''\<rparr>"
    "direct_packages demo_workspace [''b''] = {''b''}"
    by (auto simp: demo_workspace_def get_pkg_map_def add_pkg_def direct_packages_def has_messages_def)
  have d: "ws_exec_depends demo_workspace (wp_filename \<lparr>wp_filename = ''/a/package.xml'', wp_version = ''1''\<rparr>) = Some [''b'']"
    by (simp add: demo_workspace_def)
  have s: "\<And>S. finite S \<Longrightarrow> set (ws_list_of_set demo_workspace S) = S" by (simp add: demo_workspace_def)
  have t: "\<And>ps. fst ` set ps = direct_packages demo_workspace [''b''] \<Longrightarrow>
      \<exists>ns. ws_topological demo_workspace ps = Inr ns \<and> set ns = fst ` set ps" by (simp add: demo_workspace_def)
  show ?thesis using eus_manifest_direct [OF m(1) d s _ t, of 1 "''main.py''" "''main''" "[]"] by (simp add: m(2))
qed

end
