(* ===== verification/Gennodejs.thy ===== *)
theory Gennodejs
  imports Geneus
begin

text \<open>
  The generator for Node.js, \<open>gennodejs/generate.py\<close>. The classes \<open>IndentedWriter\<close> and \<open>Indent\<close> are those of the
  generator for Lisp. Definitions have the names of the code with the prefix \<open>js_\<close>. A nested message is
  loaded in a new context each time its size is needed. The order in which a set is visited and the
  files that exist before the run are fields of \<open>js_env\<close>.
\<close>

section \<open>Types\<close>

definition js_is_fixnum :: "string \<Rightarrow> bool" where
  "js_is_fixnum t \<longleftrightarrow> t \<in> set [''int8'', ''uint8'', ''int16'', ''uint16'']"

definition js_is_integer :: "string \<Rightarrow> bool" where
  "js_is_integer t \<longleftrightarrow> js_is_fixnum t \<or> t \<in> set [''byte'', ''char'', ''int32'', ''uint32'', ''int64'', ''uint64'']"

definition js_is_signed_int :: "string \<Rightarrow> bool" where
  "js_is_signed_int t \<longleftrightarrow> t \<in> set [''int8'', ''int16'', ''int32'', ''int64'']"

definition js_is_unsigned_int :: "string \<Rightarrow> bool" where
  "js_is_unsigned_int t \<longleftrightarrow> t \<in> set [''uint8'', ''uint16'', ''uint32'', ''uint64'']"

definition js_is_bool :: "string \<Rightarrow> bool" where "js_is_bool t \<longleftrightarrow> t = ''bool''"
definition js_is_string :: "string \<Rightarrow> bool" where "js_is_string t \<longleftrightarrow> t = ''string''"

definition js_is_float :: "string \<Rightarrow> bool" where
  "js_is_float t \<longleftrightarrow> t \<in> set [''float32'', ''float64'']"

definition js_is_time :: "string \<Rightarrow> bool" where
  "js_is_time t \<longleftrightarrow> t \<in> set [''time'', ''duration'']"

definition js_parse_msg_type :: "field \<Rightarrow> string list" where
  "js_parse_msg_type f = (if f_base_type f = ''Header'' then [''std_msgs'', ''Header''] else split_on SEP (f_base_type f))"

definition get_typed_array :: "string \<Rightarrow> string option" where
  "get_typed_array t =
     (if t \<in> set [''int8'', ''byte'', ''bool''] then Some ''Int8Array''
      else if t \<in> set [''uint8'', ''char''] then Some ''UInt8Array''
      else if t = ''uint16'' then Some ''UInt16Array''
      else if t = ''int16'' then Some ''Int16Array''
      else if t = ''uint32'' then Some ''UInt32Array''
      else if t = ''int32'' then Some ''Int32Array''
      else if t = ''float32'' then Some ''Float32Array''
      else if t = ''float64'' then Some ''Float64Array''
      else None)"

definition has_typed_array :: "string \<Rightarrow> bool" where
  "has_typed_array t \<longleftrightarrow> js_is_fixnum t \<or> js_is_float t \<or>
     t \<in> set [''byte'', ''char'', ''bool'', ''uint8'', ''uint16'', ''int8'', ''int16'', ''uint32'', ''int32'']"

definition get_type_size :: "string \<Rightarrow> int option" where
  "get_type_size t =
     (if t \<in> set [''int8'', ''uint8'', ''byte'', ''bool'', ''char''] then Some 1
      else if t \<in> set [''int16'', ''uint16''] then Some 2
      else if t \<in> set [''int32'', ''uint32'', ''float32''] then Some 4
      else if t \<in> set [''int64'', ''uint64'', ''float64'', ''time'', ''duration''] then Some 8
      else None)"

text \<open>\<open>(package, msg_type) = base_type.split('/')\<close>\<close>

definition js_split_type :: "field \<Rightarrow> (string \<times> string) res" where
  "js_split_type f = (case split_on SEP (f_base_type f) of [package, ty] \<Rightarrow> Inr (package, ty) | _ \<Rightarrow> Inl ValueError)"

definition js_scalar_default :: "field \<Rightarrow> string \<Rightarrow> string res" where
  "js_scalar_default f current =
     (if f_is_builtin f then
        Inr (if js_is_string (f_type f) then [squote, squote]
             else if js_is_time (f_type f) then ''{secs: 0, nsecs: 0}''
             else if js_is_bool (f_type f) then ''false''
             else if js_is_float (f_type f) then ''0.0''
             else ''0'')
      else rbind (js_split_type f) (\<lambda>(package, ty).
        Inr (if package = current then (''new '' @ ty @ ''()'')
             else (''new '' @ package @ ''.msg.'' @ ty @ ''()''))))"

text \<open>The copy of an array field keeps its type, so the default of the elements is chosen by a type with
  brackets.\<close>

definition get_default_value :: "field \<Rightarrow> string \<Rightarrow> string res" where
  "get_default_value f current =
     (if f_is_array f then
        (if no_len f then Inr ''[]''
         else rbind (js_scalar_default (f\<lparr>f_is_array := False\<rparr>) current) (\<lambda>field_default.
           Inr (''new Array('' @ len_str f @ '').fill('' @ field_default @ '')'')))
      else js_scalar_default f current)"

section \<open>The size of a message\<close>

definition js_load :: "world \<Rightarrow> search_path \<Rightarrow> string \<Rightarrow> msgspec res" where
  "js_load w search_path t = rbind (create_default w) (\<lambda>field_msg_context.
     fst (load_msg_by_type w t search_path field_msg_context))"

text \<open>The loop over the nested messages; \<open>rec\<close> stands for the recursive call.\<close>

fun js_all_fixed :: "world \<Rightarrow> search_path \<Rightarrow> (msgspec \<Rightarrow> bool res) \<Rightarrow> field list \<Rightarrow> bool res" where
  "js_all_fixed w search_path rec [] = Inr True"
| "js_all_fixed w search_path rec (f # fs) =
     rbind (js_load w search_path (f_base_type f)) (\<lambda>field_spec.
     rbind (rec field_spec) (\<lambda>fixed. if \<not> fixed then Inr False else js_all_fixed w search_path rec fs))"

primrec is_message_fixed_size :: "nat \<Rightarrow> world \<Rightarrow> search_path \<Rightarrow> msgspec \<Rightarrow> bool res" where
  "is_message_fixed_size 0 w search_path spec = Inl RecursionError"
| "is_message_fixed_size (Suc k) w search_path spec =
     (let parsed_fields = ms_parsed_fields spec;
          types = map f_base_type parsed_fields;
          variableLengthArrays = map (\<lambda>f. f_is_array f \<and> no_len f) parsed_fields;
          isBuiltin = map f_is_builtin parsed_fields
      in if ''string'' \<in> set types then Inr False
         else if True \<in> set variableLengthArrays then Inr False
         else if False \<notin> set isBuiltin then Inr True
         else js_all_fixed w search_path (is_message_fixed_size k w search_path) (filter (\<lambda>f. \<not> f_is_builtin f) parsed_fields))"

text \<open>The body of the loop that adds the sizes; \<open>rec\<close> stands for the recursive call.\<close>

definition js_add_size :: "world \<Rightarrow> search_path \<Rightarrow> (msgspec \<Rightarrow> int option res) \<Rightarrow> int \<Rightarrow> field \<Rightarrow> int res" where
  "js_add_size w search_path rec len f =
     (if f_is_builtin f then
        rbind (of_option PyException (get_type_size (f_base_type f))) (\<lambda>type_size.
          if \<not> f_is_array f then Inr (len + type_size)
          else if no_len f then Inl PyException
          else Inr (len + the (f_array_len f) * type_size))
      else
        rbind (js_load w search_path (f_base_type f)) (\<lambda>field_spec.
        rbind (rec field_spec) (\<lambda>size.
        rbind (of_option PyException size) (\<lambda>field_size. Inr (len + field_size)))))"

primrec get_message_fixed_size :: "nat \<Rightarrow> world \<Rightarrow> search_path \<Rightarrow> msgspec \<Rightarrow> int option res" where
  "get_message_fixed_size 0 w search_path spec = Inl RecursionError"
| "get_message_fixed_size (Suc k) w search_path spec =
     rbind (is_message_fixed_size k w search_path spec) (\<lambda>fixed.
       if \<not> fixed then Inr None
       else rbind (rfoldl (js_add_size w search_path (get_message_fixed_size k w search_path)) 0 (ms_parsed_fields spec)) (\<lambda>len.
         Inr (Some len)))"

section \<open>Paths and requirements\<close>

record js_env =
  je_base :: lisp_env
  je_order :: "string set \<Rightarrow> string list"
  je_exists :: "string \<Rightarrow> bool"
  je_environ :: "string \<rightharpoonup> string"

definition find_path_from_cmake_path :: "js_env \<Rightarrow> string \<Rightarrow> string option res" where
  "find_path_from_cmake_path env path =
     rbind (of_option (KeyError ''CMAKE_PREFIX_PATH'') (je_environ env ''CMAKE_PREFIX_PATH'')) (\<lambda>cmake_path.
       Inr (find (je_exists env) (map (\<lambda>p. path_join p path) (split_on CHR '':'' cmake_path))))"

definition find_path_for_package :: "js_env \<Rightarrow> string \<Rightarrow> string option res" where
  "find_path_for_package env package = find_path_from_cmake_path env (path_join ''share/gennodejs/ros'' package)"

definition js_find_require :: "string \<Rightarrow> string list \<times> string list \<Rightarrow> field \<Rightarrow> (string list \<times> string list) res" where
  "js_find_require package acc f = (let (found_packages, local_deps) = acc in
     if f_is_builtin f then Inr acc
     else rbind (js_split_type f) (\<lambda>(field_type_package, ty).
       if field_type_package \<in> set found_packages then Inr acc
       else if field_type_package = package then
         (if ty \<notin> set local_deps then Inr (found_packages, local_deps @ [ty]) else Inr acc)
       else Inr (found_packages @ [field_type_package], local_deps)))"

definition find_requires :: "msgspec \<Rightarrow> (string list \<times> string list) res" where
  "find_requires spec = rfoldl (js_find_require (ms_package spec)) ([], []) (ms_parsed_fields spec)"

definition js_write_begin :: "string \<Rightarrow> bool \<Rightarrow> writing" where
  "js_write_begin package is_service = wseq
     [put_same_line (''// Auto-generated. Do not edit!'' @ [newline, newline]),
      put_same_line (''// (in-package '' @ package @ ''.'' @ (if is_service then ''srv'' else ''msg'') @ '')'' @ [newline, newline])]"

text \<open>What the file of a message needs is returned, without what was required before.\<close>

definition js_requires :: "msgspec \<Rightarrow> string set option \<Rightarrow> string list option \<Rightarrow> (string set \<times> string list) res" where
  "js_requires spec previous_packages prev_deps =
     rbind (find_requires spec) (\<lambda>(found_packages, local_deps).
       Inr ({p \<in> set found_packages. case previous_packages of None \<Rightarrow> True | Some ps \<Rightarrow> p \<notin> ps},
            filter (\<lambda>dep. dep \<notin> set (case prev_deps of None \<Rightarrow> [] | Some ds \<Rightarrow> ds)) local_deps))"

definition write_requires :: "js_env \<Rightarrow> msgspec \<Rightarrow> string set option \<Rightarrow> string list option \<Rightarrow> bool
    \<Rightarrow> (writer, string set \<times> string list) act" where
  "write_requires env spec previous_packages prev_deps isSrv =
     sbind (wwhen (previous_packages = None) (wseq
       [put ([dquote] @ ''use strict'' @ [dquote] @ '';''),
        w_newline,
        put ''const _serializer = _ros_msg_utils.Serialize;'',
        put ''const _arraySerializer = _serializer.Array;'',
        put ''const _deserializer = _ros_msg_utils.Deserialize;'',
        put ''const _arrayDeserializer = _deserializer.Array;'',
        put ''const _finder = _ros_msg_utils.Find;'',
        put ''const _getByteLength = _ros_msg_utils.getByteLength;''])) (\<lambda>_.
     sbind (slift (js_requires spec previous_packages prev_deps)) (\<lambda>(found_packages, local_deps).
     sbind (wseq
       [wfor local_deps (\<lambda>dep.
          if isSrv then put (''let '' @ dep @ '' = require('' @ [squote] @ ''../msg/'' @ dep @ ''.js'' @ [squote] @ '');'')
          else put (''let '' @ dep @ '' = require('' @ [squote] @ ''./'' @ dep @ ''.js'' @ [squote] @ '');'')),
        wfor (je_order env found_packages) (\<lambda>package.
          put (''let '' @ package @ '' = _finder('' @ [squote] @ package @ [squote] @ '');'')),
        w_newline,
        put ''//-----------------------------------------------------------'',
        w_newline]) (\<lambda>_.
     sret (found_packages, local_deps))))"

section \<open>The class\<close>

definition put_default :: "string \<Rightarrow> field \<Rightarrow> string \<Rightarrow> string \<Rightarrow> writing" where
  "put_default target f package end = sbind (slift (get_default_value f package)) (\<lambda>v.
     put (target @ ''.'' @ f_name f @ '' = '' @ v @ end))"

definition write_msg_constructor_field :: "string \<Rightarrow> field \<Rightarrow> writing" where
  "write_msg_constructor_field package f = wseq
     [put (''if (initObj.hasOwnProperty('' @ [squote] @ f_name f @ [squote] @ '')) {''),
      indented [put (''this.'' @ f_name f @ '' = initObj.'' @ f_name f)],
      put ''}'',
      put ''else {'',
      indented [put_default ''this'' f package '';''],
      put ''}'']"

definition write_class :: "named_spec \<Rightarrow> writing" where
  "write_class s = wseq
     [put (''class '' @ actual_name s @ '' {''),
      indented
        [put ''constructor(initObj={}) {'',
         indented
           [put ''if (initObj === null) {'',
            indented
              [put (''// initObj === null is a special case for deserialization where we don'' @ [squote] @ ''t initialize fields''),
               wfor (ns_fields s) (\<lambda>f. put (''this.'' @ f_name f @ '' = null;''))],
            put ''}'',
            put ''else {'',
            indented [wfor (ns_fields s) (write_msg_constructor_field (ms_package (ns_spec s)))],
            put ''}''],
         put ''}''],
      w_newline]"

definition get_message_path_from_field :: "field \<Rightarrow> string \<Rightarrow> string res" where
  "get_message_path_from_field f pkg = rbind (js_split_type f) (\<lambda>(field_pkg, ty).
     Inr (if field_pkg = pkg then ty else (field_pkg @ ''.msg.'' @ ty)))"

definition write_resolve_field :: "string \<Rightarrow> field \<Rightarrow> writing" where
  "write_resolve_field package f = (let name = f_name f in wseq
     [if \<not> f_is_builtin f then wseq
        [put (''if (msg.'' @ name @ '' !== undefined) {''),
         indented
           [if f_is_array f then
              (if f_array_len f = None then wseq
                 [put (''resolved.'' @ name @ '' = new Array(msg.'' @ name @ ''.length);''),
                  put (''for (let i = 0; i < resolved.'' @ name @ ''.length; ++i) {''),
                  indented
                    [sbind (slift (get_message_path_from_field f package)) (\<lambda>path.
                       put (''resolved.'' @ name @ ''[i] = '' @ path @ ''.Resolve(msg.'' @ name @ ''[i]);''))],
                  put ''}'']
               else wseq
                 [put (''resolved.'' @ name @ '' = new Array('' @ len_str f @ '')''),
                  put (''for (let i = 0; i < resolved.'' @ name @ ''.length; ++i) {''),
                  indented
                    [put (''if (msg.'' @ name @ ''.length > i) {''),
                     indented
                       [sbind (slift (get_message_path_from_field f package)) (\<lambda>path.
                          put (''resolved.'' @ name @ ''[i] = '' @ path @ ''.Resolve(msg.'' @ name @ ''[i]);''))],
                     put ''}'',
                     put ''else {'',
                     indented
                       [sbind (slift (get_message_path_from_field f package)) (\<lambda>path.
                          put (''resolved.'' @ name @ ''[i] = new '' @ path @ ''();''))],
                     put ''}''],
                  put ''}''])
            else sbind (slift (get_message_path_from_field f package)) (\<lambda>path.
              put (''resolved.'' @ name @ '' = '' @ path @ ''.Resolve(msg.'' @ name @ '')''))],
         put ''}'',
         put ''else {'',
         indented [put_default ''resolved'' f package []],
         put ''}'']
      else wseq
        [put (''if (msg.'' @ name @ '' !== undefined) {''),
         indented [put (''resolved.'' @ name @ '' = msg.'' @ name @ '';'')],
         put ''}'',
         put ''else {'',
         indented [put_default ''resolved'' f package []],
         put ''}''],
      w_newline])"

definition write_resolve :: "named_spec \<Rightarrow> writing" where
  "write_resolve s = indented
     [put ''static Resolve(msg) {'',
      indented
        [put ''// deep-construct a valid message object instance of whatever was passed in'',
         put (''if (typeof msg !== '' @ [squote] @ ''object'' @ [squote] @ '' || msg === null) {''),
         indented [put ''msg = {};''],
         put ''}'',
         put (''const resolved = new '' @ ms_short_name (ns_spec s) @ ''(null);''),
         wfor (ns_fields s) (write_resolve_field (ms_package (ns_spec s))),
         put ''return resolved;'',
         put ''}'']]"

definition js_write_constants :: "(pyfloat \<Rightarrow> string) \<Rightarrow> named_spec \<Rightarrow> writing" where
  "js_write_constants fl s = wwhen (ms_constants (ns_spec s) \<noteq> []) (wseq
     [put ''// Constants for message'',
      put (ms_short_name (ns_spec s) @ ''.Constants = {''),
      indented
        [wfor (ms_constants (ns_spec s)) (\<lambda>c. (let name = py_upper (c_name c); val = c_val c in
           if js_is_string (c_type c) then put (name @ '': '' @ [squote] @ constant_str fl val @ [squote] @ '','')
           else if js_is_bool (c_type c) then
             put (name @ '': '' @ (if val = BoolVal False then ''false'' else ''true'') @ '','')
           else put (name @ '': '' @ constant_str fl val @ '','')))],
      put ''}'',
      w_newline])"

definition write_end :: "(pyfloat \<Rightarrow> string) \<Rightarrow> named_spec \<Rightarrow> writing" where
  "write_end fl s = wseq
     [put ''};'',
      w_newline,
      js_write_constants fl s,
      put (''module.exports = '' @ actual_name s @ '';'')]"

section \<open>Serialization\<close>

definition write_serialize_base :: "string \<Rightarrow> writing" where
  "write_serialize_base rest = put (''bufferOffset = '' @ rest @ '';'')"

definition js_write_serialize_length :: "string \<Rightarrow> writing" where
  "js_write_serialize_length name = wseq
     [put (''// Serialize the length for message field ['' @ name @ '']''),
      write_serialize_base (''_serializer.uint32(obj.'' @ name @ ''.length, buffer, bufferOffset)'')]"

definition write_serialize_length_check :: "field \<Rightarrow> writing" where
  "write_serialize_length_check f = wseq
     [put (''// Check that the constant length array field ['' @ f_name f @ ''] has the right length''),
      put (''if (obj.'' @ f_name f @ ''.length !== '' @ len_str f @ '') {''),
      indented [put (''throw new Error('' @ [squote] @ ''Unable to serialize array field '' @ f_name f @ '' - length must be '' @ len_str f @ [squote] @ '')'')],
      put ''}'']"

definition js_len :: "field \<Rightarrow> string" where
  "js_len f = (if f_array_len f = None then ''null'' else len_str f)"

definition js_write_serialize_builtin :: "field \<Rightarrow> writing" where
  "js_write_serialize_builtin f =
     (if f_is_array f then write_serialize_base (''_arraySerializer.'' @ f_base_type f @ ''(obj.'' @ f_name f @ '', buffer, bufferOffset, '' @ js_len f @ '')'')
      else write_serialize_base (''_serializer.'' @ f_base_type f @ ''(obj.'' @ f_name f @ '', buffer, bufferOffset)''))"

definition write_serialize_complex :: "field \<Rightarrow> string \<Rightarrow> writing" where
  "write_serialize_complex f thisPackage = sbind (slift (js_split_type f)) (\<lambda>(package, ty).
     let samePackage = (package = thisPackage) in
     if f_is_array f then wseq
       [wwhen (f_array_len f = None) (js_write_serialize_length (f_name f)),
        put (''obj.'' @ f_name f @ ''.forEach((val) => {''),
        indented
          [if samePackage then write_serialize_base (ty @ ''.serialize(val, buffer, bufferOffset)'')
           else write_serialize_base (package @ ''.msg.'' @ ty @ ''.serialize(val, buffer, bufferOffset)'')],
        put ''});'']
     else if samePackage then write_serialize_base (ty @ ''.serialize(obj.'' @ f_name f @ '', buffer, bufferOffset)'')
     else write_serialize_base (package @ ''.msg.'' @ ty @ ''.serialize(obj.'' @ f_name f @ '', buffer, bufferOffset)''))"

definition js_write_serialize_field :: "string \<Rightarrow> field \<Rightarrow> writing" where
  "js_write_serialize_field package f = wseq
     [wwhen (f_is_array f) (wwhen (f_array_len f \<noteq> None) (write_serialize_length_check f)),
      put (''// Serialize message field ['' @ f_name f @ '']''),
      if f_is_builtin f then js_write_serialize_builtin f else write_serialize_complex f package]"

definition js_write_serialize :: "named_spec \<Rightarrow> writing" where
  "js_write_serialize s = indented
     [put ''static serialize(obj, buffer, bufferOffset) {'',
      indented
        [put (''// Serializes a message object of type '' @ ms_short_name (ns_spec s)),
         wfor (ns_fields s) (js_write_serialize_field (ms_package (ns_spec s))),
         put ''return bufferOffset;''],
      put ''}'',
      w_newline]"

section \<open>Deserialization\<close>

definition js_write_deserialize_length :: "string \<Rightarrow> writing" where
  "js_write_deserialize_length name = wseq
     [put (''// Deserialize array length for message field ['' @ name @ '']''),
      put ''len = _deserializer.uint32(buffer, bufferOffset);'']"

definition write_deserialize_complex :: "field \<Rightarrow> string \<Rightarrow> writing" where
  "write_deserialize_complex f thisPackage = sbind (slift (js_split_type f)) (\<lambda>(package, ty).
     let samePackage = (package = thisPackage) in
     if f_is_array f then wseq
       [if f_array_len f = None then js_write_deserialize_length (f_name f) else put (''len = '' @ len_str f @ '';''),
        put (''data.'' @ f_name f @ '' = new Array(len);''),
        put ''for (let i = 0; i < len; ++i) {'',
        indented
          [if samePackage then put (''data.'' @ f_name f @ ''[i] = '' @ ty @ ''.deserialize(buffer, bufferOffset)'')
           else put (''data.'' @ f_name f @ ''[i] = '' @ package @ ''.msg.'' @ ty @ ''.deserialize(buffer, bufferOffset)'')],
        put ''}'']
     else if samePackage then put (''data.'' @ f_name f @ '' = '' @ ty @ ''.deserialize(buffer, bufferOffset);'')
     else put (''data.'' @ f_name f @ '' = '' @ package @ ''.msg.'' @ ty @ ''.deserialize(buffer, bufferOffset);''))"

definition js_write_deserialize_builtin :: "field \<Rightarrow> writing" where
  "js_write_deserialize_builtin f =
     (if f_is_array f then put (''data.'' @ f_name f @ '' = _arrayDeserializer.'' @ f_base_type f @ ''(buffer, bufferOffset, '' @ js_len f @ '')'')
      else put (''data.'' @ f_name f @ '' = _deserializer.'' @ f_base_type f @ ''(buffer, bufferOffset);''))"

definition js_write_deserialize_field :: "string \<Rightarrow> field \<Rightarrow> writing" where
  "js_write_deserialize_field package f = wseq
     [put (''// Deserialize message field ['' @ f_name f @ '']''),
      if f_is_builtin f then js_write_deserialize_builtin f else write_deserialize_complex f package]"

definition js_write_deserialize :: "named_spec \<Rightarrow> writing" where
  "js_write_deserialize s = indented
     [put ''static deserialize(buffer, bufferOffset=[0]) {'',
      indented
        [put (''//deserializes a message object of type '' @ ms_short_name (ns_spec s)),
         put ''let len;'',
         put (''let data = new '' @ ms_short_name (ns_spec s) @ ''(null);''),
         wfor (ns_fields s) (js_write_deserialize_field (ms_package (ns_spec s))),
         put ''return data;''],
      put ''}'',
      w_newline]"

section \<open>The size method\<close>

definition js_field_size :: "nat \<Rightarrow> world \<Rightarrow> search_path \<Rightarrow> field \<Rightarrow> int option res" where
  "js_field_size k w search_path f =
     (if f_is_builtin f then Inr (get_type_size (f_base_type f))
      else rbind (js_load w search_path (f_base_type f)) (get_message_fixed_size k w search_path))"

text \<open>The line that adds the size of an element, or of a field, whose size is not constant.\<close>

definition js_dynamic_line :: "string \<Rightarrow> field \<Rightarrow> string \<Rightarrow> string \<Rightarrow> string res" where
  "js_dynamic_line this f string_line query =
     (if f_is_builtin f then
        (if \<not> js_is_string (f_base_type f) then Inl PyException else Inr string_line)
      else rbind (js_split_type f) (\<lambda>(package, ty).
        Inr (if this = package then (''length += '' @ ty @ ''.getMessageSize('' @ query @ '');'')
             else (''length += '' @ package @ ''.msg.'' @ ty @ ''.getMessageSize('' @ query @ '');''))))"

definition js_size_field :: "nat \<Rightarrow> world \<Rightarrow> search_path \<Rightarrow> string \<Rightarrow> int \<Rightarrow> field \<Rightarrow> (writer, int) act" where
  "js_size_field k w search_path this len f = (let name = f_name f in
     sbind (slift (js_field_size k w search_path f)) (\<lambda>field_size.
       if f_is_array f then
         (if \<not> no_len f \<and> field_size \<noteq> None then sret (len + the field_size * the (f_array_len f))
          else sbind
            (case field_size of
               Some n \<Rightarrow> if n = 1 then put (''length += object.'' @ name @ ''.length;'')
                         else put (''length += '' @ str_of_int n @ '' * object.'' @ name @ ''.length;'')
             | None \<Rightarrow> sbind (slift (js_dynamic_line this f ''length += 4 + val.length;'' ''val'')) (\<lambda>line_to_write. wseq
                 [put (''object.'' @ name @ ''.forEach((val) => {''),
                  indented [put line_to_write],
                  put ''});''])) (\<lambda>_.
            sret (if no_len f then len + 4 else len)))
       else case field_size of
         Some n \<Rightarrow> sret (len + n)
       | None \<Rightarrow>
           sbind (slift (js_dynamic_line this f (''length += object.'' @ name @ ''.length;'') (''object.'' @ name))) (\<lambda>line_to_write.
           sbind (put line_to_write) (\<lambda>_.
           sret (if f_is_builtin f then len + 4 else len)))))"

definition write_get_message_size :: "nat \<Rightarrow> world \<Rightarrow> search_path \<Rightarrow> named_spec \<Rightarrow> writing" where
  "write_get_message_size k w search_path s = indented
     [put ''static getMessageSize(object) {'',
      sbind (slift (get_message_fixed_size k w search_path (ns_spec s))) (\<lambda>msg_size.
        case msg_size of
          Some n \<Rightarrow> indented [put (''return '' @ str_of_int n @ '';'')]
        | None \<Rightarrow> indented
            [put ''let length = 0;'',
             sbind (sfoldl (js_size_field k w search_path (ms_package (ns_spec s))) 0 (ns_fields s)) (\<lambda>len.
               if 0 < len then put (''return length + '' @ str_of_int len @ '';'') else put ''return length;'')]),
      put ''}'',
      w_newline]"

section \<open>Indexes\<close>

definition write_package_index :: "bool \<Rightarrow> bool \<Rightarrow> writing" where
  "write_package_index msgExists srvExists = wseq
     [put ([dquote] @ ''use strict'' @ [dquote] @ '';''),
      w_newline,
      put ''module.exports = {'',
      indented
        [wwhen msgExists (put (''msg: require('' @ [squote] @ ''./msg/_index.js'' @ [squote] @ ''),'')),
         wwhen srvExists (put (''srv: require('' @ [squote] @ ''./srv/_index.js'' @ [squote] @ '')''))],
      put ''};'',
      w_newline]"

definition write_msg_index :: "string list \<Rightarrow> writing" where
  "write_msg_index msgs = wseq
     [put ([dquote] @ ''use strict'' @ [dquote] @ '';''),
      w_newline,
      wfor msgs (\<lambda>msg. put (''let '' @ msg @ '' = require('' @ [squote] @ ''./'' @ msg @ ''.js'' @ [squote] @ '');'')),
      w_newline,
      put ''module.exports = {'',
      indented [wfor msgs (\<lambda>msg. put (msg @ '': '' @ msg @ '',''))],
      put ''};'',
      w_newline]"

definition write_srv_index :: "string list \<Rightarrow> writing" where
  "write_srv_index srvs = wseq
     [put ([dquote] @ ''use strict'' @ [dquote] @ '';''),
      w_newline,
      wfor srvs (\<lambda>srv. put (''let '' @ srv @ '' = require('' @ [squote] @ ''./'' @ srv @ ''.js'' @ [squote] @ '')'')),
      w_newline,
      put ''module.exports = {'',
      indented [wfor srvs (\<lambda>srv. put (srv @ '': '' @ srv @ '',''))],
      put ''};'',
      w_newline]"

section \<open>Properties of the class\<close>

definition js_write_ros_datatype :: "named_spec \<Rightarrow> writing" where
  "js_write_ros_datatype s = indented
     [put ''static datatype() {'',
      indented
        [put (''// Returns string type for a '' @ component_type s @ '' object''),
         put (''return '' @ [squote] @ ms_full_name (ns_spec s) @ [squote] @ '';'')],
      put ''}'',
      w_newline]"

definition js_write_md5sum :: "nat \<Rightarrow> (string \<Rightarrow> string) \<Rightarrow> msg_context \<Rightarrow> any_spec \<Rightarrow> writing" where
  "js_write_md5sum k H ctx hashed = sbind (slift (compute_md5 k H ctx hashed)) (\<lambda>md5sum. indented
     [put ''static md5sum() {'',
      indented
        [put ''//Returns md5sum for a message object'',
         put (''return '' @ [squote] @ md5sum @ [squote] @ '';'')],
      put ''}'',
      w_newline])"

definition js_write_message_definition :: "nat \<Rightarrow> msg_context \<Rightarrow> named_spec \<Rightarrow> writing" where
  "js_write_message_definition k ctx s = indented
     [put ''static messageDefinition() {'',
      indented
        [put ''// Returns full string definition for message'',
         sbind (slift (compute_full_text k ctx (Msg (ns_spec s)))) (\<lambda>d. wseq
           [put ''return `'',
            wfor (split_on newline d) put,
            put ''`;''])],
      put ''}'',
      w_newline]"

section \<open>Files\<close>

definition js_message_file :: "nat \<Rightarrow> js_env \<Rightarrow> world \<Rightarrow> search_path \<Rightarrow> msg_context \<Rightarrow> named_spec \<Rightarrow> writing" where
  "js_message_file k env w search_path ctx s = wseq
     [js_write_begin (ms_package (ns_spec s)) False,
      sbind (write_requires env (ns_spec s) None None False) (\<lambda>_. sret ()),
      write_class s,
      js_write_serialize s,
      js_write_deserialize s,
      write_get_message_size k w search_path s,
      js_write_ros_datatype s,
      js_write_md5sum k (le_hash (je_base env)) ctx (Msg (ns_spec s)),
      js_write_message_definition k ctx s,
      write_resolve s,
      write_end (le_float (je_base env)) s]"

definition js_write_srv_component :: "nat \<Rightarrow> js_env \<Rightarrow> world \<Rightarrow> search_path \<Rightarrow> msg_context \<Rightarrow> named_spec \<Rightarrow> writing" where
  "js_write_srv_component k env w search_path ctx s0 = (let s = s0\<lparr>component_type := ''service''\<rparr> in wseq
     [write_class s,
      js_write_serialize s,
      js_write_deserialize s,
      write_get_message_size k w search_path s,
      js_write_ros_datatype s,
      js_write_md5sum k (le_hash (je_base env)) ctx (Msg (ns_spec s)),
      js_write_message_definition k ctx s,
      write_resolve s,
      put ''};'',
      w_newline,
      js_write_constants (le_float (je_base env)) s])"

definition write_srv_end :: "nat \<Rightarrow> (string \<Rightarrow> string) \<Rightarrow> msg_context \<Rightarrow> srvspec \<Rightarrow> writing" where
  "write_srv_end k H ctx spec = (let name = ss_short_name spec in wseq
     [put ''module.exports = {'',
      indented
        [put (''Request: '' @ name @ ''Request,''),
         put (''Response: '' @ name @ ''Response,''),
         sbind (slift (compute_md5 k H ctx (Srv spec))) (\<lambda>md5sum.
           put (''md5sum() { return '' @ [squote] @ md5sum @ [squote] @ ''; },'')),
         put (''datatype() { return '' @ [squote] @ ss_full_name spec @ [squote] @ ''; }'')],
      put ''};'',
      w_newline])"

definition js_service_file :: "nat \<Rightarrow> js_env \<Rightarrow> world \<Rightarrow> search_path \<Rightarrow> msg_context \<Rightarrow> srvspec \<Rightarrow> writing" where
  "js_service_file k env w search_path ctx spec =
     (let name = ss_short_name spec;
          request = \<lparr>ns_spec = ss_request spec, actual_name = name @ ''Request'', component_type = ''service''\<rparr>;
          response = \<lparr>ns_spec = ss_response spec, actual_name = name @ ''Response'', component_type = ''service''\<rparr>
      in wseq
     [js_write_begin (ss_package spec) True,
      sbind (write_requires env (ss_request spec) None None True) (\<lambda>(found_packages, local_deps).
      sbind (write_requires env (ss_response spec) (Some found_packages) (Some local_deps) True) (\<lambda>_. sret ())),
      js_write_srv_component k env w search_path ctx request,
      js_write_srv_component k env w search_path ctx response,
      write_srv_end k (le_hash (je_base env)) ctx spec])"

definition js_msg_list :: "js_env \<Rightarrow> string \<Rightarrow> search_path \<Rightarrow> string \<Rightarrow> string list res" where
  "js_msg_list env pkg search_path ext =
     rbind (of_option (KeyError pkg) (search_path pkg)) (\<lambda>dir_list.
     rbind (rmap (\<lambda>d. rbind (of_option (IOError d) (le_listdir (je_base env) d)) (\<lambda>fs. Inr (filter (\<lambda>f. endswith f ext) fs))) dir_list)
       (\<lambda>fs. Inr (map (\<lambda>f. slice_to f (- int (length ext))) (concat fs))))"

text \<open>\<open>os.path.exists\<close>, after the files that were written.\<close>

definition js_exists :: "js_env \<Rightarrow> lisp_state \<Rightarrow> string \<Rightarrow> bool" where
  "js_exists env s path \<longleftrightarrow> je_exists env path \<or> path \<in> fst ` set (ls_files s)"

definition js_put_package_index :: "js_env \<Rightarrow> string \<Rightarrow> (lisp_state, unit) act" where
  "js_put_package_index env package_dir =
     sbind (sgets (\<lambda>s. js_exists env s (path_join package_dir ''msg/_index.js''))) (\<lambda>msgExists.
     sbind (sgets (\<lambda>s. js_exists env s (path_join package_dir ''srv/_index.js''))) (\<lambda>srvExists.
     sbind (slift (written (write_package_index msgExists srvExists))) (\<lambda>t.
     put_file (package_dir @ ''/_index.js'') t)))"

definition js_generate_msg_from_spec :: "nat \<Rightarrow> js_env \<Rightarrow> world \<Rightarrow> msgspec \<Rightarrow> search_path \<Rightarrow> string \<Rightarrow> string
    \<Rightarrow> (lisp_state, unit) act" where
  "js_generate_msg_from_spec k env w spec search_path output_dir package =
     (let s = \<lparr>ns_spec = spec, actual_name = ms_short_name spec, component_type = ''message''\<rparr> in
      sbind (on_msgs (load_depends k w (Msg spec) search_path)) (\<lambda>_.
      sbind (slift (js_msg_list env package search_path EXT_MSG)) (\<lambda>msgs.
      sbind (sfoldl (\<lambda>_ m. sbind (on_msgs (load_msg_by_type w (package @ ''/'' @ m) search_path)) (\<lambda>_. sret ())) () msgs) (\<lambda>_.
      sbind (sgets ls_ctx) (\<lambda>ctx.
      sbind (slift (written (js_message_file k env w search_path ctx s))) (\<lambda>t.
      sbind (put_file (output_dir @ ''/'' @ ms_short_name spec @ ''.js'') (t @ [newline])) (\<lambda>_.
      sbind (slift (written (write_msg_index msgs))) (\<lambda>t.
      sbind (put_file (output_dir @ ''/_index.js'') t) (\<lambda>_.
      js_put_package_index env (path_dirname output_dir))))))))))"

definition js_generate_srv_from_spec :: "nat \<Rightarrow> js_env \<Rightarrow> world \<Rightarrow> srvspec \<Rightarrow> search_path \<Rightarrow> string \<Rightarrow> string \<Rightarrow> string
    \<Rightarrow> (lisp_state, unit) act" where
  "js_generate_srv_from_spec k env w spec search_path output_dir package path =
     (let srv_path = path_dirname path in
      sbind (on_msgs (load_depends k w (Srv spec) search_path)) (\<lambda>_.
      sbind (slift (js_msg_list env package [package \<mapsto> [srv_path]] EXT_SRV)) (\<lambda>srvs.
      sbind (sfoldl (\<lambda>_ srv. sbind (on_msgs (load_srv_from_file w (srv_path @ ''/'' @ srv @ EXT_SRV) (package @ ''/'' @ srv))) (\<lambda>_. sret ())) () srvs) (\<lambda>_.
      sbind (sgets ls_ctx) (\<lambda>ctx.
      sbind (slift (written (js_service_file k env w search_path ctx spec))) (\<lambda>t.
      sbind (put_file (output_dir @ ''/'' @ ss_short_name spec @ ''.js'') t) (\<lambda>_.
      sbind (slift (written (write_srv_index srvs))) (\<lambda>t.
      sbind (put_file (output_dir @ ''/_index.js'') t) (\<lambda>_.
      js_put_package_index env (path_dirname output_dir))))))))))"

definition js_generate_msg :: "nat \<Rightarrow> js_env \<Rightarrow> world \<Rightarrow> string \<Rightarrow> string list \<Rightarrow> string \<Rightarrow> search_path \<Rightarrow> (lisp_state, unit) act" where
  "js_generate_msg k env w pkg fs out_dir search_path =
     sbind (sbind (slift (create_default w)) (\<lambda>ctx. smodify (\<lambda>s. s\<lparr>ls_ctx := ctx\<rparr>))) (\<lambda>_.
     sfoldl (\<lambda>_ f0. let f = le_abspath (je_base env) f0 in
       sbind (slift (compute_full_type_name pkg (path_basename f))) (\<lambda>full_type.
       sbind (on_msgs (load_msg_from_file w f full_type)) (\<lambda>spec.
       js_generate_msg_from_spec k env w spec search_path out_dir pkg))) () fs)"

definition js_generate_srv :: "nat \<Rightarrow> js_env \<Rightarrow> world \<Rightarrow> string \<Rightarrow> string list \<Rightarrow> string \<Rightarrow> search_path \<Rightarrow> (lisp_state, unit) act" where
  "js_generate_srv k env w pkg fs out_dir search_path =
     sbind (sbind (slift (create_default w)) (\<lambda>ctx. smodify (\<lambda>s. s\<lparr>ls_ctx := ctx\<rparr>))) (\<lambda>_.
     sfoldl (\<lambda>_ f0. let f = le_abspath (je_base env) f0 in
       sbind (slift (compute_full_type_name pkg (path_basename f))) (\<lambda>full_type.
       sbind (on_msgs (load_srv_from_file w f full_type)) (\<lambda>spec.
       js_generate_srv_from_spec k env w spec search_path out_dir pkg f))) () fs)"

end
