(* ===== verification/Gennodejs_Sizes.thy ===== *)
theory Gennodejs_Sizes
  imports Gennodejs
begin

text \<open>
  The sizes that the Node.js generator computes for messages of fixed size, against the size on the
  wire: which messages have a fixed size, that the computation ends, and what it counts.
\<close>

section \<open>Sizes\<close>

definition js_nested :: "world \<Rightarrow> search_path \<Rightarrow> msgspec \<Rightarrow> msgspec \<Rightarrow> bool" where
  "js_nested w sp spec s \<longleftrightarrow> (\<exists>f \<in> set (ms_parsed_fields spec). \<not> f_is_builtin f \<and> js_load w sp (f_base_type f) = Inr s)"

definition js_variable_field :: "field \<Rightarrow> bool" where
  "js_variable_field f \<longleftrightarrow> f_base_type f = ''string'' \<or> f_is_array f \<and> no_len f"

inductive js_variable :: "world \<Rightarrow> search_path \<Rightarrow> msgspec \<Rightarrow> bool" for w sp where
  direct: "f \<in> set (ms_parsed_fields spec) \<Longrightarrow> js_variable_field f \<Longrightarrow> js_variable w sp spec"
| inside: "js_nested w sp spec s \<Longrightarrow> js_variable w sp s \<Longrightarrow> js_variable w sp spec"

inductive_simps js_variable_iff: "js_variable w sp spec"

text \<open>A message that is the element of an array, at any depth.\<close>

inductive js_message_array :: "world \<Rightarrow> search_path \<Rightarrow> msgspec \<Rightarrow> bool" for w sp where
  direct: "f \<in> set (ms_parsed_fields spec) \<Longrightarrow> \<not> f_is_builtin f \<Longrightarrow> f_is_array f \<Longrightarrow> js_message_array w sp spec"
| inside: "js_nested w sp spec s \<Longrightarrow> js_message_array w sp s \<Longrightarrow> js_message_array w sp spec"

text \<open>The size of a message when a field with a nested message counts \<open>weight\<close> times its size. On the wire it
  counts once for each element.\<close>

definition js_builtin_size :: "field \<Rightarrow> int \<Rightarrow> bool" where
  "js_builtin_size f n \<longleftrightarrow> \<not> js_variable_field f \<and>
     (\<exists>m. get_type_size (f_base_type f) = Some m \<and> n = (if f_is_array f then the (f_array_len f) * m else m))"

inductive js_size :: "(field \<Rightarrow> int) \<Rightarrow> world \<Rightarrow> search_path \<Rightarrow> msgspec \<Rightarrow> int \<Rightarrow> bool" for weight w sp where
  "list_all2 (\<lambda>f n. f_is_builtin f \<and> js_builtin_size f n \<or>
     \<not> f_is_builtin f \<and> (\<exists>s m. js_load w sp (f_base_type f) = Inr s \<and> js_size weight w sp s m \<and> n = weight f * m))
     (ms_parsed_fields spec) ns \<Longrightarrow> js_size weight w sp spec (sum_list ns)"

definition wire_count :: "field \<Rightarrow> int" where
  "wire_count f = (if f_is_array f then the (f_array_len f) else 1)"

section \<open>Which messages have a fixed size\<close>

lemma js_all_fixed_meaning:
  "js_all_fixed w sp rec fs = Inr b \<Longrightarrow> (\<And>s b'. rec s = Inr b' \<Longrightarrow> b' \<longleftrightarrow> \<not> V s) \<Longrightarrow>
   b \<longleftrightarrow> \<not> (\<exists>f \<in> set fs. \<exists>s. js_load w sp (f_base_type f) = Inr s \<and> V s)"
  by (induction fs) (auto simp: rbind_eq_Inr split: if_splits)

lemma is_message_fixed_size_step:
  "is_message_fixed_size (Suc k) w sp spec =
     (if \<exists>f \<in> set (ms_parsed_fields spec). js_variable_field f then Inr False
      else if \<forall>f \<in> set (ms_parsed_fields spec). f_is_builtin f then Inr True
      else js_all_fixed w sp (is_message_fixed_size k w sp) (filter (\<lambda>f. \<not> f_is_builtin f) (ms_parsed_fields spec)))"
proof -
  let ?fs = "ms_parsed_fields spec"
  have "(\<exists>f \<in> set ?fs. js_variable_field f) \<longleftrightarrow>
      ''string'' \<in> f_base_type ` set ?fs \<or> True \<in> (\<lambda>f. f_is_array f \<and> no_len f) ` set ?fs"
    unfolding js_variable_field_def image_iff by metis
  moreover have "(\<forall>f \<in> set ?fs. f_is_builtin f) \<longleftrightarrow> False \<notin> f_is_builtin ` set ?fs" unfolding image_iff by metis
  ultimately show ?thesis by (simp only: is_message_fixed_size.simps Let_def set_map) presburger
qed

declare is_message_fixed_size.simps(2) [simp del]

lemma is_message_fixed_size_meaning:
  "is_message_fixed_size k w sp spec = Inr b \<Longrightarrow> b \<longleftrightarrow> \<not> js_variable w sp spec"
proof (induction k arbitrary: spec b)
  case (Suc k)
  let ?fs = "ms_parsed_fields spec"
  have iff: "js_variable w sp spec \<longleftrightarrow> (\<exists>f \<in> set ?fs. js_variable_field f) \<or> (\<exists>s. js_nested w sp spec s \<and> js_variable w sp s)"
    using js_variable_iff [of w sp spec] by blast
  show ?case
  proof (cases "(\<exists>f \<in> set ?fs. js_variable_field f) \<or> (\<forall>f \<in> set ?fs. f_is_builtin f)")
    case True
    then show ?thesis using Suc.prems unfolding is_message_fixed_size_step iff by (auto simp: js_nested_def split: if_splits)
  next
    case False
    then have no: "(\<exists>f \<in> set ?fs. js_variable_field f) = False" "(\<forall>f \<in> set ?fs. f_is_builtin f) = False" by simp_all
    have "js_all_fixed w sp (is_message_fixed_size k w sp) (filter (\<lambda>f. \<not> f_is_builtin f) ?fs) = Inr b"
      using Suc.prems unfolding is_message_fixed_size_step no if_False .
    from js_all_fixed_meaning [OF this Suc.IH] show ?thesis using False unfolding iff by (auto simp: js_nested_def)
  qed
qed simp

lemma js_all_fixed_ends:
  assumes "\<And>f s. f \<in> set fs \<Longrightarrow> js_load w sp (f_base_type f) = Inr s \<Longrightarrow> rec s \<noteq> Inl RecursionError"
    and "\<And>t. js_load w sp t \<noteq> Inl RecursionError"
  shows "js_all_fixed w sp rec fs \<noteq> Inl RecursionError"
  using assms(1)
proof (induction fs)
  case (Cons f fs)
  have "js_all_fixed w sp rec fs \<noteq> Inl RecursionError" using Cons by (metis list.set_intros(2))
  moreover have "js_load w sp (f_base_type f) = Inr s \<Longrightarrow> rec s \<noteq> Inl RecursionError" for s
    by (rule Cons.prems [OF list.set_intros(1)])
  ultimately show ?case using assms(2) [of "f_base_type f"] by (auto simp: rbind_def split: sum.splits)
qed simp

lemma create_default_ends: "create_default w \<noteq> Inl RecursionError"
proof
  assume "create_default w = Inl RecursionError"
  then have "RecursionError \<noteq> RecursionError"
    using load_msg_from_string_no_recursion_error
    by (auto simp: create_default_def rbind_def sbind_def split: prod.splits sum.splits)
  then show False by simp
qed

lemma js_load_ends: "js_load w sp t \<noteq> Inl RecursionError"
  using create_default_ends [of w] load_msg_by_type_no_recursion_error [of w t sp]
  by (auto simp: js_load_def rbind_def split: sum.splits)

lemma is_message_fixed_size_ends:
  assumes rank: "\<And>s s'. js_nested w sp s s' \<Longrightarrow> rank s' < (rank s :: nat)"
  shows "rank spec < k \<Longrightarrow> is_message_fixed_size k w sp spec \<noteq> Inl RecursionError"
proof (induction k arbitrary: spec)
  case (Suc k)
  have "js_all_fixed w sp (is_message_fixed_size k w sp) (filter (\<lambda>f. \<not> f_is_builtin f) (ms_parsed_fields spec)) \<noteq> Inl RecursionError"
  proof (rule js_all_fixed_ends)
    fix f s assume "f \<in> set (filter (\<lambda>f. \<not> f_is_builtin f) (ms_parsed_fields spec))" "js_load w sp (f_base_type f) = Inr s"
    then have "js_nested w sp spec s" by (auto simp: js_nested_def)
    then show "is_message_fixed_size k w sp s \<noteq> Inl RecursionError" using rank Suc by fastforce
  qed (rule js_load_ends)
  then show ?case unfolding is_message_fixed_size_step by auto
qed simp

section \<open>What the size counts\<close>

lemma js_add_size_sum:
  assumes "rfoldl (js_add_size w sp rec) len fs = Inr n" and "\<forall>f \<in> set fs. \<not> js_variable_field f"
    and rec: "\<And>s m. rec s = Inr (Some m) \<Longrightarrow> js_size weight w sp s m" and one: "\<And>f. weight f = 1"
  shows "\<exists>ns. n = len + sum_list ns \<and> list_all2 (\<lambda>f n. f_is_builtin f \<and> js_builtin_size f n \<or>
     \<not> f_is_builtin f \<and> (\<exists>s m. js_load w sp (f_base_type f) = Inr s \<and> js_size weight w sp s m \<and> n = weight f * m)) fs ns"
  using assms(1,2)
proof (induction fs arbitrary: len)
  case (Cons f fs)
  then obtain len' where l: "js_add_size w sp rec len f = Inr len'" "rfoldl (js_add_size w sp rec) len' fs = Inr n"
    by (auto simp: rbind_eq_Inr)
  then obtain ns where ns: "n = len' + sum_list ns" and all: "list_all2 (\<lambda>f n. f_is_builtin f \<and> js_builtin_size f n \<or>
     \<not> f_is_builtin f \<and> (\<exists>s m. js_load w sp (f_base_type f) = Inr s \<and> js_size weight w sp s m \<and> n = weight f * m)) fs ns"
    using Cons by fastforce
  have "f_is_builtin f \<and> js_builtin_size f (len' - len) \<or>
     \<not> f_is_builtin f \<and> (\<exists>s m. js_load w sp (f_base_type f) = Inr s \<and> js_size weight w sp s m \<and> len' - len = weight f * m)"
    using l(1) Cons.prems(2) rec one
    by (auto simp: js_add_size_def rbind_eq_Inr of_option_def js_builtin_size_def js_variable_field_def split: if_splits option.splits)
  then show ?case using ns all by (intro exI [of _ "(len' - len) # ns"]) simp
qed simp

lemma get_message_fixed_size_once:
  "get_message_fixed_size k w sp spec = Inr (Some n) \<Longrightarrow> js_size (\<lambda>_. 1) w sp spec n"
proof (induction k arbitrary: spec n)
  case (Suc k)
  then have f: "is_message_fixed_size k w sp spec = Inr True"
    and r: "rfoldl (js_add_size w sp (get_message_fixed_size k w sp)) 0 (ms_parsed_fields spec) = Inr n"
    by (auto simp: rbind_eq_Inr split: if_splits)
  have "\<forall>f \<in> set (ms_parsed_fields spec). \<not> js_variable_field f"
    using is_message_fixed_size_meaning [OF f] js_variable.direct by blast
  from js_add_size_sum [OF r this Suc.IH] show ?case using js_size.intros by fastforce
qed simp

lemma js_size_elements:
  "js_size (\<lambda>_. 1) w sp spec n \<Longrightarrow> \<not> js_message_array w sp spec \<Longrightarrow> js_size wire_count w sp spec n"
proof (induction rule: js_size.induct)
  case (1 spec ns)
  have no: "\<not> f_is_array f" "js_load w sp (f_base_type f) = Inr s \<Longrightarrow> \<not> js_message_array w sp s"
    if "f \<in> set (ms_parsed_fields spec)" "\<not> f_is_builtin f" for f s
    using 1(2) that unfolding js_nested_def [symmetric]
    by (meson js_message_array.intros js_nested_def)+
  show ?case
  proof (rule js_size.intros, rule list.rel_mono_strong [OF 1(1)])
    fix f n assume "f \<in> set (ms_parsed_fields spec)" and "f_is_builtin f \<and> js_builtin_size f n \<or>
      \<not> f_is_builtin f \<and> (\<exists>s m. js_load w sp (f_base_type f) = Inr s \<and>
        (js_size (\<lambda>_. 1) w sp s m \<and> (\<not> js_message_array w sp s \<longrightarrow> js_size wire_count w sp s m)) \<and> n = 1 * m)"
    then show "f_is_builtin f \<and> js_builtin_size f n \<or>
      \<not> f_is_builtin f \<and> (\<exists>s m. js_load w sp (f_base_type f) = Inr s \<and> js_size wire_count w sp s m \<and> n = wire_count f * m)"
      using no by (auto simp: wire_count_def)
  qed
qed

text \<open>Reading a message with rank \<open>r\<close> takes at most \<open>r + 1\<close> nested calls of each function.\<close>

lemma rfoldl_ends:
  "(\<And>acc x. x \<in> set xs \<Longrightarrow> f acc x \<noteq> Inl RecursionError) \<Longrightarrow> rfoldl f acc xs \<noteq> Inl RecursionError"
  by (induction xs arbitrary: acc) (auto simp: rbind_def split: sum.splits)

lemma get_message_fixed_size_ends:
  assumes rank: "\<And>s s'. js_nested w sp s s' \<Longrightarrow> rank s' < (rank s :: nat)"
  shows "Suc (rank spec) < k \<Longrightarrow> get_message_fixed_size k w sp spec \<noteq> Inl RecursionError"
proof (induction k arbitrary: spec)
  case (Suc k)
  have "rfoldl (js_add_size w sp (get_message_fixed_size k w sp)) 0 (ms_parsed_fields spec) \<noteq> Inl RecursionError"
  proof (rule rfoldl_ends)
    fix len f assume f: "f \<in> set (ms_parsed_fields spec)"
    have "get_message_fixed_size k w sp s \<noteq> Inl RecursionError" if "\<not> f_is_builtin f" "js_load w sp (f_base_type f) = Inr s" for s
    proof -
      have "js_nested w sp spec s" using that f by (auto simp: js_nested_def)
      then show ?thesis using rank Suc by fastforce
    qed
    then show "js_add_size w sp (get_message_fixed_size k w sp) len f \<noteq> Inl RecursionError"
      using js_load_ends [of w sp "f_base_type f"]
      by (auto simp: js_add_size_def rbind_def of_option_def split: sum.splits option.splits)
  qed
  moreover have "is_message_fixed_size k w sp spec \<noteq> Inl RecursionError"
    using is_message_fixed_size_ends [of w sp rank spec k] rank Suc.prems by simp
  ultimately show ?case by (auto simp: rbind_def split: sum.splits)
qed simp

lemma get_message_fixed_size_None:
  assumes "get_message_fixed_size k w sp spec = Inr r" shows "r = None \<longleftrightarrow> js_variable w sp spec"
proof -
  obtain j where k: "k = Suc j" using assms by (cases k) auto
  obtain b where b: "is_message_fixed_size j w sp spec = Inr b" "r = None \<longleftrightarrow> \<not> b"
    using assms by (auto simp: k rbind_eq_Inr split: if_splits)
  show ?thesis using is_message_fixed_size_meaning [OF b(1)] b(2) by blast
qed

end
