(* ===== verification/Gennodejs_Text.thy ===== *)
theory Gennodejs_Text
  imports Gennodejs Dynamic Genlisp_Text
begin

text \<open>
  What the file of a message requires in Node.js, and the definition that it stores: the text is written into a
  template literal with the indentation of the code, so it is not the text that \<open>genpy\<close> can read.
\<close>

section \<open>What is required\<close>

definition js_uses :: "field list \<Rightarrow> string \<Rightarrow> string \<Rightarrow> bool" where
  "js_uses fs p t \<longleftrightarrow> (\<exists>f \<in> set fs. \<not> f_is_builtin f \<and> js_split_type f = Inr (p, t))"

lemma js_uses_simps [simp]:
  "\<not> js_uses [] p t"
  "js_uses (f # fs) p t \<longleftrightarrow> \<not> f_is_builtin f \<and> js_split_type f = Inr (p, t) \<or> js_uses fs p t"
  "js_uses (fs @ gs) p t \<longleftrightarrow> js_uses fs p t \<or> js_uses gs p t"
  by (auto simp: js_uses_def)

lemma find_requires_loop:
  assumes "rfoldl (js_find_require package) (ps0, ds0) fs = Inr (ps, ds)"
  shows "(distinct ps0 \<longrightarrow> distinct ps) \<and> (distinct ds0 \<longrightarrow> distinct ds) \<and>
    (\<forall>p. p \<in> set ps \<longleftrightarrow> p \<in> set ps0 \<or> p \<noteq> package \<and> (\<exists>t. js_uses fs p t)) \<and>
    (package \<notin> set ps0 \<longrightarrow> (\<forall>t. t \<in> set ds \<longleftrightarrow> t \<in> set ds0 \<or> js_uses fs package t)) \<and>
    (\<forall>f \<in> set fs. \<not> f_is_builtin f \<longrightarrow> (\<exists>p t. js_split_type f = Inr (p, t)))"
  using assms
proof (induction fs arbitrary: ps0 ds0)
  case (Cons f fs)
  then obtain ps1 ds1 where l: "js_find_require package (ps0, ds0) f = Inr (ps1, ds1)"
    "rfoldl (js_find_require package) (ps1, ds1) fs = Inr (ps, ds)"
    by (auto simp: rbind_eq_Inr)
  note IH = Cons.IH [OF l(2)]
  show ?case
  proof (cases "f_is_builtin f")
    case True
    then have "ps1 = ps0" "ds1 = ds0" using l(1) by (simp_all add: js_find_require_def)
    then show ?thesis using IH True by simp
  next
    case False
    then obtain p t where pt: "js_split_type f = Inr (p, t)" using l(1) by (auto simp: js_find_require_def rbind_eq_Inr)
    have "(distinct ps0 \<longrightarrow> distinct ps1) \<and> (distinct ds0 \<longrightarrow> distinct ds1) \<and>
        set ps1 = set ps0 \<union> (if p \<noteq> package then {p} else {}) \<and>
        (package \<notin> set ps0 \<longrightarrow> set ds1 = set ds0 \<union> (if p = package then {t} else {}))"
      using l(1) False pt by (auto simp: js_find_require_def split: if_splits)
    then show ?thesis using IH pt False by (cases "p = package") (simp_all, blast+)
  qed
qed (auto simp: js_uses_def)

lemma find_requires_result:
  assumes "find_requires spec = Inr (ps, ds)"
  shows "distinct ps" "distinct ds" "p \<in> set ps \<longleftrightarrow> p \<noteq> ms_package spec \<and> (\<exists>t. js_uses (ms_parsed_fields spec) p t)"
    "t \<in> set ds \<longleftrightarrow> js_uses (ms_parsed_fields spec) (ms_package spec) t"
    "f \<in> set (ms_parsed_fields spec) \<Longrightarrow> \<not> f_is_builtin f \<Longrightarrow> \<exists>p t. js_split_type f = Inr (p, t)"
  using find_requires_loop [OF assms [unfolded find_requires_def]] by auto

text \<open>The names that the file of a service requires. The packages and the messages of the same package are
  required once each, by the request or by the response, and the ones required are exactly those of the
  fields: a path that the code uses for the type of a field starts with a name that is declared.\<close>

theorem js_requires_complete:
  assumes "js_requires req None None = Inr (ps1, ds1)" and "js_requires resp (Some ps1) (Some ds1) = Inr (ps2, ds2)"
    and "ms_package req = pkg" and "ms_package resp = pkg"
  shows "ps1 \<inter> ps2 = {} \<and> distinct (ds1 @ ds2) \<and>
    (\<forall>p. p \<in> ps1 \<union> ps2 \<longleftrightarrow> p \<noteq> pkg \<and> (\<exists>t. js_uses (ms_parsed_fields req @ ms_parsed_fields resp) p t)) \<and>
    (\<forall>t. t \<in> set (ds1 @ ds2) \<longleftrightarrow> js_uses (ms_parsed_fields req @ ms_parsed_fields resp) pkg t) \<and>
    (\<forall>f \<in> set (ms_parsed_fields req @ ms_parsed_fields resp). \<not> f_is_builtin f \<longrightarrow>
       (\<exists>t \<in> set (ds1 @ ds2). get_message_path_from_field f pkg = Inr t) \<or>
       (\<exists>p \<in> ps1 \<union> ps2. \<exists>t. get_message_path_from_field f pkg = Inr (p @ ''.msg.'' @ t)))"
proof -
  obtain a where a: "find_requires req = Inr (a, ds1)" "ps1 = set a" using assms(1) by (auto simp: js_requires_def rbind_eq_Inr)
  obtain b e where b: "find_requires resp = Inr (b, e)" "ps2 = set b - ps1" "ds2 = filter (\<lambda>d. d \<notin> set ds1) e"
    using assms(2) by (auto simp: js_requires_def rbind_eq_Inr)
  note r1 = find_requires_result [OF a(1), unfolded assms(3)] and r2 = find_requires_result [OF b(1), unfolded assms(4)]
  let ?fs = "ms_parsed_fields req @ ms_parsed_fields resp"
  have ps: "p \<in> ps1 \<union> ps2 \<longleftrightarrow> p \<noteq> pkg \<and> (\<exists>t. js_uses ?fs p t)" for p
    using a(2) b(2) r1(3) [of p] r2(3) [of p] by auto
  have ds: "t \<in> set (ds1 @ ds2) \<longleftrightarrow> js_uses ?fs pkg t" for t
    using b(3) r1(4) [of t] r2(4) [of t] by auto
  have "(\<exists>t \<in> set (ds1 @ ds2). get_message_path_from_field f pkg = Inr t) \<or>
      (\<exists>p \<in> ps1 \<union> ps2. \<exists>t. get_message_path_from_field f pkg = Inr (p @ ''.msg.'' @ t))"
    if f: "f \<in> set ?fs" "\<not> f_is_builtin f" for f
  proof -
    obtain p t where pt: "js_split_type f = Inr (p, t)" using f r1(5) [of f] r2(5) [of f] by auto
    then have u: "js_uses ?fs p t" using f unfolding js_uses_def by blast
    have path: "get_message_path_from_field f pkg = Inr (if p = pkg then t else p @ ''.msg.'' @ t)"
      using pt by (simp add: get_message_path_from_field_def)
    show ?thesis
    proof (cases "p = pkg")
      case True
      then show ?thesis using u ds [of t] path by (intro disjI1 bexI [of _ t]) simp_all
    next
      case False
      then have "p \<in> ps1 \<union> ps2" using u ps by blast
      then show ?thesis using path False by (intro disjI2 bexI [of _ p] exI [of _ t]) simp_all
    qed
  qed
  moreover have "ps1 \<inter> ps2 = {}" "distinct (ds1 @ ds2)" using b r1(2) r2(2) by auto
  ultimately show ?thesis using ps ds by blast
qed

definition demo_js_part :: "string list \<Rightarrow> msgspec" where
  "demo_js_part types = \<lparr>ms_types = types, ms_names = types, ms_constants = [], ms_header_present = False, ms_text = [],
     ms_full_name = ''m/S'', ms_short_name = ''S'', ms_package = ''m'',
     ms_parsed_fields = map (\<lambda>t. \<lparr>f_name = t, f_type = t, f_base_type = t, f_is_array = False, f_array_len = None,
       f_is_header = False, f_is_builtin = False\<rparr>) types\<rparr>"

theorem js_requires_complete_witness:
  "\<exists>ps1 ds1 ps2 ds2. js_requires (demo_js_part [''m/B'', ''p/C'']) None None = Inr (ps1, ds1) \<and>
     js_requires (demo_js_part [''m/B'', ''q/C'', ''m/D'']) (Some ps1) (Some ds1) = Inr (ps2, ds2) \<and>
     ps1 \<inter> ps2 = {} \<and> ''q'' \<in> ps1 \<union> ps2 \<and> distinct (ds1 @ ds2) \<and> ds2 = [''D'']"
proof -
  have r: "js_requires (demo_js_part [''m/B'', ''p/C'']) None None = Inr ({''p''}, [''B''])"
    "js_requires (demo_js_part [''m/B'', ''q/C'', ''m/D'']) (Some {''p''}) (Some [''B'']) = Inr ({''q''}, [''D''])"
    by code_simp+
  have p: "ms_package (demo_js_part ts) = ''m''" for ts by (simp add: demo_js_part_def)
  note c = js_requires_complete [OF r p p]
  have "{''p''} \<inter> {''q''} = ({} :: string set)" "distinct ([''B''] @ [''D''])"
    by (rule conjunct1 [OF c], rule conjunct1 [OF conjunct2 [OF c]])
  with r show ?thesis by (intro exI [of _ "{''p''}"] exI [of _ "[''B'']"] exI [of _ "{''q''}"] exI [of _ "[''D'']"] conjI) simp_all
qed

section \<open>The definition in a template literal\<close>

text \<open>The value of the first template literal of a text, for literals without escapes and substitutions.\<close>

abbreviation backtick :: char where "backtick \<equiv> CHR 0x60"
abbreviation dollar :: char where "dollar \<equiv> CHR 0x24"

fun template_body :: "string \<Rightarrow> string option" where
  "template_body [] = None"
| "template_body (c # cs) = (if c = backtick then Some []
     else if c = backslash \<or> c = dollar then None else map_option ((#) c) (template_body cs))"

definition js_template :: "string \<Rightarrow> string option" where
  "js_template t = template_body (drop 1 (dropWhile (\<lambda>c. c \<noteq> backtick) t))"

definition template_safe :: "string \<Rightarrow> bool" where
  "template_safe s \<longleftrightarrow> (\<forall>c \<in> set s. c \<notin> {backtick, backslash, dollar})"

lemma template_body_safe: "template_safe s \<Longrightarrow> template_body (s @ backtick # r) = Some s"
  by (induction s) (auto simp: template_safe_def)

text \<open>The lines of a definition with the indentation of the code.\<close>

definition indented_lines :: "string \<Rightarrow> string" where
  "indented_lines d = concat (map (\<lambda>l. newline # ''    '' @ l) (split_on newline d @ [[]]))"

lemma wfor_put:
  "\<not> block_indent w \<Longrightarrow> indentation w = 4 \<Longrightarrow>
   wfor ls put w = (Inr (), w\<lparr>w_text := w_text w @ concat (map (\<lambda>l. newline # ''    '' @ l) ls)\<rparr>)"
  by (induction ls arbitrary: w) (simp_all add: wfor_def w_write_apply sbind_def eval_nat_numeral)

lemma js_definition_text:
  assumes "compute_full_text k ctx (Msg (ns_spec s)) = Inr d" and "template_safe d"
  shows "\<exists>t. written (js_write_message_definition k ctx s) = Inr t \<and> js_template t = Some (indented_lines d)"
proof -
  let ?t = "newline # ''  static messageDefinition() {'' @ newline # ''    // Returns full string definition for message'' @
    newline # ''    return `'' @ indented_lines d @ ''`;'' @ newline # ''  }'' @ [newline]"
  have "js_write_message_definition k ctx s \<lparr>w_text = [], indentation = 0, block_indent = False\<rparr> =
      (Inr (), \<lparr>w_text = ?t, indentation = 0, block_indent = False\<rparr>)"
    using assms(1)
    by (simp add: js_write_message_definition_def with_indent_def wwhen_def inc_indent_def dec_indent_def w_newline_def
        w_write_apply sbind_def wfor_put eval_nat_numeral indented_lines_def)
  then have "written (js_write_message_definition k ctx s) = Inr ?t" by (simp add: written_def IndentedWriter_def)
  moreover have "template_safe (indented_lines d)"
    using assms(2) split_on_sub [of _ newline d] by (fastforce simp: template_safe_def indented_lines_def)
  then have "js_template ?t = Some (indented_lines d)" by (simp add: js_template_def template_body_safe)
  ultimately show ?thesis by blast
qed

lemma split_indented_lines: "split_on newline (indented_lines d) = [] # map (\<lambda>l. ''    '' @ l) (split_on newline d @ [[]])"
proof -
  have "split_on newline (concat (map (\<lambda>l. newline # ''    '' @ l) ls)) = [] # map (\<lambda>l. ''    '' @ l) ls"
    if "\<forall>l \<in> set ls. newline \<notin> set l" "ls \<noteq> []" for ls
    using that
  proof (induction ls)
    case (Cons l ls)
    then show ?case
    proof (cases "ls = []")
      case True
      then show ?thesis using Cons.prems by (simp del: split_on.simps(2) add: split_on.simps(2) [of _ newline])
    next
      case False
      then obtain r where r: "concat (map (\<lambda>l. newline # ''    '' @ l) ls) = newline # r" by (cases ls) auto
      have "split_on newline (newline # r) = [] # split_on newline r" by simp
      then have "split_on newline r = map (\<lambda>l. ''    '' @ l) ls" using Cons False r by simp
      moreover have "split_on newline ((''    '' @ l) @ newline # r) = (''    '' @ l) # split_on newline r"
        using Cons.prems by (intro split_on_append) auto
      ultimately show ?thesis using r by simp
    qed
  qed simp
  then show ?thesis unfolding indented_lines_def using split_on_no_sep by (metis Un_iff append_is_Nil_conv list.distinct(1) list.set(1) set_append empty_iff list.set(2) insert_iff)
qed

lemma load_line_indented_eqs: "load_line w p acc (''    '' @ eqs) = Inl InvalidMsgSpec"
proof -
  have "strip_comments (''    '' @ eqs) = eqs" "strip_comments eqs = eqs" "eqs \<noteq> []" "CONSTCHAR \<in> set eqs" "line_words eqs = [eqs]"
    "\<not> is_valid_constant_type eqs"
    by code_simp+
  then show ?thesis by (cases acc) (simp add: load_line_def load_constant_line_def Let_def)
qed

lemma indented_not_read:
  assumes "eqs \<in> set (split_on newline d)" shows "load_msg_from_string w (indented_lines d) n c \<noteq> (Inr s, c')"
proof
  assume l: "load_msg_from_string w (indented_lines d) n c = (Inr s, c')"
  obtain p b where r: "rfoldl (load_line w p) ([], [], []) (split_on newline (indented_lines d)) =
      Inr (ms_types s, ms_names s, ms_constants s)" by (rule load_msg_from_string_Inr [OF l])
  have "''    '' @ eqs \<in> set (split_on newline (indented_lines d))" unfolding split_indented_lines using assms by simp
  then show False using rfoldl_Inr_each [OF r] load_line_indented_eqs by fastforce
qed

lemma indented_no_sep: "\<not> contains dynamic_sep (indented_lines d)"
proof -
  have "\<forall>x \<in> set (split_on newline (indented_lines d)). x = [] \<or> CHR '' '' \<in> set x" unfolding split_indented_lines by auto
  moreover have "eqs \<noteq> []" "CHR '' '' \<notin> set eqs" by (simp_all add: eqs_def)
  ultimately have "eqs \<notin> set (split_on newline (indented_lines d))" by blast
  then show ?thesis using no_sep [of "indented_lines d"] by (metis append.assoc contains_iff)
qed

text \<open>The full text of a message with dependencies has a separator.\<close>

lemma full_text_eqs:
  assumes "get_all_depends n ctx (ms_full_name spec) = Inr ls" "ls \<noteq> []" and "compute_full_text n ctx (Msg spec) = Inr full"
  shows "eqs \<in> set (split_on newline full)"
proof -
  obtain d us where u: "unique_deps ls = d # us" using assms(2) set_unique_deps [of ls] by (cases "unique_deps ls") auto
  have "\<exists>(s :: msgspec) ps. full = slice_to (ms_text spec @ [newline] @ concat
      ((full_text_sep @ ''MSG: '' @ d @ [newline] @ ms_text s @ [newline]) # ps)) (- 1)"
    using assms(1,3) u by (auto simp: compute_full_text_def any_full_name_def any_text_def rbind_eq_Inr) (rule exI, rule exI, rule refl)
  then obtain s :: msgspec and ps where full: "full = slice_to (ms_text spec @ [newline] @ concat
      ((full_text_sep @ ''MSG: '' @ d @ [newline] @ ms_text s @ [newline]) # ps)) (- 1)" by (elim exE)
  have neg: "slice_to x (- 1) = butlast x" for x using slice_to_neg [of 1 x] by (simp add: butlast_conv_take)
  have "full = ms_text spec @ newline # eqs @ newline # butlast (''MSG: '' @ d @ [newline] @ ms_text s @ [newline] @ concat ps)"
    unfolding full neg full_text_sep_def eqs_def [symmetric] by (simp add: butlast_append)
  then have "split_on newline full = split_on newline (ms_text spec) @ split_on newline eqs @
      split_on newline (butlast (''MSG: '' @ d @ [newline] @ ms_text s @ [newline] @ concat ps))"
    by (simp only: split_on_append_sep)
  moreover have "split_on newline eqs = [eqs]" by (simp add: eqs_def)
  ultimately show ?thesis by simp
qed

end
