(* ===== verification/Gennodejs_Files.thy ===== *)
theory Gennodejs_Files
  imports Gennodejs_Sizes Gennodejs_Text Siblings
begin

text \<open>
  The run of the Node.js generator on the file of a message: what the loader has registered came from
  files, so it can be loaded again when the generator asks for the size of a message, and no writer raises.
\<close>

section \<open>Sizes that are computed\<close>

text \<open>A message whose nested messages can be loaded, to the depth \<open>n\<close>.\<close>

inductive js_loadable :: "world \<Rightarrow> search_path \<Rightarrow> nat \<Rightarrow> msgspec \<Rightarrow> bool" for w sp where
  "(\<And>f. f \<in> set (ms_parsed_fields spec) \<Longrightarrow> f_is_builtin f \<and> f_base_type f \<in> set BUILTIN_TYPES \<or>
     \<not> f_is_builtin f \<and> (\<exists>s r. js_load w sp (f_base_type f) = Inr s \<and> r < n \<and> js_loadable w sp r s)) \<Longrightarrow>
   js_loadable w sp n spec"

inductive_cases js_loadable_cases: "js_loadable w sp n spec"

lemma js_loadable_field:
  assumes "js_loadable w sp n spec" "f \<in> set (ms_parsed_fields spec)"
  shows "f_is_builtin f \<Longrightarrow> f_base_type f \<in> set BUILTIN_TYPES"
    "\<not> f_is_builtin f \<Longrightarrow> \<exists>s r. js_load w sp (f_base_type f) = Inr s \<and> r < n \<and> js_loadable w sp r s"
  using assms by (auto elim: js_loadable_cases)

lemma js_all_fixed_returns:
  "(\<And>f. f \<in> set fs \<Longrightarrow> \<exists>s b. js_load w sp (f_base_type f) = Inr s \<and> rec s = Inr b) \<Longrightarrow> \<exists>b. js_all_fixed w sp rec fs = Inr b"
proof (induction fs)
  case (Cons f fs)
  then obtain s b where "js_load w sp (f_base_type f) = Inr s" "rec s = Inr b" by (metis list.set_intros(1))
  then show ?case using Cons by (cases b) (auto simp: rbind_def intro: exI [of _ False])
qed (simp add: exI [of _ True])

lemma is_message_fixed_size_returns: "js_loadable w sp n spec \<Longrightarrow> n < k \<Longrightarrow> \<exists>b. is_message_fixed_size k w sp spec = Inr b"
proof (induction k arbitrary: n spec)
  case (Suc k)
  have "\<exists>b. js_all_fixed w sp (is_message_fixed_size k w sp) (filter (\<lambda>f. \<not> f_is_builtin f) (ms_parsed_fields spec)) = Inr b"
  proof (rule js_all_fixed_returns)
    fix f assume "f \<in> set (filter (\<lambda>f. \<not> f_is_builtin f) (ms_parsed_fields spec))"
    then have f: "f \<in> set (ms_parsed_fields spec)" "\<not> f_is_builtin f" by simp_all
    obtain s r where s: "js_load w sp (f_base_type f) = Inr s" "r < n" "js_loadable w sp r s"
      using js_loadable_field(2) [OF Suc.prems(1) f] by blast
    then show "\<exists>s b. js_load w sp (f_base_type f) = Inr s \<and> is_message_fixed_size k w sp s = Inr b"
      using Suc.IH [OF s(3)] Suc.prems(2) by auto
  qed
  then show ?case unfolding is_message_fixed_size_step by auto
qed simp

lemma rfoldl_returns: "(\<And>acc x. x \<in> set xs \<Longrightarrow> \<exists>y. f acc x = Inr y) \<Longrightarrow> \<exists>y. rfoldl f acc xs = Inr y"
proof (induction xs arbitrary: acc)
  case (Cons x xs)
  obtain y where "f acc x = Inr y" using Cons.prems by (metis list.set_intros(1))
  then show ?case using Cons by (simp add: rbind_def)
qed simp

lemma builtin_sizes: "t \<in> set BUILTIN_TYPES \<Longrightarrow> t \<noteq> ''string'' \<Longrightarrow> \<exists>n. get_type_size t = Some n"
  by (auto simp: BUILTIN_TYPES_def PRIMITIVE_TYPES_def TIME_def DURATION_def get_type_size_def)

lemma get_message_fixed_size_returns:
  "js_loadable w sp n spec \<Longrightarrow> Suc n < k \<Longrightarrow> \<exists>r. get_message_fixed_size k w sp spec = Inr r"
proof (induction k arbitrary: n spec)
  case (Suc k)
  obtain b where b: "is_message_fixed_size k w sp spec = Inr b" using is_message_fixed_size_returns [OF Suc.prems(1)] Suc.prems(2) by auto
  show ?case
  proof (cases b)
    case True
    then have v: "\<not> js_variable w sp spec" using is_message_fixed_size_meaning [OF b] by simp
    have add: "\<exists>y. js_add_size w sp (get_message_fixed_size k w sp) len f = Inr y" if f: "f \<in> set (ms_parsed_fields spec)" for len f
    proof (cases "f_is_builtin f")
      case True
      have "\<not> js_variable_field f" using v f js_variable.direct by blast
      moreover from this obtain m where "get_type_size (f_base_type f) = Some m"
        using builtin_sizes js_loadable_field(1) [OF Suc.prems(1) f True] by (auto simp: js_variable_field_def)
      ultimately show ?thesis using True by (auto simp: js_add_size_def js_variable_field_def of_option_def rbind_def)
    next
      case False
      then obtain s r where s: "js_load w sp (f_base_type f) = Inr s" "r < n" "js_loadable w sp r s"
        using js_loadable_field(2) [OF Suc.prems(1) f] by blast
      then obtain q where q: "get_message_fixed_size k w sp s = Inr q" using Suc.IH [OF s(3)] Suc.prems(2) by auto
      have "js_nested w sp spec s" using f False s(1) by (auto simp: js_nested_def)
      then have "q \<noteq> None" using get_message_fixed_size_None [OF q] v js_variable.inside by blast
      then show ?thesis using False s(1) q by (auto simp: js_add_size_def of_option_def rbind_def)
    qed
    have "\<exists>y. rfoldl (js_add_size w sp (get_message_fixed_size k w sp)) 0 (ms_parsed_fields spec) = Inr y"
      by (rule rfoldl_returns) (rule add)
    then obtain y where "rfoldl (js_add_size w sp (get_message_fixed_size k w sp)) 0 (ms_parsed_fields spec) = Inr y" ..
    then show ?thesis by (simp add: b True rbind_def)
  qed (simp add: b rbind_def)
qed simp

section \<open>Nested messages can be loaded\<close>

lemma dependency_loads:
  assumes "create_default w = Inr ctx0" and "load_msg_from_string w txt name ctx0 = (Inr spec, ctx1)"
    and "in_package name" and "load_depends k w (Msg spec) sp ctx1 = (Inr ds, ctx2)"
    and "(name, d) \<in> (dep_rel ctx2)\<^sup>+"
  shows "\<exists>s. js_load w sp d = Inr s \<and> get_registered ctx2 d = Inr s \<and> get_depends ctx2 d = Some (spec_deps s) \<and> spec_ok s"
  using dependency_from_disk [OF assms, of ctx0] assms(1) by (auto simp: js_load_def rbind_def)

text \<open>So every type can be loaded again, with its nested messages.\<close>

lemma dependencies_loadable:
  assumes "create_default w = Inr ctx0" and "load_msg_from_string w txt name ctx0 = (Inr spec, ctx1)"
    and "in_package name" and "load_depends k w (Msg spec) sp ctx1 = (Inr ds, ctx2)"
  defines "rank \<equiv> \<lambda>t. card {d. (t, d) \<in> (dep_rel ctx2)\<^sup>+}"
  shows "t = name \<and> s = spec \<or> (name, t) \<in> (dep_rel ctx2)\<^sup>+ \<and> js_load w sp t = Inr s \<Longrightarrow> rank t \<le> n \<Longrightarrow> js_loadable w sp n s"
proof (induction n arbitrary: t s rule: less_induct)
  case (less n)
  note l = load_first_msg [OF assms(1-3)]
  have st: "dinv ctx2" "get_depends ctx2 name = Some (spec_deps spec)"
    using load_msg_depends_step [of k w spec sp ctx1 "Inr ds" ctx2] assms(4) l by auto
  have inv: "deps_closed ctx2" "deps_acyclic ctx2" using st(1) by (auto simp: dinv_def)
  have "spec_ok s \<and> get_depends ctx2 t = Some (spec_deps s) \<and> msgspec_ok s"
  proof (cases "t = name \<and> s = spec")
    case True
    have "msgspec_ok spec" by (rule load_msg_from_string_Inr [OF assms(2)])
    then show ?thesis using True l(2) st(2) by simp
  next
    case False
    then have d: "(name, t) \<in> (dep_rel ctx2)\<^sup>+" "js_load w sp t = Inr s" using less.prems by auto
    obtain c c' where "load_msg_by_type w t sp c = (Inr s, c')"
      using d(2) unfolding js_load_def rbind_eq_Inr by (metis prod.collapse)
    then obtain body f e where "load_msg_from_string w body (if t = HEADER then HEADER_FULL_NAME else t) c = (Inr s, e)"
      by (rule load_msg_by_type_string)
    then have "msgspec_ok s" by (rule load_msg_from_string_Inr)
    then show ?thesis using dependency_loads [OF assms(1-4) d(1)] d(2) by auto
  qed
  then have s: "spec_ok s" "get_depends ctx2 t = Some (spec_deps s)" "msgspec_ok s" by simp_all
  show ?case
  proof (rule js_loadable.intros)
    fix f assume f: "f \<in> set (ms_parsed_fields s)"
    show "f_is_builtin f \<and> f_base_type f \<in> set BUILTIN_TYPES \<or>
      \<not> f_is_builtin f \<and> (\<exists>s r. js_load w sp (f_base_type f) = Inr s \<and> r < n \<and> js_loadable w sp r s)"
    proof (cases "f_is_builtin f")
      case False
      then have "(t, f_base_type f) \<in> dep_rel ctx2" using field_base(2) [OF s(1,3) f] s(2) by (auto simp: dep_rel_def)
      then have r: "rank (f_base_type f) < rank t" and d: "(name, f_base_type f) \<in> (dep_rel ctx2)\<^sup>+"
        using acyclic_rank(1) [OF inv] less.prems(1) by (auto simp: rank_def intro: trancl_into_trancl)
      obtain s' where s': "js_load w sp (f_base_type f) = Inr s'" using dependency_loads [OF assms(1-4) d] by blast
      have "rank (f_base_type f) < n" using r less.prems(2) by simp
      moreover from less.IH [OF this, of "f_base_type f" s'] have "js_loadable w sp (rank (f_base_type f)) s'" using d s' by simp
      ultimately show ?thesis using False s' by blast
    qed (use field_base(1) [OF s(1,3) f] in simp)
  qed
qed

section \<open>Writers that return\<close>

definition gives :: "(writer, 'a) act \<Rightarrow> bool" where
  "gives m \<longleftrightarrow> (\<forall>w. \<exists>x w'. m w = (Inr x, w'))"

lemma gives_returns: "returns m \<Longrightarrow> gives m"
  by (auto simp: gives_def returns_def)

lemma gives_sret [simp]: "gives (sret x)"
  by (simp add: gives_def sret_def)

lemma gives_bind: "gives m \<Longrightarrow> (\<And>x. gives (h x)) \<Longrightarrow> gives (sbind m h)"
  unfolding gives_def sbind_def by (metis (no_types, lifting) case_prod_conv sum.case(2))

lemma returns_gives: "gives m \<Longrightarrow> (\<And>x. returns (h x)) \<Longrightarrow> returns (sbind m h)"
  unfolding gives_def returns_def sbind_def by (metis (no_types, lifting) case_prod_conv sum.case(2))

lemma gives_read: "v = Inr x \<Longrightarrow> gives (h x) \<Longrightarrow> gives (sbind (slift v) h)"
  by (simp add: gives_def)

lemma gives_lift: "\<exists>x. v = Inr x \<Longrightarrow> gives (slift v)"
  by (auto simp: gives_def slift_def)

lemma gives_if: "(b \<Longrightarrow> gives m) \<Longrightarrow> (\<not> b \<Longrightarrow> gives m') \<Longrightarrow> gives (if b then m else m')"
  by simp

lemmas gives_intros = gives_sret gives_if gives_lift gives_bind gives_returns [of "wseq ms" for ms]
  gives_returns [OF returns_write(1)] gives_returns [OF returns_write(2)]

lemma gives_fold: "(\<And>acc x. x \<in> set xs \<Longrightarrow> gives (f acc x)) \<Longrightarrow> gives (sfoldl f acc xs)"
  by (induction xs arbitrary: acc) (auto intro!: gives_bind)

definition js_known :: "field \<Rightarrow> bool" where
  "js_known f \<longleftrightarrow> (if f_is_builtin f then f_base_type f \<in> set BUILTIN_TYPES else \<exists>p t. js_split_type f = Inr (p, t))"

lemma js_known_split: "js_known f \<Longrightarrow> \<not> f_is_builtin f \<Longrightarrow> \<exists>p t. js_split_type f = Inr (p, t)"
  by (simp add: js_known_def)

lemma js_default_returns: "js_known f \<Longrightarrow> \<exists>v. get_default_value f p = Inr v"
  by (auto simp: js_known_def get_default_value_def js_scalar_default_def js_split_type_def rbind_def)

lemma js_path_returns: "js_known f \<Longrightarrow> \<not> f_is_builtin f \<Longrightarrow> \<exists>v. get_message_path_from_field f p = Inr v"
  by (auto simp: js_known_def get_message_path_from_field_def rbind_def)

lemma returns_default: "js_known f \<Longrightarrow> returns (put_default a f p b)"
  unfolding put_default_def by (intro returns_reads js_default_returns returns_write)

lemma returns_complex:
  assumes "js_known f" "\<not> f_is_builtin f"
  shows "returns (write_serialize_complex f package)" "returns (write_deserialize_complex f package)"
proof -
  obtain p t where pt: "js_split_type f = Inr (p, t)" using js_known_split [OF assms] by blast
  show "returns (write_serialize_complex f package)"
    unfolding write_serialize_complex_def js_write_serialize_length_def write_serialize_base_def
    by (rule returns_read [OF pt], unfold case_prod_conv Let_def, intro returns_intros)
  show "returns (write_deserialize_complex f package)"
    unfolding write_deserialize_complex_def js_write_deserialize_length_def
    by (rule returns_read [OF pt], unfold case_prod_conv Let_def, intro returns_intros)
qed

lemma returns_js_fields:
  assumes "js_known f"
  shows "returns (write_msg_constructor_field package f)" "returns (write_resolve_field package f)"
    "returns (js_write_serialize_field package f)" "returns (js_write_deserialize_field package f)"
proof -
  note known = returns_default [OF assms] returns_complex [OF assms] returns_reads [OF js_path_returns [OF assms]]
  show "returns (write_msg_constructor_field package f)" unfolding write_msg_constructor_field_def
    by (intro returns_intros known)
  show "returns (write_resolve_field package f)" unfolding write_resolve_field_def Let_def
    by (intro returns_intros known; assumption?)
  show "returns (js_write_serialize_field package f)"
    unfolding js_write_serialize_field_def js_write_serialize_builtin_def write_serialize_base_def write_serialize_length_check_def
    by (intro returns_intros known; assumption?)
  show "returns (js_write_deserialize_field package f)"
    unfolding js_write_deserialize_field_def js_write_deserialize_builtin_def
    by (intro returns_intros known; assumption?)
qed

section \<open>The size method and the requirements\<close>

lemma js_dynamic_line_returns:
  assumes "js_known f" "f_is_builtin f \<Longrightarrow> get_type_size (f_base_type f) = None"
  shows "\<exists>l. js_dynamic_line this f a b = Inr l"
proof (cases "f_is_builtin f")
  case True
  then have "f_base_type f = ''string''" using assms builtin_sizes [of "f_base_type f"] by (auto simp: js_known_def)
  then show ?thesis using True by (simp add: js_dynamic_line_def js_is_string_def)
next
  case False
  then show ?thesis using js_known_split [OF assms(1)] by (auto simp: js_dynamic_line_def rbind_def)
qed

lemma gives_size_field:
  assumes "js_known f" "js_field_size k w sp f = Inr q"
  shows "gives (js_size_field k w sp this len f)"
proof -
  have line: "\<exists>l. js_dynamic_line this f a b = Inr l" if "q = None" for a b
    using assms(2) that by (intro js_dynamic_line_returns [OF assms(1)]) (auto simp: js_field_size_def)
  show ?thesis
  proof (cases q)
    case None
    then show ?thesis unfolding js_size_field_def Let_def
      by (intro gives_read [OF assms(2)]) (simp only: option.case, intro gives_intros returns_intros line refl)
  next
    case (Some n)
    then show ?thesis unfolding js_size_field_def Let_def
      by (intro gives_read [OF assms(2)]) (simp only: option.case, intro gives_intros)
  qed
qed

lemma returns_message_size:
  assumes "get_message_fixed_size k w sp (ns_spec s) = Inr r"
    and f: "\<And>f. f \<in> set (ns_fields s) \<Longrightarrow> js_known f \<and> (\<exists>q. js_field_size k w sp f = Inr q)"
  shows "returns (write_get_message_size k w sp s)"
proof -
  have g: "gives (sfoldl (js_size_field k w sp (ms_package (ns_spec s))) 0 (ns_fields s))"
    using f gives_size_field by (intro gives_fold) blast
  show ?thesis unfolding write_get_message_size_def
    by (cases r) (intro returns_intros returns_read [OF assms(1)]; simp only: option.case;
        intro returns_intros returns_gives [OF g])+
qed

lemma gives_requires:
  assumes "\<And>f. f \<in> set (ms_parsed_fields spec) \<Longrightarrow> js_known f"
  shows "gives (write_requires env spec ps ds isSrv)"
proof -
  have "\<exists>y. js_find_require (ms_package spec) acc f = Inr y" if "f \<in> set (ms_parsed_fields spec)" for acc f
    using assms [OF that] by (cases acc) (auto simp: js_known_def js_find_require_def rbind_def Let_def)
  then have "\<exists>y. find_requires spec = Inr y" unfolding find_requires_def by (rule rfoldl_returns)
  then obtain a b where r: "js_requires spec ps ds = Inr (a, b)" by (auto simp: js_requires_def rbind_def)
  show ?thesis unfolding write_requires_def
    by (intro gives_bind gives_returns [OF returns_when] returns_intros gives_read [OF r], unfold case_prod_conv)
       (intro gives_intros returns_intros)
qed

lemma returns_js_message_file:
  assumes f: "\<And>f. f \<in> set (ns_fields s) \<Longrightarrow> js_known f \<and> (\<exists>q. js_field_size k w sp f = Inr q)"
    and size: "get_message_fixed_size k w sp (ns_spec s) = Inr r"
    and "compute_md5 k (le_hash (je_base env)) ctx (Msg (ns_spec s)) = Inr m" "compute_full_text k ctx (Msg (ns_spec s)) = Inr d"
  shows "returns (js_message_file k env w sp ctx s)"
proof -
  have known: "js_known f" if "f \<in> set (ns_fields s)" for f using f that by blast
  note rules = returns_gives [OF gives_requires [OF known]] returns_message_size [OF size f] returns_read [OF assms(3)]
    returns_read [OF assms(4)] returns_js_fields [OF known]
  have ret: "returns (sret ())" by (simp add: returns_def sret_def)
  show ?thesis
    unfolding js_message_file_def js_write_begin_def write_class_def js_write_serialize_def js_write_deserialize_def
      js_write_ros_datatype_def js_write_md5sum_def js_write_message_definition_def write_resolve_def write_end_def
      js_write_constants_def Let_def
    by (intro ret rules returns_intros; assumption)
qed

lemma returns_js_indexes: "returns (write_msg_index ms)" "returns (write_package_index a b)"
  unfolding write_msg_index_def write_package_index_def by (intro returns_intros)+

lemma put_package_index:
  "\<exists>t. js_put_package_index env d s = (Inr (), s\<lparr>ls_files := ls_files s @ [(d @ ''/_index.js'', t)]\<rparr>)"
proof -
  obtain t where "written (write_package_index (js_exists env s (path_join d ''msg/_index.js''))
      (js_exists env s (path_join d ''srv/_index.js''))) = Inr t"
    using returns_written [OF returns_js_indexes(2)] by blast
  then show ?thesis by (intro exI [of _ t]) (simp add: js_put_package_index_def put_file_def)
qed

text \<open>The sizes and the writers of a message whose dependencies are loaded.\<close>

lemma js_message_file_returns:
  assumes "create_default w = Inr ctx0" and "load_msg_from_string w txt name ctx0 = (Inr spec, ctx1)"
    and "in_package name" and "load_depends k w (Msg spec) sp ctx1 = (Inr ds, ctx2)"
    and "Suc (card (dom (dependencies ctx2))) < n"
    and md: "\<exists>m. compute_md5 n (le_hash (je_base env)) ctx (Msg spec) = Inr m" "\<exists>d. compute_full_text n ctx (Msg spec) = Inr d"
  shows "\<exists>t. written (js_message_file n env w sp ctx
    \<lparr>ns_spec = spec, actual_name = ms_short_name spec, component_type = ''message''\<rparr>) = Inr t"
proof -
  let ?s = "\<lparr>ns_spec = spec, actual_name = ms_short_name spec, component_type = ''message''\<rparr>"
  let ?rank = "\<lambda>t. card {d. (t, d) \<in> (dep_rel ctx2)\<^sup>+}"
  note l = load_first_msg [OF assms(1-3)]
  have st: "dinv ctx2" "get_depends ctx2 name = Some (spec_deps spec)"
    using load_msg_depends_step [of k w spec sp ctx1 "Inr ds" ctx2] assms(4) l by auto
  have ok: "msgspec_ok spec" by (rule load_msg_from_string_Inr [OF assms(2)])
  have rank: "?rank t \<le> card (dom (dependencies ctx2))" for t using st(1) acyclic_rank(2) by (auto simp: dinv_def)
  have loadable: "js_loadable w sp (card (dom (dependencies ctx2))) spec"
    using dependencies_loadable [OF assms(1-4), of name spec] rank [of name] by blast
  obtain r where r: "get_message_fixed_size n w sp spec = Inr r"
    using get_message_fixed_size_returns [OF loadable assms(5)] by blast
  have "js_known f \<and> (\<exists>q. js_field_size n w sp f = Inr q)" if f: "f \<in> set (ms_parsed_fields spec)" for f
  proof (cases "f_is_builtin f")
    case True
    then show ?thesis using field_base(1) [OF l(2) ok f] by (simp add: js_known_def js_field_size_def)
  next
    case False
    have b: "f_base_type f \<in> set (spec_deps spec)" "in_package (f_base_type f)" using field_base(2) [OF l(2) ok f False] by simp_all
    then have "(name, f_base_type f) \<in> (dep_rel ctx2)\<^sup>+" using st(2) by (auto simp: dep_rel_def)
    from dependency_loads [OF assms(1-4) this] obtain x where "get_registered ctx2 (f_base_type f) = Inr x" by blast
    then obtain p t where "split_on SEP (f_base_type f) = [p, t]" using registered_split [OF b(2)] by blast
    then have known: "js_known f" using False by (simp add: js_known_def js_split_type_def)
    obtain s i where s: "js_load w sp (f_base_type f) = Inr s" "i < card (dom (dependencies ctx2))" "js_loadable w sp i s"
      using js_loadable_field(2) [OF loadable f False] by blast
    then obtain q where "get_message_fixed_size n w sp s = Inr q" using get_message_fixed_size_returns [OF s(3), of n] assms(5) by auto
    then show ?thesis using known False s(1) by (simp add: js_field_size_def rbind_def)
  qed
  then have "returns (js_message_file n env w sp ctx ?s)"
    using r md by (elim exE) (intro returns_js_message_file; simp)
  then show ?thesis using returns_written by blast
qed

text \<open>C18: the run of the Node.js generator on the file of one message. When the file can be read, its dependencies can be
  loaded and so can the messages of its package, which the generator loads before it writes, the run ends without
  an exception and writes three files: the message, the index of the messages and the index of the package. In
  particular every nested message, which is loaded again for the size method in a context of its own, is
  found again. What reading these files raises is excluded by the assumption, and nothing else can be raised.\<close>

theorem js_message_file_written:
  assumes "readable_message n w sp pkg ms (le_abspath (je_base env) f) name spec ctx2"
    and "js_msg_list env pkg sp EXT_MSG = Inr ms" and "Suc (card (dom (dependencies ctx2))) < n"
  shows "\<exists>t1 t2 t3 s'. js_generate_msg n env w pkg [f] out sp s = (Inr (), s') \<and>
    ls_files s' = ls_files s @ [(out @ ''/'' @ ms_short_name spec @ ''.js'', t1), (out @ ''/_index.js'', t2),
      (path_dirname out @ ''/_index.js'', t3)]"
proof -
  let ?s = "\<lparr>ns_spec = spec, actual_name = ms_short_name spec, component_type = ''message''\<rparr>"
  obtain ctx0 body ctx1 ds s' where l: "create_default w = Inr ctx0" "load_msg_from_string w body name ctx0 = (Inr spec, ctx1)"
    "load_msg_from_file w (le_abspath (je_base env) f) name ctx0 = (Inr spec, ctx1)"
    "load_depends n w (Msg spec) sp ctx1 = (Inr ds, ctx2)"
    and loop: "sfoldl (\<lambda>_ m. sbind (on_msgs (load_msg_by_type w (pkg @ ''/'' @ m) sp)) (\<lambda>_. sret ())) () ms (s\<lparr>ls_ctx := ctx2\<rparr>) = (Inr (), s')"
    "ls_files s' = ls_files s"
    and texts: "\<exists>m. compute_md5 n (le_hash (je_base env)) (ls_ctx s') (Msg spec) = Inr m"
      "\<exists>d. compute_full_text n (ls_ctx s') (Msg spec) = Inr d"
    by (rule readable_message_run [OF assms(1), of s "le_hash (je_base env)"])
  have name: "in_package name" "compute_full_type_name pkg (path_basename (le_abspath (je_base env) f)) = Inr name"
    using assms(1) by (auto simp: readable_message_def)
  obtain t1 where t1: "written (js_message_file n env w sp (ls_ctx s') ?s) = Inr t1"
    using js_message_file_returns [OF l(1,2) name(1) l(4) assms(3) texts] by blast
  obtain t2 where t2: "written (write_msg_index ms) = Inr t2" using returns_written [OF returns_js_indexes(1)] by blast
  let ?s1 = "s'\<lparr>ls_files := ls_files s' @ [(out @ ''/'' @ ms_short_name spec @ ''.js'', t1 @ [newline]), (out @ ''/_index.js'', t2)]\<rparr>"
  obtain t3 where t3: "js_put_package_index env (path_dirname out) ?s1 =
      (Inr (), ?s1\<lparr>ls_files := ls_files ?s1 @ [(path_dirname out @ ''/_index.js'', t3)]\<rparr>)"
    using put_package_index by blast
  have gen: "js_generate_msg_from_spec n env w spec sp out pkg (s\<lparr>ls_ctx := ctx1\<rparr>) =
      (Inr (), ?s1\<lparr>ls_files := ls_files ?s1 @ [(path_dirname out @ ''/_index.js'', t3)]\<rparr>)"
    unfolding js_generate_msg_from_spec_def Let_def
    using l(4) loop(1) assms(2) t1 t2 t3 by (simp add: on_msgs_def put_file_def sbind_def)
  have "js_generate_msg n env w pkg [f] out sp s = js_generate_msg_from_spec n env w spec sp out pkg (s\<lparr>ls_ctx := ctx1\<rparr>)"
    using l(1,3) name(2) gen by (simp add: js_generate_msg_def on_msgs_def Let_def sbind_def)
  then show ?thesis using gen loop(2) by auto
qed

definition demo_js_env :: js_env where
  "demo_js_env = \<lparr>je_base = siblings_env, je_order = sorted_list_of_set, je_exists = \<lambda>_. False, je_environ = Map.empty\<rparr>"

theorem js_message_file_written_witness:
  "\<exists>n t1 t2 t3 s'. js_generate_msg n demo_js_env siblings_world ''m'' [''/m/A.msg''] ''/o/msg'' siblings_path
      \<lparr>ls_ctx = MsgContext, ls_files = []\<rparr> = (Inr (), s') \<and>
    ls_files s' = [(''/o/msg/A.js'', t1), (''/o/msg/_index.js'', t2), (''/o/_index.js'', t3)]"
proof -
  obtain n spec ctx2 where r: "readable_message n siblings_world siblings_path ''m'' [''A'', ''B''] ''/m/A.msg'' ''m/A'' spec ctx2"
    and n: "Suc (card (dom (dependencies ctx2))) < n" and spec: "ms_short_name spec = ''A''"
    by (rule siblings_readable)
  have ms: "js_msg_list demo_js_env ''m'' siblings_path EXT_MSG = Inr [''A'', ''B'']" by code_simp
  have a: "le_abspath (je_base demo_js_env) ''/m/A.msg'' = ''/m/A.msg''" by (simp add: demo_js_env_def siblings_env_def)
  have d: "path_dirname ''/o/msg'' = ''/o''" by code_simp
  from js_message_file_written [where env = demo_js_env and f = "''/m/A.msg''" and s = "\<lparr>ls_ctx = MsgContext, ls_files = []\<rparr>"
        and out = "''/o/msg''", unfolded a d, OF r ms n]
  obtain t1 t2 t3 s' where "js_generate_msg n demo_js_env siblings_world ''m'' [''/m/A.msg''] ''/o/msg'' siblings_path
      \<lparr>ls_ctx = MsgContext, ls_files = []\<rparr> = (Inr (), s')"
    "ls_files s' = [(''/o/msg/A.js'', t1), (''/o/msg/_index.js'', t2), (''/o/_index.js'', t3)]"
    using spec by auto
  then show ?thesis by blast
qed

end
