(* ===== verification/Process_Monitor.thy ===== *)
theory Process_Monitor
  imports Py_Prelude
begin

text \<open>
  The process monitor of rosunit, \<open>rosunit/pmon.py\<close>: the thread that polls the registered processes,
  buries or restarts the dead ones, and at the end kills all that are left with ten worker threads.

  A process is an object that several lists share, so it is a number, and \<open>objs\<close> gives its
  attributes. Starting, stopping and polling a process are up to subclasses of \<open>Process\<close>: what they
  answer, and whether they raise, is part of each step. The calls are recorded in \<open>events\<close>.

  The monitor, the killers and the clients run in parallel. A step of the system is one of theirs;
  a section under the lock is one step together with the calls on a process next to it, and the
  reads and writes of \<open>is_shutdown\<close>, which no lock protects, are separate steps. A client starts a process
  itself, after it registered it (\<open>runTest\<close> in \<open>rosunit/baretest.py\<close>), which is a step of its own: \<open>Launch\<close>.
\<close>

section \<open>Processes\<close>

record process =
  p_package :: string
  p_name :: string
  p_args :: "string list"
  p_env :: "(string \<times> string) list"
  p_respawn :: bool
  p_required :: bool
  exit_code :: "int option"
  spawn_count :: nat

definition Process :: "string \<Rightarrow> string \<Rightarrow> string list \<Rightarrow> (string \<times> string) list \<Rightarrow> bool \<Rightarrow> bool \<Rightarrow> process" where
  "Process package name args env respawn required =
     \<lparr>p_package = package, p_name = name, p_args = args, p_env = env, p_respawn = respawn, p_required = required,
      exit_code = None, spawn_count = 0\<rparr>"

record process_info =
  i_spawn_count :: nat
  i_args :: "string list"
  i_env :: "(string \<times> string) list"
  i_package :: string
  i_name :: string
  i_alive :: bool
  i_respawn :: bool
  i_required :: bool
  i_exit_code :: "int option"

definition get_info :: "bool \<Rightarrow> process \<Rightarrow> process_info" where
  "get_info alive p =
     \<lparr>i_spawn_count = spawn_count p, i_args = p_args p, i_env = p_env p, i_package = p_package p, i_name = p_name p,
      i_alive = alive, i_respawn = p_respawn p, i_required = p_required p, i_exit_code = exit_code p\<rparr>"

definition process_start :: "process \<Rightarrow> process" where
  "process_start p = p\<lparr>spawn_count := spawn_count p + 1\<rparr>"

definition get_exit_description :: "process \<Rightarrow> string" where
  "get_exit_description p = (case exit_code p of
     Some c \<Rightarrow> if c \<noteq> 0 then ''process has died [exit code '' @ str_of_int c @ '']'' else ''process has finished cleanly''
   | None \<Rightarrow> ''process has died'')"

record dead_process = process +
  d_info :: process_info

text \<open>The constructor of \<open>Process\<close> is called without \<open>required\<close>, which the saved info still has.\<close>

definition DeadProcess :: "bool \<Rightarrow> process \<Rightarrow> dead_process" where
  "DeadProcess alive p =
     \<lparr>p_package = p_package p, p_name = p_name p, p_args = p_args p, p_env = p_env p, p_respawn = p_respawn p,
      p_required = False, exit_code = exit_code p, spawn_count = spawn_count p, d_info = get_info alive p\<rparr>"

definition dead_start :: "dead_process \<Rightarrow> dead_process res" where
  "dead_start d = Inl PyException"

section \<open>The monitor\<close>

datatype event = Registered nat | Dropped nat | Stop nat | Start nat | Died nat | ListenerError nat | Launched nat

record pmon =
  objs :: "nat \<Rightarrow> process"
  procs :: "nat list"
  is_shutdown :: bool
  pm_done :: bool
  listeners :: nat
  dead_list :: "dead_process list"
  core_procs :: "nat list"
  reg_complete :: bool
  events :: "event list"

definition ProcessMonitor :: "(nat \<Rightarrow> process) \<Rightarrow> pmon" where
  "ProcessMonitor heap = \<lparr>objs = heap, procs = [], is_shutdown = False, pm_done = False, listeners = 0,
     dead_list = [], core_procs = [], reg_complete = False, events = []\<rparr>"

definition note_event :: "event \<Rightarrow> pmon \<Rightarrow> pmon" where
  "note_event e m = m\<lparr>events := events m @ [e]\<rparr>"

abbreviation name_of :: "pmon \<Rightarrow> nat \<Rightarrow> string" where
  "name_of m p \<equiv> p_name (objs m p)"

definition add_process_listener :: "pmon \<Rightarrow> pmon" where
  "add_process_listener m = m\<lparr>listeners := listeners m + 1\<rparr>"

definition has_process :: "string \<Rightarrow> pmon \<Rightarrow> bool" where
  "has_process name m \<longleftrightarrow> length (filter (\<lambda>p. name_of m p = name) (procs m)) > 0"

definition register_proc :: "nat \<Rightarrow> (pmon, unit) act" where
  "register_proc p m =
     (if has_process (name_of m p) m then (Inl PmonException, m)
      else if is_shutdown m then (Inl PmonException, m)
      else (Inr (), note_event (Registered p) (m\<lparr>procs := procs m @ [p]\<rparr>)))"

definition append_core :: "nat \<Rightarrow> pmon \<Rightarrow> pmon" where
  "append_core p m = m\<lparr>core_procs := core_procs m @ [p]\<rparr>"

definition register_core_proc :: "nat \<Rightarrow> (pmon, unit) act" where
  "register_core_proc p = sbind (register_proc p) (\<lambda>_. smodify (append_core p))"

definition registrations_complete :: "pmon \<Rightarrow> pmon" where
  "registrations_complete m = m\<lparr>reg_complete := True\<rparr>"

definition unregister :: "nat \<Rightarrow> (pmon, unit) act" where
  "unregister p m = (if p \<in> set (procs m) then (Inr (), m\<lparr>procs := remove1 p (procs m)\<rparr>) else (Inl ValueError, m))"

definition get_process :: "string \<Rightarrow> pmon \<Rightarrow> nat option" where
  "get_process name m = (case filter (\<lambda>p. name_of m p = name) (procs m) of [] \<Rightarrow> None | p # _ \<Rightarrow> Some p)"

text \<open>\<open>basestring\<close> is a name of Python 2 only.\<close>

definition kill_process :: "bool \<Rightarrow> string \<Rightarrow> (pmon, bool) act" where
  "kill_process python2 name m =
     (if \<not> python2 then (Inl NameError, m)
      else case get_process name m of Some p \<Rightarrow> (Inr True, note_event (Stop p) m) | None \<Rightarrow> (Inr False, m))"

definition pm_shutdown :: "pmon \<Rightarrow> pmon" where
  "pm_shutdown m = m\<lparr>is_shutdown := True\<rparr>"

definition get_active_names :: "pmon \<Rightarrow> string list" where
  "get_active_names m = map (name_of m) (procs m)"

definition get_process_names_with_spawn_count :: "pmon \<Rightarrow> (string \<times> nat) list \<times> (string \<times> nat) list" where
  "get_process_names_with_spawn_count m =
     (map (\<lambda>p. (name_of m p, spawn_count (objs m p))) (procs m), map (\<lambda>d. (p_name d, spawn_count d)) (dead_list m))"

section \<open>The monitors of the module\<close>

record pmon_module =
  pmons :: "(string \<times> pmon) list"
  pmon_counter :: nat
  shutting_down :: bool

definition start_process_monitor :: "(nat \<Rightarrow> process) \<Rightarrow> (pmon_module, string option) act" where
  "start_process_monitor heap g =
     (if shutting_down g then (Inr None, g)
      else let n = pmon_counter g + 1; name = ''ProcessMonitor-'' @ str_of_nat n
        in (Inr (Some name), g\<lparr>pmon_counter := n, pmons := pmons g @ [(name, ProcessMonitor heap)]\<rparr>))"

text \<open>Whether the thread ends within the twenty seconds of the join is \<open>ended\<close>; \<open>isAlive\<close> is a method of
  threads before Python 3.9 only, and its \<open>AttributeError\<close> is caught.\<close>

fun shutdown_process_monitor :: "bool \<Rightarrow> bool \<Rightarrow> pmon option \<Rightarrow> bool \<times> pmon option" where
  "shutdown_process_monitor has_isAlive ended None = (False, None)"
| "shutdown_process_monitor has_isAlive ended (Some m) =
     (if is_shutdown m then (False, Some m) else (has_isAlive \<and> ended, Some (pm_shutdown m)))"

definition pmon_shutdown :: "pmon_module \<Rightarrow> pmon_module \<times> pmon list" where
  "pmon_shutdown g = (g\<lparr>pmons := []\<rparr>, map (\<lambda>(n, m). if is_shutdown m then m else pm_shutdown m) (pmons g))"

section \<open>A pass of the monitor\<close>

text \<open>What the calls on processes and listeners do in a step: \<open>alive\<close> is what \<open>is_alive\<close> returns
  (\<open>None\<close> if it raises), the other fields tell whether a listener, \<open>stop\<close> or \<open>start\<close> raises.\<close>

record outcome =
  alive :: "bool option"
  listener_raises :: bool
  stop_raises :: bool
  start_raises :: bool

text \<open>The body of the loop over the processes, with the lists \<open>dead\<close> and \<open>respawn\<close>.\<close>

definition poll :: "outcome \<Rightarrow> nat \<Rightarrow> nat list \<Rightarrow> nat list \<Rightarrow> pmon \<Rightarrow> nat list \<times> nat list \<times> pmon" where
  "poll oc p dead respawn m = (case alive oc of
     None \<Rightarrow> (dead @ [p], respawn, m)
   | Some True \<Rightarrow> (dead, respawn, m)
   | Some False \<Rightarrow>
       let (dead1, respawn1, m1) =
             (if p_respawn (objs m p) then (dead, respawn @ [p], m)
              else if p_required (objs m p) then (dead, respawn, m\<lparr>is_shutdown := True\<rparr>)
              else (dead @ [p], respawn, m))
       in if listeners m > 0 \<and> listener_raises oc then (dead1 @ [p], respawn1, note_event (ListenerError p) m1)
          else (dead1, respawn1, note_event (Died p) m1))"

text \<open>The body of the loop over the dead processes. An exception of \<open>unregister\<close>, \<open>stop\<close> or of the
  call of \<open>is_alive\<close> for the dead list is printed.\<close>

definition bury :: "outcome \<Rightarrow> nat \<Rightarrow> pmon \<Rightarrow> pmon" where
  "bury oc d m = (case unregister d m of
     (Inl e, m1) \<Rightarrow> m1
   | (Inr u, m1) \<Rightarrow>
       let m2 = note_event (Stop d) m1 in
       if stop_raises oc then m2
       else (case alive oc of None \<Rightarrow> m2 | Some a \<Rightarrow> m2\<lparr>dead_list := dead_list m2 @ [DeadProcess a (objs m2 d)]\<rparr>))"

definition all_dead :: "nat list \<Rightarrow> nat list \<Rightarrow> pmon \<Rightarrow> pmon" where
  "all_dead dead respawn m =
     (if reg_complete m \<and> dead \<noteq> [] \<and> procs m = [] \<and> respawn = [] then m\<lparr>is_shutdown := True\<rparr> else m)"

definition restart :: "outcome \<Rightarrow> nat \<Rightarrow> pmon \<Rightarrow> pmon" where
  "restart oc r m = (let m1 = note_event (Stop r) m in
     if stop_raises oc then m1
     else let m2 = note_event (Start r) m1 in
       if start_raises oc then m2 else m2\<lparr>objs := (objs m2)(r := process_start (objs m2 r))\<rparr>)"

section \<open>The threads\<close>

datatype mpc =
    Top
  | Copied "nat list"
  | Polling "nat list" "nat list" "nat list"
  | Polled "nat list" "nat list" "nat list"
  | Burying "nat list" "nat list" "nat list"
  | Respawning "nat list"
  | Post_run
  | Enqueue
  | Joining "nat list"
  | Kill_core "nat list" "nat list"
  | Clear
  | Finished

datatype kpc = Check | Get | Kill nat | Over

record threads =
  monitor :: mpc
  killers :: "kpc list"
  kill_queue :: "nat list"
  unfinished :: nat
  adding_core :: "nat list"

type_synonym system = "pmon \<times> threads"

text \<open>\<open>_run\<close> and \<open>_post_run\<close>, one step. The monitor can not move while it joins the queue.\<close>

fun monitor_step :: "outcome \<Rightarrow> system \<Rightarrow> system" where
  "monitor_step oc (m, t) = (case monitor t of
     Top \<Rightarrow> (m, t\<lparr>monitor := (if is_shutdown m then Post_run else Copied (procs m))\<rparr>)
   | Copied ps \<Rightarrow> (m, t\<lparr>monitor := (if is_shutdown m then Post_run else Polling ps [] [])\<rparr>)
   | Polling [] dead respawn \<Rightarrow> (m, t\<lparr>monitor := Burying dead dead respawn\<rparr>)
   | Polling (p # ps) dead respawn \<Rightarrow> (case poll oc p dead respawn m of (dead1, respawn1, m1) \<Rightarrow>
       (m1, t\<lparr>monitor := Polled ps dead1 respawn1\<rparr>))
   | Polled ps dead respawn \<Rightarrow> (m, t\<lparr>monitor := (if is_shutdown m then Burying dead dead respawn else Polling ps dead respawn)\<rparr>)
   | Burying (d # ds) dead respawn \<Rightarrow> (bury oc d m, t\<lparr>monitor := Burying ds dead respawn\<rparr>)
   | Burying [] dead respawn \<Rightarrow> (all_dead dead respawn m, t\<lparr>monitor := Respawning respawn\<rparr>)
   | Respawning [] \<Rightarrow> (m, t\<lparr>monitor := Top\<rparr>)
   | Respawning (r # rs) \<Rightarrow> (if is_shutdown m then (m, t\<lparr>monitor := Top\<rparr>)
       else (restart oc r m, t\<lparr>monitor := Respawning rs\<rparr>))
   | Post_run \<Rightarrow> (m\<lparr>is_shutdown := True\<rparr>, t\<lparr>monitor := Enqueue\<rparr>)
   | Enqueue \<Rightarrow> (let q = filter (\<lambda>p. p \<notin> set (core_procs m)) (rev (procs m))
       in (m, t\<lparr>monitor := Joining (core_procs m), killers := replicate 10 Check, kill_queue := q, unfinished := length q\<rparr>))
   | Joining core \<Rightarrow> (m, if unfinished t = 0 then t\<lparr>monitor := Kill_core core (rev core)\<rparr> else t)
   | Kill_core core (p # ps) \<Rightarrow> (note_event (Stop p) m, t\<lparr>monitor := Kill_core core ps\<rparr>)
   | Kill_core core [] \<Rightarrow> (m, t\<lparr>monitor := Clear\<rparr>)
   | Clear \<Rightarrow> (m\<lparr>procs := [], core_procs := [], pm_done := True\<rparr>, t\<lparr>monitor := Finished\<rparr>)
   | Finished \<Rightarrow> (m, t))"

text \<open>\<open>_ProcessKiller.run\<close>, one step of the killer \<open>i\<close>.\<close>

fun killer_step :: "nat \<Rightarrow> system \<Rightarrow> system" where
  "killer_step i (m, t) = (if i < length (killers t) then (case killers t ! i of
     Check \<Rightarrow> (m, t\<lparr>killers := (killers t)[i := (if kill_queue t = [] then Over else Get)]\<rparr>)
   | Get \<Rightarrow> (case kill_queue t of
       [] \<Rightarrow> (m, t\<lparr>killers := (killers t)[i := Check]\<rparr>)
     | p # q \<Rightarrow> (m, t\<lparr>killers := (killers t)[i := Kill p], kill_queue := q\<rparr>))
   | Kill p \<Rightarrow> (note_event (Stop p) m, t\<lparr>killers := (killers t)[i := Check], unfinished := unfinished t - 1\<rparr>)
   | Over \<Rightarrow> (m, t)) else (m, t))"

text \<open>The calls of clients. \<open>register_core_proc\<close> appends to \<open>core_procs\<close> without the lock, so it has
  two steps.\<close>

datatype action =
    Monitor outcome | Killer nat
  | Register nat | RegisterCore nat | AppendCore nat | Unregister nat | KillProcess bool string
  | Launch nat | Shutdown | Complete | Listen | Exit nat "int option"

fun do_action :: "action \<Rightarrow> system \<Rightarrow> system" where
  "do_action (Monitor oc) s = monitor_step oc s"
| "do_action (Killer i) s = killer_step i s"
| "do_action (Register p) (m, t) = (snd (register_proc p m), t)"
| "do_action (RegisterCore p) (m, t) = (case register_proc p m of
     (Inr u, m1) \<Rightarrow> (m1, t\<lparr>adding_core := adding_core t @ [p]\<rparr>) | (Inl e, m1) \<Rightarrow> (m1, t))"
| "do_action (AppendCore p) (m, t) =
     (if p \<in> set (adding_core t) then (append_core p m, t\<lparr>adding_core := remove1 p (adding_core t)\<rparr>) else (m, t))"
| "do_action (Unregister p) (m, t) = (case unregister p m of
     (Inr u, m1) \<Rightarrow> (note_event (Dropped p) m1, t) | (Inl e, m1) \<Rightarrow> (m1, t))"
| "do_action (KillProcess python2 name) (m, t) = (snd (kill_process python2 name m), t)"
| "do_action (Launch p) (m, t) = (note_event (Launched p) (m\<lparr>objs := (objs m)(p := process_start (objs m p))\<rparr>), t)"
| "do_action Shutdown (m, t) = (pm_shutdown m, t)"
| "do_action Complete (m, t) = (registrations_complete m, t)"
| "do_action Listen (m, t) = (add_process_listener m, t)"
| "do_action (Exit p c) (m, t) = (m\<lparr>objs := (objs m)(p := (objs m p)\<lparr>exit_code := c\<rparr>)\<rparr>, t)"

definition start_system :: "(nat \<Rightarrow> process) \<Rightarrow> system" where
  "start_system heap = (ProcessMonitor heap,
     \<lparr>monitor = Top, killers = [], kill_queue = [], unfinished = 0, adding_core = []\<rparr>)"

fun run_actions :: "action list \<Rightarrow> system \<Rightarrow> system" where
  "run_actions [] s = s"
| "run_actions (a # as) s = run_actions as (do_action a s)"

inductive reachable :: "(nat \<Rightarrow> process) \<Rightarrow> system \<Rightarrow> bool" for heap where
  init: "reachable heap (start_system heap)"
| step: "reachable heap s \<Longrightarrow> reachable heap (do_action a s)"

end
