(* ===== verification/Process_Shutdown.thy ===== *)
theory Process_Shutdown
  imports Process_Monitor "HOL-Library.Sublist"
begin

text \<open>
  What the process monitor guarantees in every interleaving of its thread, the killers and the
  clients: names are unique, the core processes are killed last and in reverse order, which processes
  can be left running when the monitor is done, and the shutdown ends.
\<close>

section \<open>Events\<close>

text \<open>The last event that starts or stops a process, by the monitor or by a client, is a stop.\<close>

definition stopped :: "nat \<Rightarrow> event list \<Rightarrow> bool" where
  "stopped i es \<longleftrightarrow> (case filter (\<lambda>e. e = Stop i \<or> e = Start i \<or> e = Launched i) (rev es) of
     [] \<Rightarrow> False | e # _ \<Rightarrow> e = Stop i)"

lemma stopped_snoc [simp]:
  "stopped i (es @ [e]) \<longleftrightarrow> e = Stop i \<or> (e \<noteq> Start i \<and> e \<noteq> Launched i \<and> stopped i es)"
  by (auto simp: stopped_def)

lemma stopped_in: "stopped i es \<Longrightarrow> Stop i \<in> set es"
proof (induction es rule: rev_induct)
  case Nil
  then show ?case by (simp add: stopped_def)
qed auto

text \<open>A client that starts a process when it was stopped before.\<close>

definition launched_late :: "nat \<Rightarrow> event list \<Rightarrow> bool" where
  "launched_late i es \<longleftrightarrow> Launched i \<in> set (dropWhile (\<lambda>e. e \<noteq> Stop i) es)"

lemma launched_late_snoc [simp]:
  "launched_late i (es @ [e]) \<longleftrightarrow> launched_late i es \<or> (e = Launched i \<and> Stop i \<in> set es)"
  by (induction es) (auto simp: launched_late_def)

text \<open>A process that no client unregistered or started after a stop, and for which no listener raised
  an exception.\<close>

definition ok :: "nat \<Rightarrow> pmon \<Rightarrow> bool" where
  "ok i m \<longleftrightarrow> Dropped i \<notin> set (events m) \<and> ListenerError i \<notin> set (events m) \<and> \<not> launched_late i (events m)"

lemma note_event_simps [simp]:
  "events (note_event e m) = events m @ [e]" "procs (note_event e m) = procs m" "objs (note_event e m) = objs m"
  "is_shutdown (note_event e m) = is_shutdown m" "core_procs (note_event e m) = core_procs m"
  "listeners (note_event e m) = listeners m"
  by (simp_all add: note_event_def)

lemma ok_note [simp]: "ok i (note_event e m) \<longleftrightarrow> ok i m \<and> e \<noteq> Dropped i \<and> e \<noteq> ListenerError i \<and>
    \<not> (e = Launched i \<and> Stop i \<in> set (events m))"
  by (auto simp: ok_def)

lemma ok_update [simp]:
  "ok i (m\<lparr>procs := ps\<rparr>) = ok i m" "ok i (m\<lparr>is_shutdown := b\<rparr>) = ok i m" "ok i (m\<lparr>core_procs := ps\<rparr>) = ok i m"
  "ok i (m\<lparr>objs := h\<rparr>) = ok i m" "ok i (m\<lparr>dead_list := ds\<rparr>) = ok i m" "ok i (m\<lparr>pm_done := b\<rparr>) = ok i m"
  "ok i (m\<lparr>listeners := n\<rparr>) = ok i m" "ok i (m\<lparr>reg_complete := b\<rparr>) = ok i m"
  by (simp_all add: ok_def)

section \<open>The invariant\<close>

definition kept :: "nat list \<Rightarrow> pmon \<Rightarrow> bool" where
  "kept ps m \<longleftrightarrow> (\<forall>i \<in> set ps. ok i m \<longrightarrow> i \<in> set (procs m))"

definition apart :: "nat list \<Rightarrow> nat list \<Rightarrow> pmon \<Rightarrow> bool" where
  "apart ps qs m \<longleftrightarrow> (\<forall>i \<in> set ps. i \<in> set qs \<longrightarrow> \<not> ok i m)"

lemmas list_facts = kept_def apart_def

text \<open>What the monitor thread relies on at each point: its copy of the processes is still registered,
  and no process is both dead and to be restarted.\<close>

fun control :: "mpc \<Rightarrow> pmon \<Rightarrow> bool" where
  "control (Copied ps) m \<longleftrightarrow> distinct ps \<and> kept ps m"
| "control (Polling ps dead resp) m \<longleftrightarrow> distinct ps \<and> kept ps m \<and> kept resp m \<and> apart ps resp m \<and>
     apart ps dead m \<and> apart dead resp m"
| "control (Polled ps dead resp) m \<longleftrightarrow> distinct ps \<and> kept ps m \<and> kept resp m \<and> apart ps resp m \<and>
     apart ps dead m \<and> apart dead resp m"
| "control (Burying ds dead resp) m \<longleftrightarrow> kept resp m \<and> apart ds resp m"
| "control (Respawning rs) m \<longleftrightarrow> kept rs m"
| "control (Kill_core core ps) m \<longleftrightarrow> suffix ps (rev core)"
| "control pc m \<longleftrightarrow> True"

text \<open>The processes that some thread still has to stop.\<close>

fun holders :: "mpc \<Rightarrow> pmon \<Rightarrow> threads \<Rightarrow> nat set" where
  "holders (Joining core) m t = set (kill_queue t) \<union> {p. Kill p \<in> set (killers t)} \<union> set core"
| "holders (Kill_core core ps) m t = set ps"
| "holders Clear m t = {}"
| "holders Finished m t = {}"
| "holders pc m t = set (procs m)"

definition accounted :: "system \<Rightarrow> bool" where
  "accounted s \<longleftrightarrow> (case s of (m, t) \<Rightarrow> \<forall>i. Registered i \<in> set (events m) \<and> ok i m \<longrightarrow>
     i \<in> holders (monitor t) m t \<or> stopped i (events m))"

definition late :: "mpc \<Rightarrow> bool" where
  "late pc \<longleftrightarrow> (case pc of Enqueue \<Rightarrow> True | Joining _ \<Rightarrow> True | Kill_core _ _ \<Rightarrow> True | Clear \<Rightarrow> True | Finished \<Rightarrow> True | _ \<Rightarrow> False)"

definition is_kill :: "kpc \<Rightarrow> bool" where
  "is_kill k \<longleftrightarrow> (case k of Kill _ \<Rightarrow> True | _ \<Rightarrow> False)"

text \<open>The queue counts what is in it and what the killers work on, and no killer ends before it is empty.\<close>

definition counted :: "threads \<Rightarrow> bool" where
  "counted t \<longleftrightarrow> (\<forall>core. monitor t = Joining core \<longrightarrow>
     unfinished t = length (kill_queue t) + length (filter is_kill (killers t)) \<and>
     length (killers t) = 10 \<and> (kill_queue t \<noteq> [] \<longrightarrow> Over \<notin> set (killers t)))"

definition unique_names :: "pmon \<Rightarrow> bool" where
  "unique_names m \<longleftrightarrow> distinct (map (name_of m) (procs m))"

definition system_inv :: "system \<Rightarrow> bool" where
  "system_inv s \<longleftrightarrow> unique_names (fst s) \<and> (late (monitor (snd s)) \<longrightarrow> is_shutdown (fst s)) \<and>
     control (monitor (snd s)) (fst s) \<and> accounted s \<and> counted (snd s)"

text \<open>What a client, or a poll of the monitor, may do to the monitor at any time.\<close>

definition harmless :: "pmon \<Rightarrow> pmon \<Rightarrow> bool" where
  "harmless m m' \<longleftrightarrow> (unique_names m \<longrightarrow> unique_names m') \<and> (is_shutdown m \<longrightarrow> is_shutdown m') \<and>
     (\<forall>i. ok i m' \<longrightarrow> ok i m \<and> (i \<in> set (procs m) \<longrightarrow> i \<in> set (procs m')) \<and>
        (stopped i (events m) \<longrightarrow> stopped i (events m')) \<and>
        (Registered i \<in> set (events m') \<longrightarrow> Registered i \<in> set (events m) \<or> (i \<in> set (procs m') \<and> \<not> is_shutdown m)))"

lemma harmless_control: "harmless m m' \<Longrightarrow> control pc m \<Longrightarrow> control pc m'"
  by (cases pc) (auto simp: harmless_def list_facts)

lemma harmless_holders: "harmless m m' \<Longrightarrow> ok i m' \<Longrightarrow> i \<in> holders pc m t \<Longrightarrow> i \<in> holders pc m' t"
  by (cases pc) (auto simp: harmless_def)

lemma holders_early: "\<not> late pc \<Longrightarrow> holders pc m t = set (procs m)"
  by (cases pc) (auto simp: late_def)

lemma harmless_inv:
  assumes "harmless m m'" "system_inv (m, t)" shows "system_inv (m', t)"
proof -
  have "accounted (m', t)"
    unfolding accounted_def split_conv
  proof (intro allI impI)
    fix i assume i: "Registered i \<in> set (events m') \<and> ok i m'"
    show "i \<in> holders (monitor t) m' t \<or> stopped i (events m')"
    proof (cases "Registered i \<in> set (events m)")
      case True
      then show ?thesis using assms i harmless_holders [OF assms(1), of i "monitor t" t]
        by (auto simp: system_inv_def accounted_def harmless_def)
    next
      case False
      then have "i \<in> set (procs m')" "\<not> is_shutdown m" using assms(1) i by (auto simp: harmless_def)
      then show ?thesis using assms(2) holders_early by (auto simp: system_inv_def)
    qed
  qed
  then show ?thesis using assms harmless_control [OF assms(1)] by (auto simp: system_inv_def harmless_def)
qed

lemma unique_names_objs: "(\<And>p. p_name (h p) = p_name (objs m p)) \<Longrightarrow> unique_names (m\<lparr>objs := h\<rparr>) = unique_names m"
  by (simp add: unique_names_def)

lemma unique_names_update [simp]:
  "unique_names (note_event e m) = unique_names m" "unique_names (m\<lparr>is_shutdown := b\<rparr>) = unique_names m"
  "unique_names (m\<lparr>core_procs := ps\<rparr>) = unique_names m" "unique_names (m\<lparr>dead_list := ds\<rparr>) = unique_names m"
  "unique_names (m\<lparr>listeners := n\<rparr>) = unique_names m" "unique_names (m\<lparr>reg_complete := b\<rparr>) = unique_names m"
  by (simp_all add: unique_names_def)

lemma unique_distinct: "unique_names m \<Longrightarrow> distinct (procs m)"
  by (auto simp: unique_names_def distinct_map)

lemma unique_remove: "unique_names m \<Longrightarrow> unique_names (m\<lparr>procs := remove1 p (procs m)\<rparr>)"
  by (auto simp: unique_names_def distinct_map distinct_remove1 inj_on_def dest: notin_set_remove1)

lemma harmless_register: "register_proc p m = (r, m') \<Longrightarrow> harmless m m'"
  by (auto simp: register_proc_def harmless_def unique_names_def has_process_def filter_empty_conv split: if_splits) metis

lemma harmless_unregister: "unregister p m = (Inr u, m') \<Longrightarrow> harmless m (note_event (Dropped p) m')"
  using unique_remove [of m p] by (auto simp: unregister_def harmless_def split: if_splits)

lemma harmless_launch: "harmless m (note_event (Launched p) (m\<lparr>objs := (objs m)(p := process_start (objs m p))\<rparr>))"
  by (auto simp: harmless_def unique_names_objs process_start_def dest: stopped_in)

lemma harmless_poll: "poll oc p dead resp m = (d, r, m') \<Longrightarrow> harmless m m'"
  by (auto simp: poll_def harmless_def split: option.splits bool.splits if_splits)

lemma harmless_others:
  "harmless m (append_core p m)" "harmless m (pm_shutdown m)" "harmless m (registrations_complete m)"
  "harmless m (add_process_listener m)" "harmless m (all_dead dead resp m)" "harmless m m"
  "harmless m (note_event (Stop p) m)" "harmless m (m\<lparr>is_shutdown := True\<rparr>)" "harmless m (snd (kill_process b n m))"
  "harmless m (m\<lparr>objs := (objs m)(p := (objs m p)\<lparr>exit_code := c\<rparr>)\<rparr>)"
  by (auto simp: harmless_def append_core_def pm_shutdown_def registrations_complete_def add_process_listener_def all_dead_def
      kill_process_def unique_names_objs split: option.splits if_splits)

section \<open>Every step keeps the invariant\<close>

text \<open>An exchange of the program point of the monitor, when the point is not a late one before and after.\<close>

lemma inv_goto:
  assumes "system_inv (m, t)" "\<not> late (monitor t)" "\<not> late pc" "control pc m" "monitor t' = pc"
  shows "system_inv (m, t')"
  using assms holders_early by (auto simp: system_inv_def accounted_def counted_def late_def)

lemma poll_lists:
  "poll oc p dead resp m = (d, r, m') \<Longrightarrow>
     (d = dead \<and> r = resp) \<or> (set d = insert p (set dead) \<and> r = resp) \<or> (d = dead \<and> set r = insert p (set resp)) \<or>
     (set d = insert p (set dead) \<and> set r = insert p (set resp) \<and> \<not> ok p m')"
  by (auto simp: poll_def split: option.splits bool.splits if_splits)

lemma insert_lists:
  "set xs = insert p (set ys) \<Longrightarrow> kept xs m \<longleftrightarrow> (ok p m \<longrightarrow> p \<in> set (procs m)) \<and> kept ys m"
  "set xs = insert p (set ys) \<Longrightarrow> apart xs zs m \<longleftrightarrow> (p \<in> set zs \<longrightarrow> \<not> ok p m) \<and> apart ys zs m"
  "set xs = insert p (set ys) \<Longrightarrow> apart zs xs m \<longleftrightarrow> (p \<in> set zs \<longrightarrow> \<not> ok p m) \<and> apart zs ys m"
  by (auto simp: list_facts)

lemma polled_control:
  assumes "control (Polling (p # ps) dead resp) m"
    and "(d = dead \<and> r = resp) \<or> (set d = insert p (set dead) \<and> r = resp) \<or> (d = dead \<and> set r = insert p (set resp)) \<or>
     (set d = insert p (set dead) \<and> set r = insert p (set resp) \<and> \<not> ok p m)"
  shows "control (Polling ps d r) m"
proof -
  have p: "p \<notin> set ps" "distinct ps" "ok p m \<longrightarrow> p \<in> set (procs m) \<and> p \<notin> set dead \<and> p \<notin> set resp"
    "kept ps m" "kept resp m" "apart ps resp m" "apart ps dead m" "apart dead resp m"
    using assms(1) by (auto simp: list_facts)
  from assms(2) show ?thesis
  proof (elim disjE conjE)
    assume "d = dead" "r = resp"
    then show ?thesis using p by simp
  next
    assume d: "set d = insert p (set dead)" and "r = resp"
    then show ?thesis using p by (auto simp: insert_lists [OF d])
  next
    assume "d = dead" and r: "set r = insert p (set resp)"
    then show ?thesis using p by (auto simp: insert_lists [OF r])
  next
    assume d: "set d = insert p (set dead)" and r: "set r = insert p (set resp)" and "\<not> ok p m"
    then show ?thesis using p by (auto simp: insert_lists [OF d] insert_lists [OF r] d r)
  qed
qed

lemma inv_poll:
  assumes inv: "system_inv (m, t)" and pc: "monitor t = Polling (p # ps) dead resp"
  shows "system_inv (monitor_step oc (m, t))"
proof -
  obtain d r m' where poll: "poll oc p dead resp m = (d, r, m')" by (metis prod.exhaust)
  have h: "harmless m m'" by (rule harmless_poll [OF poll])
  have c: "control (Polling (p # ps) dead resp) m" using inv pc by (simp add: system_inv_def)
  have inv': "system_inv (m', t)" by (rule harmless_inv [OF h inv])
  have "control (Polling (p # ps) dead resp) m'" by (rule harmless_control [OF h c])
  then have "control (Polling ps d r) m'" by (rule polled_control [OF _ poll_lists [OF poll]])
  then have "control (Polled ps d r) m'" by simp
  moreover have "\<not> late (Polled ps d r)" "\<not> late (monitor t)" using pc by (simp_all add: late_def)
  ultimately show ?thesis using inv_goto [OF inv'] poll pc by simp
qed

lemma inv_bury:
  assumes inv: "system_inv (m, t)" and pc: "monitor t = Burying (d # ds) dead resp"
  shows "system_inv (monitor_step oc (m, t))"
proof (cases "d \<in> set (procs m)")
  case False
  then have "monitor_step oc (m, t) = (m, t\<lparr>monitor := Burying ds dead resp\<rparr>)"
    using pc by (simp add: bury_def unregister_def)
  moreover have "control (Burying ds dead resp) m" using inv pc by (simp add: system_inv_def list_facts)
  ultimately show ?thesis using inv_goto [OF inv, of "Burying ds dead resp"] pc by (simp add: late_def)
next
  case True
  let ?m = "bury oc d m"
  have b: "procs ?m = remove1 d (procs m)" "events ?m = events m @ [Stop d]" "objs ?m = objs m" "is_shutdown ?m = is_shutdown m"
    using True by (simp_all add: bury_def unregister_def Let_def split: option.splits)
  have u: "unique_names m" using inv by (simp add: system_inv_def)
  then have procs: "set (procs ?m) = set (procs m) - {d}" using unique_distinct b(1) by simp
  have ok: "ok i ?m \<longleftrightarrow> ok i m" for i by (auto simp: ok_def b(2))
  have "unique_names ?m" using unique_remove [OF u, of d] b by (simp add: unique_names_def)
  moreover have "accounted (?m, t\<lparr>monitor := Burying ds dead resp\<rparr>)"
    using inv pc by (auto simp: system_inv_def accounted_def procs b(2) ok)
  moreover have "control (Burying ds dead resp) ?m"
    using inv pc by (auto simp: system_inv_def list_facts procs ok)
  ultimately show ?thesis using pc by (simp add: system_inv_def late_def counted_def)
qed

lemma inv_restart:
  assumes inv: "system_inv (m, t)" and pc: "monitor t = Respawning (r # rs)"
  shows "system_inv (monitor_step oc (m, t))"
proof (cases "is_shutdown m")
  case True
  then show ?thesis using inv_goto [OF inv, of Top] pc by (simp add: late_def)
next
  case False
  let ?m = "restart oc r m"
  have e: "procs ?m = procs m" "is_shutdown ?m = is_shutdown m" "\<And>p. name_of ?m p = name_of m p"
    by (simp_all add: restart_def Let_def process_start_def)
  have ev: "events ?m = events m @ [Stop r] \<or> events ?m = (events m @ [Stop r]) @ [Start r]"
    by (simp add: restart_def Let_def)
  then have ok: "ok i ?m \<longleftrightarrow> ok i m" for i by (auto simp: ok_def simp del: append_assoc)
  have other: "stopped i (events ?m) \<longleftrightarrow> stopped i (events m)" if "i \<noteq> r" for i
    using ev that by (auto simp del: append_assoc)
  have "accounted (?m, t\<lparr>monitor := Respawning rs\<rparr>)"
    unfolding accounted_def split_conv
  proof (intro allI impI)
    fix i assume i: "Registered i \<in> set (events ?m) \<and> ok i ?m"
    then have m: "Registered i \<in> set (events m)" "ok i m" using ev ok by auto
    show "i \<in> holders (monitor (t\<lparr>monitor := Respawning rs\<rparr>)) ?m (t\<lparr>monitor := Respawning rs\<rparr>) \<or> stopped i (events ?m)"
    proof (cases "i = r")
      case True
      then show ?thesis using inv pc m by (simp add: system_inv_def list_facts e(1))
    next
      case False
      then show ?thesis using inv pc m other by (auto simp: system_inv_def accounted_def e(1))
    qed
  qed
  moreover have "control (Respawning rs) ?m" using inv pc by (auto simp: system_inv_def list_facts e(1) ok)
  moreover have "unique_names ?m" using inv e by (simp add: system_inv_def unique_names_def)
  ultimately show ?thesis using pc False by (simp add: system_inv_def late_def counted_def)
qed

lemma filter_is_kill_Nil: "filter is_kill ks = [] \<longleftrightarrow> (\<forall>p. Kill p \<notin> set ks)"
  by (force simp: filter_empty_conv is_kill_def split: kpc.splits)

lemma inv_join:
  assumes inv: "system_inv (m, t)" and pc: "monitor t = Joining core"
  shows "system_inv (monitor_step oc (m, t))"
proof (cases "unfinished t = 0")
  case True
  then have "kill_queue t = []" "\<forall>p. Kill p \<notin> set (killers t)"
    using inv pc filter_is_kill_Nil by (auto simp: system_inv_def counted_def)
  then show ?thesis using inv pc True by (auto simp: system_inv_def accounted_def counted_def late_def)
next
  case False
  then show ?thesis using inv pc by (simp cong: if_cong)
qed

lemma inv_enqueue:
  assumes inv: "system_inv (m, t)" and pc: "monitor t = Enqueue"
  shows "system_inv (monitor_step oc (m, t))"
  using assms by (auto simp: system_inv_def accounted_def counted_def late_def is_kill_def Let_def)

lemma inv_monitor:
  assumes inv: "system_inv (m, t)" shows "system_inv (monitor_step oc (m, t))"
proof (cases "monitor t")
  case Top
  then show ?thesis
    using inv_goto [OF inv, of Post_run] inv_goto [OF inv, of "Copied (procs m)"] unique_distinct [of m] inv
    by (simp add: late_def system_inv_def list_facts)
next
  case (Copied ps)
  then show ?thesis
    using inv_goto [OF inv, of Post_run] inv_goto [OF inv, of "Polling ps [] []"] inv
    by (simp add: late_def system_inv_def list_facts)
next
  case (Polling ps dead resp)
  then show ?thesis
    using inv_goto [OF inv, of "Burying dead dead resp"] inv_poll [OF inv] inv
    by (cases ps) (auto simp: late_def system_inv_def list_facts)
next
  case (Polled ps dead resp)
  then have "control (Polling ps dead resp) m" "control (Burying dead dead resp) m"
    using inv by (auto simp: system_inv_def list_facts)
  then show ?thesis
    using inv_goto [OF inv, of "Burying dead dead resp"] inv_goto [OF inv, of "Polling ps dead resp"] Polled
    by (simp add: late_def)
next
  case (Burying ds dead resp)
  have h: "harmless m (all_dead dead resp m)" by (rule harmless_others)
  show ?thesis
  proof (cases ds)
    case Nil
    have "control (Respawning resp) (all_dead dead resp m)"
      using harmless_control [OF h, of "Respawning resp"] Burying inv by (simp add: system_inv_def)
    then show ?thesis
      using inv_goto [OF harmless_inv [OF h inv], of "Respawning resp"] Burying Nil by (simp add: late_def)
  next
    case (Cons d ds')
    then show ?thesis using inv_bury [OF inv] Burying by simp
  qed
next
  case (Respawning rs)
  then show ?thesis
    using inv_goto [OF inv, of Top] inv_restart [OF inv] by (cases rs) (auto simp: late_def)
next
  case Post_run
  then show ?thesis using inv by (auto simp: system_inv_def accounted_def counted_def late_def)
next
  case Enqueue
  then show ?thesis by (rule inv_enqueue [OF inv])
next
  case (Joining core)
  then show ?thesis by (rule inv_join [OF inv])
next
  case (Kill_core core ps)
  show ?thesis
  proof (cases ps)
    case Nil
    then show ?thesis using inv Kill_core by (auto simp: system_inv_def accounted_def counted_def late_def)
  next
    case (Cons p ps')
    then show ?thesis using inv Kill_core suffix_ConsD [of p ps' "rev core"]
      by (auto simp: system_inv_def accounted_def counted_def late_def)
  qed
next
  case Clear
  then show ?thesis using inv by (auto simp: system_inv_def accounted_def counted_def late_def unique_names_def ok_def)
qed (use inv in simp)

lemma killer_updates:
  assumes "i < length ks"
  shows "length (filter is_kill (ks[i := k])) + (if is_kill (ks ! i) then 1 else 0) =
      length (filter is_kill ks) + (if is_kill k then 1 else 0)"
  using assms
proof (induction ks arbitrary: i)
  case (Cons a ks)
  then show ?case by (cases i) auto
qed simp

lemma in_set_update: "x \<in> set (ks[i := k]) \<Longrightarrow> x = k \<or> x \<in> set ks"
  by (meson insertE set_update_subset_insert subsetD)

lemma kill_in_update: "i < length ks \<Longrightarrow> ks ! i \<noteq> Kill p \<Longrightarrow> Kill p \<in> set ks \<Longrightarrow> Kill p \<in> set (ks[i := k])"
  by (metis in_set_conv_nth length_list_update nth_list_update_neq)

lemma inv_killer:
  assumes inv: "system_inv (m, t)" shows "system_inv (killer_step i (m, t))"
proof (cases "i < length (killers t)")
  case i: True
  show ?thesis
  proof (cases "killers t ! i")
    case Check
    let ?k = "if kill_queue t = [] then Over else Get"
    have "length (filter is_kill ((killers t)[i := ?k])) = length (filter is_kill (killers t))"
      using killer_updates [OF i, of ?k] Check by (simp add: is_kill_def)
    moreover have "holders (monitor t) m t \<subseteq> holders (monitor t) m (t\<lparr>killers := (killers t)[i := ?k]\<rparr>)"
      using kill_in_update [OF i, of _ ?k] Check by (cases "monitor t") auto
    ultimately show ?thesis using inv i Check
      by (auto simp: system_inv_def accounted_def counted_def dest: in_set_update)
  next
    case Get
    show ?thesis
    proof (cases "kill_queue t")
      case Nil
      have "length (filter is_kill ((killers t)[i := Check])) = length (filter is_kill (killers t))"
        using killer_updates [OF i, of Check] Get by (simp add: is_kill_def)
      moreover have "holders (monitor t) m t \<subseteq> holders (monitor t) m (t\<lparr>killers := (killers t)[i := Check]\<rparr>)"
        using kill_in_update [OF i, of _ Check] Get by (cases "monitor t") auto
      ultimately show ?thesis using inv i Get Nil
        by (auto simp: system_inv_def accounted_def counted_def dest: in_set_update)
    next
      case (Cons p q)
      have "length (filter is_kill ((killers t)[i := Kill p])) = Suc (length (filter is_kill (killers t)))"
        using killer_updates [OF i, of "Kill p"] Get by (simp add: is_kill_def)
      moreover have "holders (monitor t) m t \<subseteq> holders (monitor t) m (t\<lparr>killers := (killers t)[i := Kill p], kill_queue := q\<rparr>)"
        using kill_in_update [OF i, of _ "Kill p"] Get Cons set_update_memI [OF i, of "Kill p"] by (cases "monitor t") auto
      ultimately show ?thesis using inv i Get Cons
        by (auto simp: system_inv_def accounted_def counted_def dest: in_set_update)
    qed
  next
    case (Kill p)
    have "system_inv (note_event (Stop p) m, t)" by (rule harmless_inv [OF harmless_others(7) inv])
    moreover have "Suc (length (filter is_kill ((killers t)[i := Check]))) = length (filter is_kill (killers t))"
      using killer_updates [OF i, of Check] Kill by (simp add: is_kill_def)
    moreover have "holders (monitor t) (note_event (Stop p) m) t \<subseteq>
        insert p (holders (monitor t) (note_event (Stop p) m) (t\<lparr>killers := (killers t)[i := Check], unfinished := unfinished t - 1\<rparr>))"
      using kill_in_update [OF i, of _ Check] Kill by (cases "monitor t") auto
    ultimately show ?thesis using inv i Kill
      by (auto simp: system_inv_def accounted_def counted_def dest: in_set_update)
  qed (use inv i in simp)
qed (use inv in simp)

lemma inv_action: "system_inv s \<Longrightarrow> system_inv (do_action a s)"
proof -
  assume inv: "system_inv s"
  obtain m t where s: "s = (m, t)" by (cases s)
  have client: "system_inv (m', t')" if "harmless m m'" "t' = t\<lparr>adding_core := ps\<rparr> \<or> t' = t" for m' t' ps
  proof -
    have "system_inv (m', t)" by (rule harmless_inv [OF that(1) inv [unfolded s]])
    moreover have "holders (monitor t) m' (t\<lparr>adding_core := ps\<rparr>) = holders (monitor t) m' t" by (cases "monitor t") auto
    ultimately show ?thesis using that(2) by (auto simp: system_inv_def accounted_def counted_def)
  qed
  show ?thesis
  proof (cases a)
    case (Monitor oc)
    then show ?thesis using inv_monitor inv s by simp
  next
    case (Killer i)
    then show ?thesis using inv_killer inv s by simp
  next
    case (Register p)
    then show ?thesis using client harmless_register [of p m] s by (cases "register_proc p m") auto
  next
    case (RegisterCore p)
    then show ?thesis using client harmless_register [of p m] s
      by (cases "register_proc p m") (auto split: sum.splits)
  next
    case (AppendCore p)
    then show ?thesis
      using client [of "append_core p m" _ "remove1 p (adding_core t)"] harmless_others(1) [of m p] inv s by auto
  next
    case (Unregister p)
    then show ?thesis using client harmless_unregister [of p m] harmless_others(6) s
      by (cases "unregister p m") (auto simp: unregister_def split: sum.splits if_splits)
  next
    case (Launch p)
    then show ?thesis using client harmless_launch [of m p] s by auto
  qed (use client harmless_others s in auto)
qed

lemma inv_start: "system_inv (start_system heap)"
  by (simp add: system_inv_def start_system_def ProcessMonitor_def unique_names_def late_def accounted_def counted_def)

lemma reachable_inv: "reachable heap s \<Longrightarrow> system_inv s"
  by (induction rule: reachable.induct) (simp_all add: inv_start inv_action)

lemma reachable_run: "reachable heap s \<Longrightarrow> reachable heap (run_actions as s)"
  by (induction as arbitrary: s) (simp_all add: reachable.step)

section \<open>The shutdown ends\<close>

fun killer_weight :: "nat list \<Rightarrow> kpc \<Rightarrow> nat" where
  "killer_weight q Check = (if q = [] then 1 else 3)"
| "killer_weight q Get = 2"
| "killer_weight q (Kill p) = 4"
| "killer_weight q Over = 0"

definition killers_left :: "threads \<Rightarrow> nat" where
  "killers_left t = sum_list (map (killer_weight (kill_queue t)) (killers t)) + 3 * length (kill_queue t)"

definition to_enqueue :: "pmon \<Rightarrow> threads \<Rightarrow> nat" where
  "to_enqueue m t = length (core_procs m) + length (adding_core t) + 3 * length (procs m) + 34"

fun monitor_left :: "mpc \<Rightarrow> nat \<Rightarrow> nat" where
  "monitor_left Finished n = 0"
| "monitor_left Clear n = 1"
| "monitor_left (Kill_core core ps) n = 2 + length ps"
| "monitor_left (Joining core) n = 3 + length core"
| "monitor_left Enqueue n = n"
| "monitor_left Post_run n = 1 + n"
| "monitor_left Top n = 2 + n"
| "monitor_left (Copied ps) n = 2 + n"
| "monitor_left (Respawning rs) n = 3 + n"
| "monitor_left (Burying ds dead resp) n = 4 + n + length ds"
| "monitor_left (Polled ps dead resp) n = 5 + n + length dead"
| "monitor_left (Polling ps dead resp) n = 8 + n + length dead"

text \<open>A bound on the steps that are left of the monitor and its killers after the shutdown.\<close>

definition steps_left :: "system \<Rightarrow> nat" where
  "steps_left s = (case s of (m, t) \<Rightarrow> monitor_left (monitor t) (to_enqueue m t) + killers_left t)"

text \<open>The actions that are steps of the monitor or of a killer, and can be taken.\<close>

fun active :: "action \<Rightarrow> system \<Rightarrow> bool" where
  "active (Monitor oc) (m, t) \<longleftrightarrow> (case monitor t of Finished \<Rightarrow> False | Joining core \<Rightarrow> unfinished t = 0 | _ \<Rightarrow> True)"
| "active (Killer i) (m, t) \<longleftrightarrow> i < length (killers t) \<and> killers t ! i \<noteq> Over"
| "active a s \<longleftrightarrow> False"

fun active_steps :: "action list \<Rightarrow> system \<Rightarrow> nat" where
  "active_steps [] s = 0"
| "active_steps (a # as) s = (if active a s then 1 else 0) + active_steps as (do_action a s)"

lemma weight_update:
  "i < length ks \<Longrightarrow> sum_list (map w (ks[i := k])) + w (ks ! i) = sum_list (map w ks) + (w k :: nat)"
proof (induction ks arbitrary: i)
  case (Cons a ks)
  then show ?case by (cases i) auto
qed simp

lemma weight_tail: "sum_list (map (killer_weight q) ks) \<le> sum_list (map (killer_weight (p # q)) ks)"
proof (rule sum_list_mono)
  show "killer_weight q k \<le> killer_weight (p # q) k" for k by (cases k) auto
qed

lemma killer_step_less:
  assumes "i < length (killers t)" "killers t ! i \<noteq> Over"
  shows "killers_left (snd (killer_step i (m, t))) < killers_left t"
proof (cases "killers t ! i")
  case Check
  then show ?thesis
    using weight_update [OF assms(1), of "killer_weight (kill_queue t)" "if kill_queue t = [] then Over else Get"] assms(1)
    by (auto simp: killers_left_def split: if_splits)
next
  case Get
  show ?thesis
  proof (cases "kill_queue t")
    case Nil
    then show ?thesis using weight_update [OF assms(1), of "killer_weight []" Check] assms(1) Get
      by (simp add: killers_left_def)
  next
    case (Cons p q)
    then show ?thesis
      using weight_update [OF assms(1), of "killer_weight q" "Kill p"] weight_tail [of q "killers t" p] assms(1) Get
      by (simp add: killers_left_def)
  qed
next
  case (Kill p)
  then show ?thesis
    using weight_update [OF assms(1), of "killer_weight (kill_queue t)" Check] assms(1)
    by (auto simp: killers_left_def split: if_splits)
qed (use assms in simp)

lemma killer_step_less_total:
  assumes "active (Killer i) (m, t)"
  shows "steps_left (do_action (Killer i) (m, t)) < steps_left (m, t)"
proof -
  obtain m' t' where s: "killer_step i (m, t) = (m', t')" by (metis prod.exhaust)
  have "procs m' = procs m" "core_procs m' = core_procs m" "monitor t' = monitor t" "adding_core t' = adding_core t"
    using s assms by (auto split: kpc.splits list.splits if_splits)
  then show ?thesis using killer_step_less [of i t m] assms s by (simp add: steps_left_def to_enqueue_def)
qed

lemma enqueue_weight:
  "killers_left (t\<lparr>monitor := pc, killers := replicate 10 Check, kill_queue := q, unfinished := n\<rparr>) \<le> 30 + 3 * length q"
  by (simp add: killers_left_def sum_list_replicate)

lemma monitor_step_less_total:
  assumes "is_shutdown m" "active (Monitor oc) (m, t)"
  shows "steps_left (do_action (Monitor oc) (m, t)) < steps_left (m, t)"
proof (cases "monitor t")
  case (Polling ps dead resp)
  show ?thesis
  proof (cases ps)
    case Nil
    then show ?thesis using Polling by (simp add: steps_left_def to_enqueue_def killers_left_def)
  next
    case (Cons p ps')
    obtain d r m' where poll: "poll oc p dead resp m = (d, r, m')" by (metis prod.exhaust)
    have "is_shutdown m'" "procs m' = procs m" "core_procs m' = core_procs m" "length d \<le> length dead + 2"
      using poll assms(1) by (auto simp: poll_def split: option.splits bool.splits if_splits)
    then show ?thesis using Polling Cons poll by (simp add: steps_left_def to_enqueue_def killers_left_def)
  qed
next
  case (Burying ds dead resp)
  show ?thesis
  proof (cases ds)
    case Nil
    have "procs (all_dead dead resp m) = procs m" "core_procs (all_dead dead resp m) = core_procs m"
      by (simp_all add: all_dead_def)
    then show ?thesis using Burying Nil by (simp add: steps_left_def to_enqueue_def killers_left_def)
  next
    case (Cons d ds')
    have "length (procs (bury oc d m)) \<le> length (procs m)" "core_procs (bury oc d m) = core_procs m"
      by (auto simp: bury_def unregister_def Let_def length_remove1 split: option.splits)
    then show ?thesis using Burying Cons by (simp add: steps_left_def to_enqueue_def killers_left_def)
  qed
next
  case (Respawning rs)
  then show ?thesis using assms(1) by (cases rs) (simp_all add: steps_left_def to_enqueue_def killers_left_def)
next
  case Enqueue
  let ?q = "filter (\<lambda>p. p \<notin> set (core_procs m)) (rev (procs m))"
  have "length ?q \<le> length (procs m)" by (metis length_filter_le length_rev)
  then show ?thesis
    using Enqueue enqueue_weight [where t = t and pc = "Joining (core_procs m)" and q = ?q and n = "length ?q"]
    by (simp add: steps_left_def to_enqueue_def Let_def)
next
  case (Kill_core core ps)
  then show ?thesis by (cases ps) (simp_all add: steps_left_def killers_left_def)
qed (use assms in \<open>simp_all add: steps_left_def to_enqueue_def killers_left_def\<close>)

text \<open>After the shutdown no call of a client adds work.\<close>

lemma monitor_left_mono: "n \<le> k \<Longrightarrow> monitor_left pc n \<le> monitor_left pc k"
  by (cases pc) auto

lemma client_step_le:
  assumes "is_shutdown m" "\<And>oc. a \<noteq> Monitor oc" "\<And>i. a \<noteq> Killer i"
  shows "steps_left (do_action a (m, t)) \<le> steps_left (m, t)"
proof -
  obtain m' t' where s: "do_action a (m, t) = (m', t')" by (metis prod.exhaust)
  have "monitor t' = monitor t \<and> killers t' = killers t \<and> kill_queue t' = kill_queue t \<and> to_enqueue m' t' \<le> to_enqueue m t"
  proof (cases a)
    case (Register p)
    then show ?thesis using s assms(1) by (auto simp: register_proc_def to_enqueue_def split: if_splits)
  next
    case (RegisterCore p)
    then show ?thesis using s assms(1) by (auto simp: register_proc_def to_enqueue_def split: if_splits)
  next
    case (AppendCore p)
    then show ?thesis using s length_pos_if_in_set [of p "adding_core t"]
      by (auto simp: append_core_def to_enqueue_def length_remove1 split: if_splits)
  next
    case (Unregister p)
    then show ?thesis using s by (auto simp: unregister_def to_enqueue_def length_remove1 split: if_splits)
  next
    case (KillProcess b n)
    then show ?thesis using s by (auto simp: kill_process_def to_enqueue_def split: if_splits option.splits)
  qed (use s assms in \<open>auto simp: pm_shutdown_def registrations_complete_def add_process_listener_def to_enqueue_def\<close>)
  then show ?thesis using monitor_left_mono by (simp add: s steps_left_def killers_left_def)
qed

lemma shutdown_parts:
  "is_shutdown m \<Longrightarrow> is_shutdown (snd (snd (poll oc p dead resp m)))" "is_shutdown (bury oc d m) = is_shutdown m"
  "is_shutdown m \<Longrightarrow> is_shutdown (all_dead dead resp m)" "is_shutdown (restart oc r m) = is_shutdown m"
  by (auto simp: poll_def bury_def unregister_def all_dead_def restart_def Let_def split: option.splits bool.splits if_splits)

lemma shutdown_monitor: "is_shutdown m \<Longrightarrow> is_shutdown (fst (monitor_step oc (m, t)))"
proof (cases "monitor t")
  case (Polling ps dead resp)
  then show "is_shutdown m \<Longrightarrow> ?thesis" using shutdown_parts(1) [of m oc "hd ps" dead resp]
    by (cases ps) (auto split: prod.splits)
next
  case (Burying ds dead resp)
  then show "is_shutdown m \<Longrightarrow> ?thesis" by (cases ds) (auto simp: shutdown_parts)
next
  case (Respawning rs)
  then show "is_shutdown m \<Longrightarrow> ?thesis" by (cases rs) (auto simp: shutdown_parts)
next
  case (Kill_core core ps)
  then show "is_shutdown m \<Longrightarrow> ?thesis" by (cases ps) auto
qed (auto simp: Let_def)

lemma shutdown_killer: "is_shutdown m \<Longrightarrow> is_shutdown (fst (killer_step i (m, t)))"
  by (cases "i < length (killers t)"; cases "killers t ! i"; cases "kill_queue t") auto

lemma shutdown_stays: "is_shutdown (fst s) \<Longrightarrow> is_shutdown (fst (do_action a s))"
proof -
  assume sd: "is_shutdown (fst s)"
  obtain m t where s: "s = (m, t)" by (cases s)
  show ?thesis
  proof (cases a)
    case (Monitor oc)
    then show ?thesis using shutdown_monitor sd s by simp
  next
    case (Killer i)
    then show ?thesis using shutdown_killer sd s by simp
  qed (use sd s in \<open>auto simp: register_proc_def append_core_def unregister_def kill_process_def pm_shutdown_def
      registrations_complete_def add_process_listener_def split: option.splits if_splits\<close>)
qed

lemma active_steps_bound: "is_shutdown (fst s) \<Longrightarrow> active_steps as s \<le> steps_left s"
proof (induction as arbitrary: s)
  case (Cons a as)
  obtain m t where s: "s = (m, t)" by (cases s)
  have IH: "active_steps as (do_action a s) \<le> steps_left (do_action a s)"
    by (rule Cons.IH [OF shutdown_stays [OF Cons.prems]])
  show ?case
  proof (cases "active a s")
    case True
    then have "steps_left (do_action a s) < steps_left s"
      using monitor_step_less_total [of m _ t] killer_step_less_total [of _ m t] Cons.prems s by (cases a) auto
    then show ?thesis using IH True by simp
  next
    case False
    have "steps_left (do_action a s) \<le> steps_left s"
    proof (cases a)
      case (Monitor oc)
      then have "do_action a s = s" using False s by (auto split: mpc.splits)
      then show ?thesis by simp
    next
      case (Killer i)
      then have "do_action a s = s" using False s by auto
      then show ?thesis by simp
    qed (use client_step_le [of m a t] Cons.prems s in simp_all)
    then show ?thesis using IH False by simp
  qed
qed simp

lemma join_progress:
  assumes "system_inv (m, t)" "monitor t = Joining core" "unfinished t \<noteq> 0"
  shows "\<exists>i. active (Killer i) (m, t)"
proof -
  have c: "unfinished t = length (kill_queue t) + length (filter is_kill (killers t))" "length (killers t) = 10"
    "kill_queue t \<noteq> [] \<longrightarrow> Over \<notin> set (killers t)" using assms(1,2) by (auto simp: system_inv_def counted_def)
  show ?thesis
  proof (cases "kill_queue t")
    case Nil
    then obtain k where "k \<in> set (killers t)" "is_kill k" using c(1) assms(3) by (auto simp: filter_empty_conv)
    then obtain i where "i < length (killers t)" "is_kill (killers t ! i)" by (metis in_set_conv_nth)
    then show ?thesis by (intro exI [of _ i]) (auto simp: is_kill_def)
  next
    case (Cons p q)
    then have "killers t ! 0 \<noteq> Over" using c(2,3) by (metis list.distinct(1) nth_mem zero_less_numeral)
    then show ?thesis using c(2) by (intro exI [of _ 0]) simp
  qed
qed

section \<open>Properties\<close>

text \<open>C9: What the shutdown of the process monitor stops. In every state that the monitor, its
  ten killers and the clients reach in any interleaving, the names of the registered processes are distinct; while the
  core processes are killed, in the reverse of the order in which they were added, all others have been stopped;
  and when the monitor is done, every process that was ever registered was stopped after the last time the monitor or a client
  started it. Three kinds of processes are excepted: those that a client unregistered, those for which a listener raised
  an exception, and those that a client starts when the monitor has stopped them already. (\<open>ok\<close> is the
  negation of the three.)\<close>

theorem monitor_stops_all:
  assumes "reachable heap (m, t)"
  shows "distinct (get_active_names m) \<and>
    (monitor t = Kill_core core ps \<longrightarrow> suffix ps (rev core) \<and>
       (\<forall>i. Registered i \<in> set (events m) \<and> ok i m \<and> i \<notin> set ps \<longrightarrow> stopped i (events m))) \<and>
    (monitor t = Finished \<longrightarrow> (\<forall>i. Registered i \<in> set (events m) \<and> ok i m \<longrightarrow> stopped i (events m)))"
  using reachable_inv [OF assms]
  by (auto simp: system_inv_def accounted_def unique_names_def get_active_names_def)

definition demo_heap :: "nat \<Rightarrow> process" where
  "demo_heap i = Process ''p'' (if i = 0 then ''a'' else if i = 1 then ''b'' else ''c'') [] [] (i = 0) False"

definition fine :: action where
  "fine = Monitor \<lparr>alive = Some True, listener_raises = False, stop_raises = False, start_raises = False\<rparr>"

definition died :: "bool \<Rightarrow> action" where
  "died raises = Monitor \<lparr>alive = Some False, listener_raises = raises, stop_raises = False, start_raises = False\<rparr>"

definition demo_actions :: "action list" where
  "demo_actions = [Register 0, Launch 0, RegisterCore 1, AppendCore 1, Launch 1, Listen,
     fine, fine, died False, fine, fine, fine, fine, fine, fine, fine, Shutdown, Register 2, fine, fine, fine, Killer 0, Killer 3, Killer 0, Killer 0, fine, fine, fine, fine]"

definition demo_end :: system where
  "demo_end = run_actions demo_actions (start_system demo_heap)"

lemma demo_end_eval:
  "monitor (snd demo_end) = Finished"
  "events (fst demo_end) = [Registered 0, Launched 0, Registered 1, Launched 1, Died 0, Stop 0, Start 0, Stop 0, Stop 1]"
  by code_simp+

theorem monitor_stops_all_witness: "stopped 0 (events (fst demo_end)) \<and> stopped 1 (events (fst demo_end))"
proof -
  have "reachable demo_heap (fst demo_end, snd demo_end)"
    unfolding prod.collapse demo_end_def by (rule reachable_run [OF reachable.init])
  note c = monitor_stops_all [OF this]
  have "ok 0 (fst demo_end)" "ok 1 (fst demo_end)" by (simp_all add: ok_def launched_late_def demo_end_eval)
  with c show ?thesis by (simp add: demo_end_eval)
qed

text \<open>C10: The shutdown ends. From every reachable state in which the shutdown was requested, whatever the
  clients do, the monitor and its killers take at most \<open>steps_left\<close> more steps, and as long as the
  monitor is not done one of them can take a step.\<close>

theorem monitor_shutdown_ends:
  assumes "reachable heap s" and "is_shutdown (fst s)"
  shows "active_steps as s \<le> steps_left s \<and>
    (monitor (snd (run_actions as s)) \<noteq> Finished \<longrightarrow> (\<exists>a. active a (run_actions as s)))"
proof -
  obtain m t where s: "run_actions as s = (m, t)" by (metis prod.exhaust)
  have inv: "system_inv (m, t)" using reachable_inv [OF reachable_run [OF assms(1), of as]] s by simp
  have "\<exists>a. active a (m, t)" if "monitor t \<noteq> Finished"
  proof (cases "\<exists>core. monitor t = Joining core \<and> unfinished t \<noteq> 0")
    case True
    then show ?thesis using join_progress [OF inv] by blast
  next
    case False
    then have "active (Monitor oc) (m, t)" for oc using that by (cases "monitor t") auto
    then show ?thesis by blast
  qed
  then show ?thesis using active_steps_bound [OF assms(2)] s by simp
qed

theorem monitor_shutdown_ends_witness:
  "let s = run_actions (take 17 demo_actions) (start_system demo_heap) in
     is_shutdown (fst s) \<and> monitor (snd s) = Top \<and> active_steps (drop 17 demo_actions) s \<le> steps_left s"
proof -
  let ?s = "run_actions (take 17 demo_actions) (start_system demo_heap)"
  have "reachable demo_heap ?s" by (rule reachable_run [OF reachable.init])
  moreover have sd: "is_shutdown (fst ?s)" "monitor (snd ?s) = Top" by code_simp+
  ultimately show ?thesis unfolding Let_def
    using monitor_shutdown_ends [of demo_heap ?s "drop 17 demo_actions"] by blast
qed

section \<open>A listener that raises\<close>

text \<open>Each process is in the lists of the monitor once, and there are no killers before the shutdown.\<close>

definition tidy :: "system \<Rightarrow> bool" where
  "tidy s \<longleftrightarrow> (case monitor (snd s) of
      Copied ps \<Rightarrow> distinct ps | Polling ps d r \<Rightarrow> distinct (ps @ r) | Polled ps d r \<Rightarrow> distinct (ps @ r)
    | Burying ds d r \<Rightarrow> distinct r | Respawning rs \<Rightarrow> distinct rs | _ \<Rightarrow> True) \<and>
    (\<not> late (monitor (snd s)) \<longrightarrow> killers (snd s) = [] \<and> kill_queue (snd s) = [])"

lemma tidy_frame:
  "monitor t' = monitor t \<Longrightarrow> killers t' = killers t \<Longrightarrow> kill_queue t' = kill_queue t \<Longrightarrow> tidy (m', t') = tidy (m, t)"
  by (simp add: tidy_def)

lemma poll_respawn: "poll oc p d r m = (d', r', m') \<Longrightarrow> r' = r \<or> r' = r @ [p]"
  by (auto simp: poll_def split: option.splits bool.splits if_splits)

lemma tidy_monitor:
  assumes "tidy (m, t)" "distinct (procs m)" shows "tidy (monitor_step oc (m, t))"
proof (cases "monitor t")
  case (Polling ps d r)
  show ?thesis
  proof (cases ps)
    case (Cons p ps')
    obtain d' r' m' where "poll oc p d r m = (d', r', m')" by (metis prod.exhaust)
    with poll_respawn [OF this] show ?thesis using assms Polling Cons by (auto simp: tidy_def late_def)
  qed (use assms Polling in \<open>simp add: tidy_def late_def\<close>)
next
  case (Burying ds d r)
  then show ?thesis using assms by (cases ds) (simp_all add: tidy_def late_def)
next
  case (Respawning rs)
  then show ?thesis using assms by (cases rs) (simp_all add: tidy_def late_def)
next
  case (Kill_core core ps)
  then show ?thesis using assms by (cases ps) (simp_all add: tidy_def late_def)
qed (use assms in \<open>simp_all add: tidy_def late_def Let_def\<close>)

lemma tidy_killer: "tidy (m, t) \<Longrightarrow> tidy (killer_step i (m, t))"
proof -
  assume t: "tidy (m, t)"
  have "monitor (snd (killer_step i (m, t))) = monitor t"
    by (cases "killers t ! i"; cases "kill_queue t"; auto)
  then show "tidy (killer_step i (m, t))"
    using t by (cases "late (monitor t)") (auto simp: tidy_def split: mpc.splits)
qed

lemma reachable_tidy: "reachable heap s \<Longrightarrow> tidy s"
proof (induction rule: reachable.induct)
  case init
  show ?case by (simp add: tidy_def start_system_def)
next
  case (step s a)
  obtain m t where s: "s = (m, t)" by (cases s)
  have d: "distinct (procs m)" using reachable_inv [OF step.hyps] s unique_distinct by (simp add: system_inv_def)
  show ?case
    using step.IH s tidy_monitor [OF _ d] tidy_killer [of m t]
    by (cases a) (auto simp: tidy_def split: prod.splits sum.splits)
qed

text \<open>The processes in the lists of the threads.\<close>

fun still_handled :: "mpc \<Rightarrow> nat set" where
  "still_handled (Copied ps) = set ps"
| "still_handled (Polling ps d r) = set ps \<union> set r"
| "still_handled (Polled ps d r) = set ps \<union> set r"
| "still_handled (Burying ds d r) = set r"
| "still_handled (Respawning rs) = set rs"
| "still_handled (Joining core) = set core"
| "still_handled (Kill_core core ps) = set core \<union> set ps"
| "still_handled pc = {}"

definition not_core :: "nat \<Rightarrow> system \<Rightarrow> bool" where
  "not_core p s \<longleftrightarrow> p \<notin> set (core_procs (fst s)) \<and> p \<notin> set (adding_core (snd s))"

text \<open>Nothing holds the process any more; if it was started after the first \<open>n\<close> events, it is not stopped.\<close>

definition gone :: "nat \<Rightarrow> nat \<Rightarrow> system \<Rightarrow> bool" where
  "gone n p s \<longleftrightarrow> not_core p s \<and> n \<le> length (events (fst s)) \<and> p \<notin> set (procs (fst s)) \<and>
     p \<notin> still_handled (monitor (snd s)) \<and> p \<notin> set (kill_queue (snd s)) \<and> Kill p \<notin> set (killers (snd s)) \<and>
     (Start p \<in> set (drop n (events (fst s))) \<longrightarrow> \<not> stopped p (events (fst s)))"

text \<open>The process is about to be both unregistered and restarted.\<close>

definition doomed :: "nat \<Rightarrow> nat \<Rightarrow> system \<Rightarrow> bool" where
  "doomed n p s \<longleftrightarrow> not_core p s \<and> n \<le> length (events (fst s)) \<and> Start p \<notin> set (drop n (events (fst s))) \<and>
     (case monitor (snd s) of
        Polling ps d r \<Rightarrow> p \<in> set d \<and> p \<in> set r | Polled ps d r \<Rightarrow> p \<in> set d \<and> p \<in> set r
      | Burying ds d r \<Rightarrow> (p \<in> set ds \<or> p \<notin> set (procs (fst s))) \<and> p \<in> set r
      | Respawning rs \<Rightarrow> p \<notin> set (procs (fst s)) \<and> p \<in> set rs | _ \<Rightarrow> False)"

lemmas orphan_defs = gone_def doomed_def not_core_def

lemma poll_frame:
  "poll oc q d r m = (d', r', m') \<Longrightarrow> procs m' = procs m \<and> core_procs m' = core_procs m \<and>
     set d \<subseteq> set d' \<and> set r \<subseteq> set r' \<and> set r' \<subseteq> insert q (set r) \<and>
     (events m' = events m \<or> (\<exists>e. events m' = events m @ [e] \<and> (\<forall>p. e \<noteq> Start p \<and> e \<noteq> Stop p \<and> e \<noteq> Launched p)))"
  by (auto simp: poll_def split: option.splits bool.splits if_splits)

lemma bury_frame:
  "core_procs (bury oc q m) = core_procs m" "procs (bury oc q m) = remove1 q (procs m)"
  "events (bury oc q m) = events m @ (if q \<in> set (procs m) then [Stop q] else [])"
  by (auto simp: bury_def unregister_def Let_def remove1_idem split: option.splits)

lemma restart_frame:
  "core_procs (restart oc q m) = core_procs m" "procs (restart oc q m) = procs m"
  "events (restart oc q m) = events m @ (if stop_raises oc then [Stop q] else [Stop q, Start q])"
  by (auto simp: restart_def Let_def)

lemma all_dead_frame [simp]:
  "core_procs (all_dead d r m) = core_procs m" "procs (all_dead d r m) = procs m" "events (all_dead d r m) = events m"
  by (auto simp: all_dead_def)

lemma stopped_two: "stopped p (es @ [Stop q, Start q]) \<longleftrightarrow> p \<noteq> q \<and> stopped p es"
  using stopped_snoc [of p "es @ [Stop q]" "Start q"] by auto

lemma gone_monitor:
  assumes g: "gone n p (m, t)" shows "gone n p (monitor_step oc (m, t))"
proof (cases "monitor t")
  case (Polling ps d r)
  show ?thesis
  proof (cases ps)
    case (Cons q ps')
    obtain d' r' m' where poll: "poll oc q d r m = (d', r', m')" by (metis prod.exhaust)
    show ?thesis using g poll_frame [OF poll] poll Polling Cons by (auto simp: orphan_defs)
  qed (use g Polling in \<open>simp add: orphan_defs\<close>)
next
  case (Burying ds d r)
  show ?thesis
  proof (cases ds)
    case (Cons q ds')
    then show ?thesis using g Burying set_remove1_subset [of q "procs m"] by (auto simp: orphan_defs bury_frame)
  qed (use g Burying in \<open>simp add: orphan_defs\<close>)
next
  case (Respawning rs)
  show ?thesis
  proof (cases rs)
    case (Cons q rs')
    then show ?thesis using g Respawning by (auto simp: orphan_defs restart_frame stopped_two)
  qed (use g Respawning in \<open>simp add: orphan_defs\<close>)
next
  case (Kill_core core ps)
  then show ?thesis using g by (cases ps) (auto simp: orphan_defs)
qed (use g in \<open>auto simp: orphan_defs Let_def\<close>)

lemma gone_killer: "gone n p (m, t) \<Longrightarrow> gone n p (killer_step i (m, t))"
proof (cases "i < length (killers t)")
  case True
  assume g: "gone n p (m, t)"
  have "killers t ! i \<noteq> Kill p" using g nth_mem [OF True] by (auto simp: gone_def simp del: nth_mem)
  then show ?thesis using g True
    by (cases "killers t ! i"; cases "kill_queue t") (auto simp: orphan_defs dest: in_set_update)
qed simp

lemma gone_client:
  assumes "gone n p (m, t)" "a \<noteq> Register p" "a \<noteq> RegisterCore p" "\<And>oc. a \<noteq> Monitor oc" "\<And>i. a \<noteq> Killer i"
  shows "gone n p (do_action a (m, t))"
proof (cases a)
  case (KillProcess b nm)
  have "get_process nm m = Some q \<Longrightarrow> q \<in> set (procs m)" for q
    by (auto simp: get_process_def split: list.splits) (metis filter_is_subset list.set_intros(1) subsetD)
  then show ?thesis using assms(1) KillProcess by (auto simp: orphan_defs kill_process_def split: option.splits)
next
  case (AppendCore q)
  then show ?thesis using assms set_remove1_subset [of q "adding_core t"] by (auto simp: orphan_defs append_core_def)
next
  case (Unregister q)
  then show ?thesis using assms set_remove1_subset [of q "procs m"] by (auto simp: orphan_defs unregister_def)
qed (use assms in \<open>auto simp: orphan_defs register_proc_def pm_shutdown_def registrations_complete_def add_process_listener_def\<close>)

lemma doomed_monitor:
  assumes d: "doomed n p (m, t)" and tidy: "tidy (m, t)" and "distinct (procs m)"
  shows "doomed n p (monitor_step oc (m, t)) \<or> gone n p (monitor_step oc (m, t))"
proof (cases "monitor t")
  case (Polling ps d r)
  show ?thesis
  proof (cases ps)
    case (Cons q ps')
    obtain d' r' m' where poll: "poll oc q d r m = (d', r', m')" by (metis prod.exhaust)
    show ?thesis using assms(1) poll_frame [OF poll] poll Polling Cons by (auto simp: orphan_defs)
  qed (use assms(1) Polling in \<open>simp add: orphan_defs\<close>)
next
  case (Burying ds d r)
  show ?thesis
  proof (cases ds)
    case (Cons q ds')
    then show ?thesis using assms Burying set_remove1_eq [of "procs m" q] by (auto simp: orphan_defs bury_frame)
  qed (use assms(1) Burying in \<open>simp add: orphan_defs\<close>)
next
  case (Respawning rs)
  show ?thesis
  proof (cases rs)
    case (Cons q rs')
    have "killers t = []" "kill_queue t = []" "q \<notin> set rs'"
      using tidy Respawning Cons by (auto simp: tidy_def late_def)
    then show ?thesis using assms(1) Respawning Cons by (auto simp: orphan_defs restart_frame stopped_two)
  qed (use assms(1) Respawning in \<open>simp add: orphan_defs\<close>)
qed (use assms(1) in \<open>auto simp: orphan_defs\<close>)

lemma doomed_killer: "doomed n p (m, t) \<Longrightarrow> tidy (m, t) \<Longrightarrow> killer_step i (m, t) = (m, t)"
  by (cases "monitor t") (auto simp: orphan_defs tidy_def late_def)

text \<open>What a call of a client changes, seen from a process that it does not register.\<close>

definition client_frame :: "nat \<Rightarrow> system \<Rightarrow> system \<Rightarrow> bool" where
  "client_frame p s s' \<longleftrightarrow> monitor (snd s') = monitor (snd s) \<and>
     (p \<in> set (procs (fst s')) \<longrightarrow> p \<in> set (procs (fst s))) \<and> (not_core p s \<longrightarrow> not_core p s') \<and>
     (events (fst s') = events (fst s) \<or> (\<exists>e. events (fst s') = events (fst s) @ [e] \<and> e \<noteq> Start p))"

lemma client_frame_register:
  "register_proc q m = (r, m') \<Longrightarrow> q \<noteq> p \<Longrightarrow> client_frame p (m, t) (m', t)"
  by (auto simp: register_proc_def client_frame_def not_core_def split: if_splits)

lemma doomed_client:
  assumes "doomed n p (m, t)" "a \<noteq> Register p" "a \<noteq> RegisterCore p" "\<And>oc. a \<noteq> Monitor oc" "\<And>i. a \<noteq> Killer i"
  shows "doomed n p (do_action a (m, t))"
proof -
  have "client_frame p (m, t) (do_action a (m, t))"
  proof (cases a)
    case (Register q)
    then show ?thesis using assms(2) client_frame_register [of q m _ _ p t] by (cases "register_proc q m") auto
  next
    case (RegisterCore q)
    then show ?thesis using assms(3) client_frame_register [of q m _ _ p t]
      by (cases "register_proc q m") (auto simp: client_frame_def not_core_def split: sum.splits)
  next
    case (AppendCore q)
    then show ?thesis using set_remove1_subset [of q "adding_core t"]
      by (auto simp: client_frame_def not_core_def append_core_def)
  next
    case (Unregister q)
    then show ?thesis using set_remove1_subset [of q "procs m"]
      by (auto simp: client_frame_def not_core_def unregister_def)
  next
    case (KillProcess b nm)
    then show ?thesis by (auto simp: client_frame_def not_core_def kill_process_def split: option.splits)
  qed (use assms(4,5) in \<open>simp_all add: client_frame_def not_core_def pm_shutdown_def registrations_complete_def
      add_process_listener_def\<close>)
  then show ?thesis using assms(1) by (auto simp: client_frame_def doomed_def split: mpc.splits)
qed

lemma orphan_action:
  assumes "doomed n p s \<or> gone n p s" "reachable heap s" "a \<noteq> Register p" "a \<noteq> RegisterCore p"
  shows "doomed n p (do_action a s) \<or> gone n p (do_action a s)"
proof -
  obtain m t where s: "s = (m, t)" by (cases s)
  have t: "tidy (m, t)" "distinct (procs m)"
    using reachable_tidy [OF assms(2)] reachable_inv [OF assms(2)] unique_distinct s by (auto simp: system_inv_def)
  consider oc where "a = Monitor oc" | i where "a = Killer i" | "\<And>oc. a \<noteq> Monitor oc" "\<And>i. a \<noteq> Killer i" by (cases a) auto
  then show ?thesis
  proof cases
    case (1 oc)
    show ?thesis using assms(1) doomed_monitor [OF _ t, of n p oc] gone_monitor [of n p m t oc]
      unfolding s 1 do_action.simps by blast
  next
    case (2 i)
    show ?thesis using assms(1) doomed_killer [OF _ t(1), of n p i] gone_killer [of n p m t i]
      unfolding s 2 do_action.simps by metis
  next
    case 3
    show ?thesis using assms(1,3,4) doomed_client [of n p m t a] gone_client [of n p m t a] 3 unfolding s by blast
  qed
qed

lemma orphan_run:
  assumes "doomed n p s \<or> gone n p s" "reachable heap s" "Register p \<notin> set as" "RegisterCore p \<notin> set as"
  shows "doomed n p (run_actions as s) \<or> gone n p (run_actions as s)"
  using assms
proof (induction as arbitrary: s)
  case (Cons a as)
  then have "doomed n p (do_action a s) \<or> gone n p (do_action a s)" by (intro orphan_action [OF Cons.prems(1,2)]) auto
  then show ?case using Cons.IH [of "do_action a s"] reachable.step [OF Cons.prems(2), of a] Cons.prems(3,4) by simp
qed simp

text \<open>C28: A listener that raises leaves a process running. When a listener raises on the death of a process that is to be
  respawned and is no core process, then in every continuation in which no client registers the
  process again, a restart of it by the monitor leaves it unregistered and running: from the restart on, up to and beyond
  the end of the monitor, the last thing that happened to it is a start.\<close>

theorem listener_error_orphans:
  assumes "reachable heap (m, t)" "monitor t = Polling (p # ps) dead resp" "p_respawn (objs m p)"
    and "alive oc = Some False" "0 < listeners m" "listener_raises oc"
    and "p \<notin> set (core_procs m)" "p \<notin> set (adding_core t)"
    and "Register p \<notin> set as" "RegisterCore p \<notin> set as"
    and "run_actions (Monitor oc # as) (m, t) = (m', t')" "Start p \<in> set (drop (length (events m)) (events m'))"
  shows "p \<notin> set (procs m') \<and> \<not> stopped p (events m')"
proof -
  have "doomed (length (events m)) p (do_action (Monitor oc) (m, t))"
    using assms(2-8) by (simp add: poll_def doomed_def not_core_def)
  from orphan_run [OF disjI1 [OF this] reachable.step [OF assms(1)] assms(9,10)]
  have "doomed (length (events m)) p (m', t') \<or> gone (length (events m)) p (m', t')"
    unfolding assms(11) [unfolded run_actions.simps] .
  then show ?thesis using assms(12) by (auto simp: doomed_def gone_def)
qed

definition orphan_actions :: "action list" where
  "orphan_actions = replicate 7 fine @ [Shutdown] @ replicate 6 fine"

theorem listener_error_orphans_witness:
  "\<exists>m t m' t'. reachable demo_heap (m, t) \<and> run_actions (died True # orphan_actions) (m, t) = (m', t') \<and>
     monitor t' = Finished \<and> procs m' = [] \<and> \<not> stopped 0 (events m')"
proof -
  let ?s = "run_actions [Listen, Register 0, Launch 0, fine, fine] (start_system demo_heap)"
  let ?e = "run_actions (died True # orphan_actions) ?s"
  have r: "reachable demo_heap (fst ?s, snd ?s)"
    unfolding prod.collapse by (rule reachable_run [OF reachable.init])
  have s: "monitor (snd ?s) = Polling [0] [] []" "p_respawn (objs (fst ?s) 0)" "0 < listeners (fst ?s)"
    "core_procs (fst ?s) = []" "adding_core (snd ?s) = []" by code_simp+
  have e: "monitor (snd ?e) = Finished" "procs (fst ?e) = []"
    "Start 0 \<in> set (drop (length (events (fst ?s))) (events (fst ?e)))" by code_simp+
  have a: "Register 0 \<notin> set orphan_actions" "RegisterCore 0 \<notin> set orphan_actions"
    by (simp_all add: orphan_actions_def fine_def)
  have "run_actions (died True # orphan_actions) (fst ?s, snd ?s) = (fst ?e, snd ?e)" by simp
  note run = this [unfolded died_def]
  have "\<not> stopped 0 (events (fst ?e))"
    using listener_error_orphans [OF r s(1,2) _ s(3) _ _ _ a run e(3)[unfolded died_def]] s(4,5) by (simp add: died_def)
  with e r show ?thesis
    by (intro exI [of _ "fst ?s"] exI [of _ "snd ?s"] exI [of _ "fst ?e"] exI [of _ "snd ?e"]) simp
qed

end
