(* ===== verification/Catkin_Arguments.thy ===== *)
theory Catkin_Arguments
  imports Py_Prelude "HOL-Library.List_Lexorder" "HOL-Library.Char_ord" "HOL-Library.Multiset"
begin

text \<open>
  The parts of the catkin workspace builder (\<open>catkin/builder.py\<close>) that compute: the arguments of
  \<open>catkin_make\<close> and \<open>catkin_make_isolated\<close> sorted into those of cmake, of make and of the tool itself,
  the paths of the spaces, the flags that set the number of jobs, and the colours of a line of output.

  \<open>fmt\<close>, \<open>ansi\<close> and \<open>sanitize\<close> of catkin_pkg, which is not part of the repository, are arguments, as
  are the environment of the process, the number of processors and the version of Python. The system
  is a POSIX one.
\<close>

section \<open>Paths\<close>

text \<open>\<open>os.path.normpath\<close> and \<open>os.path.abspath\<close>, for a process in the directory \<open>cwd\<close>.\<close>

definition initial_slashes :: "string \<Rightarrow> nat" where
  "initial_slashes p = (if startswith p ''//'' \<and> \<not> startswith p ''///'' then 2 else if startswith p ''/'' then 1 else 0)"

fun norm_comps :: "bool \<Rightarrow> string list \<Rightarrow> string list \<Rightarrow> string list" where
  "norm_comps rooted acc [] = rev acc"
| "norm_comps rooted acc (c # cs) =
     (if c = [] \<or> c = ''.'' then norm_comps rooted acc cs
      else if c \<noteq> ''..'' \<or> (\<not> rooted \<and> acc = []) \<or> (acc \<noteq> [] \<and> hd acc = ''..'') then norm_comps rooted (c # acc) cs
      else if acc \<noteq> [] then norm_comps rooted (tl acc) cs
      else norm_comps rooted acc cs)"

definition normpath :: "string \<Rightarrow> string" where
  "normpath p = (if p = [] then ''.'' else
     let q = replicate (initial_slashes p) CHR ''/'' @
       py_join ''/'' (norm_comps (initial_slashes p > 0) [] (split_on CHR ''/'' p))
     in if q = [] then ''.'' else q)"

definition abspath :: "string \<Rightarrow> string \<Rightarrow> string" where
  "abspath cwd p = normpath (if startswith p ''/'' then p else path_join cwd p)"

text \<open>The second argument \<open>process_cwd\<close> of \<open>abspath\<close> matters only if \<open>cwd\<close> is relative itself.\<close>

definition determine_path_argument :: "string \<Rightarrow> string \<Rightarrow> string \<Rightarrow> string option \<Rightarrow> string \<Rightarrow> string" where
  "determine_path_argument process_cwd cwd base_path argument deflt = (case argument of
     None \<Rightarrow> path_join base_path deflt
   | Some a \<Rightarrow> abspath process_cwd (path_join cwd a))"

definition prefix_destdir :: "string \<Rightarrow> string option \<Rightarrow> string" where
  "prefix_destdir path destdir = (case destdir of None \<Rightarrow> path | Some d \<Rightarrow> path_join d (drop 1 path))"

section \<open>The arguments of the command line\<close>

fun index_of :: "string list \<Rightarrow> string \<Rightarrow> nat" where
  "index_of [] x = 0"
| "index_of (y # ys) x = (if y = x then 0 else Suc (index_of ys x))"

definition split_arguments ::
  "string list \<Rightarrow> string \<Rightarrow> string list option \<Rightarrow> string list \<times> string list option" where
  "split_arguments args splitter_name deflt =
     (if splitter_name \<notin> set args then (args, deflt)
      else let i = index_of args splitter_name in (take i args, Some (drop (i + 1) args)))"

text \<open>The lists of \<open>arg_types\<close> by their flags, in the order of the dictionary.\<close>

definition arg_flags :: "bool \<Rightarrow> string list" where
  "arg_flags extract_catkin_make =
     [''--cmake-args'', ''--make-args''] @ (if extract_catkin_make then [''--catkin-make-args''] else [])"

definition arg_indexes :: "bool \<Rightarrow> string list \<Rightarrow> (nat \<times> string) list" where
  "arg_indexes extract_catkin_make args =
     map (\<lambda>k. (index_of args k, k)) (filter (\<lambda>k. k \<in> set args) (arg_flags extract_catkin_make))"

type_synonym arg_types = "string \<Rightarrow> string list"

text \<open>The round of the loop for the flag at an index; \<open>list.extend(None)\<close> is a \<open>TypeError\<close>.\<close>

definition cut_flag :: "string list \<times> arg_types \<Rightarrow> nat \<times> string \<Rightarrow> (string list \<times> arg_types) res" where
  "cut_flag st ik = (case (st, ik) of ((args, types), (i, k)) \<Rightarrow>
     (case split_arguments args k None of
        (args', None) \<Rightarrow> Inl TypeError
      | (args', Some specific) \<Rightarrow> Inr (args', types(k := types k @ specific))))"

definition is_implicit_cmake_arg :: "string \<Rightarrow> bool" where
  "is_implicit_cmake_arg a \<longleftrightarrow> startswith a ''-D'' \<or> startswith a ''-G''"

definition extract_arguments ::
  "string list \<Rightarrow> bool \<Rightarrow> (string list \<times> string list \<times> string list \<times> string list) res" where
  "extract_arguments args extract_catkin_make =
     rbind (rfoldl cut_flag (args, \<lambda>_. []) (rev (sort_key fst (arg_indexes extract_catkin_make args)))) (\<lambda>(args, types).
     let implicit = filter is_implicit_cmake_arg args;
         args = filter (\<lambda>a. a \<notin> set implicit) args
     in Inr (args, implicit @ types ''--cmake-args'', types ''--make-args'', types ''--catkin-make-args''))"

definition extract_cmake_and_make_arguments ::
  "string list \<Rightarrow> (string list \<times> string list \<times> string list) res" where
  "extract_cmake_and_make_arguments args =
     rbind (extract_arguments args False) (\<lambda>(args, cmake_args, make_args, _). Inr (args, cmake_args, make_args))"

definition extract_cmake_and_make_and_catkin_make_arguments ::
  "string list \<Rightarrow> (string list \<times> string list \<times> string list \<times> string list) res" where
  "extract_cmake_and_make_and_catkin_make_arguments args = extract_arguments args True"

section \<open>The flags that set the number of jobs\<close>

text \<open>One match of the regular expression of \<open>extract_jobs_flags\<close> after its anchor: the text of the group
  and what follows the match. \<open>\s*[0-9]+\<close>, \<open>\s\<close> and \<open>$\<close> are tried in this order.\<close>

definition number_after :: "string \<Rightarrow> (string \<times> string) option" where
  "number_after s = (let ds = takeWhile is_digit s in if ds = [] then None else Some (ds, drop (length ds) s))"

definition space_or_end :: "string \<Rightarrow> (string \<times> string) option" where
  "space_or_end s = (case s of [] \<Rightarrow> Some ([], []) | c # cs \<Rightarrow> if is_space c then Some ([c], cs) else None)"

definition opt_or :: "'a option \<Rightarrow> 'a option \<Rightarrow> 'a option" where
  "opt_or a b = (case a of Some x \<Rightarrow> Some x | None \<Rightarrow> b)"

definition prefixed :: "string \<Rightarrow> (string \<times> string) option \<Rightarrow> (string \<times> string) option" where
  "prefixed p r = map_option (\<lambda>(m, rest). (p @ m, rest)) r"

definition short_flag :: "string \<Rightarrow> (string \<times> string) option" where
  "short_flag s =
     (let dash = (if startswith s ''-'' then ''-'' else []);
          t = drop (length dash) s
      in case t of [] \<Rightarrow> None
         | c # cs \<Rightarrow> if c = CHR ''j'' \<or> c = CHR ''l''
             then let sp = takeWhile is_space cs in
               prefixed (dash @ [c]) (opt_or (prefixed sp (number_after (drop (length sp) cs))) (space_or_end cs))
             else None)"

definition long_name :: "string \<Rightarrow> string" where
  "long_name t = (if startswith t ''jobs'' then ''jobs'' else if startswith t ''load-average'' then ''load-average'' else [])"

definition long_rest :: "string \<Rightarrow> (string \<times> string) option" where
  "long_rest t =
     (let n = long_name t;
          u = drop (length n) t;
          sep = (if startswith u ''='' then ''='' else takeWhile is_space u)
      in if n = [] then None
         else prefixed n
           (opt_or (if sep = [] then None else prefixed sep (number_after (drop (length sep) u))) (space_or_end u)))"

definition long_flag :: "string \<Rightarrow> (string \<times> string) option" where
  "long_flag s = (let dashes = (if startswith s ''--'' then ''--'' else [])
     in prefixed dashes (long_rest (drop (length dashes) s)))"

text \<open>A match at the start of \<open>s\<close>: without consuming anything if the text starts here, else after one
  white space; the first alternative of the expression wins.\<close>

definition after_space :: "(string \<Rightarrow> (string \<times> string) option) \<Rightarrow> string \<Rightarrow> (string \<times> string) option" where
  "after_space m s = (case s of [] \<Rightarrow> None | c # cs \<Rightarrow> if is_space c then m cs else None)"

definition anchored :: "bool \<Rightarrow> (string \<Rightarrow> (string \<times> string) option) \<Rightarrow> string \<Rightarrow> (string \<times> string) option" where
  "anchored at_start m s = (if at_start then opt_or (m s) (after_space m s) else after_space m s)"

definition jobs_match :: "bool \<Rightarrow> string \<Rightarrow> (string \<times> string) option" where
  "jobs_match at_start s = opt_or (anchored at_start short_flag s) (anchored at_start long_flag s)"

lemma space_or_end_shorter: "space_or_end s = Some (m, r) \<Longrightarrow> length r \<le> length s"
  by (auto simp: space_or_end_def split: list.splits if_splits)

lemma number_after_shorter: "number_after s = Some (m, r) \<Longrightarrow> length r \<le> length s"
  by (auto simp: number_after_def Let_def split: if_splits)

lemma opt_or_eq_Some: "opt_or a b = Some x \<longleftrightarrow> a = Some x \<or> (a = None \<and> b = Some x)"
  by (auto simp: opt_or_def split: option.splits)

lemma prefixed_eq_Some: "prefixed p r = Some (m, rest) \<longleftrightarrow> (\<exists>n. r = Some (n, rest) \<and> m = p @ n)"
  by (auto simp: prefixed_def)

lemma after_space_eq_Some: "after_space f s = Some x \<longleftrightarrow> s \<noteq> [] \<and> is_space (hd s) \<and> f (tl s) = Some x"
  by (cases s) (auto simp: after_space_def)

lemma short_flag_shorter: "short_flag s = Some (m, r) \<Longrightarrow> length r < length s"
  by (cases s) (auto simp: short_flag_def Let_def opt_or_eq_Some prefixed_eq_Some startswith_def
      split: list.splits if_splits dest!: number_after_shorter space_or_end_shorter)

lemma long_name_length: "long_name t \<noteq> [] \<Longrightarrow> t \<noteq> []"
  by (auto simp: long_name_def startswith_def split: if_splits)

lemma long_rest_shorter:
  assumes "long_rest t = Some (m, r)" shows "length r < length t"
proof -
  have n: "long_name t \<noteq> []" and "length r \<le> length (drop (length (long_name t)) t)"
    using assms by (auto simp: long_rest_def Let_def opt_or_eq_Some prefixed_eq_Some split: if_splits
      dest!: number_after_shorter space_or_end_shorter)
  moreover have "length (long_name t) > 0" "length t > 0" using n long_name_length [OF n] by auto
  ultimately show ?thesis unfolding length_drop by linarith
qed

lemma long_flag_shorter: "long_flag s = Some (m, r) \<Longrightarrow> length r < length s"
  by (auto simp: long_flag_def Let_def prefixed_eq_Some dest!: long_rest_shorter)

lemma jobs_match_shorter: "jobs_match b s = Some (m, r) \<Longrightarrow> length r < length s"
  by (auto simp: jobs_match_def anchored_def opt_or_eq_Some after_space_eq_Some split: if_splits
      dest!: short_flag_shorter long_flag_shorter)

function findall_jobs :: "bool \<Rightarrow> string \<Rightarrow> string list" where
  "findall_jobs at_start s = (case jobs_match at_start s of
     Some (m, rest) \<Rightarrow> m # findall_jobs False rest
   | None \<Rightarrow> (case s of [] \<Rightarrow> [] | c # cs \<Rightarrow> findall_jobs False cs))"
  by pat_completeness auto
termination
  by (relation "measure (\<lambda>(b, s). length s)") (auto dest: jobs_match_shorter)

declare findall_jobs.simps [simp del]

definition extract_jobs_flags :: "string \<Rightarrow> string option" where
  "extract_jobs_flags mflags = (let matches = findall_jobs True mflags in
     if matches = [] then None else Some (py_join '' '' (map strip matches)))"

fun split_space :: "string \<Rightarrow> string \<Rightarrow> string list" where
  "split_space word [] = (if word = [] then [] else [word])"
| "split_space word (c # cs) =
     (if is_space c then (if word = [] then split_space [] cs else word # split_space [] cs)
      else split_space (word @ [c]) cs)"

text \<open>\<open>if extract_jobs_flags(s)\<close>: the joined matches are a non-empty string exactly if there is one.\<close>

definition sets_jobs :: "string \<Rightarrow> bool" where
  "sets_jobs s \<longleftrightarrow> (case extract_jobs_flags s of None \<Rightarrow> False | Some f \<Rightarrow> f \<noteq> [])"

definition handle_make_arguments :: "(string \<rightharpoonup> string) \<Rightarrow> nat option \<Rightarrow> string list \<Rightarrow> string list" where
  "handle_make_arguments environ cpu_count input_make_args =
     (if sets_jobs (py_join '' '' input_make_args) then input_make_args
      else if (case environ ''MAKEFLAGS'' of None \<Rightarrow> False | Some flags \<Rightarrow> sets_jobs flags) then input_make_args
      else case environ ''ROS_PARALLEL_JOBS'' of
        Some flags \<Rightarrow> input_make_args @ split_space [] flags
      | None \<Rightarrow> (case cpu_count of
          Some jobs \<Rightarrow> input_make_args @ [''-j'' @ str_of_nat jobs, ''-l'' @ str_of_nat jobs]
        | None \<Rightarrow> input_make_args))"

lemma make_arguments_example: "handle_make_arguments Map.empty (Some 4) [''VERBOSE=1''] = [''VERBOSE=1'', ''-j4'', ''-l4'']" by code_simp
lemma jobs_flags_example: "extract_jobs_flags ''-j8 foo --jobs=3 -l load-average  4 xj9'' = Some ''-j8 --jobs=3 -l''" by code_simp


section \<open>Every argument ends up in exactly one list\<close>

lemma index_of_split: "k \<in> set a \<Longrightarrow> a = take (index_of a k) a @ k # drop (Suc (index_of a k)) a \<and> k \<notin> set (take (index_of a k) a)"
  by (induction a) auto

lemma index_of_take: "k \<in> set a \<Longrightarrow> index_of a k < i \<Longrightarrow> k \<in> set (take i a) \<and> index_of (take i a) k = index_of a k"
proof (induction a arbitrary: i)
  case (Cons x a)
  then show ?case by (cases i) auto
qed simp

lemma index_of_inj: "j \<in> set a \<Longrightarrow> k \<in> set a \<Longrightarrow> index_of a j = index_of a k \<Longrightarrow> j = k"
  using index_of_split [of j a] index_of_split [of k a] by (metis append_eq_append_conv list.inject)

text \<open>The loop cuts the arguments at the first occurrences of the flags, from the last one backwards.\<close>

lemma cut_flags:
  assumes "sorted_wrt (<) (map fst ixs)" and "\<And>i k. (i, k) \<in> set ixs \<Longrightarrow> k \<in> set a \<and> i = index_of a k"
    and "\<And>k. k \<in> snd ` set ixs \<Longrightarrow> T k = []"
  shows "\<exists>before T'. rfoldl cut_flag (a, T) (rev ixs) = Inr (before, T') \<and>
    a = before @ concat (map (\<lambda>k. k # T' k) (map snd ixs)) \<and> (\<forall>k. k \<notin> snd ` set ixs \<longrightarrow> T' k = T k) \<and>
    (\<forall>k \<in> snd ` set ixs. k \<notin> set before)"
  using assms
proof (induction ixs arbitrary: a T rule: rev_induct)
  case (snoc ik ixs)
  obtain i k where ik: "ik = (i, k)" by fastforce
  have k: "k \<in> set a" "i = index_of a k" and T: "T k = []" using snoc.prems(2) [of i k] snoc.prems(3) ik by force+
  define a1 T1 where "a1 = take i a" and "T1 = T(k := drop (Suc i) a)"
  have step: "cut_flag (a, T) ik = Inr (a1, T1)" and a: "a = a1 @ k # T1 k" "k \<notin> set a1"
    using k T index_of_split [of k a] by (simp_all add: cut_flag_def split_arguments_def Let_def ik a1_def T1_def)
  have before: "j < i \<and> j = index_of a l \<and> l \<in> set a" if "(j, l) \<in> set ixs" for j l
    using snoc.prems(1) snoc.prems(2) [of j l] that ik by (auto simp: sorted_wrt_append)
  have other: "l \<noteq> k" if "(j, l) \<in> set ixs" for j l using before [OF that] k by auto
  have srt: "sorted_wrt (<) (map fst ixs)" using snoc.prems(1) by (simp add: sorted_wrt_append)
  have idx: "l \<in> set a1 \<and> j = index_of a1 l" if "(j, l) \<in> set ixs" for j l
    using before [OF that] index_of_take [of l a i] by (simp add: a1_def)
  have T1: "T1 l = []" if l: "l \<in> snd ` set ixs" for l
  proof -
    obtain j where "(j, l) \<in> set ixs" using l by force
    then show ?thesis using snoc.prems(3) [of l] other l by (auto simp: T1_def)
  qed
  obtain b T' where IH: "rfoldl cut_flag (a1, T1) (rev ixs) = Inr (b, T')" "a1 = b @ concat (map (\<lambda>k. k # T' k) (map snd ixs))"
      "\<forall>k. k \<notin> snd ` set ixs \<longrightarrow> T' k = T1 k" "\<forall>k \<in> snd ` set ixs. k \<notin> set b"
    using snoc.IH [of a1 T1, OF srt idx T1] by blast
  have "k \<notin> snd ` set ixs" using other by force
  then have "T' k = T1 k" using IH(3) by simp
  then have "a = b @ concat (map (\<lambda>k. k # T' k) (map snd (ixs @ [ik])))" using a IH(2) ik by simp
  moreover have "T' l = T l" if "l \<notin> snd ` set (ixs @ [ik])" for l using that IH(3) ik by (simp add: T1_def)
  moreover have "\<forall>l \<in> snd ` set (ixs @ [ik]). l \<notin> set b" using IH(2,4) a(2) ik by auto
  ultimately show ?case using IH(1) step by auto
qed simp

lemma arg_flags_distinct: "distinct (arg_flags b)"
  by (simp add: arg_flags_def)

lemma arg_indexes_sorted: "sorted_wrt (<) (map fst (sort_key fst (arg_indexes b args)))"
proof -
  have "inj_on (index_of args) (set (filter (\<lambda>k. k \<in> set args) (arg_flags b)))"
    by (auto intro!: inj_onI dest: index_of_inj)
  then have "distinct (map fst (arg_indexes b args))"
    by (simp add: arg_indexes_def comp_def distinct_map arg_flags_distinct)
  then have "distinct (map fst (sort_key fst (arg_indexes b args)))"
    by (metis distinct_map mset_eq_imp_distinct_iff mset_map mset_sort)
  then show ?thesis by (simp add: strict_sorted_iff)
qed

text \<open>C35: for every list of arguments, the three flags cut it into the part before them and one part
  after the first occurrence of each flag, in the order of the flags: this always succeeds, every
  argument that is not such a flag ends up in exactly one of the results and in its order, and only
  what is before the flags is searched for \<open>-D\<close> and \<open>-G\<close> arguments, which go to cmake first.\<close>

theorem extract_arguments_partition:
  "\<exists>before flags part. args = before @ concat (map (\<lambda>k. k # part k) flags) \<and>
     distinct flags \<and> set flags = set args \<inter> set (arg_flags b) \<and> set before \<inter> set (arg_flags b) = {} \<and>
     {k. part k \<noteq> []} \<subseteq> set flags \<and>
     extract_arguments args b = Inr (filter (\<lambda>a. \<not> is_implicit_cmake_arg a) before,
       filter is_implicit_cmake_arg before @ part ''--cmake-args'', part ''--make-args'', part ''--catkin-make-args'')"
proof -
  let ?ixs = "sort_key fst (arg_indexes b args)"
  let ?flags = "map snd ?ixs"
  have set: "set ?flags = set args \<inter> set (arg_flags b)" by (force simp: arg_indexes_def)
  have "mset ?flags = mset (map snd (arg_indexes b args))" by (simp only: mset_map mset_sort)
  then have "mset ?flags = mset (filter (\<lambda>k. k \<in> set args) (arg_flags b))" by (simp add: arg_indexes_def comp_def)
  then have dist: "distinct ?flags" using arg_flags_distinct by (metis distinct_filter mset_eq_imp_distinct_iff)
  have idx: "k \<in> set args \<and> i = index_of args k" if "(i, k) \<in> set ?ixs" for i k
    using that by (auto simp: arg_indexes_def)
  obtain before part where cut: "rfoldl cut_flag (args, \<lambda>_. []) (rev ?ixs) = Inr (before, part)"
      and args: "args = before @ concat (map (\<lambda>k. k # part k) ?flags)"
      and rest: "\<forall>k. k \<notin> snd ` set ?ixs \<longrightarrow> part k = []" "\<forall>k \<in> snd ` set ?ixs. k \<notin> set before"
    using cut_flags [OF arg_indexes_sorted [of b args] idx, where T = "\<lambda>_. []", OF _ refl] by blast
  have "{k. part k \<noteq> []} \<subseteq> set ?flags" using rest(1) by auto
  moreover have "set before \<inter> set (arg_flags b) = {}"
  proof -
    have "set before \<inter> set ?flags = {}" using rest(2) by auto
    moreover have "set before \<subseteq> set args" by (subst args) auto
    ultimately show ?thesis using set by blast
  qed
  moreover have "filter (\<lambda>a. a \<notin> set (filter is_implicit_cmake_arg before)) before =
      filter (\<lambda>a. \<not> is_implicit_cmake_arg a) before" by (rule filter_cong) auto
  ultimately show ?thesis using args dist set cut
    by (intro exI [of _ before] exI [of _ ?flags] exI [of _ part]) (simp add: extract_arguments_def Let_def)
qed

lemma extract_example:
  "extract_arguments [''pkg'', ''-DX=1'', ''--make-args'', ''-j2'', ''--cmake-args'', ''-DY=2''] False =
     Inr ([''pkg''], [''-DX=1'', ''-DY=2''], [''-j2''], [])"
  by code_simp

end
