(* ===== verification/Catkin_Builder.thy ===== *)
theory Catkin_Builder
  imports Catkin_Arguments
begin

text \<open>
  The builder of catkin workspaces, \<open>catkin/builder.py\<close>: \<open>catkin_make_isolated\<close>, which runs cmake, make
  and make install for the packages of a workspace one after the other, each in the environment of
  the one before it.

  The state is the disk and the list of the commands that were run. A path names what its string
  names: links and different spellings of a path are not resolved. What a command does to the disk,
  its exit code and its output, and the functions of catkin_pkg, which is not part of the repository,
  are arguments. What is printed is not modelled.
\<close>

section \<open>The disk and the commands\<close>

datatype entry = Directory | Regular string bool

text \<open>The flag of a regular file is set by \<open>os.chmod(f, S_IXUSR | S_IWUSR | S_IRUSR)\<close>.\<close>

type_synonym disk = "string \<rightharpoonup> entry"

record command =
  argv :: "string list"
  run_cwd :: string
  run_env :: "(string \<times> string) list"

record build_state =
  disk :: disk
  ran :: "command list"

record host =
  environ :: "string \<rightharpoonup> string"
  cpu_count :: "nat option"
  sys_platform :: string
  sys_executable :: string
  python_version :: "nat \<times> nat"
  process_cwd :: string
  launch :: "command \<Rightarrow> disk \<Rightarrow> (int \<times> string \<times> disk) option"
  query :: "string list \<Rightarrow> (int \<times> string) option"
  fmt :: "string \<Rightarrow> string"
  ansi :: "string \<Rightarrow> string"
  sanitize :: "string \<Rightarrow> string"

definition exists_on :: "disk \<Rightarrow> string \<Rightarrow> bool" where
  "exists_on d p \<longleftrightarrow> d p \<noteq> None"

definition parent_there :: "disk \<Rightarrow> string \<Rightarrow> bool" where
  "parent_there d p \<longleftrightarrow> path_dirname p = [] \<or> d (path_dirname p) = Some Directory"

definition path_exists :: "string \<Rightarrow> (build_state, bool) act" where
  "path_exists p = sgets (\<lambda>w. exists_on (disk w) p)"

definition os_mkdir :: "string \<Rightarrow> (build_state, unit) act" where
  "os_mkdir p w =
     (if exists_on (disk w) p \<or> \<not> parent_there (disk w) p then (Inl (IOError p), w)
      else (Inr (), w\<lparr>disk := (disk w)(p \<mapsto> Directory)\<rparr>))"

definition ancestors :: "string \<Rightarrow> string list" where
  "ancestors p = map (\<lambda>i. take i p) (filter (\<lambda>i. p ! i = CHR ''/'') [1..<length p]) @ [p]"

definition is_regular :: "entry option \<Rightarrow> bool" where
  "is_regular e = (case e of Some (Regular _ _) \<Rightarrow> True | _ \<Rightarrow> False)"

definition os_makedirs :: "string \<Rightarrow> (build_state, unit) act" where
  "os_makedirs p w =
     (if exists_on (disk w) p \<or> list_ex (\<lambda>a. is_regular (disk w a)) (ancestors p) then (Inl (IOError p), w)
      else (Inr (), w\<lparr>disk := (disk w)(ancestors p [\<mapsto>] map (\<lambda>_. Directory) (ancestors p))\<rparr>))"

definition write_text_file :: "string \<Rightarrow> string \<Rightarrow> (build_state, unit) act" where
  "write_text_file p s w =
     (if disk w p = Some Directory \<or> \<not> parent_there (disk w) p then (Inl (IOError p), w)
      else (Inr (), w\<lparr>disk := (disk w)(p \<mapsto> Regular s (case disk w p of Some (Regular _ x) \<Rightarrow> x | _ \<Rightarrow> False))\<rparr>))"

definition chmod_rwx :: "string \<Rightarrow> (build_state, unit) act" where
  "chmod_rwx p w = (case disk w p of
     None \<Rightarrow> (Inl (IOError p), w)
   | Some Directory \<Rightarrow> (Inr (), w)
   | Some (Regular s _) \<Rightarrow> (Inr (), w\<lparr>disk := (disk w)(p \<mapsto> Regular s True)\<rparr>))"

definition os_remove :: "string \<Rightarrow> (build_state, unit) act" where
  "os_remove p w =
     (if is_regular (disk w p) then (Inr (), w\<lparr>disk := (disk w)(p := None)\<rparr>) else (Inl (IOError p), w))"

section \<open>Running a command\<close>

definition replace_all :: "(string \<times> string) list \<Rightarrow> string \<Rightarrow> string" where
  "replace_all rs s = foldl (\<lambda>s (old, new). py_replace old new s) s rs"

definition when_starts :: "string \<Rightarrow> string \<Rightarrow> (string \<times> string) list \<Rightarrow> string \<Rightarrow> string" where
  "when_starts line p rs cline = (if startswith line p then replace_all rs cline else cline)"

definition lower_ascii :: "string \<Rightarrow> string" where
  "lower_ascii s = map (\<lambda>c. if CHR ''A'' \<le> c \<and> c \<le> CHR ''Z'' then char_of ((of_char c :: nat) + 32) else c) s"

text \<open>A colour color_mark of \<open>fmt\<close>.\<close>

definition color_mark :: "string \<Rightarrow> string" where
  "color_mark c = [CHR ''@'', CHR 0x7B] @ c @ [CHR 0x7D]"

definition colorize_line :: "host \<Rightarrow> string \<Rightarrow> string" where
  "colorize_line h line =
     (let cline = sanitize h line;
          cline = replace_all [(''-- ~~~~~~~~~~~~~~~~~~~~~~~~~~~~~~~~~~~~~~~~~~~~~~~~~'',
            ''-- '' @ color_mark ''pf'' @ ''~~~~~~~~~~~~~~~~~~~~~~~~~~~~~~~~~~~~~~~~~~~~~~~~~@|'')] cline;
          cline = when_starts line ''-- ~~'' [(''~~ '', color_mark ''pf'' @ ''~~ @|''), ('' - '', '' - @!'' @ color_mark ''bf''), (''('', ''@|(''),
            (''(plain cmake)'', ''@|('' @ color_mark ''rf'' @ ''plain cmake@|)''), (''(unknown)'', ''@|('' @ color_mark ''yf'' @ ''unknown@|)'')] cline;
          cline = when_starts line ''-- +++'' [(''+++'', ''@!'' @ color_mark ''gf'' @ ''+++@|''),
            ((''kin package: '' @ [squote]), (''kin package: '' @ [squote] @ ''@!'' @ color_mark ''bf'')), ('')'', ''@|)''), ([squote, newline], (''@|'' @ [squote, newline])),
            ((''cmake package: '' @ [squote]), (''cmake package: '' @ [squote] @ ''@!'' @ color_mark ''bf'')), ([squote, newline], (''@|'' @ [squote, newline]))] cline;
          cline = when_starts line ''-- ==>'' [(''-- ==>'', ''-- @!'' @ color_mark ''bf'' @ ''==>@|'')] cline;
          cline = (if startswith (lower_ascii line) ''warning'' then ansi h ''yf'' @ cline else cline);
          cline = when_starts line ''CMake Warning'' [(''CMake Warning'', color_mark ''yf'' @ ''@!CMake Warning@|'')] cline;
          cline = when_starts line ''ERROR:'' [(''ERROR:'', ''@!'' @ color_mark ''rf'' @ ''ERROR:@|'')] cline;
          cline = when_starts line ''CMake Error'' [(''CMake Error'', color_mark ''rf'' @ ''@!CMake Error@|'')] cline;
          cline = when_starts line ''Call Stack (most recent call first):''
            [(''Call Stack (most recent call first):'', color_mark ''cf'' @ ''@_Call Stack (most recent call first):@|'')] cline
      in fmt h cline)"

fun lines_with_ends :: "string \<Rightarrow> string \<Rightarrow> string list" where
  "lines_with_ends acc [] = (if acc = [] then [] else [acc])"
| "lines_with_ends acc (c # cs) =
     (if c = newline then (acc @ [c]) # lines_with_ends [] cs else lines_with_ends (acc @ [c]) cs)"

text \<open>The environment that is passed is that of the process with \<open>add_env\<close>; an empty \<open>add_env\<close> and none
  are the same. A quiet command returns its output, any other one the empty string.\<close>

definition run_command ::
  "host \<Rightarrow> string list \<Rightarrow> string \<Rightarrow> bool \<Rightarrow> bool \<Rightarrow> (string \<times> string) list \<Rightarrow> (build_state, string) act" where
  "run_command h cmd cwd quiet colorize add_env w =
     (let c = \<lparr>argv = cmd, run_cwd = cwd, run_env = add_env\<rparr> in
      case launch h c (disk w) of
        None \<Rightarrow> (Inl (IOError (py_join '' '' cmd)), w)
      | Some (returncode, out, d) \<Rightarrow>
          let w = w\<lparr>disk := d, ran := ran w @ [c]\<rparr>;
              out = (if colorize then concat (map (colorize_line h) (lines_with_ends [] out)) else out)
          in (if returncode \<noteq> 0 then (Inl (CalledProcessError returncode cmd), w)
              else (Inr (if quiet then out else []), w)))"

definition run_command_colorized ::
  "host \<Rightarrow> string list \<Rightarrow> string \<Rightarrow> bool \<Rightarrow> (string \<times> string) list \<Rightarrow> (build_state, unit) act" where
  "run_command_colorized h cmd cwd quiet add_env = sbind (run_command h cmd cwd quiet True add_env) (\<lambda>_. sret ())"

text \<open>The re-raise of \<open>except CalledProcessError\<close> after the handler \<open>m'\<close>.\<close>

definition on_called_process_error :: "(build_state, 'a) act \<Rightarrow> (build_state, unit) act \<Rightarrow> (build_state, 'a) act" where
  "on_called_process_error m m' w = (case m w of
     (Inl (CalledProcessError rc cmd), w') \<Rightarrow> sbind m' (\<lambda>_. sraise (CalledProcessError rc cmd)) w'
   | r \<Rightarrow> r)"

text \<open>A process whose output is read, started without a directory or an environment of its own.\<close>

definition run_query :: "host \<Rightarrow> string list \<Rightarrow> (build_state, int \<times> string) act" where
  "run_query h cmd w = (case query h cmd of
     None \<Rightarrow> (Inl (IOError (py_join '' '' cmd)), w)
   | Some r \<Rightarrow> (Inr r, w\<lparr>ran := ran w @ [\<lparr>argv = cmd, run_cwd = process_cwd h, run_env = []\<rparr>]\<rparr>))"

definition gcc_query :: "string list" where
  "gcc_query = [''gcc'', ''-print-multiarch'']"

definition dpkg_query :: "string list" where
  "dpkg_query = [''dpkg-architecture'', ''-qDEB_HOST_MULTIARCH'']"

definition get_multiarch :: "host \<Rightarrow> (build_state, string) act" where
  "get_multiarch h =
     (if \<not> startswith (lower_ascii (sys_platform h)) ''linux'' then sret []
      else sbind (run_query h gcc_query) (\<lambda>(returncode, out).
        sbind (if returncode \<noteq> 0 then sbind (run_query h dpkg_query) (\<lambda>(_, out). sret out) else sret out) (\<lambda>out.
        if strip out = [] \<or> count_list (strip out) CHR ''-'' = 2 then sret (strip out) else sraise AssertionError)))"

definition get_python_install_dir :: "host \<Rightarrow> disk \<Rightarrow> string" where
  "get_python_install_dir h d =
     (let debian = exists_on d ''/etc/debian_version'';
          version = (if debian \<and> fst (python_version h) = 3 then str_of_nat (fst (python_version h))
            else str_of_nat (fst (python_version h)) @ ''.'' @ str_of_nat (snd (python_version h)))
      in path_join (path_join ''lib'' (''python'' @ version)) (if debian then ''dist-packages'' else ''site-packages''))"

section \<open>Packages\<close>

record package =
  pkg_name :: string
  pkg_filename :: string
  pkg_exports :: "(string \<times> string) list"
  pkg_build_depends :: "string list"
  pkg_buildtool_depends :: "string list"
  pkg_run_depends :: "string list"
  pkg_test_depends :: "string list"
  pkg_package_format :: nat

definition get_build_type :: "package \<Rightarrow> string" where
  "get_build_type package = (case filter (\<lambda>(tagname, content). tagname = ''build_type'') (pkg_exports package) of
     [] \<Rightarrow> ''catkin'' | (tagname, content) # _ \<Rightarrow> content)"

text \<open>The arguments that the functions which build one package share.\<close>

record build_call =
  b_buildspace :: string
  b_develspace :: string
  b_installspace :: string
  b_install :: bool
  b_force_cmake :: bool
  b_quiet :: bool
  b_last_env :: "string option"
  b_cmake_args :: "string list"
  b_make_args :: "string list"
  b_destdir :: "string option"
  b_use_ninja :: bool

definition get_new_env :: "package \<Rightarrow> build_call \<Rightarrow> string option" where
  "get_new_env package b =
     (if get_build_type package \<in> {''catkin'', ''cmake''} then
        let new_env = path_join (if b_install b then b_installspace b else b_develspace b) ''env.sh''
        in Some (if b_install b then prefix_destdir new_env (b_destdir b) else new_env)
      else None)"

definition get_additional_environment :: "bool \<Rightarrow> string option \<Rightarrow> string \<Rightarrow> (string \<times> string) list" where
  "get_additional_environment install destdir installspace = (case destdir of
     None \<Rightarrow> []
   | Some d \<Rightarrow> if install \<and> d \<noteq> [] then [(''_CATKIN_SETUP_DIR'', path_join d (drop 1 installspace))] else [])"

definition check_build_dir :: "string \<Rightarrow> string \<Rightarrow> (build_state, string) act" where
  "check_build_dir name buildspace =
     (let package_build_dir = path_join buildspace name in
      sbind (path_exists package_build_dir) (\<lambda>there.
      sbind (if there then sret () else os_makedirs package_build_dir) (\<lambda>_. sret package_build_dir)))"

definition in_env :: "string option \<Rightarrow> string list \<Rightarrow> string list" where
  "in_env last_env cmd = (case last_env of None \<Rightarrow> cmd | Some e \<Rightarrow> e # cmd)"

definition makefile_name :: "bool \<Rightarrow> string" where
  "makefile_name use_ninja = (if use_ninja then ''build.ninja'' else ''Makefile'')"

definition make_executable :: "bool \<Rightarrow> bool \<Rightarrow> string" where
  "make_executable use_ninja use_nmake = (if use_ninja then ''ninja'' else if use_nmake then ''nmake'' else ''make'')"

definition make_check_cmake_cmd :: "bool \<Rightarrow> bool \<Rightarrow> string list" where
  "make_check_cmake_cmd use_ninja use_nmake =
     (if use_ninja then [''ninja'', ''build.ninja'']
      else if use_nmake then [''nmake'', ''cmake_check_build_system''] else [''make'', ''cmake_check_build_system''])"

definition is_target_start :: "char \<Rightarrow> bool" where
  "is_target_start c \<longleftrightarrow> is_digit c \<or> (CHR ''a'' \<le> c \<and> c \<le> CHR ''z'') \<or> (CHR ''A'' \<le> c \<and> c \<le> CHR ''Z'')"

definition is_target_char :: "char \<Rightarrow> bool" where
  "is_target_char c \<longleftrightarrow> is_target_start c \<or> c = CHR ''_'' \<or> c = CHR ''.''"

text \<open>The group of \<open>^([a-zA-Z0-9][a-zA-Z0-9_.]*):\<close>.\<close>

definition target_of :: "string \<Rightarrow> string option" where
  "target_of l = (case l of [] \<Rightarrow> None
     | c # cs \<Rightarrow> let t = takeWhile is_target_char cs in
         if is_target_start c \<and> startswith (drop (length t) cs) '':'' then Some (c # t) else None)"

definition has_make_target :: "host \<Rightarrow> string \<Rightarrow> string \<Rightarrow> bool \<Rightarrow> (build_state, bool) act" where
  "has_make_target h path target use_ninja =
     sbind (run_command h (if use_ninja then [''ninja'', ''-t'', ''targets''] else [''make'', ''-pn'']) path True False []) (\<lambda>out.
       let ls = splitlines out;
           ls = (if use_ninja then filter (\<lambda>l. \<not> startswith l ''ninja: warning:'') ls else ls)
       in sret (Some target \<in> set (map target_of ls)))"

section \<open>Building one package\<close>

text \<open>The part of both functions that runs cmake or lets make check whether cmake must run: \<open>cmake\<close> is
  what is done if there is no makefile or if cmake is forced.\<close>

definition configure_step ::
  "host \<Rightarrow> bool \<Rightarrow> build_call \<Rightarrow> string \<Rightarrow> (string \<times> string) list \<Rightarrow> (build_state, unit) act \<Rightarrow> (build_state, unit) act" where
  "configure_step h use_nmake b build_dir add_env cmake =
     sbind (path_exists (path_join build_dir (makefile_name (b_use_ninja b)))) (\<lambda>there.
       if \<not> there \<or> b_force_cmake b then cmake
       else run_command_colorized h (in_env (b_last_env b) (make_check_cmake_cmd (b_use_ninja b) use_nmake))
         build_dir (b_quiet b) add_env)"

definition make_step :: "host \<Rightarrow> bool \<Rightarrow> build_call \<Rightarrow> string \<Rightarrow> (string \<times> string) list \<Rightarrow> (build_state, unit) act" where
  "make_step h use_nmake b build_dir add_env =
     sbind (run_command h (in_env (b_last_env b) (make_executable (b_use_ninja b) use_nmake #
         handle_make_arguments (environ h) (cpu_count h) (b_make_args b))) build_dir (b_quiet b) False add_env) (\<lambda>_. sret ())"

definition make_install_step :: "host \<Rightarrow> bool \<Rightarrow> build_call \<Rightarrow> string \<Rightarrow> (build_state, unit) act" where
  "make_install_step h use_nmake b build_dir =
     sbind (run_command h (in_env (b_last_env b) [make_executable (b_use_ninja b) use_nmake, ''install''])
       build_dir (b_quiet b) False []) (\<lambda>_. sret ())"

text \<open>\<open>configure_file\<close> of catkin_pkg reads a template and fills in the values, or raises an exception.\<close>

record catkin_pkg =
  metapackage_template :: string
  configure_file :: "disk \<Rightarrow> string \<Rightarrow> (string \<times> string) list \<Rightarrow> string option"
  find_packages :: "disk \<Rightarrow> string \<Rightarrow> (string \<times> package) list"
  topological_order_packages :: "(string \<times> package) list \<Rightarrow> (string option \<times> package) list"
  get_previous_tool :: "disk \<Rightarrow> string \<Rightarrow> string option"
  mark_space :: "string \<Rightarrow> disk \<Rightarrow> disk"
  ensure_workspace_marker :: "string \<Rightarrow> disk \<Rightarrow> disk"
  cmake_path :: string

definition cmake_source :: "catkin_pkg \<Rightarrow> package \<Rightarrow> string \<Rightarrow> (build_state, string) act" where
  "cmake_source t package build_dir =
     (let package_dir = path_dirname (pkg_filename package) in
      sbind (path_exists (path_join package_dir ''CMakeLists.txt'')) (\<lambda>there.
        if there then sret package_dir
        else if ''metapackage'' \<notin> set (map fst (pkg_exports package)) then sraise (SystemExit 1)
        else sbind (sgets disk) (\<lambda>d.
          sbind (slift (of_option PyException (configure_file t d (metapackage_template t)
            [(''name'', pkg_name package), (''metapackage_arguments'', (''DIRECTORY '' @ [dquote] @ package_dir @ [dquote]))]))) (\<lambda>cmake_code.
          sbind (write_text_file (path_join build_dir ''CMakeLists.txt'') cmake_code) (\<lambda>_. sret build_dir)))))"

definition remove_makefile :: "string \<Rightarrow> (build_state, unit) act" where
  "remove_makefile makefile = sbind (path_exists makefile) (\<lambda>there. if there then os_remove makefile else sret ())"

definition catkin_cmake_cmd :: "build_call \<Rightarrow> string \<Rightarrow> string list" where
  "catkin_cmake_cmd b package_dir = [''cmake'', package_dir, ''-DCATKIN_DEVEL_PREFIX='' @ b_develspace b,
     ''-DCMAKE_INSTALL_PREFIX='' @ b_installspace b] @ b_cmake_args b"

definition catkin_cmake :: "host \<Rightarrow> catkin_pkg \<Rightarrow> package \<Rightarrow> build_call \<Rightarrow> string \<Rightarrow> (string \<times> string) list \<Rightarrow> (build_state, unit) act" where
  "catkin_cmake h t package b build_dir add_env =
     sbind (cmake_source t package build_dir) (\<lambda>package_dir.
     on_called_process_error
       (run_command_colorized h (in_env (b_last_env b) (catkin_cmake_cmd b package_dir)) build_dir (b_quiet b) add_env)
       (remove_makefile (path_join build_dir (makefile_name (b_use_ninja b)))))"

definition build_catkin_package :: "host \<Rightarrow> catkin_pkg \<Rightarrow> bool \<Rightarrow> package \<Rightarrow> build_call \<Rightarrow> (build_state, unit) act" where
  "build_catkin_package h t use_nmake package b =
     (let add_env = get_additional_environment (b_install b) (b_destdir b) (b_installspace b) in
      sbind (check_build_dir (pkg_name package) (b_buildspace b)) (\<lambda>build_dir.
      sbind (configure_step h use_nmake b build_dir add_env (catkin_cmake h t package b build_dir add_env)) (\<lambda>_.
      sbind (make_step h use_nmake b build_dir []) (\<lambda>_.
        if b_install b \<or> use_nmake then
          sbind (has_make_target h build_dir ''install'' (b_use_ninja b)) (\<lambda>target.
            if target then make_install_step h use_nmake b build_dir else sret ())
        else sret ()))))"

section \<open>The environment files of a plain cmake package\<close>

definition env_sh :: string where
  "env_sh = concat (map (\<lambda>l. l @ [newline])
    [''#!/usr/bin/env sh'',
     ''# generated from catkin.builder module'',
     [],
     ''if [ $# -eq 0 ] ; then'',
     (''  /bin/echo '' @ [dquote] @ ''Usage: env.sh COMMANDS'' @ [dquote]),
     (''  /bin/echo '' @ [dquote] @ ''Calling env.sh without arguments is not supported anymore. Instead spawn a subshell and source a setup file manually.'' @ [dquote]),
     ''  exit 1'',
     ''fi'',
     [],
     ''# ensure to not use different shell type which was set before'',
     ''CATKIN_SHELL=sh'',
     [],
     ''# source setup.sh from same directory as this file'',
     (''. '' @ [dquote] @ ''$(cd '' @ [dquote] @ ''`dirname '' @ [dquote] @ ''$0'' @ [dquote] @ ''`'' @ [dquote] @ '' && pwd)/setup.sh'' @ [dquote]),
     (''exec '' @ [dquote] @ ''$@'' @ [dquote])])"

definition setup_sh_head :: string where
  "setup_sh_head = concat (map (\<lambda>l. l @ [newline])
    [''#!/usr/bin/env sh'',
     ''# generated from catkin.builder module'',
     [],
     ''# remember type of shell if not already set'',
     (''if [ -z '' @ [dquote] @ ''$CATKIN_SHELL'' @ [dquote] @ '' ]; then''),
     ''  CATKIN_SHELL=sh'',
     ''fi''])"

text \<open>The directories that \<open>setup.sh\<close> adds, with the separators.\<close>

definition setup_sh_body :: "string \<Rightarrow> string \<Rightarrow> string \<Rightarrow> string \<Rightarrow> string \<Rightarrow> string" where
  "setup_sh_body cmake_prefix_path ld_path pythonpath pkgcfg_path bin_path = concat (map (\<lambda>l. l @ [newline])
    [''# detect if running on Darwin platform'',
     ''_UNAME=`uname -s`'',
     ''IS_DARWIN=0'',
     (''if [ '' @ [dquote] @ ''$_UNAME'' @ [dquote] @ '' = '' @ [dquote] @ ''Darwin'' @ [dquote] @ '' ]; then''),
     ''  IS_DARWIN=1'',
     ''fi'',
     [],
     ''# Prepend to the environment'',
     (''export CMAKE_PREFIX_PATH='' @ [dquote] @ cmake_prefix_path @ ''$CMAKE_PREFIX_PATH'' @ [dquote]),
     ''if [ $IS_DARWIN -eq 0 ]; then'',
     (''  export LD_LIBRARY_PATH='' @ [dquote] @ ld_path @ ''$LD_LIBRARY_PATH'' @ [dquote]),
     ''else'',
     (''  export DYLD_LIBRARY_PATH='' @ [dquote] @ ld_path @ ''$DYLD_LIBRARY_PATH'' @ [dquote]),
     ''fi'',
     (''export PATH='' @ [dquote] @ bin_path @ ''$PATH'' @ [dquote]),
     (''export PKG_CONFIG_PATH='' @ [dquote] @ pkgcfg_path @ ''$PKG_CONFIG_PATH'' @ [dquote]),
     (''export PYTHONPATH='' @ [dquote] @ pythonpath @ ''$PYTHONPATH'' @ [dquote])])"

definition setup_shell :: "string \<Rightarrow> string \<Rightarrow> string" where
  "setup_shell dir shell = concat (map (\<lambda>l. l @ [newline])
    [(''#!/usr/bin/env '' @ shell), ''# generated from catkin.builder module'', [],
     (''CATKIN_SHELL='' @ shell), (''. '' @ [dquote] @ dir @ ''/setup.sh'' @ [dquote])])"

definition in_destdir :: "build_call \<Rightarrow> string \<Rightarrow> string" where
  "in_destdir b p = (if b_install b then prefix_destdir p (b_destdir b) else p)"

definition install_target :: "build_call \<Rightarrow> string" where
  "install_target b = (if b_install b then b_installspace b else b_develspace b)"

definition write_env_sh :: "build_call \<Rightarrow> (build_state, unit) act" where
  "write_env_sh b =
     (let new_env_path = in_destdir b (path_join (install_target b) ''env.sh'') in
      if Some new_env_path = b_last_env b then sret ()
      else sbind (path_exists (path_dirname new_env_path)) (\<lambda>there.
        sbind (if there then sret () else os_makedirs (path_dirname new_env_path)) (\<lambda>_.
        sbind (write_text_file new_env_path env_sh) (\<lambda>_. chmod_rwx new_env_path))))"

definition setup_sh :: "host \<Rightarrow> build_call \<Rightarrow> disk \<Rightarrow> string \<Rightarrow> string" where
  "setup_sh h b d arch =
     (let target = install_target b;
          lib = path_join target ''lib'';
          in_arch = (\<lambda>p. if arch = [] then [] else p @ '':'')
      in setup_sh_head @
         (case b_last_env b of None \<Rightarrow> []
          | Some e \<Rightarrow> (''. '' @ [dquote] @ slice_to (path_join (path_dirname e) ''setup.sh'') (- 3) @ ''.$CATKIN_SHELL'' @ [dquote, newline, newline])) @
         setup_sh_body (target @ '':'') (lib @ '':'' @ in_arch (path_join lib arch))
           (path_join target (get_python_install_dir h d) @ '':'')
           (path_join lib ''pkgconfig'' @ '':'' @ in_arch (path_join (path_join lib arch) ''pkgconfig''))
           (path_join target ''bin'' @ '':''))"

definition write_setup_shell :: "build_call \<Rightarrow> string \<Rightarrow> (build_state, unit) act" where
  "write_setup_shell b shell =
     (let setup_path = in_destdir b (path_join (install_target b) (''setup.'' @ shell))
      in write_text_file setup_path (setup_shell (path_dirname setup_path) shell))"

definition write_setup_sh :: "host \<Rightarrow> build_call \<Rightarrow> (build_state, unit) act" where
  "write_setup_sh h b =
     (let new_setup_path = in_destdir b (path_join (install_target b) ''setup.sh'') in
      if map_option (\<lambda>e. path_join (path_dirname e) ''setup.sh'') (b_last_env b) = Some new_setup_path then sret ()
      else sbind (get_multiarch h) (\<lambda>arch. sbind (sgets disk) (\<lambda>d0.
        sbind (path_exists (path_dirname new_setup_path)) (\<lambda>there.
        sbind (if there then sret () else os_mkdir (path_dirname new_setup_path)) (\<lambda>_.
        sbind (write_text_file new_setup_path (setup_sh h b d0 arch)) (\<lambda>_.
        sfoldl (\<lambda>_ shell. write_setup_shell b shell) () [''bash'', ''zsh'']))))))"

definition cmake_cmake_cmd :: "package \<Rightarrow> build_call \<Rightarrow> string list" where
  "cmake_cmake_cmd package b = [''cmake'', path_dirname (pkg_filename package),
     ''-DCMAKE_INSTALL_PREFIX='' @ install_target b] @ b_cmake_args b"

definition build_cmake_package :: "host \<Rightarrow> bool \<Rightarrow> package \<Rightarrow> build_call \<Rightarrow> (build_state, unit) act" where
  "build_cmake_package h use_nmake package b =
     sbind (check_build_dir (pkg_name package @ (if b_install b then ''/install'' else ''/devel'')) (b_buildspace b)) (\<lambda>build_dir.
     sbind (configure_step h use_nmake b build_dir []
       (run_command_colorized h (in_env (b_last_env b) (cmake_cmake_cmd package b)) build_dir (b_quiet b) [])) (\<lambda>_.
     sbind (make_step h use_nmake b build_dir (if b_install b then [] else [(''DESTDIR'', [])])) (\<lambda>_.
     sbind (make_install_step h use_nmake b build_dir) (\<lambda>_.
     sbind (path_exists (prefix_destdir (path_join (install_target b) ''env.sh'') (b_destdir b))) (\<lambda>there.
       if b_install b \<and> there then sret ()
       else sbind (write_env_sh b) (\<lambda>_. write_setup_sh h b))))))"

section \<open>A package of either kind\<close>

text \<open>\<open>build_package\<close> has no parameter \<open>use_nmake\<close>: the functions it calls use its default, \<open>False\<close>.\<close>

definition build_package ::
  "host \<Rightarrow> catkin_pkg \<Rightarrow> package \<Rightarrow> build_call \<Rightarrow> string list \<Rightarrow> (build_state, string option) act" where
  "build_package h t package b catkin_make_args =
     (let new_last_env = get_new_env package b in
      if get_build_type package = ''catkin'' then
        sbind (build_catkin_package h t False package (b\<lparr>b_make_args := b_make_args b @ catkin_make_args\<rparr>)) (\<lambda>_.
        sbind (path_exists (case new_last_env of Some e \<Rightarrow> e | None \<Rightarrow> [])) (\<lambda>there.
          if there then sret new_last_env else sraise RuntimeError))
      else if get_build_type package = ''cmake'' then
        sbind (build_cmake_package h False package b) (\<lambda>_. sret new_last_env)
      else sraise (SystemExit 1))"

end
