(* ===== verification/Catkin_Workspace.thy ===== *)
theory Catkin_Workspace
  imports Catkin_Builder
begin

text \<open>
  \<open>build_workspace_isolated\<close> of \<open>catkin/builder.py\<close>: the checks of the spaces, the selection of the
  packages, the file that remembers the last input of cmake, the loop over the packages in
  topological order and the environment files of the devel space.
\<close>

section \<open>A package and all that it needs\<close>

definition by_name :: "(string \<times> package) list \<Rightarrow> string \<Rightarrow> package option" where
  "by_name packages = map_of (rev (map (\<lambda>(path, p). (pkg_name p, p)) packages))"

definition deps_to_iterate_over :: "package \<Rightarrow> string list" where
  "deps_to_iterate_over p = pkg_build_depends p @ pkg_buildtool_depends p @ pkg_run_depends p @
     (if pkg_package_format p > 1 then pkg_test_depends p else [])"

definition package_names :: "(string \<times> package) list \<Rightarrow> string set" where
  "package_names packages = set (map (\<lambda>(path, p). pkg_name p) packages)"

lemma by_name_none: "by_name packages n = None \<longleftrightarrow> n \<notin> package_names packages"
  unfolding by_name_def map_of_eq_None_iff package_names_def by (simp add: image_image case_prod_unfold)

lemma by_name_some: "by_name packages n = Some p \<Longrightarrow> n \<in> package_names packages"
  using by_name_none [of packages n] by auto

lemma package_names_finite [simp]: "finite (package_names packages)"
  by (simp add: package_names_def)

definition add_checks :: "(string \<times> package) list \<Rightarrow> string set \<Rightarrow> string list \<Rightarrow> string list \<Rightarrow> string list" where
  "add_checks packages dependencies deps check = foldl (\<lambda>check dep.
     if by_name packages dep \<noteq> None \<and> dep \<notin> set check \<and> dep \<notin> dependencies then check @ [dep] else check) check deps"

text \<open>The set of the names that are still to be checked is a list without repetitions; \<open>pop\<close> chooses
  the element that \<open>set.pop\<close> removes.\<close>

lemma add_checks_Nil: "add_checks packages dependencies [] check = check"
  by (simp add: add_checks_def)

lemma add_checks_snoc:
  "add_checks packages dependencies (deps @ [d]) check =
     (let c = add_checks packages dependencies deps check
      in if d \<in> package_names packages \<and> d \<notin> set c \<and> d \<notin> dependencies then c @ [d] else c)"
  by (simp add: add_checks_def by_name_none Let_def del: not_None_eq)

lemma add_checks_facts:
  shows add_checks_set: "set (add_checks packages dependencies deps check) =
      set check \<union> {d \<in> set deps. d \<in> package_names packages \<and> d \<notin> dependencies}"
    and add_checks_known: "filter (\<lambda>n. n \<in> dependencies) (add_checks packages dependencies deps check) =
      filter (\<lambda>n. n \<in> dependencies) check"
    and add_checks_distinct: "distinct check \<Longrightarrow> distinct (add_checks packages dependencies deps check)"
  by (induction deps rule: rev_induct) (auto simp: add_checks_Nil add_checks_snoc Let_def)

definition popped :: "(string set \<Rightarrow> string list \<Rightarrow> nat) \<Rightarrow> string set \<Rightarrow> string list \<Rightarrow> string" where
  "popped pop dependencies check = check ! (pop dependencies check mod length check)"

lemma popped_in [simp]: "check \<noteq> [] \<Longrightarrow> popped pop dependencies check \<in> set check"
  by (simp add: popped_def)

function dependencies_loop ::
  "(string set \<Rightarrow> string list \<Rightarrow> nat) \<Rightarrow> (string \<times> package) list \<Rightarrow> string set \<Rightarrow> string list \<Rightarrow> string set" where
  "dependencies_loop pop packages dependencies check =
     (if check = [] then dependencies
      else let n = popped pop dependencies check; check = remove1 n check in
        case by_name packages n of
          None \<Rightarrow> dependencies_loop pop packages dependencies check
        | Some pkg \<Rightarrow> dependencies_loop pop packages (insert n dependencies)
            (add_checks packages (insert n dependencies) (deps_to_iterate_over pkg) check))"
  by pat_completeness auto
termination
proof (relation "measures [\<lambda>(pop, packages, dependencies, check). card (package_names packages - dependencies),
    \<lambda>(pop, packages, dependencies, check). length (filter (\<lambda>n. n \<in> dependencies) check),
    \<lambda>(pop, packages, dependencies, check). length check]", goal_cases)
  case (2 pop packages dependencies check n rest)
  then have "n \<in> set check" by simp
  then have "length rest < length check" "length (filter (\<lambda>n. n \<in> dependencies) rest) \<le> length (filter (\<lambda>n. n \<in> dependencies) check)"
    using 2 by (auto simp: length_remove1 filter_remove1 intro: Suc_le_lessD diff_le_self length_pos_if_in_set)
  then show ?case by (auto simp: less_le)
next
  case (3 pop packages dependencies check n rest pkg)
  then have n: "n \<in> set check" "n \<in> package_names packages" by (auto dest: by_name_some)
  show ?case
  proof (cases "n \<in> dependencies")
    case True
    then have "n \<in> set (filter (\<lambda>n. n \<in> dependencies) check)" using n by simp
    then have "length (filter (\<lambda>n. n \<in> dependencies) rest) < length (filter (\<lambda>n. n \<in> dependencies) check)"
      using 3(3) length_pos_if_in_set [of n "filter (\<lambda>n. n \<in> dependencies) check"]
      by (simp add: filter_remove1 length_remove1)
    then show ?thesis using True by (simp add: insert_absorb add_checks_known)
  next
    case False
    then have "card (package_names packages - insert n dependencies) < card (package_names packages - dependencies)"
      using n by (intro psubset_card_mono) auto
    then show ?thesis by simp
  qed
qed simp

declare dependencies_loop.simps [simp del]

text \<open>\<open>set(pkg_names)\<close>.\<close>

definition get_package_names_with_recursive_dependencies ::
  "(string set \<Rightarrow> string list \<Rightarrow> nat) \<Rightarrow> (string \<times> package) list \<Rightarrow> string list \<Rightarrow> string set" where
  "get_package_names_with_recursive_dependencies pop packages pkg_names =
     dependencies_loop pop packages {} (remdups pkg_names)"

text \<open>What the result is to be: the packages of the workspace that the given ones need.\<close>

inductive needs :: "(string \<times> package) list \<Rightarrow> string \<Rightarrow> string \<Rightarrow> bool" for packages where
  itself: "needs packages n n" if "n \<in> package_names packages"
| dependency: "needs packages n d" if "needs packages n m" and "by_name packages m = Some p" and "d \<in> package_names packages"
    and "d \<in> set (pkg_build_depends p) \<union> set (pkg_buildtool_depends p) \<union> set (pkg_run_depends p) \<or>
      (2 \<le> pkg_package_format p \<and> d \<in> set (pkg_test_depends p))"

lemma deps_set: "d \<in> set (deps_to_iterate_over p) \<longleftrightarrow>
  d \<in> set (pkg_build_depends p) \<union> set (pkg_buildtool_depends p) \<union> set (pkg_run_depends p) \<or>
  (2 \<le> pkg_package_format p \<and> d \<in> set (pkg_test_depends p))"
  by (auto simp: deps_to_iterate_over_def)

lemma needs_closed:
  assumes "needs packages n m" and "n \<in> S"
    and "\<And>m p d. m \<in> S \<Longrightarrow> by_name packages m = Some p \<Longrightarrow> d \<in> set (deps_to_iterate_over p) \<Longrightarrow>
      d \<in> package_names packages \<Longrightarrow> d \<in> S"
  shows "m \<in> S"
  using assms by induction (auto simp: deps_set)

lemma needs_trans:
  assumes "needs packages m d" and "needs packages n m" shows "needs packages n d"
  using assms by induction (auto intro: needs.dependency)

lemma needs_known: "needs packages n m \<Longrightarrow> n \<in> package_names packages \<and> m \<in> package_names packages"
  by (induction rule: needs.induct) auto

text \<open>The loop adds what the names to be checked need, as long as the dependencies of the packages it
  has already added are added too or still to be checked.\<close>

definition loop_closed :: "(string \<times> package) list \<Rightarrow> string set \<Rightarrow> string list \<Rightarrow> bool" where
  "loop_closed packages dependencies check \<longleftrightarrow> (\<forall>m \<in> dependencies. \<forall>p. by_name packages m = Some p \<longrightarrow>
     set (deps_to_iterate_over p) \<inter> package_names packages \<subseteq> dependencies \<union> set check)"

lemma closed_after_unknown:
  assumes "loop_closed packages dependencies check" and "by_name packages n = None"
  shows "loop_closed packages dependencies (remove1 n check)"
proof -
  have "set check \<subseteq> insert n (set (remove1 n check))" using in_set_remove1 by fast
  moreover have "n \<notin> package_names packages" using assms(2) by (simp add: by_name_none)
  ultimately have "ds \<inter> package_names packages \<subseteq> dependencies \<union> set (remove1 n check)"
    if "ds \<inter> package_names packages \<subseteq> dependencies \<union> set check" for ds using that by blast
  then show ?thesis using assms(1) unfolding loop_closed_def by simp
qed

lemma closed_after_known:
  assumes "loop_closed packages dependencies check" and p: "by_name packages n = Some p"
  shows "loop_closed packages (insert n dependencies)
    (add_checks packages (insert n dependencies) (deps_to_iterate_over p) (remove1 n check))"
proof -
  have rest: "set check \<subseteq> insert n (set (remove1 n check))" using in_set_remove1 by fast
  show ?thesis
    unfolding loop_closed_def add_checks_set
  proof (intro ballI allI impI)
    fix m q assume m: "m \<in> insert n dependencies" "by_name packages m = Some q"
    show "set (deps_to_iterate_over q) \<inter> package_names packages \<subseteq> insert n dependencies \<union>
        (set (remove1 n check) \<union> {d \<in> set (deps_to_iterate_over p). d \<in> package_names packages \<and> d \<notin> insert n dependencies})"
    proof (cases "m = n")
      case True
      then show ?thesis using m(2) p by auto
    next
      case False
      then have "set (deps_to_iterate_over q) \<inter> package_names packages \<subseteq> dependencies \<union> set check"
        using assms(1) m unfolding loop_closed_def by blast
      then show ?thesis using rest by blast
    qed
  qed
qed

lemma loop_result_closed:
  assumes "loop_closed packages D C" and "needs packages n m" and "n \<in> D \<union> set C"
  shows "m \<in> D \<union> {m. \<exists>c \<in> set C. needs packages c m}"
proof (rule needs_closed [OF assms(2)])
  show "n \<in> D \<union> {m. \<exists>c \<in> set C. needs packages c m}"
    using assms(3) needs_known [OF assms(2)] by (auto intro: needs.itself)
next
  fix m p d assume m: "m \<in> D \<union> {m. \<exists>c \<in> set C. needs packages c m}" "by_name packages m = Some p"
    and d: "d \<in> set (deps_to_iterate_over p)" "d \<in> package_names packages"
  show "d \<in> D \<union> {m. \<exists>c \<in> set C. needs packages c m}"
  proof (cases "m \<in> D")
    case True
    then have "d \<in> D \<union> set C" using assms(1) m(2) d unfolding loop_closed_def by blast
    then show ?thesis using d(2) by (auto intro: needs.itself)
  next
    case False
    then obtain c where "c \<in> set C" "needs packages c m" using m(1) by auto
    then show ?thesis using needs.dependency [OF _ m(2) d(2)] d(1) by (auto simp: deps_set)
  qed
qed

lemma dependencies_loop_needs:
  assumes "distinct check" and "loop_closed packages dependencies check"
  shows "dependencies_loop pop packages dependencies check =
    dependencies \<union> {m. \<exists>n \<in> set check. needs packages n m}"
  using assms
proof (induction pop packages dependencies check rule: dependencies_loop.induct)
  case (1 pop packages D C)
  show ?case
  proof (cases "C = []")
    case True
    then show ?thesis by (simp add: dependencies_loop.simps)
  next
    case False
    define n where "n = popped pop D C"
    have n: "n \<in> set C" using False by (simp add: n_def)
    have C: "set C = insert n (set (remove1 n C))" using n 1(3) by (auto simp: set_remove1_eq)
    show ?thesis
    proof (cases "by_name packages n")
      case None
      then have "\<not> needs packages n m" for m using needs_known by (auto simp: by_name_none)
      then have "{m. \<exists>c \<in> set C. needs packages c m} = {m. \<exists>c \<in> set (remove1 n C). needs packages c m}"
        by (subst C) simp
      then show ?thesis
        using 1(1) [OF False n_def refl None] 1(3) None closed_after_unknown [OF 1(4) None] False
        by (subst dependencies_loop.simps) (simp add: Let_def n_def [symmetric])
    next
      case (Some p)
      let ?D = "insert n D" and ?C = "add_checks packages (insert n D) (deps_to_iterate_over p) (remove1 n C)"
      have closed: "loop_closed packages ?D ?C" by (rule closed_after_known [OF 1(4) Some])
      have "dependencies_loop pop packages D C = ?D \<union> {m. \<exists>c \<in> set ?C. needs packages c m}"
        using 1(2) [OF False n_def refl Some] add_checks_distinct 1(3) closed False Some
        by (subst dependencies_loop.simps) (simp add: Let_def n_def [symmetric])
      also have "\<dots> = D \<union> {m. \<exists>c \<in> set C. needs packages c m}"
      proof (intro equalityI subsetI)
        fix m assume "m \<in> D \<union> {m. \<exists>c \<in> set C. needs packages c m}"
        then show "m \<in> ?D \<union> {m. \<exists>c \<in> set ?C. needs packages c m}"
          using loop_result_closed [OF closed] by (subst (asm) C) (auto simp: add_checks_set)
      next
        fix m assume m: "m \<in> ?D \<union> {m. \<exists>c \<in> set ?C. needs packages c m}"
        have "needs packages n d" if "d \<in> set ?C" "d \<notin> set (remove1 n C)" for d
          using that needs.dependency [OF needs.itself Some] by_name_some [OF Some]
          by (auto simp: add_checks_set deps_set)
        then show "m \<in> D \<union> {m. \<exists>c \<in> set C. needs packages c m}"
          using m needs_trans needs.itself [OF by_name_some [OF Some]] by (subst C) blast
      qed
      finally show ?thesis .
    qed
  qed
qed

text \<open>C32: for every order in which \<open>set.pop\<close> returns the names, the loop ends and gives exactly the
  packages of the workspace that are named or needed, directly or not, by a named one of the
  workspace: build, tool, run and, from the second format of manifests on, test dependencies.\<close>

theorem recursive_dependencies_correct:
  "get_package_names_with_recursive_dependencies pop packages pkg_names =
     {m. \<exists>n. n \<in> set pkg_names \<and> needs packages n m}"
  unfolding get_package_names_with_recursive_dependencies_def
  by (subst dependencies_loop_needs) (auto simp: loop_closed_def)

section \<open>The last input of cmake\<close>

text \<open>A text file is read with every line end as a line feed.\<close>

fun universal_newlines :: "string \<Rightarrow> string" where
  "universal_newlines [] = []"
| "universal_newlines (c # cs) =
     (if c = CHR 0x0D then newline # (case cs of [] \<Rightarrow> [] | d # ds \<Rightarrow>
        if d = newline then universal_newlines ds else universal_newlines cs)
      else c # universal_newlines cs)"

definition first_line :: "string \<Rightarrow> string" where
  "first_line s = takeWhile (\<lambda>c. c \<noteq> newline) s"

definition after_line :: "string \<Rightarrow> string" where
  "after_line s = drop (Suc (length (first_line s))) s"

definition package_paths_of :: "(string \<times> package) list \<Rightarrow> string" where
  "package_paths_of packages = py_join '':'' (sort (map fst packages))"

definition cache_file :: "string \<Rightarrow> string \<Rightarrow> string" where
  "cache_file build_path filename = path_join build_path (filename @ ''.cache'')"

definition read_file :: "string \<Rightarrow> (build_state, string) act" where
  "read_file p w = (case disk w p of Some (Regular s _) \<Rightarrow> (Inr (universal_newlines s), w) | _ \<Rightarrow> (Inl (IOError p), w))"

definition input_changed :: "string \<Rightarrow> string \<Rightarrow> string \<Rightarrow> bool" where
  "input_changed package_paths args stored \<longleftrightarrow>
     package_paths \<noteq> rstrip (first_line stored) \<or> args \<noteq> rstrip (first_line (after_line stored))"

definition cmake_input_changed ::
  "(string \<times> package) list \<Rightarrow> string \<Rightarrow> string list \<Rightarrow> string \<Rightarrow> (build_state, bool) act" where
  "cmake_input_changed packages build_path cmake_args filename =
     (let package_paths = package_paths_of packages; args = py_join '' '' cmake_args;
          input_filename = cache_file build_path filename in
      sbind (path_exists input_filename) (\<lambda>there.
      sbind (if \<not> there then sret True
             else sbind (read_file input_filename) (\<lambda>stored. sret (input_changed package_paths args stored))) (\<lambda>changed.
      sbind (write_text_file input_filename (package_paths @ [newline] @ args)) (\<lambda>_. sret changed))))"

section \<open>The build of a workspace\<close>

text \<open>The arguments; a list that is \<open>None\<close> and an empty one are treated alike.\<close>

record workspace_call =
  w_workspace :: string
  w_sourcespace :: "string option"
  w_buildspace :: "string option"
  w_develspace :: "string option"
  w_installspace :: "string option"
  w_merge :: bool
  w_install :: bool
  w_force_cmake :: bool
  w_build_packages :: "string list"
  w_quiet :: bool
  w_cmake_args :: "string list"
  w_make_args :: "string list"
  w_catkin_make_args :: "string list"
  w_continue_from_pkg :: bool
  w_only_pkg_with_deps :: "string list"
  w_destdir :: "string option"
  w_use_ninja :: bool
  w_use_nmake :: bool
  w_override_build_tool_check :: bool

definition space_path :: "string option \<Rightarrow> string \<Rightarrow> string \<Rightarrow> string" where
  "space_path given workspace name = (case given of Some s \<Rightarrow> s | None \<Rightarrow> path_join workspace name)"

text \<open>A space that another tool has built in is refused, unless the check is overridden.\<close>

definition check_tool :: "catkin_pkg \<Rightarrow> bool \<Rightarrow> string \<Rightarrow> (build_state, unit) act" where
  "check_tool t override_check sp = sbind (sgets (\<lambda>w. get_previous_tool t (disk w) sp)) (\<lambda>previous_tool.
     if (case previous_tool of None \<Rightarrow> False | Some tool \<Rightarrow> tool \<noteq> ''catkin_make_isolated'') \<and> \<not> override_check
     then sraise (SystemExit 1)
     else smodify (\<lambda>w. w\<lparr>disk := mark_space t sp (disk w)\<rparr>))"

text \<open>The source, build, devel and install space.\<close>

definition check_spaces :: "host \<Rightarrow> catkin_pkg \<Rightarrow> workspace_call \<Rightarrow> (build_state, string \<times> string \<times> string \<times> string) act" where
  "check_spaces h t c =
     sbind (path_exists (w_workspace c)) (\<lambda>there. if \<not> there then sraise (SystemExit 1) else
     let workspace = abspath (process_cwd h) (w_workspace c);
         sourcespace = space_path (w_sourcespace c) workspace ''src'';
         buildspace = space_path (w_buildspace c) workspace ''build_isolated'';
         develspace = space_path (w_develspace c) workspace ''devel_isolated'';
         installspace = space_path (w_installspace c) workspace ''install_isolated'' in
     sbind (path_exists sourcespace) (\<lambda>there. if \<not> there then sraise (SystemExit 1) else
     sbind (path_exists buildspace) (\<lambda>there.
     sbind (if there then sret () else os_mkdir buildspace) (\<lambda>_.
     sbind (check_tool t (w_override_build_tool_check c) buildspace) (\<lambda>_.
     sbind (check_tool t (w_override_build_tool_check c) develspace) (\<lambda>_.
     sret (sourcespace, buildspace, develspace, installspace)))))))"

definition with_generator :: "workspace_call \<Rightarrow> string list res" where
  "with_generator c =
     (if filter (\<lambda>a. startswith a ''-G'') (w_cmake_args c) = [] then
        Inr (w_cmake_args c @ [''-G'', if w_use_ninja c then ''Ninja'' else if w_use_nmake c then ''NMake Makefiles'' else ''Unix Makefiles''])
      else if w_use_ninja c \<or> w_use_nmake c then Inl (SystemExit 1)
      else Inr (w_cmake_args c))"

definition unknown_names :: "string list \<Rightarrow> (string \<times> package) list \<Rightarrow> string list" where
  "unknown_names names packages = filter (\<lambda>n. n \<notin> set (map (\<lambda>(path, p). pkg_name p) packages)) names"

definition select_packages ::
  "(string set \<Rightarrow> string list \<Rightarrow> nat) \<Rightarrow> workspace_call \<Rightarrow> (string \<times> package) list \<Rightarrow> (string \<times> package) list res" where
  "select_packages pop c packages =
     rbind (if w_only_pkg_with_deps c = [] then Inr packages
            else if unknown_names (w_only_pkg_with_deps c) packages \<noteq> [] then Inl (SystemExit 1)
            else let whitelist = get_package_names_with_recursive_dependencies pop packages (w_only_pkg_with_deps c)
              in Inr (filter (\<lambda>(path, p). pkg_name p \<in> whitelist) packages)) (\<lambda>packages.
     if unknown_names (w_build_packages c) packages \<noteq> [] then Inl (SystemExit 1) else Inr packages)"

text \<open>The order: a package without a path stands for a circle, and an unknown build type is an error
  once all have been seen.\<close>

fun check_order :: "bool \<Rightarrow> (string option \<times> package) list \<Rightarrow> (string \<times> package) list res" where
  "check_order unknown_build_types [] = (if unknown_build_types then Inl (SystemExit 1) else Inr [])"
| "check_order unknown_build_types ((None, package) # rest) = Inl (SystemExit 1)"
| "check_order unknown_build_types ((Some path, package) # rest) =
     rbind (check_order (unknown_build_types \<or> get_build_type package \<notin> {''catkin'', ''cmake''}) rest) (\<lambda>ps.
     Inr ((path, package) # ps))"

text \<open>An empty string is no space for the arguments that are remembered.\<close>

definition args_with_spaces :: "string list \<Rightarrow> string \<Rightarrow> string \<Rightarrow> string list" where
  "args_with_spaces cmake_args develspace installspace = cmake_args @
     (if develspace = [] then [] else [''-DCATKIN_DEVEL_PREFIX='' @ develspace]) @
     (if installspace = [] then [] else [''-DCMAKE_INSTALL_PREFIX='' @ installspace])"

definition decide_force_cmake :: "bool \<Rightarrow> (string \<times> package) list \<Rightarrow> string \<Rightarrow> string list \<Rightarrow> (build_state, bool) act" where
  "decide_force_cmake force packages buildspace args =
     (if force then sret True else cmake_input_changed packages buildspace args ''catkin_make_isolated'')"

text \<open>The variables of the loop: the packages to build, none standing for all, the environment and the
  devel space of the last package.\<close>

type_synonym loop_vars = "string list \<times> string option \<times> string option"

definition to_exit :: "(build_state, 'a) act \<Rightarrow> (build_state, 'a) act" where
  "to_exit m w = (case m w of (Inl (SystemExit n), w') \<Rightarrow> (Inl (SystemExit n), w')
     | (Inl e, w') \<Rightarrow> (Inl (SystemExit 1), w') | r \<Rightarrow> r)"

definition package_develspace :: "bool \<Rightarrow> string \<Rightarrow> package \<Rightarrow> string" where
  "package_develspace merge develspace package = (if merge then develspace else path_join develspace (pkg_name package))"

definition is_selected :: "string list \<Rightarrow> package \<Rightarrow> bool" where
  "is_selected build_packages package \<longleftrightarrow> build_packages = [] \<or> pkg_name package \<in> set build_packages"

definition build_round ::
  "host \<Rightarrow> catkin_pkg \<Rightarrow> workspace_call \<Rightarrow> build_call \<Rightarrow> loop_vars \<Rightarrow> package \<Rightarrow> (build_state, loop_vars) act" where
  "build_round h t c b v package = (case v of (build_packages, env, _) \<Rightarrow>
     let dev = package_develspace (w_merge c) (b_develspace b) package;
         b = b\<lparr>b_develspace := dev, b_last_env := env\<rparr> in
     if is_selected build_packages package then
       let build_packages = (if w_continue_from_pkg c \<and> pkg_name package \<in> set build_packages then [] else build_packages) in
       sbind (to_exit (build_package h t package b (w_catkin_make_args c))) (\<lambda>env.
         sret (build_packages, env, Some dev))
     else sret (build_packages, get_new_env package b, Some dev))"

definition build_packages_in_order ::
  "host \<Rightarrow> catkin_pkg \<Rightarrow> workspace_call \<Rightarrow> build_call \<Rightarrow> package list \<Rightarrow> (build_state, loop_vars) act" where
  "build_packages_in_order h t c b ordered = sfoldl (build_round h t c b) (w_build_packages c, None, None) ordered"

section \<open>The environment of the devel space\<close>

definition relay_env_sh :: "string \<Rightarrow> string" where
  "relay_env_sh dev = concat (map (\<lambda>l. l @ [newline])
    [''#!/usr/bin/env sh'', ''# generated from catkin.builder module'', [], (path_join dev ''env.sh'' @ '' '' @ [dquote] @ ''$@'' @ [dquote])])"

definition relay_setup :: "string \<Rightarrow> string \<Rightarrow> string" where
  "relay_setup dev shell = concat (map (\<lambda>l. l @ [newline])
    [(''#!/usr/bin/env '' @ shell), ''# generated from catkin.builder module'', [], (''. '' @ [dquote] @ dev @ ''/setup.'' @ shell @ [dquote])])"

definition setup_names :: "string list" where
  "setup_names = [''sh'', ''bash'', ''zsh'']"

definition relay_files :: "string \<Rightarrow> string \<Rightarrow> (build_state, unit) act" where
  "relay_files develspace dev =
     sbind (write_text_file (path_join develspace ''env.sh'') (relay_env_sh dev)) (\<lambda>_.
     sbind (chmod_rwx (path_join develspace ''env.sh'')) (\<lambda>_.
     sbind (sfoldl (\<lambda>_ shell. write_text_file (path_join develspace (''setup.'' @ shell)) (relay_setup dev shell)) () setup_names) (\<lambda>_.
     sbind (path_exists (path_join develspace ''_setup_util.py'')) (\<lambda>there.
       if there then os_remove (path_join develspace ''_setup_util.py'') else sret ()))))"

text \<open>A file made from a template of catkin; it is opened, and so emptied, before the template is read.\<close>

definition write_configured :: "catkin_pkg \<Rightarrow> string \<Rightarrow> string \<Rightarrow> (string \<times> string) list \<Rightarrow> (build_state, unit) act" where
  "write_configured t p template variables =
     sbind (write_text_file p []) (\<lambda>_.
     sbind (sgets disk) (\<lambda>d.
     sbind (slift (of_option PyException (configure_file t d (path_join (path_join (cmake_path t) ''templates'') template) variables))) (\<lambda>content.
     write_text_file p content)))"

definition setup_util_variables :: "host \<Rightarrow> disk \<Rightarrow> string \<Rightarrow> (string \<times> string) list" where
  "setup_util_variables h d prefix_path =
     [(''CATKIN_GLOBAL_BIN_DESTINATION'', ''bin''), (''CATKIN_LIB_ENVIRONMENT_PATHS'', ([squote] @ ''lib'' @ [squote])),
      (''CATKIN_PKGCONFIG_ENVIRONMENT_PATHS'', (''os.path.join('' @ [squote] @ ''lib'' @ [squote] @ '', '' @ [squote] @ ''pkgconfig'' @ [squote] @ '')'')),
      (''CMAKE_PREFIX_PATH_AS_IS'', py_join '';'' (split_on CHR '':'' prefix_path)),
      (''PYTHON_EXECUTABLE'', sys_executable h), (''PYTHON_INSTALL_DIR'', get_python_install_dir h d)]"

definition empty_devel_files :: "host \<Rightarrow> catkin_pkg \<Rightarrow> string \<Rightarrow> (build_state, unit) act" where
  "empty_devel_files h t develspace = (case environ h ''CMAKE_PREFIX_PATH'' of
     None \<Rightarrow> sraise (SystemExit 1)
   | Some prefix_path \<Rightarrow>
       sbind (sgets disk) (\<lambda>d.
       sbind (write_configured t (path_join develspace ''_setup_util.py'') ''_setup_util.py.in'' (setup_util_variables h d prefix_path)) (\<lambda>_.
       sbind (chmod_rwx (path_join develspace ''_setup_util.py'')) (\<lambda>_.
       sbind (write_configured t (path_join develspace ''env.sh'') ''env.sh.in'' [(''SETUP_FILENAME'', ''setup'')]) (\<lambda>_.
       sbind (chmod_rwx (path_join develspace ''env.sh'')) (\<lambda>_.
       sfoldl (\<lambda>_ shell. write_configured t (path_join develspace (''setup.'' @ shell)) (''setup.'' @ shell @ ''.in'')
         [(''SETUP_DIR'', develspace)]) () setup_names))))))"

definition devel_files :: "host \<Rightarrow> catkin_pkg \<Rightarrow> bool \<Rightarrow> string \<Rightarrow> loop_vars \<Rightarrow> (build_state, unit) act" where
  "devel_files h t merge develspace v = (case v of (build_packages, _, dev) \<Rightarrow>
     sbind (path_exists develspace) (\<lambda>there.
     sbind (if there then sret () else os_makedirs develspace) (\<lambda>_.
       if build_packages \<noteq> [] then sret ()
       else (case dev of
         Some d \<Rightarrow> if d = [] then empty_devel_files h t develspace
           else if merge then sret () else relay_files develspace d
       | None \<Rightarrow> empty_devel_files h t develspace))))"

definition build_workspace_isolated ::
  "host \<Rightarrow> catkin_pkg \<Rightarrow> (string set \<Rightarrow> string list \<Rightarrow> nat) \<Rightarrow> workspace_call \<Rightarrow> (build_state, unit) act" where
  "build_workspace_isolated h t pop c =
     sbind (check_spaces h t c) (\<lambda>(sourcespace, buildspace, develspace, installspace).
     sbind (slift (with_generator c)) (\<lambda>cmake_args.
     sbind (sgets (\<lambda>w. find_packages t (disk w) sourcespace)) (\<lambda>packages.
     sbind (slift (select_packages pop c packages)) (\<lambda>packages.
     sbind (slift (check_order False (topological_order_packages t packages))) (\<lambda>ordered.
     sbind (decide_force_cmake (w_force_cmake c) packages buildspace (args_with_spaces cmake_args develspace installspace)) (\<lambda>force.
     sbind (smodify (\<lambda>w. w\<lparr>disk := ensure_workspace_marker t (abspath (process_cwd h) (w_workspace c)) (disk w)\<rparr>)) (\<lambda>_.
     sbind (build_packages_in_order h t c
       \<lparr>b_buildspace = buildspace, b_develspace = develspace, b_installspace = installspace, b_install = w_install c,
        b_force_cmake = force, b_quiet = w_quiet c, b_last_env = None, b_cmake_args = cmake_args, b_make_args = w_make_args c,
        b_destdir = w_destdir c, b_use_ninja = w_use_ninja c\<rparr> (map snd ordered)) (\<lambda>v.
     devel_files h t (w_merge c) develspace v))))))))"

end
