(* ===== verification/Catkin_Builds.thy ===== *)
theory Catkin_Builds
  imports Catkin_Workspace
begin

text \<open>
  What \<open>catkin_make_isolated\<close> does: the packages it builds, in which order and in which environment,
  the commands it runs for them, what it remembers of the input of cmake, and what happens when cmake
  fails or the packages cannot be ordered.
\<close>

section \<open>The commands that are run\<close>

text \<open>An action that only appends commands with a property to the list of commands.\<close>

definition appends :: "(command \<Rightarrow> bool) \<Rightarrow> build_state \<Rightarrow> build_state \<Rightarrow> bool" where
  "appends ok w w' \<longleftrightarrow> (\<exists>cs. ran w' = ran w @ cs \<and> list_all ok cs)"

definition logs :: "(command \<Rightarrow> bool) \<Rightarrow> (build_state, 'a) act \<Rightarrow> bool" where
  "logs ok m \<longleftrightarrow> (\<forall>w. appends ok w (snd (m w)))"

named_theorems log_intros "the actions that only run commands with a property"

lemma appends_same: "ran w' = ran w \<Longrightarrow> appends ok w w'"
  by (simp add: appends_def)

lemma appends_trans: "appends ok u v \<Longrightarrow> appends ok v w \<Longrightarrow> appends ok u w"
  unfolding appends_def by (metis append.assoc list_all_append)

lemma logsD: "logs ok m \<Longrightarrow> appends ok w (snd (m w))"
  by (simp add: logs_def)

lemma logs_silent: "(\<And>w. ran (snd (m w)) = ran w) \<Longrightarrow> logs ok m"
  by (simp add: logs_def appends_same)

lemma logs_weaken: "logs ok m \<Longrightarrow> (\<And>c. ok c \<Longrightarrow> ok' c) \<Longrightarrow> logs ok' m"
  unfolding logs_def appends_def by (metis (mono_tags, lifting) list.pred_mono_strong)

lemma logs_pure [log_intros]:
  "logs ok (sret x)" "logs ok (sraise e)" "logs ok (sgets f)" "logs ok (slift r)"
  by (rule logs_silent, simp)+

lemma logs_modify: "(\<And>w. ran (f w) = ran w) \<Longrightarrow> logs ok (smodify f)"
  by (auto intro!: logs_silent)

lemma logs_sbind_result:
  assumes "logs ok m" and "\<And>w x w'. m w = (Inr x, w') \<Longrightarrow> logs ok (f x)" shows "logs ok (sbind m f)"
  unfolding logs_def
proof
  fix w
  have m: "appends ok w (snd (m w))" by (rule logsD [OF assms(1)])
  show "appends ok w (snd (sbind m f w))"
  proof (cases "m w")
    case (Pair r w')
    show ?thesis
    proof (cases r)
      case (Inl e)
      then show ?thesis using m Pair by (simp add: sbind_def)
    next
      case (Inr x)
      have "appends ok w' (snd (f x w'))" by (rule logsD [OF assms(2) [of w x w']]) (simp add: Pair Inr)
      then show ?thesis using m Pair Inr appends_trans [of ok w w'] by (simp add: sbind_def)
    qed
  qed
qed

lemma logs_sbind [log_intros]: "logs ok m \<Longrightarrow> (\<And>x. logs ok (f x)) \<Longrightarrow> logs ok (sbind m f)"
  by (erule logs_sbind_result) simp

lemma logs_if [log_intros]: "(b \<Longrightarrow> logs ok m) \<Longrightarrow> (\<not> b \<Longrightarrow> logs ok m') \<Longrightarrow> logs ok (if b then m else m')"
  by simp

lemma logs_sfoldl [log_intros]: "(\<And>acc x. x \<in> set xs \<Longrightarrow> logs ok (f acc x)) \<Longrightarrow> logs ok (sfoldl f acc xs)"
proof (induction xs arbitrary: acc)
  case (Cons x xs)
  then show ?case unfolding sfoldl.simps by (auto intro!: log_intros)
qed (simp add: logs_pure)

lemma logs_run_command [log_intros]:
  "ok \<lparr>argv = cmd, run_cwd = cwd, run_env = env\<rparr> \<Longrightarrow> logs ok (run_command h cmd cwd quiet colorize env)"
  by (auto simp: logs_def appends_def run_command_def Let_def split: option.splits)

lemma logs_run_command_colorized [log_intros]:
  "ok \<lparr>argv = cmd, run_cwd = cwd, run_env = env\<rparr> \<Longrightarrow> logs ok (run_command_colorized h cmd cwd quiet env)"
  by (auto simp: run_command_colorized_def intro!: log_intros)

text \<open>The operations on the disk run nothing.\<close>

lemma logs_disk [log_intros]:
  "logs ok (path_exists p)" "logs ok (os_mkdir p)" "logs ok (os_makedirs p)" "logs ok (write_text_file p s)"
  "logs ok (chmod_rwx p)" "logs ok (os_remove p)" "logs ok (read_file p)"
  by (auto intro!: logs_silent simp: path_exists_def os_mkdir_def os_makedirs_def write_text_file_def chmod_rwx_def
      os_remove_def read_file_def split: option.splits entry.splits)

lemma on_error_cases:
  "on_called_process_error m m' w = m w \<or>
     (\<exists>rc cmd w'. m w = (Inl (CalledProcessError rc cmd), w') \<and>
        on_called_process_error m m' w = sbind m' (\<lambda>_. sraise (CalledProcessError rc cmd)) w')"
  by (auto simp: on_called_process_error_def split: prod.splits sum.splits py_error.splits)

lemma logs_on_error [log_intros]:
  assumes "logs ok m" and "logs ok m'" shows "logs ok (on_called_process_error m m')"
  unfolding logs_def
proof
  fix w
  have m: "appends ok w (snd (m w))" by (rule logsD [OF assms(1)])
  have handler: "appends ok w' (snd (sbind m' (\<lambda>_. sraise e) w'))" for e :: py_error and w'
    by (rule logsD) (intro log_intros assms(2))
  show "appends ok w (snd (on_called_process_error m m' w))"
    using on_error_cases [of m m' w] m appends_trans handler by fastforce
qed

lemma to_exit_state: "snd (to_exit m w) = snd (m w)"
  by (simp add: to_exit_def split: prod.splits sum.splits py_error.splits)

lemma logs_to_exit [log_intros]: "logs ok m \<Longrightarrow> logs ok (to_exit m)"
  by (simp add: logs_def to_exit_state)

text \<open>A command that is run for a package: cmake or the tool that builds, with the environment of the
  previous package in front, in the build directory of the package. Two kinds of commands are run
  without that environment: the question whether a catkin package that is installed has an install target, in
  the same directory, and those that ask for the architecture when the files of a plain cmake package are written.\<close>

definition build_dir_of :: "package \<Rightarrow> build_call \<Rightarrow> string" where
  "build_dir_of p b = path_join (b_buildspace b) (if get_build_type p = ''catkin'' then pkg_name p
     else pkg_name p @ (if b_install b then ''/install'' else ''/devel''))"

abbreviation build_tool :: "build_call \<Rightarrow> string" where
  "build_tool b \<equiv> if b_use_ninja b then ''ninja'' else ''make''"

definition targets_query :: "build_call \<Rightarrow> string list" where
  "targets_query b = (if b_use_ninja b then [''ninja'', ''-t'', ''targets''] else [''make'', ''-pn''])"

definition package_command :: "package \<Rightarrow> build_call \<Rightarrow> command \<Rightarrow> bool" where
  "package_command package b cmd \<longleftrightarrow>
     (run_cwd cmd = build_dir_of package b \<and>
       ((\<exists>tool args. tool \<in> {''cmake'', build_tool b} \<and> argv cmd = in_env (b_last_env b) (tool # args)) \<or>
        (get_build_type package = ''catkin'' \<and> b_install b \<and> argv cmd = targets_query b))) \<or>
     (get_build_type package = ''cmake'' \<and> argv cmd \<in> {gcc_query, dpkg_query})"

lemma check_build_dir_result: "check_build_dir name base w = (Inr x, w') \<Longrightarrow> x = path_join base name"
  by (auto simp: check_build_dir_def Let_def sbind_eq_Inr)

lemma logs_check_build_dir [log_intros]: "logs ok (check_build_dir name base)"
  by (auto simp: check_build_dir_def Let_def intro!: log_intros)

lemma logs_build_dir:
  assumes "\<And>x. x = path_join base name \<Longrightarrow> logs ok (f x)" shows "logs ok (sbind (check_build_dir name base) f)"
  by (rule logs_sbind_result) (auto intro: log_intros assms dest: check_build_dir_result)

text \<open>The steps run commands of the package if they are given its build directory.\<close>

lemma package_commandI:
  assumes "tool = ''cmake'' \<or> tool = build_tool b"
    and "cmd = in_env (b_last_env b) (tool # args)"
    and "cwd = build_dir_of package b"
  shows "package_command package b \<lparr>argv = cmd, run_cwd = cwd, run_env = env\<rparr>"
  unfolding package_command_def using assms by (intro disjI1 conjI disjI1 exI [of _ tool] exI [of _ args]) auto

lemma logs_make_step:
  "cwd = build_dir_of p b \<Longrightarrow>
     logs (package_command p b) (make_step h False b cwd env)"
  unfolding make_step_def make_executable_def
  by (rule logs_sbind [OF logs_run_command logs_pure(1)]) (rule package_commandI [where tool = "build_tool b" and
      args = "handle_make_arguments (environ h) (cpu_count h) (b_make_args b)"]; simp)

lemma logs_make_install_step:
  "cwd = build_dir_of p b \<Longrightarrow>
     logs (package_command p b) (make_install_step h False b cwd)"
  unfolding make_install_step_def make_executable_def
  by (rule logs_sbind [OF logs_run_command logs_pure(1)]) (rule package_commandI [where tool = "build_tool b" and args = "[''install'']"]; simp)

lemma logs_has_make_target:
  assumes "cwd = build_dir_of p b" "get_build_type p = ''catkin''" "b_install b"
  shows "logs (package_command p b) (has_make_target h cwd target (b_use_ninja b))"
  unfolding has_make_target_def Let_def
  by (rule logs_sbind [OF logs_run_command logs_pure(1)]) (simp add: assms package_command_def targets_query_def)

lemma logs_get_multiarch:
  assumes "get_build_type p = ''cmake''" shows "logs (package_command p b) (get_multiarch h)"
proof -
  have "logs (package_command p b) (run_query h cmd)" if "cmd \<in> {gcc_query, dpkg_query}" for cmd
    using that assms by (auto simp: logs_def appends_def run_query_def package_command_def split: option.splits)
  then show ?thesis unfolding get_multiarch_def by (auto intro!: log_intros split: prod.splits)
qed

lemma logs_configure_step:
  assumes "cwd = build_dir_of p b" and "logs (package_command p b) cmake"
  shows "logs (package_command p b) (configure_step h False b cwd env cmake)"
  unfolding configure_step_def make_check_cmake_cmd_def
  by (intro log_intros assms(2), rule package_commandI
      [where tool = "build_tool b" and
        args = "if b_use_ninja b then [''build.ninja''] else [''cmake_check_build_system'']"])
    (simp_all add: assms(1))

lemma logs_cmake_source [log_intros]: "logs ok (cmake_source t p build_dir)"
  by (auto simp: cmake_source_def Let_def intro!: log_intros)

lemma logs_catkin_cmake:
  assumes "cwd = build_dir_of p b"
  shows "logs (package_command p b) (catkin_cmake h t p b cwd env)"
  unfolding catkin_cmake_def catkin_cmake_cmd_def remove_makefile_def append_Cons
  by (intro log_intros, rule package_commandI [where tool = "''cmake''"]) (auto simp: assms)

lemma logs_build_catkin_package:
  assumes "get_build_type p = ''catkin''"
  shows "logs (package_command p b) (build_catkin_package h t False p b)"
  unfolding build_catkin_package_def Let_def
  by (rule logs_build_dir) (intro log_intros logs_configure_step logs_catkin_cmake logs_make_step logs_has_make_target
      logs_make_install_step; simp add: assms build_dir_of_def)

lemma logs_env_sh [log_intros]: "logs ok (write_env_sh b)"
  by (auto simp: write_env_sh_def Let_def intro!: log_intros)

lemma logs_setup_sh: "get_build_type p = ''cmake'' \<Longrightarrow> logs (package_command p b) (write_setup_sh h b)"
  unfolding write_setup_sh_def write_setup_shell_def Let_def
  by (intro log_intros logs_get_multiarch)

lemma logs_build_cmake_package:
  assumes "get_build_type p = ''cmake''"
  shows "logs (package_command p b) (build_cmake_package h False p b)"
  unfolding build_cmake_package_def cmake_cmake_cmd_def append_Cons
  by (rule logs_build_dir, intro log_intros logs_configure_step logs_make_step logs_make_install_step logs_setup_sh)
    (auto simp: assms build_dir_of_def intro!: package_commandI [where tool = "''cmake''"])

lemma package_command_make_args: "package_command p (b\<lparr>b_make_args := args\<rparr>) = package_command p b"
  by (rule ext) (simp add: package_command_def build_dir_of_def targets_query_def)

lemma logs_build_package: "logs (package_command p b) (build_package h t p b catkin_make_args)"
proof -
  have "logs (package_command p b) (build_catkin_package h t False p (b\<lparr>b_make_args := args\<rparr>))"
    if "get_build_type p = ''catkin''" for args
    using logs_build_catkin_package [OF that, of "b\<lparr>b_make_args := args\<rparr>"] by (simp add: package_command_make_args)
  then show ?thesis
    unfolding build_package_def Let_def by (intro log_intros logs_build_cmake_package) auto
qed

section \<open>The packages that are built\<close>

text \<open>The specification: every package of the order has the call that it would be built with, its devel
  space and the environment of the package before it, whether that one is built or not; the calls
  that are made are those of the selected packages, or all from the first selected one on.\<close>

definition package_call :: "workspace_call \<Rightarrow> build_call \<Rightarrow> package \<Rightarrow> string option \<Rightarrow> build_call" where
  "package_call c b p env = b\<lparr>b_develspace := package_develspace (w_merge c) (b_develspace b) p, b_last_env := env\<rparr>"

definition env_after :: "workspace_call \<Rightarrow> build_call \<Rightarrow> package \<Rightarrow> string option" where
  "env_after c b p = get_new_env p (package_call c b p None)"

definition calls_in_order :: "workspace_call \<Rightarrow> build_call \<Rightarrow> string option \<Rightarrow> package list \<Rightarrow> (package \<times> build_call) list" where
  "calls_in_order c b env ordered =
     map (\<lambda>(p, env). (p, package_call c b p env)) (zip ordered (env # map (env_after c b) ordered))"

definition selected_calls :: "bool \<Rightarrow> string list \<Rightarrow> (package \<times> build_call) list \<Rightarrow> (package \<times> build_call) list" where
  "selected_calls continue build_packages calls =
     (if continue then dropWhile (\<lambda>(p, b). \<not> is_selected build_packages p) calls
      else filter (\<lambda>(p, b). is_selected build_packages p) calls)"

definition build_plan :: "workspace_call \<Rightarrow> build_call \<Rightarrow> package list \<Rightarrow> (package \<times> build_call) list" where
  "build_plan c b ordered = selected_calls (w_continue_from_pkg c) (w_build_packages c) (calls_in_order c b None ordered)"

definition run_plan :: "host \<Rightarrow> catkin_pkg \<Rightarrow> workspace_call \<Rightarrow> (package \<times> build_call) list \<Rightarrow> (build_state, unit) act" where
  "run_plan h t c plan =
     sfoldl (\<lambda>_ (p, b). sbind (to_exit (build_package h t p b (w_catkin_make_args c))) (\<lambda>_. sret ())) () plan"

lemma get_new_env_call [simp]: "get_new_env p (b\<lparr>b_last_env := env\<rparr>) = get_new_env p b"
  by (simp add: get_new_env_def Let_def)

lemma env_after_call: "get_new_env p (package_call c b p env) = env_after c b p"
  by (simp add: env_after_def package_call_def get_new_env_def Let_def)

lemma build_package_env: "build_package h t p b args w = (Inr env, w') \<Longrightarrow> env = get_new_env p b"
  by (auto simp: build_package_def Let_def sbind_eq_Inr split: if_splits)

lemma to_exit_Inr: "to_exit m w = (Inr x, w') \<longleftrightarrow> m w = (Inr x, w')"
  by (auto simp: to_exit_def split: prod.splits sum.splits py_error.splits)

lemma calls_in_order_Cons:
  "calls_in_order c b env (p # ps) = (p, package_call c b p env) # calls_in_order c b (env_after c b p) ps"
  by (simp add: calls_in_order_def)

lemma selected_all: "selected_calls continue [] calls = calls"
proof -
  have "dropWhile (\<lambda>(p, b). \<not> is_selected [] p) calls = calls"
    by (cases calls) (auto simp: is_selected_def)
  then show ?thesis by (simp add: selected_calls_def) (auto simp: is_selected_def filter_id_conv)
qed

text \<open>The list of the packages to build after a package.\<close>

definition names_after :: "bool \<Rightarrow> string list \<Rightarrow> package \<Rightarrow> string list" where
  "names_after continue names p = (if continue \<and> pkg_name p \<in> set names then [] else names)"

lemma selected_calls_Cons:
  "selected_calls continue names ((p, b) # calls) =
     (if is_selected names p then (p, b) # selected_calls continue (names_after continue names p) calls
      else selected_calls continue names calls)"
proof (cases "continue \<and> is_selected names p")
  case True
  then have "selected_calls continue (names_after continue names p) calls = calls"
    by (auto simp: names_after_def is_selected_def selected_all)
  then show ?thesis using True by (simp add: selected_calls_def)
qed (auto simp: selected_calls_def names_after_def)

lemma build_round_eq:
  "build_round h t c b (names, env, dev) p =
     (let call = package_call c b p env; d = package_develspace (w_merge c) (b_develspace b) p in
      if is_selected names p then
        sbind (to_exit (build_package h t p call (w_catkin_make_args c))) (\<lambda>env.
          sret (names_after (w_continue_from_pkg c) names p, env, Some d))
      else sret (names, env_after c b p, Some d))"
  using env_after_call [of p c b env]
  by (simp add: build_round_def package_call_def names_after_def Let_def)

lemma rounds_refine_plan:
  "sbind (sfoldl (build_round h t c b) (names, env, dev) ordered) (\<lambda>_. sret ()) w =
     run_plan h t c (selected_calls (w_continue_from_pkg c) names (calls_in_order c b env ordered)) w"
proof (induction ordered arbitrary: names env dev w)
  case Nil
  then show ?case by (simp add: calls_in_order_def selected_calls_def run_plan_def sbind_def)
next
  case (Cons p ps)
  let ?call = "package_call c b p env"
  show ?case
  proof (cases "is_selected names p")
    case False
    then show ?thesis
      using Cons.IH by (simp add: calls_in_order_Cons selected_calls_Cons build_round_eq Let_def)
  next
    case True
    show ?thesis
    proof (cases "to_exit (build_package h t p ?call (w_catkin_make_args c)) w")
      case (Pair r w')
      show ?thesis
      proof (cases r)
        case (Inl e)
        then show ?thesis
          using True Pair by (simp add: calls_in_order_Cons selected_calls_Cons build_round_eq Let_def run_plan_def sbind_def)
      next
        case (Inr env')
        then have "env' = env_after c b p"
          using Pair build_package_env env_after_call by (simp add: to_exit_Inr) metis
        then show ?thesis
          using True Pair Inr Cons.IH
          by (simp add: calls_in_order_Cons selected_calls_Cons build_round_eq Let_def run_plan_def sbind_def)
      qed
    qed
  qed
qed

text \<open>C31: the loop over the packages in topological order is the run of the plan: it builds the
  selected packages, or all from the first selected one on, one after the other in that order until
  one fails, and every one in the environment that the package before it in the order has, be that
  one built or skipped.\<close>

theorem build_runs_plan:
  "sbind (build_packages_in_order h t c b ordered) (\<lambda>_. sret ()) w = run_plan h t c (build_plan c b ordered) w"
  unfolding build_packages_in_order_def build_plan_def by (rule rounds_refine_plan)

section \<open>Nothing runs before the checks\<close>

lemma state_sbind_sret: "snd (sbind m (\<lambda>_. sret ()) w) = snd (m w)"
  by (auto simp: sbind_def split: prod.splits sum.splits)

lemma logs_run_plan: "logs (\<lambda>cmd. \<exists>(p, b) \<in> set plan. package_command p b cmd) (run_plan h t c plan)"
  unfolding run_plan_def
proof (intro log_intros, clarify, intro log_intros)
  fix p b assume "(p, b) \<in> set plan"
  then show "logs (\<lambda>cmd. \<exists>(p, b) \<in> set plan. package_command p b cmd) (build_package h t p b (w_catkin_make_args c))"
    by (intro logs_weaken [OF logs_build_package]) auto
qed

lemma logs_build_packages_in_order:
  "logs (\<lambda>cmd. \<exists>(p, b) \<in> set (build_plan c b ordered). package_command p b cmd) (build_packages_in_order h t c b ordered)"
proof -
  have "snd (build_packages_in_order h t c b ordered w) = snd (run_plan h t c (build_plan c b ordered) w)" for w
    using rounds_refine_plan state_sbind_sret unfolding build_packages_in_order_def build_plan_def by metis
  then show ?thesis using logs_run_plan unfolding logs_def by simp
qed

lemma logs_check_spaces: "logs ok (check_spaces h t c)"
  by (auto simp: check_spaces_def check_tool_def Let_def intro!: log_intros logs_modify)

lemma logs_decide_force_cmake: "logs ok (decide_force_cmake force packages space args)"
  by (auto simp: decide_force_cmake_def cmake_input_changed_def Let_def intro!: log_intros)

lemma logs_devel_files: "logs ok (devel_files h t merge devel v)"
  by (auto simp: devel_files_def relay_files_def empty_devel_files_def write_configured_def
      split: prod.split option.split intro!: log_intros)

lemma check_order_Inr:
  "check_order unknown order = Inr ps \<longleftrightarrow> \<not> unknown \<and> order = map (\<lambda>(path, p). (Some path, p)) ps \<and>
     list_all (\<lambda>(path, p). get_build_type p \<in> {''catkin'', ''cmake''}) ps"
proof (induction unknown order arbitrary: ps rule: check_order.induct)
  case (3 unknown path package rest)
  show ?case
    by (cases ps) (simp_all only: check_order.simps rbind_eq_Inr 3, auto)
qed (auto split: if_splits)

definition selection :: "workspace_call \<Rightarrow> (string \<times> package) list \<Rightarrow> (string \<times> package) list" where
  "selection c packages = (if w_only_pkg_with_deps c = [] then packages
     else filter (\<lambda>(path, p). \<exists>n \<in> set (w_only_pkg_with_deps c). needs packages n (pkg_name p)) packages)"

lemma unknown_names_Nil: "unknown_names names packages = [] \<longleftrightarrow> set names \<subseteq> package_names packages"
  by (auto simp: unknown_names_def package_names_def filter_empty_conv)

lemma select_packages_Inr:
  assumes "select_packages pop c packages = Inr ps"
  shows "ps = selection c packages \<and> set (w_only_pkg_with_deps c) \<subseteq> package_names packages \<and>
    set (w_build_packages c) \<subseteq> package_names ps"
proof -
  have closure: "dependencies_loop pop packages {} (remdups names) = {m. \<exists>n \<in> set names. needs packages n m}" for names
    by (subst dependencies_loop_needs) (auto simp: loop_closed_def)
  then show ?thesis
    using assms by (auto simp: select_packages_def selection_def Let_def rbind_eq_Inr unknown_names_Nil closure
        get_package_names_with_recursive_dependencies_def split: if_splits)
qed

text \<open>What the checks establish before the loop: the names that were given exist, the order of the
  selected packages has no circle, and every package is of a known type.\<close>

definition checked_order :: "catkin_pkg \<Rightarrow> workspace_call \<Rightarrow> (string \<times> package) list \<Rightarrow> (string \<times> package) list \<Rightarrow> bool" where
  "checked_order t c packages ordered \<longleftrightarrow>
     set (w_only_pkg_with_deps c) \<subseteq> package_names packages \<and>
     set (w_build_packages c) \<subseteq> package_names (selection c packages) \<and>
     topological_order_packages t (selection c packages) = map (\<lambda>(path, p). (Some path, p)) ordered \<and>
     list_all (\<lambda>(path, p). get_build_type p \<in> {''catkin'', ''cmake''}) ordered"

definition workspace_command :: "catkin_pkg \<Rightarrow> workspace_call \<Rightarrow> command \<Rightarrow> bool" where
  "workspace_command t c cmd \<longleftrightarrow>
     (\<exists>d source ordered b p b'. checked_order t c (find_packages t d source) ordered \<and> b_use_ninja b = w_use_ninja c \<and>
        b_install b = w_install c \<and> (p, b') \<in> set (build_plan c b (map snd ordered)) \<and> package_command p b' cmd)"

lemma slift_Inr: "slift r w = (Inr x, w') \<longleftrightarrow> r = Inr x \<and> w' = w"
  by auto

lemma logs_build_workspace: "logs (workspace_command t c) (build_workspace_isolated h t pop c)"
  unfolding build_workspace_isolated_def
proof (rule logs_sbind [OF logs_check_spaces], clarify, rule logs_sbind [OF logs_pure(4)], rule logs_sbind_result [OF logs_pure(3)],
    rule logs_sbind_result [OF logs_pure(4)], rule logs_sbind_result [OF logs_pure(4)],
    rule logs_sbind [OF logs_decide_force_cmake], rule logs_sbind [OF logs_modify], goal_cases)
  case (2 source build devel inst cmake_args w1 packages w1' w2 selected w2' w3 ordered w3' force u)
  let ?b = "\<lparr>b_buildspace = build, b_develspace = devel, b_installspace = inst, b_install = w_install c,
        b_force_cmake = force, b_quiet = w_quiet c, b_last_env = None, b_cmake_args = cmake_args, b_make_args = w_make_args c,
        b_destdir = w_destdir c, b_use_ninja = w_use_ninja c\<rparr>"
  have sel: "select_packages pop c packages = Inr selected" "check_order False (topological_order_packages t selected) = Inr ordered"
    and packages: "packages = find_packages t (disk w1) source" using 2 by auto
  have "checked_order t c packages ordered"
    using select_packages_Inr [OF sel(1)] sel(2) unfolding checked_order_def by (auto simp: check_order_Inr)
  then have "workspace_command t c cmd" if "\<exists>(p, b) \<in> set (build_plan c ?b (map snd ordered)). package_command p b cmd" for cmd
    using that packages unfolding workspace_command_def
    by (intro exI [of _ "disk w1"] exI [of _ source] exI [of _ ordered] exI [of _ ?b]) auto
  then show ?case
    by (intro logs_sbind logs_weaken [OF logs_build_packages_in_order] logs_devel_files)
qed simp

text \<open>C30: whatever the commands and the functions of catkin_pkg do, \<open>catkin_make_isolated\<close> runs a command
  only after all checks have passed: the packages that were named are in the workspace, the selected
  ones can be ordered and have a known type. Every command is one for a package of the plan: cmake,
  or ninja if it was asked for and else make, never nmake, in the build directory of the package and
  in the environment of the package before it. Run without that environment are only the question for the targets
  of a catkin package that is installed, and \<open>gcc\<close> and \<open>dpkg-architecture\<close>, which are asked for the
  architecture when the files of a plain cmake package are written.\<close>

theorem workspace_runs_planned_commands:
  "\<exists>cs. ran (snd (build_workspace_isolated h t pop c w)) = ran w @ cs \<and> set cs \<subseteq> {cmd. workspace_command t c cmd}"
  using logsD [OF logs_build_workspace, of t c w h pop] by (auto simp: appends_def list_all_iff)

section \<open>What is remembered of the input of cmake\<close>

text \<open>A text that is read back as it was written: one line, without white space at its end.\<close>

definition one_line :: "string \<Rightarrow> bool" where
  "one_line s \<longleftrightarrow> newline \<notin> set s \<and> CHR 0x0D \<notin> set s \<and> rstrip s = s"

lemma universal_newlines_same: "CHR 0x0D \<notin> set s \<Longrightarrow> universal_newlines s = s"
  by (induction s rule: universal_newlines.induct) auto

lemma first_line_append: "newline \<notin> set s \<Longrightarrow> first_line (s @ newline # u) = s"
  by (induction s) (auto simp: first_line_def)

lemma first_line_same: "newline \<notin> set s \<Longrightarrow> first_line s = s"
  by (induction s) (auto simp: first_line_def)

lemma after_line_append: "newline \<notin> set s \<Longrightarrow> after_line (s @ newline # u) = u"
  by (simp add: after_line_def first_line_append)

lemma input_changed_stored:
  assumes "one_line paths" and "one_line args"
  shows "input_changed paths' args' (universal_newlines (paths @ [newline] @ args)) \<longleftrightarrow> paths' \<noteq> paths \<or> args' \<noteq> args"
proof -
  have "universal_newlines (paths @ newline # args) = paths @ newline # args"
    using assms by (intro universal_newlines_same) (auto simp: one_line_def)
  then show ?thesis
    using assms by (simp add: input_changed_def one_line_def first_line_append first_line_same after_line_append)
qed

lemma write_text_file_stored:
  "write_text_file p s w = (Inr u, w') \<Longrightarrow> \<exists>x. disk w' p = Some (Regular s x)"
  by (auto simp: write_text_file_def split: if_splits)

lemma cmake_input_stored:
  assumes "cmake_input_changed packages build args filename w = (Inr r, w')"
  shows "\<exists>x. disk w' (cache_file build filename) = Some (Regular (package_paths_of packages @ [newline] @ py_join '' '' args) x)"
  using assms unfolding cmake_input_changed_def Let_def sbind_eq_Inr
  by (auto dest!: write_text_file_stored)

lemma cmake_input_compared:
  assumes "disk w f = Some (Regular (paths @ [newline] @ py_join '' '' args) x)" and "f = cache_file build filename"
    and "parent_there (disk w) f" and "one_line paths" and "one_line (py_join '' '' args)"
  shows "fst (cmake_input_changed packages build args' filename w) =
    Inr (package_paths_of packages \<noteq> paths \<or> py_join '' '' args' \<noteq> py_join '' '' args)"
proof -
  have "read_file f w = (Inr (universal_newlines (paths @ [newline] @ py_join '' '' args)), w)"
    using assms(1) by (simp add: read_file_def)
  moreover obtain w' where "write_text_file f (package_paths_of packages @ [newline] @ py_join '' '' args') w = (Inr (), w')"
    using assms(1,3) by (simp add: write_text_file_def)
  moreover have "path_exists f w = (Inr True, w)" using assms(1) by (simp add: path_exists_def exists_on_def)
  ultimately show ?thesis
    using input_changed_stored [OF assms(4,5)] assms(2)
    unfolding cmake_input_changed_def Let_def by (auto simp: sbind_def)
qed

text \<open>C33: the file keeps the input of the last build that was not forced: after such a build and
  whatever else happens that leaves the file alone, builds that are forced included, the next build
  that is not forced forces cmake exactly if the paths of the packages or the joined arguments differ
  from what they were in that build. A forced build neither reads nor writes the file.\<close>

theorem force_compares_last_unforced_input:
  assumes "decide_force_cmake False packages1 build args1 w = (Inr r, w1)"
    and "disk w2 (cache_file build ''catkin_make_isolated'') = disk w1 (cache_file build ''catkin_make_isolated'')"
    and "parent_there (disk w2) (cache_file build ''catkin_make_isolated'')"
    and "one_line (package_paths_of packages1)" and "one_line (py_join '' '' args1)"
  shows "fst (decide_force_cmake False packages2 build args2 w2) =
      Inr (package_paths_of packages2 \<noteq> package_paths_of packages1 \<or> py_join '' '' args2 \<noteq> py_join '' '' args1) \<and>
    decide_force_cmake True packages2 build args2 w2 = (Inr True, w2)"
proof -
  obtain x where "disk w2 (cache_file build ''catkin_make_isolated'') =
      Some (Regular (package_paths_of packages1 @ [newline] @ py_join '' '' args1) x)"
    using cmake_input_stored [of packages1 build args1 _ w r w1] assms(1,2) by (auto simp: decide_force_cmake_def)
  from cmake_input_compared [OF this refl assms(3-5)] show ?thesis
    by (simp add: decide_force_cmake_def)
qed

definition demo_disk :: disk where
  "demo_disk = Map.empty(''/'' \<mapsto> Directory, ''/w'' \<mapsto> Directory, ''/w/src'' \<mapsto> Directory, ''/w/build_isolated'' \<mapsto> Directory,
     ''/w/src/a/CMakeLists.txt'' \<mapsto> Regular [] False, ''/w/src/b/CMakeLists.txt'' \<mapsto> Regular [] False)"

theorem force_compares_last_unforced_input_witness:
  "\<exists>r w1. decide_force_cmake False [] ''/w/build_isolated'' [''-DX=1''] \<lparr>disk = demo_disk, ran = []\<rparr> = (Inr r, w1) \<and>
     fst (decide_force_cmake False [] ''/w/build_isolated'' [''-DX=2''] w1) = Inr True"
proof -
  let ?f = "cache_file ''/w/build_isolated'' ''catkin_make_isolated''"
  let ?w1 = "\<lparr>disk = demo_disk(?f \<mapsto> Regular ([newline] @ ''-DX=1'') False), ran = []\<rparr>"
  have run: "decide_force_cmake False [] ''/w/build_isolated'' [''-DX=1''] \<lparr>disk = demo_disk, ran = []\<rparr> = (Inr True, ?w1)"
    by (simp add: decide_force_cmake_def cmake_input_changed_def Let_def path_exists_def exists_on_def write_text_file_def
        package_paths_of_def parent_there_def cache_file_def demo_disk_def path_join_def startswith_def endswith_def
        path_dirname_def slice_to_def slice_idx_def py_rfind_def sbind_def)
  have there: "parent_there (disk ?w1) ?f" "one_line (package_paths_of [])" "one_line (py_join '' '' [''-DX=1''])"
    by code_simp+
  have "fst (decide_force_cmake False [] ''/w/build_isolated'' [''-DX=2''] ?w1) = Inr True"
    using force_compares_last_unforced_input [OF run refl there, of "[]" "[''-DX=2'']"] by simp
  then show ?thesis using run by blast
qed

section \<open>A failed cmake\<close>

lemma run_command_failed:
  "run_command h cmd cwd quiet colorize env w = (Inl (CalledProcessError rc c), w') \<Longrightarrow> c = cmd"
  by (auto simp: run_command_def Let_def split: option.splits if_splits)

lemma in_env_inj: "in_env e c = in_env e c' \<longleftrightarrow> c = c'"
  by (auto simp: in_env_def split: option.splits)

lemma failed_commands:
  "run_command_colorized h cmd cwd quiet env w = (Inl (CalledProcessError rc c), w') \<Longrightarrow> c = cmd"
  "make_step h nm b cwd env w = (Inl (CalledProcessError rc c), w') \<Longrightarrow>
     c = in_env (b_last_env b) (make_executable (b_use_ninja b) nm # handle_make_arguments (environ h) (cpu_count h) (b_make_args b))"
  "make_install_step h nm b cwd w = (Inl (CalledProcessError rc c), w') \<Longrightarrow>
     c = in_env (b_last_env b) [make_executable (b_use_ninja b) nm, ''install'']"
  "has_make_target h cwd target ninja w = (Inl (CalledProcessError rc c), w') \<Longrightarrow>
     c = (if ninja then [''ninja'', ''-t'', ''targets''] else [''make'', ''-pn''])"
  by (auto simp: run_command_colorized_def make_step_def make_install_step_def has_make_target_def sbind_eq_Inl Let_def
      dest: run_command_failed)

lemma not_cmake:
  "make_executable ninja nm \<noteq> ''cmake''" "hd (make_check_cmake_cmd ninja nm) \<noteq> ''cmake''"
  "make_check_cmake_cmd ninja nm \<noteq> []"
  by (auto simp: make_executable_def make_check_cmake_cmd_def)

lemma removed_makefile:
  "sbind (remove_makefile f) (\<lambda>_. sraise (CalledProcessError rc c)) w = (Inl (CalledProcessError rc' c'), w') \<Longrightarrow>
     disk w' f = None"
  by (auto simp: remove_makefile_def path_exists_def os_remove_def exists_on_def sbind_def split: if_splits)

lemma cmake_source_error: "cmake_source t p build_dir w \<noteq> (Inl (CalledProcessError rc c), w')"
  by (auto simp: cmake_source_def Let_def path_exists_def sbind_def write_text_file_def split: if_splits sum.splits prod.splits)

lemma failed_catkin_cmake:
  assumes "catkin_cmake h t p b build_dir env w = (Inl (CalledProcessError rc c), w')"
  shows "disk w' (path_join build_dir (makefile_name (b_use_ninja b))) = None"
proof -
  obtain dir w1 where "on_called_process_error
      (run_command_colorized h (in_env (b_last_env b) (catkin_cmake_cmd b dir)) build_dir (b_quiet b) env)
      (remove_makefile (path_join build_dir (makefile_name (b_use_ninja b)))) w1 = (Inl (CalledProcessError rc c), w')"
    using assms cmake_source_error by (fastforce simp: catkin_cmake_def sbind_eq_Inl)
  then show ?thesis
    by (auto simp: on_called_process_error_def removed_makefile split: prod.splits sum.splits py_error.splits)
qed

lemma check_build_dir_error: "check_build_dir name base w \<noteq> (Inl (CalledProcessError rc c), w')"
  by (auto simp: check_build_dir_def Let_def path_exists_def os_makedirs_def sbind_def split: if_splits)

text \<open>The command that failed tells whether it was the explicit call of cmake.\<close>

lemma other_commands_not_cmake:
  "in_env e (make_executable ninja nm # args) \<noteq> in_env e (''cmake'' # args')"
  "in_env e (make_check_cmake_cmd ninja nm) \<noteq> in_env e (''cmake'' # args')"
  "in_env e (''cmake'' # args') \<noteq> (if ninja then [''ninja'', ''-t'', ''targets''] else [''make'', ''-pn''])"
  by (auto simp: in_env_inj not_cmake make_executable_def make_check_cmake_cmd_def in_env_def split: option.splits)

lemma configure_failed:
  assumes "configure_step h nm b build_dir env cmake w = (Inl (CalledProcessError rc c), w')"
  shows "(\<exists>w1. cmake w1 = (Inl (CalledProcessError rc c), w')) \<or>
    c = in_env (b_last_env b) (make_check_cmake_cmd (b_use_ninja b) nm)"
  using assms by (auto simp: configure_step_def path_exists_def split: if_splits dest: failed_commands(1))

lemma build_catkin_failed:
  assumes "build_catkin_package h t nm p b w = (Inl (CalledProcessError rc c), w')"
  shows "(\<exists>w1 env. configure_step h nm b (path_join (b_buildspace b) (pkg_name p)) env
      (catkin_cmake h t p b (path_join (b_buildspace b) (pkg_name p)) env) w1 = (Inl (CalledProcessError rc c), w')) \<or>
    (\<exists>args. c = in_env (b_last_env b) (make_executable (b_use_ninja b) nm # args)) \<or>
    c = (if b_use_ninja b then [''ninja'', ''-t'', ''targets''] else [''make'', ''-pn''])"
proof -
  let ?env = "get_additional_environment (b_install b) (b_destdir b) (b_installspace b)"
  from assms consider
      (dir) "check_build_dir (pkg_name p) (b_buildspace b) w = (Inl (CalledProcessError rc c), w')"
    | (conf) d u w1 where "check_build_dir (pkg_name p) (b_buildspace b) w = (Inr d, u)"
        "configure_step h nm b d ?env (catkin_cmake h t p b d ?env) w1 = (Inl (CalledProcessError rc c), w')"
    | (make) d w1 where "make_step h nm b d [] w1 = (Inl (CalledProcessError rc c), w')"
    | (target) d w1 where "has_make_target h d ''install'' (b_use_ninja b) w1 = (Inl (CalledProcessError rc c), w')"
    | (install) d w1 where "make_install_step h nm b d w1 = (Inl (CalledProcessError rc c), w')"
    unfolding build_catkin_package_def Let_def
    by (auto simp: sbind_eq_Inl split: if_split_asm)
  then show ?thesis
  proof cases
    case dir
    then show ?thesis using check_build_dir_error by metis
  next
    case conf
    have "d = path_join (b_buildspace b) (pkg_name p)" by (rule check_build_dir_result [OF conf(1)])
    then show ?thesis using conf(2) by (intro disjI1 exI [of _ w1] exI [of _ ?env]) simp
  next
    case make
    show ?thesis by (intro disjI2 disjI1 exI) (rule failed_commands(2) [OF make])
  next
    case target
    show ?thesis by (intro disjI2) (rule failed_commands(4) [OF target])
  next
    case install
    show ?thesis by (intro disjI2 disjI1 exI) (rule failed_commands(3) [OF install])
  qed
qed

text \<open>C34: if the explicit call of cmake for a catkin package fails, the makefile that may be there is
  removed, so the next build of the package, forced or not, calls cmake explicitly again.\<close>

theorem failed_cmake_is_repeated:
  assumes "build_catkin_package h t nm p b w =
      (Inl (CalledProcessError rc (in_env (b_last_env b) (''cmake'' # args))), w')"
  shows "disk w' (path_join (path_join (b_buildspace b) (pkg_name p)) (makefile_name (b_use_ninja b))) = None \<and>
    configure_step h nm b (path_join (b_buildspace b) (pkg_name p)) env cmake w' = cmake w'"
proof -
  let ?d = "path_join (b_buildspace b) (pkg_name p)"
  let ?e = "CalledProcessError rc (in_env (b_last_env b) (''cmake'' # args))"
  obtain w1 env' w2 where "configure_step h nm b ?d env' (catkin_cmake h t p b ?d env') w1 = (Inl ?e, w')"
    using build_catkin_failed [OF assms] other_commands_not_cmake by metis
  then obtain w2 where "catkin_cmake h t p b ?d env' w2 = (Inl ?e, w')"
    using configure_failed other_commands_not_cmake(2) by metis
  then have "disk w' (path_join ?d (makefile_name (b_use_ninja b))) = None" by (rule failed_catkin_cmake)
  then show ?thesis by (simp add: configure_step_def path_exists_def exists_on_def)
qed

definition demo_package :: "string \<Rightarrow> string list \<Rightarrow> package" where
  "demo_package name deps = \<lparr>pkg_name = name, pkg_filename = ''/w/src/'' @ name @ ''/package.xml'', pkg_exports = [],
     pkg_build_depends = deps, pkg_buildtool_depends = [], pkg_run_depends = [], pkg_test_depends = [], pkg_package_format = 1\<rparr>"

text \<open>Tools of which cmake makes a makefile, or fails, and make the environment file of the package.\<close>

definition demo_launch :: "bool \<Rightarrow> command \<Rightarrow> disk \<Rightarrow> (int \<times> string \<times> disk) option" where
  "demo_launch cmake_works c d =
     (if ''cmake'' \<in> set (argv c) then
        Some (if cmake_works then 0 else 1, [], d(path_join (run_cwd c) ''Makefile'' \<mapsto> Regular [] False))
      else Some (0, [], d(path_join (path_join ''/w/devel_isolated'' (path_basename (run_cwd c))) ''env.sh'' \<mapsto> Regular [] True)))"

definition demo_host :: "bool \<Rightarrow> host" where
  "demo_host cmake_works = \<lparr>environ = Map.empty, cpu_count = Some 2, sys_platform = ''linux'', sys_executable = ''/usr/bin/python3'',
     python_version = (3, 8), process_cwd = ''/w'', launch = demo_launch cmake_works, query = \<lambda>_. Some (0, []),
     fmt = (\<lambda>s. s), ansi = (\<lambda>_. []), sanitize = (\<lambda>s. s)\<rparr>"

definition demo_catkin_pkg :: catkin_pkg where
  "demo_catkin_pkg = \<lparr>metapackage_template = [], configure_file = \<lambda>_ _ _. Some [],
     find_packages = \<lambda>_ _. [(''a'', demo_package ''a'' []), (''b'', demo_package ''b'' [''a'']), (''c'', demo_package ''c'' [])],
     topological_order_packages = map (\<lambda>(path, p). (Some path, p)), get_previous_tool = \<lambda>_ _. None,
     mark_space = \<lambda>s d. d(s \<mapsto> Directory), ensure_workspace_marker = \<lambda>_ d. d, cmake_path = ''/c''\<rparr>"

definition demo_call :: workspace_call where
  "demo_call = \<lparr>w_workspace = ''/w'', w_sourcespace = None, w_buildspace = None, w_develspace = None, w_installspace = None,
     w_merge = False, w_install = False, w_force_cmake = False, w_build_packages = [], w_quiet = False, w_cmake_args = [],
     w_make_args = [], w_catkin_make_args = [], w_continue_from_pkg = False, w_only_pkg_with_deps = [''b''], w_destdir = None,
     w_use_ninja = False, w_use_nmake = True, w_override_build_tool_check = False\<rparr>"

text \<open>A run of the whole program: \<open>--use-nmake\<close> configures for nmake and builds with make.\<close>

lemma demo_run:
  "map (py_join '' '' \<circ> argv) (ran (snd (build_workspace_isolated (demo_host True) demo_catkin_pkg (\<lambda>_ _. 0) demo_call
     \<lparr>disk = demo_disk, ran = []\<rparr>))) =
   [''cmake /w/src/a -DCATKIN_DEVEL_PREFIX=/w/devel_isolated/a -DCMAKE_INSTALL_PREFIX=/w/install_isolated -G NMake Makefiles'',
    ''make -j2 -l2'',
    ''/w/devel_isolated/a/env.sh cmake /w/src/b -DCATKIN_DEVEL_PREFIX=/w/devel_isolated/b -DCMAKE_INSTALL_PREFIX=/w/install_isolated -G NMake Makefiles'',
    ''/w/devel_isolated/a/env.sh make -j2 -l2'']"
  by code_simp

definition demo_build :: build_call where
  "demo_build = \<lparr>b_buildspace = ''/w/build_isolated'', b_develspace = ''/w/devel_isolated/a'', b_installspace = ''/w/install_isolated'',
     b_install = False, b_force_cmake = False, b_quiet = False, b_last_env = None, b_cmake_args = [], b_make_args = [],
     b_destdir = None, b_use_ninja = False\<rparr>"

definition demo_failure :: "unit res \<times> build_state" where
  "demo_failure = build_catkin_package (demo_host False) demo_catkin_pkg False (demo_package ''a'' []) demo_build
     \<lparr>disk = demo_disk, ran = []\<rparr>"

theorem failed_cmake_is_repeated_witness:
  "fst demo_failure \<noteq> Inr () \<and> disk (snd demo_failure) ''/w/build_isolated/a/Makefile'' = None"
proof -
  let ?args = "[''/w/src/a'', ''-DCATKIN_DEVEL_PREFIX=/w/devel_isolated/a'', ''-DCMAKE_INSTALL_PREFIX=/w/install_isolated'']"
  have "fst demo_failure = Inl (CalledProcessError 1 (in_env (b_last_env demo_build) (''cmake'' # ?args)))" by code_simp
  then have run: "build_catkin_package (demo_host False) demo_catkin_pkg False (demo_package ''a'' []) demo_build
      \<lparr>disk = demo_disk, ran = []\<rparr> =
      (Inl (CalledProcessError 1 (in_env (b_last_env demo_build) (''cmake'' # ?args))), snd demo_failure)" and fst: "fst demo_failure \<noteq> Inr ()"
    by (simp_all add: prod_eq_iff demo_failure_def)
  have "path_join (path_join (b_buildspace demo_build) (pkg_name (demo_package ''a'' []))) (makefile_name (b_use_ninja demo_build)) =
      ''/w/build_isolated/a/Makefile''" by code_simp
  then show ?thesis using failed_cmake_is_repeated [OF run] fst by simp
qed

end
