(* ===== verification/Catkin_Environment.thy ===== *)
theory Catkin_Environment
  imports Py_Prelude "HOL-Library.List_Lexorder" "HOL-Library.Char_ord" "HOL-Library.Multiset"
begin

text \<open>
  The cached environment of a catkin workspace, \<open>catkin/environment_cache.py\<close>: a script that is to
  have the effect of another script on the environment, made from a snapshot of the environment before
  and after that one. The two snapshots and the system are arguments.

  The meaning of the script for a POSIX shell is given by an interpreter of its lines, and the property
  says which environment the script leaves.
\<close>

section \<open>The lines of the script\<close>

definition append_comment :: "bool \<Rightarrow> string \<Rightarrow> string" where
  "append_comment windows value = ((if windows then ''REM'' else ''#'') @ '' '' @ value)"

definition append_header :: "bool \<Rightarrow> string list" where
  "append_header windows = [if windows then ''@echo off'' else ''#!/usr/bin/env sh'',
     append_comment windows ''generated from catkin/python/catkin/environment_cache.py'', []]"

definition set_variable :: "bool \<Rightarrow> string \<Rightarrow> string \<Rightarrow> string" where
  "set_variable windows key value =
     (if windows then (''set '' @ key @ ''='' @ value) else (''export '' @ key @ ''='' @ [dquote] @ value @ [dquote]))"

section \<open>The variables\<close>

text \<open>\<open>env_after\<close> is a dictionary in the order of its insertions.\<close>

definition added_variables :: "(string \<rightharpoonup> string) \<Rightarrow> (string \<times> string) list \<Rightarrow> (string \<times> string) list" where
  "added_variables env env_after = filter (\<lambda>(key, value). env key = None) env_after"

definition modified_variables ::
  "(string \<rightharpoonup> string) \<Rightarrow> (string \<times> string) list \<Rightarrow> (string \<times> string \<times> string) list" where
  "modified_variables env env_after = concat (map (\<lambda>(key, value).
     case env key of None \<Rightarrow> [] | Some old \<Rightarrow> if old \<noteq> value then [(key, old, value)] else []) env_after)"

definition modified_value :: "bool \<Rightarrow> string \<Rightarrow> string \<Rightarrow> string \<Rightarrow> string" where
  "modified_value windows key old_value new_value =
     (if endswith new_value ((if windows then '';'' else '':'') @ old_value) then
        let variable = (if windows then (''%'' @ key @ ''%'') else (''$'' @ key))
        in slice_to new_value (- int (length old_value)) @ variable
      else new_value)"

definition generate_environment_script :: "bool \<Rightarrow> (string \<rightharpoonup> string) \<Rightarrow> (string \<times> string) list \<Rightarrow> string list" where
  "generate_environment_script windows env env_after =
     append_header windows @
     [append_comment windows ''based on a snapshot of the environment before and after calling the setup script'',
      append_comment windows ''it emulates the modifications of the setup script without recurring computations'',
      [], append_comment windows ''new environment variables''] @
     map (\<lambda>(key, value). set_variable windows key value) (sort_key fst (added_variables env env_after)) @
     [[], append_comment windows ''modified environment variables''] @
     map (\<lambda>(key, old_value, new_value). set_variable windows key (modified_value windows key old_value new_value))
       (sort_key fst (modified_variables env env_after))"

section \<open>What the shell does with it\<close>

definition is_name_char :: "char \<Rightarrow> bool" where
  "is_name_char c \<longleftrightarrow> is_digit c \<or> c = CHR ''_'' \<or> (CHR ''a'' \<le> c \<and> c \<le> CHR ''z'') \<or> (CHR ''A'' \<le> c \<and> c \<le> CHR ''Z'')"

definition is_shell_name :: "string \<Rightarrow> bool" where
  "is_shell_name k \<longleftrightarrow> k \<noteq> [] \<and> \<not> is_digit (hd k) \<and> list_all is_name_char k"

text \<open>The expansion of a text in double quotes; backslashes, back ticks, further quotes and dollar signs
  that do not precede a name have a meaning that is not modelled.\<close>

function expand :: "(string \<rightharpoonup> string) \<Rightarrow> string \<Rightarrow> string option" where
  "expand env [] = Some []"
| "expand env (c # cs) =
     (if c = CHR ''$'' then
        let n = takeWhile is_name_char cs in
        if n = [] \<or> is_digit (hd n) then None
        else map_option (\<lambda>r. (case env n of None \<Rightarrow> [] | Some v \<Rightarrow> v) @ r) (expand env (drop (length n) cs))
      else if c \<in> {dquote, backslash, CHR 0x60} then None
      else map_option ((#) c) (expand env cs))"
  by pat_completeness auto
termination
  by (relation "measure (\<lambda>(env, s). length s)") auto

definition run_line :: "string \<Rightarrow> (string \<rightharpoonup> string) \<Rightarrow> (string \<rightharpoonup> string) option" where
  "run_line l env =
     (if l = [] \<or> startswith l ''#'' then Some env
      else if startswith l ''export '' then
        let assignment = drop 7 l; k = takeWhile (\<lambda>c. c \<noteq> CHR ''='') assignment; q = drop (Suc (length k)) assignment
        in if startswith q [dquote] \<and> endswith (tl q) [dquote] \<and> is_shell_name k
           then map_option (\<lambda>v. env(k \<mapsto> v)) (expand env (butlast (tl q))) else None
      else None)"

fun run_script :: "string list \<Rightarrow> (string \<rightharpoonup> string) \<Rightarrow> (string \<rightharpoonup> string) option" where
  "run_script [] env = Some env"
| "run_script (l # ls) env = (case run_line l env of None \<Rightarrow> None | Some env \<Rightarrow> run_script ls env)"

lemma run_script_append:
  "run_script (ls @ ms) env = (case run_script ls env of None \<Rightarrow> None | Some env \<Rightarrow> run_script ms env)"
  by (induction ls arbitrary: env) (auto split: option.splits)

definition plain_char :: "char \<Rightarrow> bool" where
  "plain_char c \<longleftrightarrow> c \<notin> {CHR ''$'', dquote, backslash, CHR 0x60}"

lemma expand_plain: "list_all plain_char p \<Longrightarrow> expand env (p @ s) = map_option ((@) p) (expand env s)"
  by (induction p) (cases "expand env s"; auto simp: plain_char_def)+

lemma expand_variable: "is_shell_name k \<Longrightarrow> expand env (CHR ''$'' # k) = Some (case env k of None \<Rightarrow> [] | Some v \<Rightarrow> v)"
proof -
  assume k: "is_shell_name k"
  then have t: "takeWhile is_name_char k = k" by (simp add: is_shell_name_def list_all_iff takeWhile_eq_all_conv)
  show ?thesis using k by (simp add: t is_shell_name_def Let_def)
qed

lemma name_char_plain: "is_name_char c \<Longrightarrow> c \<noteq> CHR ''=''"
  by (auto simp: is_name_char_def is_digit_def)

lemma run_set_variable:
  assumes "is_shell_name k"
  shows "run_line (set_variable False k value) env = map_option (\<lambda>v. env(k \<mapsto> v)) (expand env value)"
proof -
  have "takeWhile (\<lambda>c. c \<noteq> CHR ''='') (k @ CHR ''='' # s) = k" for s
    using assms name_char_plain by (intro takeWhile_tail [THEN trans]) (auto simp: is_shell_name_def list_all_iff)
  then show ?thesis
    using assms by (simp add: run_line_def set_variable_def startswith_def endswith_def Let_def)
qed

lemma run_comment: "startswith l ''#'' \<Longrightarrow> run_line l env = Some env"
  by (simp add: run_line_def)

section \<open>The environment after the script\<close>

text \<open>A list of assignments, each to a variable of its own, whose texts have a value that depends on
  the old value of that variable only.\<close>

lemma run_variables:
  assumes "distinct (map fst kts)"
    and "\<And>k t e. (k, t) \<in> set kts \<Longrightarrow> e k = env k \<Longrightarrow> is_shell_name k \<and> expand e t = Some (val k)"
  shows "run_script (map (\<lambda>(k, t). set_variable False k t) kts) env =
    Some (\<lambda>k. if k \<in> fst ` set kts then Some (val k) else env k)"
  using assms
proof (induction kts arbitrary: env)
  case (Cons kt kts)
  obtain k t where kt: "kt = (k, t)" by fastforce
  have "is_shell_name k" "expand env t = Some (val k)" using Cons.prems(2) [of k t env] kt by auto
  then have line: "run_line (set_variable False k t) env = Some (env(k \<mapsto> val k))" by (simp add: run_set_variable)
  have "is_shell_name j \<and> expand e u = Some (val j)" if "(j, u) \<in> set kts" "e j = (env(k \<mapsto> val k)) j" for j u e
  proof -
    have "j \<noteq> k" using that(1) Cons.prems(1) kt by force
    then show ?thesis using Cons.prems(2) [of j u e] that by simp
  qed
  then have "run_script (map (\<lambda>(k, t). set_variable False k t) kts) (env(k \<mapsto> val k)) =
      Some (\<lambda>j. if j \<in> fst ` set kts then Some (val j) else (env(k \<mapsto> val k)) j)"
    by (intro Cons.IH) (use Cons.prems(1) in auto)
  moreover have "k \<notin> fst ` set kts" using Cons.prems(1) kt by simp
  ultimately show ?case using line kt by (auto simp: fun_eq_iff)
qed simp

text \<open>What a variable is set to: the value after the other script, with the old value at its end
  replaced by what the variable holds now.\<close>

definition replayed :: "string \<Rightarrow> string \<Rightarrow> string option \<Rightarrow> string" where
  "replayed old new now = (if endswith new ('':'' @ old)
     then slice_to new (- int (length old)) @ (case now of None \<Rightarrow> [] | Some v \<Rightarrow> v) else new)"

lemma slice_to_plain: "list_all plain_char s \<Longrightarrow> list_all plain_char (slice_to s i)"
  by (auto simp: slice_to_def list_all_iff dest: in_set_takeD)

lemma expand_modified:
  assumes "is_shell_name k" and "list_all plain_char new"
  shows "expand env (modified_value False k old new) = Some (replayed old new (env k))"
  using expand_plain [OF assms(2), of env "[]"] expand_plain [OF slice_to_plain [OF assms(2)], of env "- int (length old)"]
    expand_variable [OF assms(1), of env]
  by (simp add: modified_value_def replayed_def Let_def)

lemma modified_set:
  "(k, old, new) \<in> set (modified_variables env env_after) \<longleftrightarrow> (k, new) \<in> set env_after \<and> env k = Some old \<and> old \<noteq> new"
  by (force simp: modified_variables_def split: option.splits if_splits)

lemma variable_keys_distinct:
  assumes "distinct (map fst env_after)"
  shows "distinct (map fst (added_variables env env_after))" "distinct (map fst (modified_variables env env_after))"
proof -
  show "distinct (map fst (added_variables env env_after))"
    using assms by (simp add: added_variables_def distinct_map_filter)
  show "distinct (map fst (modified_variables env env_after))"
    using assms
  proof (induction env_after)
    case (Cons kv env_after)
    have "k \<notin> fst ` set (modified_variables env env_after)" if "k \<notin> fst ` set env_after" for k
      using that by (force simp: modified_set)
    then show ?case using Cons by (cases kv) (auto simp: modified_variables_def split: option.splits)
  qed (simp add: modified_variables_def)
qed

lemma map_of_in: "distinct (map fst ps) \<Longrightarrow> map_of ps k = Some v \<longleftrightarrow> (k, v) \<in> set ps"
  by simp

definition after_script :: "(string \<rightharpoonup> string) \<Rightarrow> (string \<times> string) list \<Rightarrow> (string \<rightharpoonup> string) \<Rightarrow> string \<Rightarrow> string option" where
  "after_script env env_after now k = (case (map_of env_after k, env k) of
     (None, _) \<Rightarrow> now k
   | (Some new, None) \<Rightarrow> Some new
   | (Some new, Some old) \<Rightarrow> if old = new then now k else Some (replayed old new (now k)))"

definition writable :: "(string \<times> string) list \<Rightarrow> bool" where
  "writable env_after \<longleftrightarrow> distinct (map fst env_after) \<and> list_all (\<lambda>(k, v). is_shell_name k \<and> list_all plain_char v) env_after"

lemma distinct_sorted: "distinct (map fst ps) \<Longrightarrow> distinct (map fst (sort_key fst ps))"
  by (metis mset_eq_imp_distinct_iff mset_map mset_sort)

lemma modified_keys:
  assumes "distinct (map fst env_after)"
  shows "k \<in> fst ` set (modified_variables env env_after) \<longleftrightarrow>
    (\<exists>old new. map_of env_after k = Some new \<and> env k = Some old \<and> old \<noteq> new)"
  using assms unfolding image_iff Bex_def split_paired_Ex modified_set by auto

lemma slice_off_suffix: "slice_to (p @ c # old) (- int (length old)) = (if old = [] then [] else p @ [c])"
proof -
  have "nat (1 + int n) = Suc n" for n by simp
  then show ?thesis by (simp add: slice_to_def slice_idx_def)
qed

lemma run_silent: "list_all (\<lambda>l. l = [] \<or> startswith l ''#'') ls \<Longrightarrow> run_script ls env = Some env"
  by (induction ls) (auto simp: run_line_def)

lemma script_in_any_environment:
  assumes "writable env_after"
  shows "run_script (generate_environment_script False env env_after) now = Some (after_script env env_after now)"
proof -
  let ?A = "sort_key fst (added_variables env env_after)" and ?M = "sort_key fst (modified_variables env env_after)"
  let ?M' = "map (\<lambda>(k, old, new). (k, modified_value False k old new)) ?M"
  let ?new = "\<lambda>k. the (map_of env_after k)"
  define now1 where "now1 = (\<lambda>k. if k \<in> fst ` set ?A then Some (?new k) else now k)"
  define now2 where "now2 = (\<lambda>k. if k \<in> fst ` set ?M' then Some (replayed (the (env k)) (?new k) (now k)) else now1 k)"
  have dist: "distinct (map fst env_after)"
    and ok: "\<And>k v. (k, v) \<in> set env_after \<Longrightarrow> is_shell_name k \<and> list_all plain_char v"
    using assms by (auto simp: writable_def list_all_iff)
  have new: "(k, v) \<in> set env_after \<Longrightarrow> ?new k = v" for k v using dist by simp
  have A: "fst ` set ?A = {k. map_of env_after k \<noteq> None \<and> env k = None}"
    using dist by (force simp: added_variables_def)
  have "fst ` set ?M' = fst ` set (modified_variables env env_after)" by (simp add: image_image case_prod_unfold)
  then have M: "fst ` set ?M' = {k. \<exists>old new. map_of env_after k = Some new \<and> env k = Some old \<and> old \<noteq> new}"
    by (simp only: set_eq_iff mem_Collect_eq modified_keys [OF dist] simp_thms)
  have "run_script (map (\<lambda>(k, t). set_variable False k t) ?A) now = Some now1"
    unfolding now1_def
  proof (rule run_variables)
    show "distinct (map fst ?A)" using dist by (intro distinct_sorted variable_keys_distinct)
  next
    fix k t e assume "(k, t) \<in> set ?A"
    then have kt: "(k, t) \<in> set env_after" by (simp add: added_variables_def)
    then show "is_shell_name k \<and> expand e t = Some (?new k)"
      using ok [OF kt] new [OF kt] expand_plain [of t e "[]"] by simp
  qed
  moreover have "run_script (map (\<lambda>(k, t). set_variable False k t) ?M') now1 = Some now2"
    unfolding now2_def
  proof (rule run_variables)
    have "map fst ?M' = map fst ?M" by (simp add: case_prod_unfold)
    then show "distinct (map fst ?M')" using dist by (simp only: distinct_sorted variable_keys_distinct)
  next
    fix k t e assume kt: "(k, t) \<in> set ?M'" and e: "e k = now1 k"
    then obtain old new where m: "(k, old, new) \<in> set (modified_variables env env_after)" "t = modified_value False k old new"
      by auto
    then have k: "(k, new) \<in> set env_after" "env k = Some old" by (simp_all add: modified_set)
    then have "now1 k = now k" using A by (auto simp: now1_def)
    then show "is_shell_name k \<and> expand e t = Some (replayed (the (env k)) (?new k) (now k))"
      using ok [OF k(1)] new [OF k(1)] k(2) m(2) e expand_modified [of k new e old] by simp
  qed
  moreover have "now2 = after_script env env_after now"
    unfolding now2_def now1_def A M by (rule ext) (auto simp: after_script_def split: option.splits)
  moreover have "map (\<lambda>(k, old, new). set_variable False k (modified_value False k old new)) ?M =
      map (\<lambda>(k, t). set_variable False k t) ?M'" by (simp add: case_prod_unfold)
  moreover have "run_script (append_header False) e = Some e" "run_script [[], append_comment False c] e = Some e"
      "run_script [append_comment False c, append_comment False c', [], append_comment False c''] e = Some e" for e c c' c''
    by (rule run_silent, simp add: append_header_def append_comment_def startswith_def)+
  ultimately show ?thesis
    unfolding generate_environment_script_def by (simp only: run_script_append option.case)
qed

text \<open>C36: for values that a double quote, a dollar sign, a back tick or a backslash does not occur in,
  a POSIX shell that runs the cached script in the environment it was made from ends in the
  environment that the original script left, as far as that one sets variables, with one exception:
  a variable that was empty before and whose new value ends with a colon stays empty.\<close>

theorem cached_script_replays_environment:
  assumes "writable env_after"
  shows "run_script (generate_environment_script False env env_after) env = Some (\<lambda>k. case map_of env_after k of
     None \<Rightarrow> env k
   | Some new \<Rightarrow> if env k = Some [] \<and> endswith new '':'' then Some [] else Some new)"
proof -
  have "replayed old new (Some old) = (if old = [] \<and> endswith new '':'' then [] else new)" for old new
  proof (cases "endswith new ('':'' @ old)")
    case True
    then obtain p where "new = p @ '':'' @ old" unfolding endswith_iff by blast
    then show ?thesis using True by (auto simp: replayed_def slice_off_suffix endswith_iff)
  qed (auto simp: replayed_def)
  then have "after_script env env_after env k = (case map_of env_after k of
     None \<Rightarrow> env k
   | Some new \<Rightarrow> if env k = Some [] \<and> endswith new '':'' then Some [] else Some new)" for k
    by (auto simp: after_script_def endswith_def split: option.splits)
  then show ?thesis using script_in_any_environment [OF assms] by (simp add: fun_eq_iff)
qed

theorem cached_script_replays_environment_witness:
  "run_script (generate_environment_script False [''PATH'' \<mapsto> ''/bin'', ''E'' \<mapsto> []] [(''PATH'', ''/w/bin:/bin''), (''E'', ''/a:''), (''N'', ''1'')])
     [''PATH'' \<mapsto> ''/bin'', ''E'' \<mapsto> []] =
   Some [''PATH'' \<mapsto> ''/w/bin:/bin'', ''E'' \<mapsto> [], ''N'' \<mapsto> ''1'']"
proof -
  have "writable [(''PATH'', ''/w/bin:/bin''), (''E'', ''/a:''), (''N'', ''1'')]" by code_simp
  from cached_script_replays_environment [OF this, of "[''PATH'' \<mapsto> ''/bin'', ''E'' \<mapsto> []]"] show ?thesis
    by (simp add: fun_eq_iff endswith_def)
qed

end
