(* ===== verification/Catkin_Find.thy ===== *)
theory Catkin_Find
  imports Py_Prelude
begin

text \<open>
  The search for files in catkin workspaces, \<open>catkin/workspace.py\<close> and \<open>catkin/find_in_workspaces.py\<close>:
  the workspaces that the environment names, the source spaces that a workspace declares, and the
  paths of a project in both, with the two dictionaries that remember what was read and crawled.

  The file system and \<open>find_packages\<close> of catkin_pkg are arguments.
\<close>

section \<open>Workspaces\<close>

definition CATKIN_MARKER_FILE :: string where
  "CATKIN_MARKER_FILE = ''.catkin''"

record search_host =
  prefix_path :: "string option"
  isfile :: "string \<Rightarrow> bool"
  file_text :: "string \<Rightarrow> string"
  realpath :: "string \<Rightarrow> string"
  there :: "string \<Rightarrow> bool"
  crawl :: "string \<Rightarrow> (string \<times> string) list"

definition get_workspaces :: "search_host \<Rightarrow> string list" where
  "get_workspaces h =
     (let paths = filter (\<lambda>p. p \<noteq> []) (split_on CHR '':'' (case prefix_path h of None \<Rightarrow> [] | Some s \<Rightarrow> s))
      in filter (\<lambda>p. isfile h (path_join p CATKIN_MARKER_FILE)) paths)"

fun unique_sources :: "(string \<Rightarrow> string) \<Rightarrow> string list \<Rightarrow> string list \<Rightarrow> string list \<Rightarrow> string list" where
  "unique_sources real source_paths real_source_paths [] = source_paths"
| "unique_sources real source_paths real_source_paths (path # ps) =
     (if real path \<in> set real_source_paths then unique_sources real source_paths real_source_paths ps
      else unique_sources real (source_paths @ [path]) (real path # real_source_paths) ps)"

definition get_source_paths :: "search_host \<Rightarrow> string \<Rightarrow> string list res" where
  "get_source_paths h workspace =
     (let name = path_join workspace CATKIN_MARKER_FILE in
      if \<not> isfile h name then Inl ValueError
      else let data = file_text h name in
        Inr (if data \<noteq> [] then unique_sources (realpath h) [] [] (split_on CHR '';'' data) else []))"

text \<open>The source paths name each directory once, and every declared one.\<close>

lemma unique_sources_spec:
  assumes "set seen = real ` set acc" and "distinct (map real acc)"
  shows "distinct (map real (unique_sources real acc seen ps)) \<and>
    real ` set (unique_sources real acc seen ps) = real ` (set acc \<union> set ps) \<and> set (unique_sources real acc seen ps) \<subseteq> set acc \<union> set ps"
  using assms
proof (induction ps arbitrary: acc seen)
  case (Cons p ps)
  show ?case
  proof (cases "real p \<in> set seen")
    case True
    then show ?thesis using Cons by (auto simp: image_Un)
  next
    case False
    then show ?thesis using Cons.IH [of "real p # seen" "acc @ [p]"] Cons.prems by auto
  qed
qed simp

section \<open>The folders that are searched\<close>

definition valid_global_search_dirs :: "string list" where
  "valid_global_search_dirs = [''bin'', ''etc'', ''include'', ''lib'', ''share'']"

definition valid_project_search_dirs :: "string list" where
  "valid_project_search_dirs = [''etc'', ''include'', ''libexec'', ''share'']"

definition get_valid_search_dirs :: "string list \<Rightarrow> string option \<Rightarrow> string list res" where
  "get_valid_search_dirs search_dirs project =
     (let valid = (if project = None then valid_global_search_dirs else valid_project_search_dirs) in
      if search_dirs = [] then Inr valid
      else if set search_dirs - (set valid_global_search_dirs \<union> set valid_project_search_dirs) \<noteq> {} then Inl ValueError
      else if set search_dirs - set valid \<noteq> {} then Inl ValueError
      else Inr search_dirs)"

definition with_lib :: "string list \<Rightarrow> string list" where
  "with_lib dirs = (if ''libexec'' \<in> set dirs
     then takeWhile (\<lambda>d. d \<noteq> ''libexec'') dirs @ ''lib'' # dropWhile (\<lambda>d. d \<noteq> ''libexec'') dirs else dirs)"

section \<open>The search\<close>

record search =
  source_spaces :: "string \<rightharpoonup> string list"
  source_packages :: "string \<rightharpoonup> (string \<times> string) list"
  paths :: "string list"
  existing_paths :: "string list"

text \<open>\<open>first_match_only\<close> ends the search with \<open>StopIteration\<close>.\<close>

definition visit :: "search_host \<Rightarrow> bool \<Rightarrow> string \<Rightarrow> (search, unit) act" where
  "visit h first_match_only p s =
     (let s = s\<lparr>paths := paths s @ [p]\<rparr> in
      if there h p then
        let s = s\<lparr>existing_paths := existing_paths s @ [p]\<rparr>
        in (if first_match_only then Inl StopIteration else Inr (), s)
      else (Inr (), s))"

definition candidate :: "string option \<Rightarrow> string option \<Rightarrow> string \<Rightarrow> string \<Rightarrow> string" where
  "candidate project path workspace sub =
     (let p = path_join workspace sub;
          p = (case project of None \<Rightarrow> p | Some q \<Rightarrow> if q = [] then p else path_join p q)
      in case path of None \<Rightarrow> p | Some q \<Rightarrow> if q = [] then p else path_join p q)"

definition source_candidates :: "string \<Rightarrow> string option \<Rightarrow> string \<Rightarrow> (string \<times> string) list \<Rightarrow> string list" where
  "source_candidates project path source_path packages =
     (case map fst (filter (\<lambda>(p, name). name = project) packages) of
        [] \<Rightarrow> []
      | m # _ \<Rightarrow> let p = (if m \<noteq> ''.'' then path_join source_path m else source_path)
                in [case path of None \<Rightarrow> p | Some q \<Rightarrow> path_join p q])"

definition spaces_of :: "search_host \<Rightarrow> string \<Rightarrow> (search, string list) act" where
  "spaces_of h workspace s = (case source_spaces s workspace of
     Some spaces \<Rightarrow> (Inr spaces, s)
   | None \<Rightarrow> (case get_source_paths h workspace of
       Inl e \<Rightarrow> (Inl e, s)
     | Inr spaces \<Rightarrow> (Inr spaces, s\<lparr>source_spaces := (source_spaces s)(workspace \<mapsto> spaces)\<rparr>)))"

definition packages_of :: "search_host \<Rightarrow> string \<Rightarrow> (search, (string \<times> string) list) act" where
  "packages_of h source_path s = (case source_packages s source_path of
     Some packages \<Rightarrow> (Inr packages, s)
   | None \<Rightarrow> (Inr (crawl h source_path), s\<lparr>source_packages := (source_packages s)(source_path \<mapsto> crawl h source_path)\<rparr>))"

definition visit_sub :: "search_host \<Rightarrow> bool \<Rightarrow> string option \<Rightarrow> string option \<Rightarrow> string \<Rightarrow> string \<Rightarrow> (search, unit) act" where
  "visit_sub h first_match_only project path workspace sub =
     sbind (visit h first_match_only (candidate project path workspace sub)) (\<lambda>_.
     case project of
       None \<Rightarrow> sret ()
     | Some q \<Rightarrow> if sub \<noteq> ''share'' then sret () else
         sbind (spaces_of h workspace) (\<lambda>spaces.
         sfoldl (\<lambda>_ source_path. sbind (packages_of h source_path) (\<lambda>packages.
           sfoldl (\<lambda>_ p. visit h first_match_only p) () (source_candidates q path source_path packages))) () spaces))"

fun visit_workspaces ::
  "search_host \<Rightarrow> bool \<Rightarrow> bool \<Rightarrow> string option \<Rightarrow> string option \<Rightarrow> string list \<Rightarrow> string list \<Rightarrow> (search, unit) act" where
  "visit_workspaces h first_ws first_match project path dirs [] = sret ()"
| "visit_workspaces h first_ws first_match project path dirs (w # ws) =
     sbind (sfoldl (\<lambda>_ sub. visit_sub h first_match project path w sub) () dirs) (\<lambda>_.
     sbind (sgets existing_paths) (\<lambda>found.
       if first_ws \<and> found \<noteq> [] then sret () else visit_workspaces h first_ws first_match project path dirs ws))"

text \<open>The dictionaries are those of the caller, who gets them back with the considered paths.\<close>

definition find_in_workspaces ::
  "search_host \<Rightarrow> string list \<Rightarrow> string option \<Rightarrow> string option \<Rightarrow> string list option \<Rightarrow> bool \<Rightarrow> bool \<Rightarrow>
     (string \<rightharpoonup> string list) \<Rightarrow> (string \<rightharpoonup> (string \<times> string) list) \<Rightarrow> (string list \<times> search) res" where
  "find_in_workspaces h search_dirs project path workspaces first_ws first_match spaces packages =
     rbind (get_valid_search_dirs search_dirs project) (\<lambda>dirs.
     let workspaces = (case workspaces of None \<Rightarrow> get_workspaces h | Some ws \<Rightarrow> ws);
         s = \<lparr>source_spaces = spaces, source_packages = packages, paths = [], existing_paths = []\<rparr>
     in case visit_workspaces h first_ws first_match project path (with_lib dirs) workspaces s of
          (Inr _, s) \<Rightarrow> Inr (existing_paths s, s)
        | (Inl StopIteration, s) \<Rightarrow> Inr (existing_paths s, s)
        | (Inl e, s) \<Rightarrow> Inl e)"

section \<open>What is found\<close>

text \<open>The candidates of a workspace, without the dictionaries.\<close>

definition sub_candidates :: "search_host \<Rightarrow> string option \<Rightarrow> string option \<Rightarrow> string \<Rightarrow> string \<Rightarrow> string list" where
  "sub_candidates h project path workspace sub = candidate project path workspace sub #
     (case project of None \<Rightarrow> [] | Some q \<Rightarrow> if sub \<noteq> ''share'' then [] else
        concat (map (\<lambda>source. source_candidates q path source (crawl h source)) (projr (get_source_paths h workspace))))"

definition candidates :: "search_host \<Rightarrow> string option \<Rightarrow> string option \<Rightarrow> string list \<Rightarrow> string \<Rightarrow> string list" where
  "candidates h project path dirs workspace = concat (map (sub_candidates h project path workspace) dirs)"

definition sound_caches :: "search_host \<Rightarrow> (string \<rightharpoonup> string list) \<Rightarrow> (string \<rightharpoonup> (string \<times> string) list) \<Rightarrow> bool" where
  "sound_caches h spaces packages \<longleftrightarrow>
     (\<forall>w l. spaces w = Some l \<longrightarrow> get_source_paths h w = Inr l) \<and> (\<forall>p l. packages p = Some l \<longrightarrow> l = crawl h p)"

fun visits :: "(string \<Rightarrow> bool) \<Rightarrow> bool \<Rightarrow> string list \<Rightarrow> string list \<times> string list \<Rightarrow> bool \<times> string list \<times> string list" where
  "visits ex first [] ab = (False, ab)"
| "visits ex first (p # ps) (a, b) =
     (if ex p then if first then (True, a @ [p], b @ [p]) else visits ex first ps (a @ [p], b @ [p])
      else visits ex first ps (a @ [p], b))"

text \<open>An action that visits given paths and keeps the dictionaries sound.\<close>

definition does :: "search_host \<Rightarrow> bool \<Rightarrow> string list \<Rightarrow> (search, unit) act \<Rightarrow> bool" where
  "does h first ps m \<longleftrightarrow> (\<forall>s. sound_caches h (source_spaces s) (source_packages s) \<longrightarrow>
     (\<exists>s'. m s = (if fst (visits (there h) first ps (paths s, existing_paths s)) then Inl StopIteration else Inr (), s') \<and>
        (paths s', existing_paths s') = snd (visits (there h) first ps (paths s, existing_paths s)) \<and>
        sound_caches h (source_spaces s') (source_packages s')))"

lemma visits_append:
  "visits ex first (ps @ qs) ab = (let r = visits ex first ps ab in if fst r then r else visits ex first qs (snd r))"
  by (induction ex first ps ab rule: visits.induct) (auto simp: Let_def)

lemma does_visit: "does h first [p] (visit h first p)"
  by (auto simp: does_def visit_def Let_def)

lemma does_nothing: "does h first [] (sret ())"
  by (simp add: does_def)

lemma does_sbind:
  assumes "does h first ps m" and "does h first qs n" shows "does h first (ps @ qs) (sbind m (\<lambda>_. n))"
  unfolding does_def
proof (intro allI impI)
  fix s :: search assume s: "sound_caches h (source_spaces s) (source_packages s)"
  let ?r = "visits (there h) first ps (paths s, existing_paths s)"
  from assms(1) s obtain s1 where s1: "m s = (if fst ?r then Inl StopIteration else Inr (), s1)"
      "(paths s1, existing_paths s1) = snd ?r" "sound_caches h (source_spaces s1) (source_packages s1)"
    unfolding does_def by blast
  let ?q = "visits (there h) first qs (paths s1, existing_paths s1)"
  from assms(2) s1(3) obtain s2 where s2: "n s1 = (if fst ?q then Inl StopIteration else Inr (), s2)"
      "(paths s2, existing_paths s2) = snd ?q" "sound_caches h (source_spaces s2) (source_packages s2)"
    unfolding does_def by blast
  show "\<exists>s'. sbind m (\<lambda>_. n) s =
        (if fst (visits (there h) first (ps @ qs) (paths s, existing_paths s)) then Inl StopIteration else Inr (), s') \<and>
      (paths s', existing_paths s') = snd (visits (there h) first (ps @ qs) (paths s, existing_paths s)) \<and>
      sound_caches h (source_spaces s') (source_packages s')"
  proof (cases "fst ?r")
    case True
    then show ?thesis using s1 by (simp add: sbind_def visits_append Let_def)
  next
    case False
    then show ?thesis using s1(1) s2 by (simp add: sbind_def visits_append Let_def flip: s1(2))
  qed
qed

lemma does_sfoldl: "(\<And>x. x \<in> set xs \<Longrightarrow> does h first (f x) (m x)) \<Longrightarrow> does h first (concat (map f xs)) (sfoldl (\<lambda>_ x. m x) () xs)"
proof (induction xs)
  case (Cons x xs)
  have "does h first (f x @ concat (map f xs)) (sbind (m x) (\<lambda>_. sfoldl (\<lambda>_ x. m x) () xs))"
    by (intro does_sbind Cons) auto
  then show ?case by simp
qed (simp add: does_nothing)

text \<open>The contract of a dictionary that is filled on demand: for the keys that can be read the lookup
  gives the fact about the key, whatever has been remembered, and visits nothing.\<close>

locale remembering =
  fixes h :: search_host and lookup :: "string \<Rightarrow> (search, 'a) act" and fact_of :: "string \<Rightarrow> 'a"
    and readable :: "string \<Rightarrow> bool"
  assumes lookup_fact: "readable k \<Longrightarrow> sound_caches h (source_spaces s) (source_packages s) \<Longrightarrow>
    \<exists>s'. lookup k s = (Inr (fact_of k), s') \<and> paths s' = paths s \<and> existing_paths s' = existing_paths s \<and>
      sound_caches h (source_spaces s') (source_packages s')"
begin

lemma does_lookup:
  assumes "readable k" and "does h first ps (f (fact_of k))"
  shows "does h first ps (sbind (lookup k) f)"
  unfolding does_def
proof (intro allI impI)
  fix s :: search assume "sound_caches h (source_spaces s) (source_packages s)"
  then obtain s1 where s1: "lookup k s = (Inr (fact_of k), s1)" "paths s1 = paths s" "existing_paths s1 = existing_paths s"
      "sound_caches h (source_spaces s1) (source_packages s1)" using lookup_fact [OF assms(1)] by blast
  show "\<exists>s'. sbind (lookup k) f s =
        (if fst (visits (there h) first ps (paths s, existing_paths s)) then Inl StopIteration else Inr (), s') \<and>
      (paths s', existing_paths s') = snd (visits (there h) first ps (paths s, existing_paths s)) \<and>
      sound_caches h (source_spaces s') (source_packages s')"
    using assms(2) [unfolded does_def, rule_format, OF s1(4)] s1(1-3) by (simp add: sbind_def)
qed

end

interpretation spaces: remembering h "spaces_of h" "\<lambda>w. projr (get_source_paths h w)" "\<lambda>w. get_source_paths h w \<noteq> Inl ValueError" for h
proof
  fix w and s :: search
  assume "get_source_paths h w \<noteq> Inl ValueError" and sound: "sound_caches h (source_spaces s) (source_packages s)"
  then obtain l where "get_source_paths h w = Inr l" by (auto simp: get_source_paths_def Let_def split: if_splits)
  then show "\<exists>s'. spaces_of h w s = (Inr (projr (get_source_paths h w)), s') \<and> paths s' = paths s \<and>
      existing_paths s' = existing_paths s \<and> sound_caches h (source_spaces s') (source_packages s')"
    using sound by (cases "source_spaces s w") (auto simp: spaces_of_def sound_caches_def)
qed

interpretation packages: remembering h "packages_of h" "crawl h" "\<lambda>_. True" for h
proof
  fix p and s :: search assume "sound_caches h (source_spaces s) (source_packages s)"
  then show "\<exists>s'. packages_of h p s = (Inr (crawl h p), s') \<and> paths s' = paths s \<and> existing_paths s' = existing_paths s \<and>
      sound_caches h (source_spaces s') (source_packages s')"
    by (cases "source_packages s p") (auto simp: packages_of_def sound_caches_def)
qed

lemma concat_singletons: "concat (map (\<lambda>p. [p]) ps) = ps"
  by (induction ps) auto

lemma does_sources:
  "does h first (source_candidates q path source (crawl h source)) (sbind (packages_of h source) (\<lambda>packages.
     sfoldl (\<lambda>_ p. visit h first p) () (source_candidates q path source packages)))"
proof (rule packages.does_lookup [OF TrueI])
  show "does h first (source_candidates q path source (crawl h source))
      (sfoldl (\<lambda>_ p. visit h first p) () (source_candidates q path source (crawl h source)))"
    using does_sfoldl [of _ h first "\<lambda>p. [p]", OF does_visit] by (simp add: concat_singletons)
qed

lemma does_visit_sub:
  assumes "get_source_paths h w \<noteq> Inl ValueError"
  shows "does h first (sub_candidates h project path w sub) (visit_sub h first project path w sub)"
proof -
  let ?rest = "case project of None \<Rightarrow> [] | Some q \<Rightarrow> if sub \<noteq> ''share'' then [] else
        concat (map (\<lambda>source. source_candidates q path source (crawl h source)) (projr (get_source_paths h w)))"
  have "does h first ?rest (case project of
       None \<Rightarrow> sret ()
     | Some q \<Rightarrow> if sub \<noteq> ''share'' then sret () else
         sbind (spaces_of h w) (\<lambda>spaces.
         sfoldl (\<lambda>_ source_path. sbind (packages_of h source_path) (\<lambda>packages.
           sfoldl (\<lambda>_ p. visit h first p) () (source_candidates q path source_path packages))) () spaces))"
    by (cases project) (auto intro!: does_nothing spaces.does_lookup [OF assms] does_sfoldl does_sources)
  from does_sbind [OF does_visit this] show ?thesis
    by (simp only: visit_sub_def sub_candidates_def append_Cons append_Nil)
qed

lemma does_workspace:
  "get_source_paths h w \<noteq> Inl ValueError \<Longrightarrow>
     does h first (candidates h project path dirs w) (sfoldl (\<lambda>_ sub. visit_sub h first project path w sub) () dirs)"
  unfolding candidates_def by (intro does_sfoldl does_visit_sub)

definition cut_first :: "bool \<Rightarrow> 'a list \<Rightarrow> 'a list" where
  "cut_first first ps = (if first then take 1 ps else ps)"

lemma visits_found:
  "fst (visits ex first ps (a, b)) = (first \<and> filter ex ps \<noteq> []) \<and>
   snd (snd (visits ex first ps (a, b))) = b @ cut_first first (filter ex ps)"
  by (induction ps arbitrary: a b) (auto simp: cut_first_def)

text \<open>The existing candidates, of all workspaces or of the first one that has some.\<close>

fun found_in :: "bool \<Rightarrow> string list list \<Rightarrow> string list" where
  "found_in first_ws [] = []"
| "found_in first_ws (f # fs) = f @ (if first_ws \<and> f \<noteq> [] then [] else found_in first_ws fs)"

lemma visit_workspaces_found:
  assumes "\<And>w. w \<in> set ws \<Longrightarrow> get_source_paths h w \<noteq> Inl ValueError"
    and "sound_caches h (source_spaces s) (source_packages s)" and "first_ws \<Longrightarrow> existing_paths s = []"
  shows "\<exists>r s'. visit_workspaces h first_ws first project path dirs ws s = (r, s') \<and> (r = Inr () \<or> r = Inl StopIteration) \<and>
    existing_paths s' = existing_paths s @
      cut_first first (found_in first_ws (map (\<lambda>w. filter (there h) (candidates h project path dirs w)) ws)) \<and>
    sound_caches h (source_spaces s') (source_packages s')"
  using assms
proof (induction ws arbitrary: s)
  case (Cons w ws)
  let ?c = "candidates h project path dirs w" and ?rest = "map (\<lambda>w. filter (there h) (candidates h project path dirs w)) ws"
  have w: "get_source_paths h w \<noteq> Inl ValueError" using Cons.prems(1) by simp
  let ?r = "visits (there h) first ?c (paths s, existing_paths s)"
  obtain s1 where s1: "sfoldl (\<lambda>_ sub. visit_sub h first project path w sub) () dirs s =
      (if fst ?r then Inl StopIteration else Inr (), s1)" "(paths s1, existing_paths s1) = snd ?r"
      "sound_caches h (source_spaces s1) (source_packages s1)"
    using does_workspace [OF w] Cons.prems(2) unfolding does_def by blast
  have found: "fst ?r = (first \<and> filter (there h) ?c \<noteq> [])"
      "existing_paths s1 = existing_paths s @ cut_first first (filter (there h) ?c)"
    using visits_found [of "there h" first ?c "paths s" "existing_paths s"] s1(2) by (simp_all add: prod_eq_iff)
  show ?case
  proof (cases "fst ?r")
    case True
    then show ?thesis using s1 found by (auto simp: sbind_def cut_first_def Suc_le_eq)
  next
    case False
    then have cut: "cut_first first (filter (there h) ?c) = filter (there h) ?c" using found(1) by (auto simp: cut_first_def)
    show ?thesis
    proof (cases "first_ws \<and> existing_paths s1 \<noteq> []")
      case True
      then have "existing_paths s = []" "filter (there h) ?c \<noteq> []" using Cons.prems(3) found(2) cut by auto
      then show ?thesis using True False s1 found cut by (auto simp: sbind_def)
    next
      case stay: False
      then have "found_in first_ws ((filter (there h) ?c) # ?rest) = filter (there h) ?c @ found_in first_ws ?rest"
        using found(2) cut by auto
      moreover have "cut_first first (filter (there h) ?c @ xs) = filter (there h) ?c @ cut_first first xs" for xs
        using False found(1) by (auto simp: cut_first_def)
      ultimately show ?thesis
        using Cons.IH [of s1] Cons.prems(1) s1 stay False found(2) cut by (auto simp: sbind_def)
    qed
  qed
qed (simp add: cut_first_def)

text \<open>C37: with dictionaries that hold only what reading and crawling gives, and workspaces whose markers
  can be read, the search finds exactly the existing ones of the candidate paths, in the order of the
  workspaces, folders and source spaces, cut after the first workspace that has one or after the
  first path if that is asked for; the dictionaries, which start empty or come from an earlier search,
  do not change the result and stay sound. It fails exactly for folders that are not valid.\<close>

theorem find_in_workspaces_result:
  assumes "list_all (\<lambda>w. get_source_paths h w \<noteq> Inl ValueError) ws" and "sound_caches h spaces packages"
  shows "case get_valid_search_dirs search_dirs project of
      Inl e \<Rightarrow> find_in_workspaces h search_dirs project path (Some ws) first_ws first spaces packages = Inl e
    | Inr dirs \<Rightarrow> (\<exists>s. find_in_workspaces h search_dirs project path (Some ws) first_ws first spaces packages =
        Inr (cut_first first (found_in first_ws
          (map (\<lambda>w. filter (there h) (candidates h project path (with_lib dirs) w)) ws)), s) \<and>
        sound_caches h (source_spaces s) (source_packages s))"
proof (cases "get_valid_search_dirs search_dirs project")
  case (Inr dirs)
  let ?s = "\<lparr>source_spaces = spaces, source_packages = packages, paths = [], existing_paths = []\<rparr>"
  have ws: "get_source_paths h w \<noteq> Inl ValueError" if "w \<in> set ws" for w
    using assms(1) that by (simp add: list_all_iff)
  obtain r s' where run: "visit_workspaces h first_ws first project path (with_lib dirs) ws ?s = (r, s')"
      "r = Inr () \<or> r = Inl StopIteration" "sound_caches h (source_spaces s') (source_packages s')"
      "existing_paths s' = cut_first first (found_in first_ws
          (map (\<lambda>w. filter (there h) (candidates h project path (with_lib dirs) w)) ws))"
    using visit_workspaces_found [of ws h ?s first_ws first project path "with_lib dirs", OF ws] assms(2) by auto
  then show ?thesis using Inr by (auto simp: find_in_workspaces_def Let_def)
qed (simp add: find_in_workspaces_def)

definition demo_search_host :: search_host where
  "demo_search_host = \<lparr>prefix_path = Some ''/w'', isfile = (\<lambda>p. p = ''/w/.catkin''), file_text = \<lambda>_. ''/s;/s'',
     realpath = (\<lambda>p. p), there = (\<lambda>p. p = ''/w/share/q'' \<or> p = ''/s/p''), crawl = \<lambda>_. [(''p'', ''q'')]\<rparr>"

theorem find_in_workspaces_result_witness:
  "\<exists>s. find_in_workspaces demo_search_host [] (Some ''q'') None (Some [''/w'']) False False Map.empty Map.empty =
     Inr ([''/w/share/q'', ''/s/p''], s)"
proof -
  have h: "list_all (\<lambda>w. get_source_paths demo_search_host w \<noteq> Inl ValueError) [''/w'']"
    "sound_caches demo_search_host Map.empty Map.empty" by code_simp (simp add: sound_caches_def)
  have dirs: "get_valid_search_dirs [] (Some ''q'') = Inr valid_project_search_dirs"
    by (simp add: get_valid_search_dirs_def)
  have "cut_first False (found_in False (map (\<lambda>w. filter (there demo_search_host)
      (candidates demo_search_host (Some ''q'') None (with_lib valid_project_search_dirs) w)) [''/w''])) = [''/w/share/q'', ''/s/p'']"
    by code_simp
  with find_in_workspaces_result [OF h, of "[]" "Some ''q''" None False False] dirs show ?thesis by auto
qed

end
