(* ===== verification/Spec2Isabelle.thy ===== *)
theory Spec2Isabelle
  imports Gentools Msg_Generator Rosmake Graph_Names Messages Dynamic_Module Gencpp Geneus_Files Geneus_Main Gennodejs_Files Process_Shutdown Catkin_Builds Catkin_Environment Catkin_Find
begin

text \<open>
  \<^bold>\<open>The program.\<close> The repository is a ROS distribution. Its own logic in Python reads message and
  service descriptions (\<open>genmsg\<close>), generates Python classes (\<open>genpy\<close>), Lisp classes (\<open>genlisp\<close>),
  EusLisp classes (\<open>geneus\<close>) and JavaScript classes (\<open>gennodejs\<close>) for them, gives the generated
  classes their runtime support (times, type checks, filling from a command line), names the nodes
  and topics of a running system (\<open>roslib\<close>), builds the packages in the order of their
  dependencies with several threads (\<open>rosmake\<close>) or one after the other (\<open>catkin\<close>), and monitors the
  processes of a test (\<open>rosunit\<close>). Paths below are relative to \<open>src/src\<close>.

  \<^bold>\<open>How the parts interact.\<close> A generator is called with files. It loads each description into a
  context, loads what it depends on through the search path, computes the md5 sum and the full text
  over the loaded types, and writes a module. The full text is stored in the module; a program that
  has only this text (a bag file) gets the specifications and a module back from it. Independently,
  rosmake asks rospkg for the dependencies of the requested packages, puts them into a list, and
  lets threads take packages from a queue as soon as what they need has been built. Again
  independently, \<open>catkin_make_isolated\<close> runs cmake and make for the packages of a workspace in the
  order that catkin_pkg finds, each in the environment that the package before it has left.

  \<^bold>\<open>Theories and sources.\<close>

  \<^item> \<open>Py_Prelude\<close>: what the sources use of Python. Exceptions are values of \<open>py_error\<close>; a call that
    may raise returns \<open>'a res\<close>, a call with effects is an action \<open>('s, 'a) act\<close> that returns the
    state also when it raises. Strings are lists of characters with Python's slices, \<open>split\<close>,
    \<open>find\<close>, \<open>replace\<close>, \<open>strip\<close> and \<open>os.path\<close>.
  \<^item> \<open>Py_Float\<close>: IEEE 754 doubles as rationals with round-to-even, for the float arithmetic of times.
  \<^item> \<open>Names\<close>: \<open>genmsg/src/genmsg/names.py\<close>, \<open>base.py\<close>, \<open>command_line.py\<close>.
  \<^item> \<open>Msgs\<close>: \<open>genmsg/src/genmsg/msgs.py\<close>, \<open>srvs.py\<close>.
  \<^item> \<open>Loader\<close>, with \<open>Dependencies\<close> for the recursion over the types and \<open>Registered\<close> for what holds of every registered specification: \<open>genmsg/src/genmsg/msg_loader.py\<close>.
    The class \<open>MsgContext\<close> is the record \<open>msg_context\<close>; the files are a field of \<open>world\<close>.
  \<^item> \<open>Gentools\<close>: \<open>genmsg/src/genmsg/gentools.py\<close>, \<open>deps.py\<close>. The hash is an argument.
  \<^item> \<open>Struct_Patterns\<close>, \<open>Generator_Util\<close>, \<open>Serializers\<close>, \<open>Msg_Generator\<close>: \<open>genpy/src/genpy/base.py\<close>,
    \<open>generate_struct.py\<close>, \<open>generate_numpy.py\<close>, \<open>generator.py\<close> and the exit codes of \<open>genpy_main.py\<close>.
    A Python generator is an action that returns the list of its lines; the module-level variables
    (counter, serial context and its stack, patterns in use) are fields of \<open>gen_state\<close>.
  \<^item> \<open>Rostime\<close>: \<open>genpy/src/genpy/rostime.py\<close>, integer and float arithmetic of \<open>Time\<close> and \<open>Duration\<close>.
  \<^item> \<open>Messages\<close>: the type checker and the filling of messages, \<open>genpy/src/genpy/message.py\<close>.
  \<^item> \<open>Dynamic\<close>, \<open>Dynamic_Module\<close>: \<open>genpy/src/genpy/dynamic.py\<close> up to the text of the module.
  \<^item> \<open>Gencpp\<close>: the helpers of the C++ generator, \<open>gencpp/src/gencpp/__init__.py\<close>.
  \<^item> \<open>Indented_Writer\<close>, \<open>Genlisp\<close>: the writer and the generator of \<open>genlisp/src/genlisp/generate.py\<close>. A \<open>write_\<close>
    function is an action on the record \<open>writer\<close>; the lines it writes in a block stand in a list. \<open>Lisp_Names\<close>,
    \<open>Genlisp_Forms\<close>, \<open>Genlisp_Text\<close>, \<open>Genlisp_Returns\<close> and \<open>Genlisp_Files\<close> hold what is shown about it.
  \<^item> \<open>Geneus\<close>: \<open>geneus/src/geneus/generate.py\<close>, with the same writer; \<open>Geneus_Forms\<close> and \<open>Geneus_Files\<close> hold what is
    shown about it. \<open>Geneus_Main\<close>: the packages and the manifest of \<open>geneus_main.py\<close>.
    \<open>Siblings\<close>: the loads of the other messages of the package, which the EusLisp and the Node.js generator do between
    the dependencies of a message and its file; they leave the md5 sum and the full text as they are.
  \<^item> \<open>Gennodejs\<close>: \<open>gennodejs/src/gennodejs/generate.py\<close>, again with the same writer; \<open>Gennodejs_Sizes\<close>, \<open>Gennodejs_Text\<close> and
    \<open>Gennodejs_Files\<close> hold what is shown about it.
  \<^item> \<open>Graph_Names\<close>: the graph names of \<open>ros/roslib/src/roslib/names.py\<close>.
  \<^item> \<open>Dependency_Tracker\<close>, \<open>Build_Queue\<close>: \<open>ros/rosmake/src/rosmake/parallel_build.py\<close>. The threads are
    program counters and \<open>step\<close> interleaves them in every order. A thread whose build raises is one that takes no
    further step.
  \<^item> \<open>Package_Flags\<close>: \<open>ros/rosmake/src/rosmake/package_stats.py\<close>. The answers of \<open>rospkg\<close> are an argument, the record
    \<open>rospkg\<close>: a package it does not know is \<open>ResourceNotFound\<close>, a manifest that cannot be parsed \<open>InvalidManifest\<close>.
  \<^item> \<open>Rosmake\<close>: \<open>ros/rosmake/src/rosmake/engine.py\<close> and \<open>gcc_output_parse.py\<close>. The run of \<open>make\<close> and the writing of
    its log are arguments, with the exceptions they raise. \<open>make_build_list\<close> starts where \<open>main\<close> computes the list of
    packages; before, it asks \<open>can_build\<close> for each of them and does not use the answers, which fills the caches of
    the flag tracker or raises what \<open>rospkg\<close> raises; this is left out.
  \<^item> \<open>Catkin_Arguments\<close>, \<open>Catkin_Builder\<close>, \<open>Catkin_Workspace\<close>: \<open>catkin/python/catkin/builder.py\<close>, that is its command
    line, the build of one package, and the build of a workspace. The state is the disk, a map from paths, with
    the list of all processes that were run, \<open>gcc\<close> and \<open>dpkg-architecture\<close> included; the commands are functions on the disk.
    \<open>Catkin_Builds\<close> has the properties.
  \<^item> \<open>Catkin_Environment\<close>: \<open>catkin/python/catkin/environment_cache.py\<close>, with an interpreter for the lines it writes.
    \<open>Catkin_Find\<close>: \<open>workspace.py\<close> and \<open>find_in_workspaces.py\<close> beside it, for source spaces that \<open>find_packages\<close> can read.
  \<^item> \<open>Process_Monitor\<close>, \<open>Process_Shutdown\<close>: \<open>ros/rosunit/src/rosunit/pmon.py\<close>. The monitor thread, its ten killers
    and the clients, which register, start and unregister processes, are the actions of one system; the poll of a process
    and the test for the shutdown after it are two steps. \<open>Process_Shutdown\<close> has the invariant and the properties.
  \<^item> This theory: the properties that cross the loader, the md5 sum, the full text and its way back.

  \<^bold>\<open>Interfaces.\<close> \<open>naming\<close> (joining and splitting resource names), \<open>registry\<close> (what a context finds
  after a registration), \<open>registered_specs\<close> (a property of specifications that loading keeps), \<open>integer_view\<close> (times as nanoseconds), \<open>line_generator\<close> (a generator leaves
  the written files alone), \<open>cache\<close> (the two caches of the dependency tracker), \<open>remembering\<close> (the two dictionaries of the search in
  workspaces) and \<open>blacklist\<close> (the two
  registers of the flag tracker) are locales, interpreted on the operations of the model in the
  theory that provides them.

  \<^bold>\<open>What is shown.\<close>

  \<^item> Loading: which specification a text gives, which exceptions a refused text raises and that it
    leaves the context alone; that loading the dependencies keeps the invariant \<open>dinv\<close> of a context
    (every recorded type is registered, its dependencies are recorded too, no type contains
    itself), ends when the files can be ranked, and never accepts a recursive message.
  \<^item> Identity: the md5 sum exists after loading, and so does the full text, that of a service apart; comments do not
    change the md5 sum, and the full text gives back the specification of every type it was made from.
  \<^item> Generation: flattening yields the leaves of a message, the fields are cut into pieces that
    cover each field once, the shortened struct patterns mean what the long ones do (a pattern with
    a count of two adjacent nines apart), the variable context is balanced, no field has the name of
    a reserved word, and the exit code tells whether a file failed.
  \<^item> C++: the escaped definition is a string literal for the definition, and the check for a fixed length
    looks at the nested messages at every depth.
  \<^item> Lisp: the file of a loaded message is always written; all files consist of closed forms, read by
    the function \<open>lisp_scan\<close>, whatever the indentation is; and the definition of a message survives its two escapes.
  \<^item> EusLisp: the run on the file of a message raises nothing and writes a file of closed forms, comments included;
    which text the definition of a service holds (lines are lost); which packages the manifest loads.
  \<^item> Node.js: the run on the file of a message raises nothing and writes it and two indexes; the size that is computed for a message counts an array
    of messages as one message; the stored definition of a message with dependencies is not readable by \<open>genpy\<close>.
  \<^item> Values: times refine the integers (in nanoseconds), their comparison is a linear order, the
    conversion from float seconds is accurate; constants are checked against their width; the type
    checker accepts what the type of a field describes; filling assigns the given fields.
  \<^item> Names: splitting inverts joining, canonical names are canonical, resolved names are global.
  \<^item> Building: the list of packages is in dependency order; the threads build every package once and
    after its dependencies; the build ends, and then it is complete; from which states a build on a list that is in no
    dependency order is abandoned; the result that is recorded is the one that is returned, and what is recorded when
    the build of a package raises; the caches do not change what the tracker answers; the verdict on a package says whether it can be built.
  \<^item> Building with catkin: the arguments are distributed without loss; the packages that are needed are found whatever
    the order of the search is; the loop runs a plan that is stated without it; commands are run only after all
    checks, for the planned packages, in the environment of their predecessor; when cmake is forced, and that
    a failed cmake is repeated. The cached script has the effect of the script it was made from, an empty
    variable apart; the search in the workspaces finds the existing candidates whatever its dictionaries hold.
  \<^item> Processes: the shutdown of the monitor stops the registered processes in every interleaving, the core processes
    last, and it ends. It misses processes that a client unregisters or starts after their stop, and those that are
    restarted after a listener raised, which are shown to stay alive.

  \<^bold>\<open>Bounds.\<close> Recursive functions whose depth depends on the files take the number of nested calls the
  interpreter allows and raise \<open>RecursionError\<close> without a call left, as Python does. That a bound is
  enough is proved: one more than the rank of a message for \<open>load_depends\<close>, one more than the number
  of recorded types for \<open>get_all_depends\<close>, \<open>compute_md5\<close> and \<open>compute_full_text\<close>, more than
  the length of a chain of dependencies for \<open>build_or_recurse\<close>, two more than the rank for the sizes in Node.js. The build queue has no bound: its runs are those
  of \<open>step\<close>, and \<open>build_ends\<close> excludes infinite ones. The search for dependencies in \<open>Catkin_Workspace\<close> ends by a
  measure, whatever \<open>set.pop\<close> returns.

  \<^bold>\<open>Not modelled.\<close> \<open>template_tools.py\<close> drives the \<open>em\<close> engine. The messages, services and md5 tools of
  \<open>roslib\<close> are the deprecated ancestors of \<open>genmsg\<close>. The rest of \<open>catkin\<close>, the test runners of \<open>rosunit\<close>, \<open>rosclean\<close>, \<open>roscreate\<close>,
  \<open>rosboost_cfg\<close> and the rest of \<open>roslib\<close> run processes, or read manifests, the environment and the
  file system through packages that are not in the repository. Of the modelled files, option parsing, logging,
  the terminal, temporary modules and their import, pickling and YAML output are left out. The C++
  libraries, CMake files and documents are outside of the development.
\<close>

section \<open>A package for the examples\<close>

text \<open>A package \<open>m\<close> with one description on disk, and the run of the loader on a message that uses it.\<close>

definition demo_world :: world where
  "demo_world = \<lparr>w_files = [''/m/B.msg'' \<mapsto> ''int32 x''], w_literal = \<lambda>_. None\<rparr>"

definition demo_path :: search_path where
  "demo_path = [''m'' \<mapsto> [''/m'']]"

lemma demo_load:
  obtains ctx0 spec ctx1 where "create_default demo_world = Inr ctx0"
    "load_msg_from_string demo_world ''B b'' ''m/A'' ctx0 = (Inr spec, ctx1)" "spec_deps spec = [''m/B'']"
    "\<exists>ctx2. load_depends 2 demo_world (Msg spec) demo_path ctx1 = (Inr [''m/B''], ctx2)"
proof -
  have "case create_default demo_world of Inl e \<Rightarrow> False | Inr ctx0 \<Rightarrow>
      (case load_msg_from_string demo_world ''B b'' ''m/A'' ctx0 of (Inl e, _) \<Rightarrow> False
       | (Inr spec, ctx1) \<Rightarrow> spec_deps spec = [''m/B''] \<and>
           fst (load_depends 2 demo_world (Msg spec) demo_path ctx1) = Inr [''m/B''])"
    by code_simp
  then obtain ctx0 spec ctx1 where l: "create_default demo_world = Inr ctx0"
    "load_msg_from_string demo_world ''B b'' ''m/A'' ctx0 = (Inr spec, ctx1)" "spec_deps spec = [''m/B'']"
    and two: "fst (load_depends 2 demo_world (Msg spec) demo_path ctx1) = Inr [''m/B'']"
    unfolding run_returns_iff by blast
  show thesis by (rule that [OF l]) (metis two prod.collapse)
qed

lemma demo_in_package: "in_package ''m/A''"
  by (simp add: in_package_def)

section \<open>From a description to its md5 sum\<close>

text \<open>C1: after a description of a package has been read in the default context, a successful
  \<open>load_depends\<close> returns its direct dependencies in the order of the fields and leaves a complete
  context: every type reachable from the description is registered and has its dependencies
  recorded, and no type contains itself.\<close>

theorem load_depends_complete:
  assumes "create_default w = Inr ctx0" and "load_msg_from_string w txt name ctx0 = (Inr spec, ctx1)"
    and "in_package name" and "load_depends k w (Msg spec) sp ctx1 = (Inr ds, ctx2)"
  shows "ds = spec_deps spec \<and> get_depends ctx2 name = Some ds \<and> acyclic (dep_rel ctx2) \<and>
    (\<forall>t. (name, t) \<in> (dep_rel ctx2)\<^sup>+ \<longrightarrow>
       (\<exists>s. get_registered ctx2 t = Inr s \<and> ms_full_name s = t \<and> get_depends ctx2 t = Some (spec_deps s)))"
proof -
  note l = load_first_msg [OF assms(1-3)]
  have st: "dinv ctx2" "ds = spec_deps spec" "get_depends ctx2 name = Some ds"
    using load_msg_depends_step [of k w spec sp ctx1 "Inr ds" ctx2] assms(4) l by auto
  then show ?thesis using dep_reachable [OF st(1)] by (simp add: dinv_def deps_acyclic_def)
qed

theorem load_depends_complete_witness:
  "\<exists>ctx0 spec ctx1 ctx2 s. create_default demo_world = Inr ctx0 \<and>
     load_msg_from_string demo_world ''B b'' ''m/A'' ctx0 = (Inr spec, ctx1) \<and>
     load_depends 2 demo_world (Msg spec) demo_path ctx1 = (Inr [''m/B''], ctx2) \<and>
     get_depends ctx2 ''m/A'' = Some [''m/B''] \<and> get_registered ctx2 ''m/B'' = Inr s"
proof -
  obtain ctx0 spec ctx1 ctx2 where l: "create_default demo_world = Inr ctx0"
    "load_msg_from_string demo_world ''B b'' ''m/A'' ctx0 = (Inr spec, ctx1)"
    "load_depends 2 demo_world (Msg spec) demo_path ctx1 = (Inr [''m/B''], ctx2)" by (metis demo_load)
  note c = load_depends_complete [OF l(1,2) demo_in_package l(3)]
  then have "get_depends ctx2 ''m/A'' = Some [''m/B'']" by blast
  then have "(''m/A'', ''m/B'') \<in> dep_rel ctx2" by (simp add: dep_rel_def)
  then have "\<exists>s. get_registered ctx2 ''m/B'' = Inr s" using c by blast
  then show ?thesis using l c by blast
qed


text \<open>C2: What was read under a name in a package, a message or a service, and whose dependencies were then loaded, gets its md5 sum:
  \<open>compute_md5\<close> does not raise, with more nested calls allowed than there are recorded types. \<open>compute_full_text\<close>
  does not raise either when dependencies are recorded under the name itself, which is so for every message;
  without them, which happens for services only, it raises \<open>KeyError\<close>.\<close>

theorem md5_and_full_text_after_load:
  assumes "create_default w = Inr ctx0" and "read_as w txt name ctx0 spec ctx1"
    and "in_package name" and "load_depends k w spec sp ctx1 = (Inr ds, ctx2)"
    and "card (dom (dependencies ctx2)) < n"
  shows "(\<exists>m. compute_md5 n H ctx2 spec = Inr m) \<and>
    (if get_depends ctx2 name = None then (\<exists>s. spec = Srv s) \<and> compute_full_text n ctx2 spec = Inl (KeyError name)
     else \<exists>t. compute_full_text n ctx2 spec = Inr t)"
  using texts_after_load_any [OF assms] .

theorem md5_and_full_text_after_load_witness:
  "\<exists>ctx0 spec ctx1 ctx2 n m t. create_default demo_world = Inr ctx0 \<and>
     load_msg_from_string demo_world ''B b'' ''m/A'' ctx0 = (Inr spec, ctx1) \<and>
     load_depends 2 demo_world (Msg spec) demo_path ctx1 = (Inr [''m/B''], ctx2) \<and>
     compute_md5 n rev ctx2 (Msg spec) = Inr m \<and> compute_full_text n ctx2 (Msg spec) = Inr t"
proof -
  obtain ctx0 spec ctx1 ctx2 where l: "create_default demo_world = Inr ctx0"
    "load_msg_from_string demo_world ''B b'' ''m/A'' ctx0 = (Inr spec, ctx1)"
    "load_depends 2 demo_world (Msg spec) demo_path ctx1 = (Inr [''m/B''], ctx2)" by (metis demo_load)
  have r: "read_as demo_world ''B b'' ''m/A'' ctx0 (Msg spec) ctx1" using l(2) by simp
  from md5_and_full_text_after_load [OF l(1) r demo_in_package l(3) lessI, of rev] l show ?thesis
    by (auto split: if_splits)
qed

text \<open>C3: The full text of a message of a package holds its specifications: after a message was read and its
  dependencies were loaded, cutting the text that \<open>compute_full_text\<close> returns gives back, without
  any file, the specification of the message and those of exactly the types it depends on, under
  their names (as long as the names have no white space and the text does not mention the old
  location of \<open>Header\<close>, which is rewritten).\<close>

theorem full_text_gives_specs:
  assumes "create_default w = Inr ctx0" and "load_msg_from_string w txt name ctx0 = (Inr spec, ctx1)"
    and "in_package name" and "load_depends k w (Msg spec) sp ctx1 = (Inr ds, ctx2)"
    and "compute_full_text n ctx2 (Msg spec) = Inr full" and "\<not> contains ''roslib/Header'' full"
    and "\<forall>d. (name, d) \<in> (dep_rel ctx2)\<^sup>+ \<longrightarrow> no_space d"
  shows "\<exists>specs. dynamic_specs w name full = Inr specs \<and> map_of specs name = Some spec \<and>
    (\<forall>d. (name, d) \<in> (dep_rel ctx2)\<^sup>+ \<longrightarrow> (\<exists>s. get_registered ctx2 d = Inr s \<and> map_of specs d = Some s)) \<and>
    fst ` set specs = insert name {d. (name, d) \<in> (dep_rel ctx2)\<^sup>+}"
proof -
  note l = load_first_msg [OF assms(1-3)]
  have st: "dinv ctx2" "get_depends ctx2 name = Some ds"
    using load_msg_depends_step [of k w spec sp ctx1 "Inr ds" ctx2] assms(4) l by auto
  have tx: "ms_text spec = txt" and name: "ms_full_name spec = name"
    using assms(2) by (auto elim: load_msg_from_string_Inr)
  have "all_read w ctx1" using load_all_read [OF default_all_read [OF assms(1)], of "txt" name] assms(2) by simp
  then have ctx2: "all_read w ctx2" using depends_all_read [of w ctx1 spec k sp] load_was_read [OF assms(2)] assms(4) by simp
  obtain ls where ls: "get_all_depends n ctx2 name = Inr ls" "set ls = {d. (name, d) \<in> (dep_rel ctx2)\<^sup>+}"
    using assms(5) get_all_depends_sound [of ctx2 n name] st(1) name
    by (auto simp: compute_full_text_def any_full_name_def rbind_eq_Inr dinv_def)
  let ?sp = "\<lambda>d. projr (get_registered ctx2 d)"
  have reg: "get_registered ctx2 d = Inr (?sp d)" "no_space d" "was_read w (?sp d)" "ms_full_name (?sp d) = d" if "d \<in> set ls" for d
    using dep_reachable [OF st(1), of name d] that ls(2) assms(7) ctx2 by (auto simp: all_registered_def)
  have "rmap (\<lambda>d. rbind (get_registered ctx2 d) (\<lambda>s.
      Inr (full_text_sep @ ''MSG: '' @ d @ [newline] @ ms_text s @ [newline]))) (unique_deps ls) =
    Inr (map (\<lambda>d. full_text_sep @ ''MSG: '' @ d @ [newline] @ ms_text (?sp d) @ [newline]) (unique_deps ls))"
    by (rule rmap_eq_map, subst reg(1)) simp_all
  then have "full = slice_to (py_join dynamic_sep (ms_text spec # map (dep_part ?sp) (unique_deps ls)) @ [newline]) (- 1)"
    using assms(5) ls(1) name unfolding full_text_join [symmetric]
    by (simp add: compute_full_text_def any_full_name_def)
  then have full: "full = py_join dynamic_sep (ms_text spec # map (dep_part ?sp) (unique_deps ls))"
    using slice_to_neg [of 1] by simp
  have "py_split dynamic_sep full = ms_text spec # map (dep_part ?sp) (unique_deps ls)"
    unfolding full using no_sep read_no_eqs [OF assms(2)] dep_part_no_sep [of _ w ?sp] reg tx by (intro split_full_text) auto
  then have splits: "py_split dynamic_sep (py_replace ''roslib/Header'' ''std_msgs/Header'' full) =
      txt # map (dep_part ?sp) (unique_deps ls)" using py_replace_absent [OF assms(6)] tx by simp
  obtain specs c' where sc: "dynamic_deps w [(name, spec)] (map (dep_part ?sp) (unique_deps ls)) ctx1 = (Inr specs, c')"
    "\<forall>x. map_of specs x = (if x \<in> set ls then Some (?sp x) else map_of [(name, spec)] x)"
    using dynamic_deps_of_parts [of "unique_deps ls" w ?sp "[(name, spec)]" ctx1] reg by auto
  obtain p b where "package_resource_name name = Inr (p, b)" by (rule load_msg_from_string_Inr [OF assms(2)])
  then have run: "dynamic_specs w name full = Inr specs"
    using assms(1,2) sc(1) by (simp add: dynamic_specs_def splits Let_def sbind_def)
  have "name \<notin> set ls" using st(1) ls(2) by (auto simp: dinv_def deps_acyclic_def acyclic_def)
  moreover have "fst ` set specs = insert name (set ls)"
    unfolding dom_map_of_conv_image_fst [symmetric] using sc(2) by (auto simp: dom_def split: if_splits)
  ultimately show ?thesis using run sc(2) reg(1) ls(2) by auto
qed

theorem full_text_gives_specs_witness:
  "\<exists>ctx0 spec ctx1 ctx2 full specs. create_default demo_world = Inr ctx0 \<and>
     load_msg_from_string demo_world ''B b'' ''m/A'' ctx0 = (Inr spec, ctx1) \<and>
     load_depends 2 demo_world (Msg spec) demo_path ctx1 = (Inr [''m/B''], ctx2) \<and>
     compute_full_text 2 ctx2 (Msg spec) = Inr full \<and> dynamic_specs demo_world ''m/A'' full = Inr specs \<and>
     fst ` set specs = {''m/A'', ''m/B''}"
proof -
  have "case create_default demo_world of Inl e \<Rightarrow> False | Inr ctx0 \<Rightarrow>
      (case load_msg_from_string demo_world ''B b'' ''m/A'' ctx0 of (Inl e, _) \<Rightarrow> False
       | (Inr spec, ctx1) \<Rightarrow> (case load_depends 2 demo_world (Msg spec) demo_path ctx1 of (Inl e, _) \<Rightarrow> False
       | (Inr ds, ctx2) \<Rightarrow> ds = [''m/B''] \<and> get_all_depends 2 ctx2 ''m/A'' = Inr [''m/B''] \<and>
           (case compute_full_text 2 ctx2 (Msg spec) of Inl e \<Rightarrow> False
            | Inr full \<Rightarrow> \<not> contains ''roslib/Header'' full)))"
    by code_simp
  then obtain ctx0 spec ctx1 ctx2 full where l: "create_default demo_world = Inr ctx0"
    "load_msg_from_string demo_world ''B b'' ''m/A'' ctx0 = (Inr spec, ctx1)"
    "load_depends 2 demo_world (Msg spec) demo_path ctx1 = (Inr [''m/B''], ctx2)"
    "get_all_depends 2 ctx2 ''m/A'' = Inr [''m/B'']"
    "compute_full_text 2 ctx2 (Msg spec) = Inr full" "\<not> contains ''roslib/Header'' full"
    unfolding run_returns_iff by blast
  have "dinv ctx2"
    using load_msg_depends_step [of 2 demo_world spec demo_path ctx1] load_first_msg [OF l(1,2) demo_in_package] l(3) by auto
  then have r: "{d. (''m/A'', d) \<in> (dep_rel ctx2)\<^sup>+} = {''m/B''}"
    using get_all_depends_sound [OF _ l(4)] by (simp add: dinv_def)
  have "no_space ''m/B''" by code_simp
  then have "\<forall>d \<in> {d. (''m/A'', d) \<in> (dep_rel ctx2)\<^sup>+}. no_space d" unfolding r by (simp only: ball_simps)
  then have "\<forall>d. (''m/A'', d) \<in> (dep_rel ctx2)\<^sup>+ \<longrightarrow> no_space d" by (simp only: Ball_def mem_Collect_eq)
  from full_text_gives_specs [OF l(1,2) demo_in_package l(3,5,6) this] obtain specs where
    "dynamic_specs demo_world ''m/A'' full = Inr specs" "fst ` set specs = {''m/A'', ''m/B''}" unfolding r by (elim exE conjE)
  with l(1-3,5) show ?thesis by (intro exI conjI)
qed


text \<open>C12: a message with a field of its own type is never
  accepted: \<open>load_depends\<close> has no cycle check of its own and ends in an exception.\<close>

theorem recursive_message_never_loads:
  assumes "create_default w = Inr ctx0" and "load_msg_from_string w txt name ctx0 = (Inr spec, ctx1)"
    and "in_package name" and "name \<in> set (spec_deps spec)"
  shows "\<exists>e ctx2. load_depends k w (Msg spec) sp ctx1 = (Inl e, ctx2)"
proof (rule ccontr)
  assume "\<not> ?thesis"
  then obtain ds ctx2 where run: "load_msg_depends k w spec sp ctx1 = (Inr ds, ctx2)"
    by (metis load_depends.simps(1) sum.exhaust surj_pair)
  note l = load_first_msg [OF assms(1-3)]
  have "dinv ctx2" "get_depends ctx2 name = Some (spec_deps spec)"
    using load_msg_depends_step [OF run] l by auto
  then have "acyclic (dep_rel ctx2)" "(name, name) \<in> dep_rel ctx2"
    using assms(4) by (auto simp: dinv_def deps_acyclic_def dep_rel_def)
  then show False by (auto simp: acyclic_def)
qed

theorem recursive_message_never_loads_witness:
  "\<exists>ctx0 spec ctx1 e ctx2. create_default demo_world = Inr ctx0 \<and>
     load_msg_from_string demo_world ''A next'' ''m/A'' ctx0 = (Inr spec, ctx1) \<and>
     load_depends 9 demo_world (Msg spec) demo_path ctx1 = (Inl e, ctx2)"
proof -
  have "case create_default demo_world of Inl e \<Rightarrow> False | Inr ctx0 \<Rightarrow>
      (case load_msg_from_string demo_world ''A next'' ''m/A'' ctx0 of (Inl e, _) \<Rightarrow> False
       | (Inr spec, ctx1) \<Rightarrow> ''m/A'' \<in> set (spec_deps spec))"
    by code_simp
  then obtain ctx0 spec ctx1 where l: "create_default demo_world = Inr ctx0"
    "load_msg_from_string demo_world ''A next'' ''m/A'' ctx0 = (Inr spec, ctx1)" "''m/A'' \<in> set (spec_deps spec)"
    unfolding run_returns_iff by blast
  from recursive_message_never_loads [OF l(1,2) demo_in_package l(3)] l show ?thesis by blast
qed


text \<open>C11: when the descriptions can be ranked so that each ranks above its dependencies,
  \<open>load_depends\<close> ends with a result or a loader exception, never a \<open>RecursionError\<close>, with one
  more nested call allowed than the rank of the message.\<close>

theorem load_depends_ends:
  assumes "create_default w = Inr ctx0" and "load_msg_from_string w txt name ctx0 = (Inr spec, ctx1)"
    and "in_package name" and "world_ranked rank w sp" and "deps_below rank name spec" and "rank name < k"
  shows "fst (load_depends k w (Msg spec) sp ctx1) \<noteq> Inl RecursionError"
proof -
  note l = load_first_msg [OF assms(1-3)]
  obtain j where k: "k = Suc j" using assms(6) by (cases k) auto
  obtain res ctx2 where run: "load_msg_depends (Suc j) w spec sp ctx1 = (res, ctx2)" by fastforce
  have "ctx_ranked rank ctx1" using l(5) assms(5) by (auto simp: ctx_ranked_def)
  moreover have "\<forall>d \<in> set (spec_deps spec). rank d < j"
    using assms(5,6) k by (fastforce simp: deps_below_def)
  ultimately have "res \<noteq> Inl RecursionError"
    using load_msg_depends_terminates [OF assms(4) run] l by simp
  then show ?thesis using run by (simp add: k del: load_msg_depends.simps)
qed

lemma demo_loaded:
  assumes "load_msg_by_type demo_world r demo_path c = (Inr s, c')"
  shows "ms_types s = [''int32''] \<and> msgspec_ok s"
proof -
  from assms obtain f body t d where body: "w_files demo_world f = Some body"
    and run: "load_msg_from_string demo_world body t c = (Inr s, d)"
    by (auto simp: load_msg_by_type_def load_msg_from_file_def Let_def sbind_eq_Inr split: prod.splits)
  from body have "body = ''int32 x''" by (auto simp: demo_world_def split: if_splits)
  moreover from run obtain p' where
    "rfoldl (load_line demo_world p') ([], [], []) (split_on newline body) = Inr (ms_types s, ms_names s, ms_constants s)"
    by (rule load_msg_from_string_Inr) blast
  moreover have "load_line demo_world q ([], [], []) ''int32 x'' = Inr ([''int32''], [''x''], [])" for q
    by (simp add: load_line_def load_field_line_def strip_comments_def line_words_def strip_def
      strip_by_def is_space_def is_valid_msg_field_name_def is_legal_resource_base_name_def
      match_first_rest_def is_ascii_alpha_def is_word_char_def is_digit_def is_valid_msg_type_def
      is_legal_resource_name_def startswith_def HEADER_def slice_from_def slice_idx_def builtin_int32)
  ultimately have "ms_types s = [''int32'']" by simp
  moreover have "msgspec_ok s" by (rule load_msg_from_string_Inr [OF run])
  ultimately show ?thesis by simp
qed

lemma demo_ranked: "world_ranked (\<lambda>t. if t = ''m/A'' then 1 else 0) demo_world demo_path"
  unfolding world_ranked_def
proof (intro allI impI)
  fix r s c c'
  assume r: "in_package r" and l: "load_msg_by_type demo_world r demo_path c = (Inr s, c')"
  from demo_loaded [OF l] have "spec_deps s = []"
    by (simp add: spec_deps_def field_dep_def resolve_type_def builtin_int32)
  then show "deps_below (\<lambda>t. if t = ''m/A'' then 1 else 0) r s" by (simp add: deps_below_def)
qed

theorem load_depends_ends_witness:
  "\<exists>ctx0 spec ctx1. create_default demo_world = Inr ctx0 \<and>
     load_msg_from_string demo_world ''B b'' ''m/A'' ctx0 = (Inr spec, ctx1) \<and>
     fst (load_depends 2 demo_world (Msg spec) demo_path ctx1) \<noteq> Inl RecursionError"
proof -
  obtain ctx0 spec ctx1 where l: "create_default demo_world = Inr ctx0"
    "load_msg_from_string demo_world ''B b'' ''m/A'' ctx0 = (Inr spec, ctx1)" "spec_deps spec = [''m/B'']"
    by (metis demo_load)
  have "deps_below (\<lambda>t. if t = ''m/A'' then 1 else 0) ''m/A'' spec" by (simp add: deps_below_def l(3))
  from load_depends_ends [OF l(1,2) demo_in_package demo_ranked this, of 2] l show ?thesis by auto
qed


text \<open>\<open>get_all_depends\<close> in a context that satisfies the invariant of the loader: for a type
  whose dependencies are recorded it returns with at most one nested call per recorded type,
  and lists exactly the types reachable from it.\<close>

theorem get_all_depends_reachable:
  assumes "dinv ctx" and "get_depends ctx t \<noteq> None" and "card (dom (dependencies ctx)) < k"
  shows "\<exists>l. get_all_depends k ctx t = Inr l \<and> set l = {d. (t, d) \<in> (dep_rel ctx)\<^sup>+}"
  using assms by (rule get_all_depends_total)

theorem get_all_depends_reachable_witness:
  "\<exists>ctx k l. dinv ctx \<and> get_all_depends k ctx ''m/A'' = Inr l \<and> ''m/B'' \<in> set l"
proof -
  obtain ctx0 spec ctx1 ctx2 where l: "create_default demo_world = Inr ctx0"
    "load_msg_from_string demo_world ''B b'' ''m/A'' ctx0 = (Inr spec, ctx1)"
    "load_msg_depends 2 demo_world spec demo_path ctx1 = (Inr [''m/B''], ctx2)"
    by (metis demo_load load_depends.simps(1))
  have st: "dinv ctx2" "get_depends ctx2 ''m/A'' = Some [''m/B'']"
    using load_msg_depends_step [OF l(3)] load_first_msg [OF l(1,2) demo_in_package] by auto
  then have "(''m/A'', ''m/B'') \<in> (dep_rel ctx2)\<^sup>+" by (intro r_into_trancl) (simp add: dep_rel_def)
  moreover have "get_depends ctx2 ''m/A'' \<noteq> None" using st by simp
  ultimately show ?thesis using get_all_depends_reachable [OF st(1) _ lessI, of "''m/A''"] st(1) by blast
qed


section \<open>Fixed lengths in C++\<close>

text \<open>C13: \<open>is_fixed_length\<close> of the C++ generator ends when what is nested in a message ranks below it
  (with more nested calls allowed than the rank of the message), and what it returns is right: it is false
  exactly if the message, or a message nested in it at any depth, has a string or an array without a
  length. It does not depend on the order in which the set of types is visited.\<close>

theorem is_fixed_length_correct:
  assumes "\<And>S. finite S \<Longrightarrow> set (order S) = S" and "\<And>s s'. nested w sp s s' \<Longrightarrow> rank s' < (rank s :: nat)"
    and "rank spec < k"
  shows "fst (is_fixed_length k order w sp spec c) \<noteq> Inl RecursionError \<and>
    (\<forall>b c'. is_fixed_length k order w sp spec c = (Inr b, c') \<longrightarrow> (b \<longleftrightarrow> \<not> variable_length w sp spec))"
  using is_fixed_length_ends [of order w sp rank, OF assms] is_fixed_length_meaning [of order, OF assms(1)] by blast

lemma demo_builtin:
  assumes "load_msg_by_type demo_world t demo_path c = (Inr s, c')" and "f \<in> set (ms_parsed_fields s)"
  shows "f_is_builtin f"
proof -
  have s: "ms_types s = [''int32'']" "msgspec_ok s" using demo_loaded [OF assms(1)] by simp_all
  then obtain n where "ms_names s = [n]" by (cases "ms_names s") (auto simp: msgspec_ok_def)
  moreover have "rmap (\<lambda>(name, ty). Field name ty) (zip (ms_names s) (ms_types s)) = Inr (ms_parsed_fields s)"
    using s(2) by (simp add: msgspec_ok_def)
  ultimately obtain g where "Field n ''int32'' = Inr g" "ms_parsed_fields s = [g]"
    using s(1) by (auto simp: rbind_eq_Inr)
  then have "Field n ''int32'' = Inr f" using assms(2) by simp
  then show ?thesis by (force simp: Field_def parse_type_def builtin_int32)
qed

lemma demo_not_nested: "nested demo_world demo_path s s' \<Longrightarrow> \<not> nested demo_world demo_path s' s''"
proof
  assume "nested demo_world demo_path s s'" and n: "nested demo_world demo_path s' s''"
  then obtain t c c' where "load_msg_by_type demo_world t demo_path c = (Inr s', c')" by (auto simp: nested_def)
  from demo_builtin [OF this] show False using n by (auto simp: nested_def)
qed

theorem is_fixed_length_correct_witness:
  "\<exists>ctx0 spec ctx1. create_default demo_world = Inr ctx0 \<and>
     load_msg_from_string demo_world ''B[2] b'' ''m/A'' ctx0 = (Inr spec, ctx1) \<and>
     fst (is_fixed_length 2 sorted_list_of_set demo_world demo_path spec ctx1) = Inr True \<and>
     \<not> variable_length demo_world demo_path spec"
proof -
  have "case create_default demo_world of Inl e \<Rightarrow> False | Inr ctx0 \<Rightarrow>
      (case load_msg_from_string demo_world ''B[2] b'' ''m/A'' ctx0 of (Inl e, _) \<Rightarrow> False
       | (Inr spec, ctx1) \<Rightarrow> fst (is_fixed_length 2 sorted_list_of_set demo_world demo_path spec ctx1) = Inr True)"
    by code_simp
  then obtain ctx0 spec ctx1 where l: "create_default demo_world = Inr ctx0"
    "load_msg_from_string demo_world ''B[2] b'' ''m/A'' ctx0 = (Inr spec, ctx1)"
    "fst (is_fixed_length 2 sorted_list_of_set demo_world demo_path spec ctx1) = Inr True"
    unfolding run_returns_iff by blast
  let ?rank = "\<lambda>s. if \<exists>t. nested demo_world demo_path s t then 1 else 0 :: nat"
  have rank: "?rank s' < ?rank s" if "nested demo_world demo_path s s'" for s s'
    using that demo_not_nested by auto
  obtain c' where run: "is_fixed_length 2 sorted_list_of_set demo_world demo_path spec ctx1 = (Inr True, c')"
    using l(3) by (metis prod.collapse)
  have "?rank spec < 2" by simp
  then have "\<not> variable_length demo_world demo_path spec"
    using is_fixed_length_correct [of sorted_list_of_set demo_world demo_path ?rank spec 2 ctx1] rank run by auto
  with l show ?thesis by (intro exI conjI)
qed

section \<open>Sizes and definitions in Node.js\<close>

text \<open>C19: the size that the Node.js generator computes for a message. The computation ends when nested messages
  rank below the message. It gives no size exactly if the message, or one nested in it, has a string
  or an array without a length. Otherwise it counts a field with an array of messages as one message: the
  size is that on the wire when there is no such field at any depth, and not in general.\<close>

theorem js_fixed_size_counts_once:
  assumes "\<And>s s'. js_nested w sp s s' \<Longrightarrow> rank s' < (rank s :: nat)" and "Suc (rank spec) < k"
  shows "get_message_fixed_size k w sp spec \<noteq> Inl RecursionError \<and>
    (\<forall>r. get_message_fixed_size k w sp spec = Inr r \<longrightarrow> (r = None \<longleftrightarrow> js_variable w sp spec) \<and>
      (\<forall>n. r = Some n \<longrightarrow> js_size (\<lambda>_. 1) w sp spec n \<and>
        (\<not> js_message_array w sp spec \<longrightarrow> js_size wire_count w sp spec n)))"
  using get_message_fixed_size_ends [of w sp rank spec k, OF assms] get_message_fixed_size_None [of k w sp spec]
    get_message_fixed_size_once [of k w sp spec] js_size_elements by blast

lemma demo_js_not_nested: "js_nested demo_world demo_path s s' \<Longrightarrow> \<not> js_nested demo_world demo_path s' s''"
proof
  assume "js_nested demo_world demo_path s s'" and n: "js_nested demo_world demo_path s' s''"
  then obtain t c where "fst (load_msg_by_type demo_world t demo_path c) = Inr s'"
    by (auto simp: js_nested_def js_load_def rbind_eq_Inr)
  then obtain c' where "load_msg_by_type demo_world t demo_path c = (Inr s', c')" by (metis prod.collapse)
  from demo_builtin [OF this] show False using n by (auto simp: js_nested_def)
qed

theorem js_fixed_size_counts_once_witness:
  "\<exists>ctx0 spec ctx1. create_default demo_world = Inr ctx0 \<and>
     load_msg_from_string demo_world ''B[2] b'' ''m/A'' ctx0 = (Inr spec, ctx1) \<and>
     get_message_fixed_size 3 demo_world demo_path spec = Inr (Some 4) \<and>
     js_size (\<lambda>_. 1) demo_world demo_path spec 4 \<and> js_size wire_count demo_world demo_path spec 8"
proof -
  let ?view = "\<lambda>f. (f_is_builtin f, f_is_array f, f_array_len f, f_base_type f)"
  have "case create_default demo_world of Inl e \<Rightarrow> False | Inr ctx0 \<Rightarrow>
      (case load_msg_from_string demo_world ''B[2] b'' ''m/A'' ctx0 of (Inl e, _) \<Rightarrow> False
       | (Inr spec, ctx1) \<Rightarrow> get_message_fixed_size 3 demo_world demo_path spec = Inr (Some 4) \<and>
           map ?view (ms_parsed_fields spec) = [(False, True, Some 2, ''m/B'')])"
    and "case js_load demo_world demo_path ''m/B'' of Inl e \<Rightarrow> False
      | Inr s \<Rightarrow> map ?view (ms_parsed_fields s) = [(True, False, None, ''int32'')]"
    by code_simp+
  then obtain ctx0 spec ctx1 b where l: "create_default demo_world = Inr ctx0"
    "load_msg_from_string demo_world ''B[2] b'' ''m/A'' ctx0 = (Inr spec, ctx1)"
    "get_message_fixed_size 3 demo_world demo_path spec = Inr (Some 4)"
    and f: "map ?view (ms_parsed_fields spec) = [(False, True, Some 2, ''m/B'')]"
    and b: "js_load demo_world demo_path ''m/B'' = Inr b" "map ?view (ms_parsed_fields b) = [(True, False, None, ''int32'')]"
    unfolding run_returns_iff by (auto split: sum.splits)
  from b(2) have "js_size wire_count demo_world demo_path b (sum_list [4])"
    by (intro js_size.intros) (auto simp: map_eq_Cons_conv js_builtin_size_def js_variable_field_def get_type_size_def)
  then have "js_size wire_count demo_world demo_path spec (sum_list [8])"
    using f b(1) by (intro js_size.intros) (auto simp: map_eq_Cons_conv wire_count_def)
  moreover have "js_size (\<lambda>_. 1) demo_world demo_path spec 4"
  proof -
    let ?rank = "\<lambda>s. if \<exists>t. js_nested demo_world demo_path s t then 1 else 0 :: nat"
    have rank: "?rank s' < ?rank s" if "js_nested demo_world demo_path s s'" for s s'
      using that demo_js_not_nested by auto
    have "Suc (?rank spec) < 3" by simp
    from js_fixed_size_counts_once [of demo_world demo_path ?rank spec 3, OF rank this] show ?thesis using l(3) by blast
  qed
  ultimately show ?thesis using l by auto
qed

text \<open>C20: the definition that the Node.js generator stores for a message of a package with dependencies is not one that \<open>genpy\<close> can
  read: the method returns the lines of the full text with the indentation of the code before each, so
  the separators are not found, and \<open>generate_dynamic\<close> raises. The full text must have no backtick, backslash
  or dollar sign, which the generator does not escape and which would change the template literal itself, and must not
  mention the old location of \<open>Header\<close>, which is rewritten.\<close>

theorem js_definition_unreadable:
  assumes "create_default w = Inr ctx0" and "load_msg_from_string w txt name ctx0 = (Inr (ns_spec s), ctx1)"
    and "in_package name" and "load_depends k w (Msg (ns_spec s)) sp ctx1 = (Inr ds, ctx2)" and "ds \<noteq> []"
    and "compute_full_text n ctx2 (Msg (ns_spec s)) = Inr full" and "template_safe full"
    and "\<not> contains ''roslib/Header'' (indented_lines full)"
  shows "\<exists>t e. written (js_write_message_definition n ctx2 s) = Inr t \<and> js_template t = Some (indented_lines full) \<and>
    dynamic_specs w name (indented_lines full) = Inl e"
proof -
  note l = load_first_msg [OF assms(1-3)]
  have st: "dinv ctx2" "get_depends ctx2 name = Some ds" "ms_full_name (ns_spec s) = name"
    using load_msg_depends_step [of k w "ns_spec s" sp ctx1 "Inr ds" ctx2] assms(4) l by auto
  obtain ls where ls: "get_all_depends n ctx2 name = Inr ls"
    using assms(6) st(3) by (auto simp: compute_full_text_def any_full_name_def rbind_eq_Inr)
  have "(name, hd ds) \<in> dep_rel ctx2" using st(2) assms(5) by (simp add: dep_rel_def)
  then have "hd ds \<in> set ls" using get_all_depends_sound [OF _ ls] st(1) by (auto simp: dinv_def)
  then have "ls \<noteq> []" by auto
  then have eqs: "eqs \<in> set (split_on newline full)" using full_text_eqs [of n ctx2 "ns_spec s"] ls st(3) assms(6) by simp
  have "py_split dynamic_sep (py_replace ''roslib/Header'' ''std_msgs/Header'' (indented_lines full)) = [indented_lines full]"
    using assms(8) indented_no_sep by (simp add: py_replace_absent py_split_absent)
  then have "\<exists>e. dynamic_specs w name (indented_lines full) = Inl e"
    using indented_not_read [OF eqs, of w name ctx0] assms(1)
    by (auto simp: dynamic_specs_def rbind_def sbind_def split: sum.splits prod.splits)
  then show ?thesis using js_definition_text [OF assms(6,7)] by blast
qed

theorem js_definition_unreadable_witness:
  "\<exists>ctx0 s ctx1 ctx2 full t e. create_default demo_world = Inr ctx0 \<and>
     load_msg_from_string demo_world ''B b'' ''m/A'' ctx0 = (Inr (ns_spec s), ctx1) \<and>
     load_depends 2 demo_world (Msg (ns_spec s)) demo_path ctx1 = (Inr [''m/B''], ctx2) \<and>
     compute_full_text 2 ctx2 (Msg (ns_spec s)) = Inr full \<and>
     written (js_write_message_definition 2 ctx2 s) = Inr t \<and> js_template t = Some (indented_lines full) \<and>
     dynamic_specs demo_world ''m/A'' (indented_lines full) = Inl e"
proof -
  have "case create_default demo_world of Inl e \<Rightarrow> False | Inr ctx0 \<Rightarrow>
      (case load_msg_from_string demo_world ''B b'' ''m/A'' ctx0 of (Inl e, _) \<Rightarrow> False
       | (Inr spec, ctx1) \<Rightarrow> (case load_depends 2 demo_world (Msg spec) demo_path ctx1 of (Inl e, _) \<Rightarrow> False
       | (Inr ds, ctx2) \<Rightarrow> ds = [''m/B''] \<and>
           (case compute_full_text 2 ctx2 (Msg spec) of Inl e \<Rightarrow> False
            | Inr full \<Rightarrow> template_safe full \<and> \<not> contains ''roslib/Header'' (indented_lines full))))"
    by code_simp
  then obtain ctx0 spec ctx1 ctx2 full where l: "create_default demo_world = Inr ctx0"
    "load_msg_from_string demo_world ''B b'' ''m/A'' ctx0 = (Inr spec, ctx1)"
    "load_depends 2 demo_world (Msg spec) demo_path ctx1 = (Inr [''m/B''], ctx2)"
    "compute_full_text 2 ctx2 (Msg spec) = Inr full" "template_safe full" "\<not> contains ''roslib/Header'' (indented_lines full)"
    unfolding run_returns_iff by blast
  define s where "s = \<lparr>ns_spec = spec, actual_name = ''A'', component_type = ''message''\<rparr>"
  have s: "ns_spec s = spec" by (simp add: s_def)
  have d: "[''m/B''] \<noteq> []" by simp
  from js_definition_unreadable [OF l(1) l(2) [folded s] demo_in_package l(3) [folded s] d l(4) [folded s] l(5,6)]
  obtain t e where "written (js_write_message_definition 2 ctx2 s) = Inr t" "js_template t = Some (indented_lines full)"
    "dynamic_specs demo_world ''m/A'' (indented_lines full) = Inl e" by (elim exE conjE)
  with l(1) l(2-4) [folded s] show ?thesis by (intro exI conjI)
qed

end
